(* ===== verification/Prelude.thy ===== *)
theory Prelude
  imports Main "HOL-Library.Word"
begin

section \<open>Prelude: machine types, byte arithmetic, buffers and timers\<close>

text \<open>
  What every component of the firmware shares: the fixed-width types of
  \<open>stdint.h\<close>, the split of a 16- or 32-bit value into bytes and back, copying into a
  buffer at an offset, and the wrap-around comparison of millisecond ticks that the
  sources write as \<open>(uint32_t)(now - deadline) < 0x80000000U\<close>.  The collections
  \<open>byte_simps\<close>, \<open>buf_simps\<close> and \<open>tick_simps\<close> gather the rewrite rules the
  component proofs use.
\<close>

unbundle bit_operations_syntax

named_theorems byte_simps "splitting and joining bytes"
named_theorems buf_simps "buffers as lists"
named_theorems tick_simps "tick arithmetic"

type_synonym u8 = "8 word"
type_synonym u16 = "16 word"
type_synonym u32 = "32 word"
type_synonym u64 = "64 word"

text \<open>A CAN frame payload: eight bytes.\<close>

type_synonym frame = "u8 list"

subsection \<open>Bytes of wider integers\<close>

definition hi8 :: "u16 \<Rightarrow> u8" where
  "hi8 w = ucast (drop_bit 8 w)"

definition lo8 :: "u16 \<Rightarrow> u8" where
  "lo8 w = ucast w"

definition be16 :: "u8 \<Rightarrow> u8 \<Rightarrow> u16" where
  "be16 h l = push_bit 8 (ucast h) OR ucast l"

definition byte_of32 :: "nat \<Rightarrow> u32 \<Rightarrow> u8" where
  "byte_of32 n w = ucast (drop_bit (8 * n) w)"

definition be32 :: "u8 \<Rightarrow> u8 \<Rightarrow> u8 \<Rightarrow> u8 \<Rightarrow> u32" where
  "be32 a b c d = push_bit 24 (ucast a) OR push_bit 16 (ucast b) OR push_bit 8 (ucast c) OR ucast d"

lemma be16_hi8_lo8 [byte_simps, simp]: "be16 (hi8 w) (lo8 w) = w"
  unfolding be16_def hi8_def lo8_def
  by (rule bit_word_eqI) (auto simp: bit_simps)

lemma hi8_be16 [byte_simps, simp]: "hi8 (be16 h l) = h"
  unfolding be16_def hi8_def
  by (rule bit_word_eqI) (auto simp: bit_simps dest: bit_imp_le_length)

lemma lo8_be16 [byte_simps, simp]: "lo8 (be16 h l) = l"
  unfolding be16_def lo8_def
  by (rule bit_word_eqI) (auto simp: bit_simps dest: bit_imp_le_length)

lemma be32_bytes [byte_simps, simp]:
  "be32 (byte_of32 3 w) (byte_of32 2 w) (byte_of32 1 w) (byte_of32 0 w) = w"
proof (rule bit_word_eqI)
  fix n assume "n < LENGTH(32)"
  then show "bit (be32 (byte_of32 3 w) (byte_of32 2 w) (byte_of32 1 w) (byte_of32 0 w)) n \<longleftrightarrow> bit w n"
    unfolding be32_def byte_of32_def
    by (cases "n < 8"; cases "n < 16"; cases "n < 24") (auto simp: bit_simps)
qed

lemma be16_inject: "be16 a b = be16 c d \<longleftrightarrow> a = c \<and> b = d"
  by (metis hi8_be16 lo8_be16)

lemma unat_u8_le: "unat (w :: u8) \<le> 255"
  using unsigned_less [of w, where ?'a = nat] by simp

lemma unat_u16_le: "unat (w :: u16) \<le> 65535"
  using unsigned_less [of w, where ?'a = nat] by simp

lemma unat_u32_less: "unat (w :: u32) < 2 ^ 32"
  using unsigned_less [of w, where ?'a = nat] by simp

lemma unat_u16_u32 [byte_simps, simp]: "unat (ucast (w :: u16) :: u32) = unat w"
  using unat_u16_le [of w] by (simp add: unsigned_ucast_eq take_bit_eq_mod)

lemma unat_u8_u16 [byte_simps, simp]: "unat (ucast (w :: u8) :: u16) = unat w"
  using unat_u8_le [of w] by (simp add: unsigned_ucast_eq take_bit_eq_mod)

lemma unat_u8_u32 [byte_simps, simp]: "unat (ucast (w :: u8) :: u32) = unat w"
  using unat_u8_le [of w] by (simp add: unsigned_ucast_eq take_bit_eq_mod)

lemma unat_u16_u8 [byte_simps]: "unat (ucast (w :: u16) :: u8) = unat w mod 256"
  by (simp add: unsigned_ucast_eq take_bit_eq_mod)

lemma and_0F: "w AND 0x0F = take_bit 4 w" for w :: "'a::len word"
  by (simp add: take_bit_eq_mask mask_numeral)

lemma unat_and_0F: "unat (w AND 0x0F) = unat w mod 16" for w :: u8
  by (simp add: and_0F unsigned_take_bit_eq take_bit_eq_mod unat_mod)

lemma and_0F_of_nat: "unat w = n mod 16 \<Longrightarrow> w AND 0x0F = of_nat (n mod 16)" for w :: u8
  by (rule word_unat_eq_iff [THEN iffD2]) (simp add: unat_and_0F unat_of_nat)

text \<open>A value below \<open>2^n\<close> has no bits from \<open>n\<close> on.\<close>

lemma take_bit_small: "unat w < 2 ^ n \<Longrightarrow> take_bit n w = w" for w :: "'a::len word"
  by (rule word_unat_eq_iff [THEN iffD2]) (simp only: unsigned_take_bit_eq take_bit_nat_eq_self)

lemma bit_small: "unat w < 2 ^ n \<Longrightarrow> n \<le> m \<Longrightarrow> \<not> bit w m" for w :: "'a::len word"
  by (metis bit_take_bit_iff not_less take_bit_small)

subsection \<open>Buffers\<close>

text \<open>\<open>memcpy(&buf[off], bs, length bs)\<close>; the callers' lemmas show the range is inside
  the buffer.\<close>

definition buf_write :: "'a list \<Rightarrow> nat \<Rightarrow> 'a list \<Rightarrow> 'a list" where
  "buf_write buf off bs = take off buf @ bs @ drop (off + length bs) buf"

lemma length_buf_write [buf_simps, simp]:
  "off + length bs \<le> length buf \<Longrightarrow> length (buf_write buf off bs) = length buf"
  by (simp add: buf_write_def)

lemma take_buf_write [buf_simps]:
  "off + length bs \<le> length buf \<Longrightarrow>
    take (off + length bs) (buf_write buf off bs) = take off buf @ bs"
  by (simp add: buf_write_def)

lemma take_buf_write_before [buf_simps]:
  "n \<le> off \<Longrightarrow> off + length bs \<le> length buf \<Longrightarrow> take n (buf_write buf off bs) = take n buf"
  by (simp add: buf_write_def min_def)

lemma drop_buf_write_after [buf_simps]:
  "off + length bs \<le> n \<Longrightarrow> off + length bs \<le> length buf \<Longrightarrow>
    drop n (buf_write buf off bs) = drop n buf"
  by (simp add: buf_write_def)

lemma slice_buf_write [buf_simps]:
  "off + length bs \<le> length buf \<Longrightarrow> take (length bs) (drop off (buf_write buf off bs)) = bs"
  by (simp add: buf_write_def)

text \<open>A frame filled up to eight bytes with the padding byte.\<close>

definition pad_to :: "nat \<Rightarrow> 'a \<Rightarrow> 'a list \<Rightarrow> 'a list" where
  "pad_to n p bs = bs @ replicate (n - length bs) p"

lemma length_pad_to [buf_simps, simp]: "length bs \<le> n \<Longrightarrow> length (pad_to n p bs) = n"
  by (simp add: pad_to_def)

lemma take_pad_to [buf_simps]: "n \<le> length bs \<Longrightarrow> take n (pad_to m p bs) = take n bs"
  by (simp add: pad_to_def)

lemma nth_pad_to [buf_simps]: "i < length bs \<Longrightarrow> pad_to m p bs ! i = bs ! i"
  by (simp add: pad_to_def nth_append)

lemma pad_to_Cons: "0 < n \<Longrightarrow> pad_to n p (x # bs) = x # pad_to (n - 1) p bs"
  by (cases n) (simp_all add: pad_to_def)

subsection \<open>Ticks\<close>

text \<open>The tick has reached the deadline, on a 32-bit counter that wraps.\<close>

definition tick_reached :: "u32 \<Rightarrow> u32 \<Rightarrow> bool" where
  "tick_reached now deadline \<longleftrightarrow> now - deadline < 0x80000000"

lemma tick_reached_refl [tick_simps, simp]: "tick_reached t t"
  by (simp add: tick_reached_def)

text \<open>Up to \<open>2^31\<close> ms after the deadline is set, a deadline \<open>d\<close> ms away is reached at
  tick \<open>t + e\<close> exactly when \<open>e\<close> is at least \<open>d\<close>, wherever the counter wraps.\<close>

lemma tick_reached_after [tick_simps]:
  assumes "unat d < 2 ^ 31" and "unat e < 2 ^ 31"
  shows "tick_reached (t + e) (t + d) \<longleftrightarrow> d \<le> e"
proof -
  have diff: "(t + e) - (t + d) = e - d" by simp
  show ?thesis
  proof (cases "d \<le> e")
    case True
    then have "unat (e - d) = unat e - unat d"
      by (rule unat_sub)
    with True assms show ?thesis
      by (simp add: tick_reached_def word_less_nat_alt)
  next
    case False
    then have "unat (e - d) = 2 ^ 32 - (unat d - unat e)"
      by (simp add: unat_sub_if' word_le_nat_alt)
    with False assms show ?thesis
      by (simp add: tick_reached_def word_less_nat_alt word_le_nat_alt)
  qed
qed

end
