(* ===== verification/CanHealth.thy ===== *)
theory CanHealth
  imports Prelude
begin

section \<open>CAN error state and Bus-Off recovery policy\<close>

text \<open>
  \<open>firmware/common/can_health.c\<close>: the mirror of the controller's error counters, the
  error-active / error-passive / Bus-Off state, and the recovery bookkeeping that requests a
  reset after the configured number of consecutive failures.  The module's functions
  operate on the one \<open>CanHealth_t\<close> of the node; the model takes it by value.
\<close>

subsection \<open>State\<close>

definition CAN_HEALTH_PASSIVE_THRESHOLD :: u16 where "CAN_HEALTH_PASSIVE_THRESHOLD = 128"
definition CAN_HEALTH_BUS_OFF_THRESHOLD :: u16 where "CAN_HEALTH_BUS_OFF_THRESHOLD = 256"
definition CAN_HEALTH_MAX_RECOVERY_FAILURES :: u8 where "CAN_HEALTH_MAX_RECOVERY_FAILURES = 3"
definition CAN_HEALTH_ERROR_COUNTER_STEP :: u16 where "CAN_HEALTH_ERROR_COUNTER_STEP = 8"

definition CAN_HEALTH_ERROR_FLAG_STUFF :: u32 where "CAN_HEALTH_ERROR_FLAG_STUFF = 0x08"
definition CAN_HEALTH_ERROR_FLAG_FORM :: u32 where "CAN_HEALTH_ERROR_FLAG_FORM = 0x10"
definition CAN_HEALTH_ERROR_FLAG_ACK :: u32 where "CAN_HEALTH_ERROR_FLAG_ACK = 0x20"
definition CAN_HEALTH_ERROR_FLAG_BIT_RECESSIVE :: u32 where "CAN_HEALTH_ERROR_FLAG_BIT_RECESSIVE = 0x40"
definition CAN_HEALTH_ERROR_FLAG_BIT_DOMINANT :: u32 where "CAN_HEALTH_ERROR_FLAG_BIT_DOMINANT = 0x80"
definition CAN_HEALTH_ERROR_FLAG_CRC :: u32 where "CAN_HEALTH_ERROR_FLAG_CRC = 0x100"

text \<open>The C enumeration passed as a kind can hold any integer; \<open>ERROR_UNKNOWN\<close> stands for a
  value at or past \<open>CAN_HEALTH_ERROR_KIND_COUNT\<close>.\<close>

datatype CanHealthErrorKind_t =
    CAN_HEALTH_ERROR_BIT | CAN_HEALTH_ERROR_STUFF | CAN_HEALTH_ERROR_ACK
  | CAN_HEALTH_ERROR_CRC | CAN_HEALTH_ERROR_FORM | CAN_HEALTH_ERROR_OTHER
  | CAN_HEALTH_ERROR_UNKNOWN

datatype CanHealthState_t =
    CAN_HEALTH_STATE_ERROR_ACTIVE | CAN_HEALTH_STATE_ERROR_PASSIVE | CAN_HEALTH_STATE_BUS_OFF

record CanHealthConfig_t =
  passive_threshold :: u16
  bus_off_threshold :: u16
  max_recovery_failures :: u8

record CanHealthSnapshot_t =
  snap_state :: CanHealthState_t
  snap_tec :: u16
  snap_rec :: u16
  snap_error_counts :: "u32 list"
  snap_bus_off_events :: u32
  snap_recovery_attempts :: u32
  snap_recovery_successes :: u32
  snap_recovery_failures :: u32
  snap_consecutive_recovery_failures :: u8
  snap_reset_requests :: u32

record CanHealth_t =
  h_config :: CanHealthConfig_t
  h_state :: CanHealthState_t
  h_tec :: u16
  h_rec :: u16
  h_error_counts :: "u32 list"
  h_bus_off_events :: u32
  h_recovery_attempts :: u32
  h_recovery_successes :: u32
  h_recovery_failures :: u32
  h_consecutive_recovery_failures :: u8
  h_reset_requests :: u32

subsection \<open>Operations\<close>

definition CanHealth_SaturatingAdd :: "u16 \<Rightarrow> u16 \<Rightarrow> u16" where
  "CanHealth_SaturatingAdd v d =
     (if (ucast v :: u32) + ucast d > 0xFFFF then 0xFFFF else v + d)"

definition CanHealth_ConfigIsValid :: "CanHealthConfig_t \<Rightarrow> bool" where
  "CanHealth_ConfigIsValid c \<longleftrightarrow>
     0 < passive_threshold c \<and> passive_threshold c < bus_off_threshold c \<and>
     0 < max_recovery_failures c"

definition CanHealth_EnterBusOff :: "CanHealth_t \<Rightarrow> CanHealth_t" where
  "CanHealth_EnterBusOff h =
     (let h1 = (if h_state h \<noteq> CAN_HEALTH_STATE_BUS_OFF
                then h\<lparr>h_bus_off_events := h_bus_off_events h + 1\<rparr> else h);
          h2 = h1\<lparr>h_state := CAN_HEALTH_STATE_BUS_OFF\<rparr>
      in if h_tec h2 < bus_off_threshold (h_config h2)
         then h2\<lparr>h_tec := bus_off_threshold (h_config h2)\<rparr> else h2)"

definition CanHealth_UpdateErrorState :: "CanHealth_t \<Rightarrow> CanHealth_t" where
  "CanHealth_UpdateErrorState h =
     (if h_state h = CAN_HEALTH_STATE_BUS_OFF then h
      else if bus_off_threshold (h_config h) \<le> h_tec h then CanHealth_EnterBusOff h
      else let worst = (if h_rec h < h_tec h then h_tec h else h_rec h) in
        h\<lparr>h_state := (if passive_threshold (h_config h) \<le> worst
                      then CAN_HEALTH_STATE_ERROR_PASSIVE
                      else CAN_HEALTH_STATE_ERROR_ACTIVE)\<rparr>)"

definition CanHealth_DefaultConfig :: CanHealthConfig_t where
  "CanHealth_DefaultConfig =
     \<lparr>passive_threshold = CAN_HEALTH_PASSIVE_THRESHOLD,
      bus_off_threshold = CAN_HEALTH_BUS_OFF_THRESHOLD,
      max_recovery_failures = CAN_HEALTH_MAX_RECOVERY_FAILURES\<rparr>"

text \<open>\<open>config = None\<close> is a null pointer: it and an invalid configuration fall back.\<close>

definition CanHealth_Init :: "CanHealthConfig_t option \<Rightarrow> CanHealth_t" where
  "CanHealth_Init config =
     \<lparr>h_config = (case config of
          Some c \<Rightarrow> if CanHealth_ConfigIsValid c then c else CanHealth_DefaultConfig
        | None \<Rightarrow> CanHealth_DefaultConfig),
      h_state = CAN_HEALTH_STATE_ERROR_ACTIVE, h_tec = 0, h_rec = 0,
      h_error_counts = replicate 6 0, h_bus_off_events = 0, h_recovery_attempts = 0,
      h_recovery_successes = 0, h_recovery_failures = 0,
      h_consecutive_recovery_failures = 0, h_reset_requests = 0\<rparr>"

fun kind_index :: "CanHealthErrorKind_t \<Rightarrow> nat" where
  "kind_index CAN_HEALTH_ERROR_BIT = 0"
| "kind_index CAN_HEALTH_ERROR_STUFF = 1"
| "kind_index CAN_HEALTH_ERROR_ACK = 2"
| "kind_index CAN_HEALTH_ERROR_CRC = 3"
| "kind_index CAN_HEALTH_ERROR_FORM = 4"
| "kind_index CAN_HEALTH_ERROR_OTHER = 5"
| "kind_index CAN_HEALTH_ERROR_UNKNOWN = 5"

definition CanHealth_RecordError ::
  "CanHealth_t \<Rightarrow> CanHealthErrorKind_t \<Rightarrow> bool \<Rightarrow> CanHealth_t" where
  "CanHealth_RecordError h kind transmit =
     (let i = kind_index kind;
          h1 = h\<lparr>h_error_counts := (h_error_counts h)[i := h_error_counts h ! i + 1]\<rparr>;
          h2 = (if transmit
                then h1\<lparr>h_tec := CanHealth_SaturatingAdd (h_tec h1) CAN_HEALTH_ERROR_COUNTER_STEP\<rparr>
                else h1\<lparr>h_rec := CanHealth_SaturatingAdd (h_rec h1) CAN_HEALTH_ERROR_COUNTER_STEP\<rparr>)
      in CanHealth_UpdateErrorState h2)"

definition CanHealth_RecordSuccess :: "CanHealth_t \<Rightarrow> bool \<Rightarrow> CanHealth_t" where
  "CanHealth_RecordSuccess h transmit =
     (if h_state h = CAN_HEALTH_STATE_BUS_OFF then h
      else let h1 = (if transmit \<and> 0 < h_tec h then h\<lparr>h_tec := h_tec h - 1\<rparr>
                     else if \<not> transmit \<and> 0 < h_rec h then h\<lparr>h_rec := h_rec h - 1\<rparr>
                     else h)
           in CanHealth_UpdateErrorState h1)"

definition CanHealth_SyncHardwareCounters ::
  "CanHealth_t \<Rightarrow> u16 \<Rightarrow> u16 \<Rightarrow> bool \<Rightarrow> CanHealth_t" where
  "CanHealth_SyncHardwareCounters h tec rc bus_off_active =
     (let h1 = h\<lparr>h_tec := tec, h_rec := rc\<rparr> in
      if bus_off_active then CanHealth_EnterBusOff h1 else CanHealth_UpdateErrorState h1)"

definition CanHealth_MarkRecovered :: "CanHealth_t \<Rightarrow> CanHealth_t" where
  "CanHealth_MarkRecovered h =
     h\<lparr>h_state := CAN_HEALTH_STATE_ERROR_ACTIVE, h_tec := 0, h_rec := 0,
       h_recovery_successes := h_recovery_successes h + 1,
       h_consecutive_recovery_failures := 0\<rparr>"

definition CanHealth_AttemptRecovery :: "CanHealth_t \<Rightarrow> bool \<Rightarrow> bool \<times> CanHealth_t" where
  "CanHealth_AttemptRecovery h recovered =
     (let h1 = h\<lparr>h_recovery_attempts := h_recovery_attempts h + 1\<rparr> in
      if recovered then (True, CanHealth_MarkRecovered h1)
      else let h2 = h1\<lparr>h_recovery_failures := h_recovery_failures h1 + 1\<rparr>;
               h3 = (if h_consecutive_recovery_failures h2 < 0xFF
                     then h2\<lparr>h_consecutive_recovery_failures := h_consecutive_recovery_failures h2 + 1\<rparr>
                     else h2);
               h4 = (if max_recovery_failures (h_config h3) \<le> h_consecutive_recovery_failures h3
                     then h3\<lparr>h_reset_requests := h_reset_requests h3 + 1\<rparr> else h3)
           in (False, h4))"

definition CanHealth_KindFromErrorFlags :: "u32 \<Rightarrow> CanHealthErrorKind_t" where
  "CanHealth_KindFromErrorFlags flags =
     (if flags AND (CAN_HEALTH_ERROR_FLAG_BIT_RECESSIVE OR CAN_HEALTH_ERROR_FLAG_BIT_DOMINANT) \<noteq> 0
        then CAN_HEALTH_ERROR_BIT
      else if flags AND CAN_HEALTH_ERROR_FLAG_STUFF \<noteq> 0 then CAN_HEALTH_ERROR_STUFF
      else if flags AND CAN_HEALTH_ERROR_FLAG_ACK \<noteq> 0 then CAN_HEALTH_ERROR_ACK
      else if flags AND CAN_HEALTH_ERROR_FLAG_CRC \<noteq> 0 then CAN_HEALTH_ERROR_CRC
      else if flags AND CAN_HEALTH_ERROR_FLAG_FORM \<noteq> 0 then CAN_HEALTH_ERROR_FORM
      else CAN_HEALTH_ERROR_OTHER)"

text \<open>The two queries accept a null pointer.\<close>

definition CanHealth_GetState :: "CanHealth_t option \<Rightarrow> CanHealthState_t" where
  "CanHealth_GetState p =
     (case p of Some h \<Rightarrow> h_state h | None \<Rightarrow> CAN_HEALTH_STATE_ERROR_ACTIVE)"

definition CanHealth_ResetRequested :: "CanHealth_t option \<Rightarrow> bool" where
  "CanHealth_ResetRequested p = (case p of Some h \<Rightarrow> 0 < h_reset_requests h | None \<Rightarrow> False)"

definition CanHealth_GetSnapshot :: "CanHealth_t \<Rightarrow> CanHealthSnapshot_t" where
  "CanHealth_GetSnapshot h =
     \<lparr>snap_state = h_state h, snap_tec = h_tec h, snap_rec = h_rec h,
      snap_error_counts = h_error_counts h, snap_bus_off_events = h_bus_off_events h,
      snap_recovery_attempts = h_recovery_attempts h,
      snap_recovery_successes = h_recovery_successes h,
      snap_recovery_failures = h_recovery_failures h,
      snap_consecutive_recovery_failures = h_consecutive_recovery_failures h,
      snap_reset_requests = h_reset_requests h\<rparr>"

subsection \<open>The error state follows the counters\<close>

lemmas health_defs = CanHealth_EnterBusOff_def CanHealth_UpdateErrorState_def
  CanHealth_RecordError_def CanHealth_RecordSuccess_def CanHealth_SyncHardwareCounters_def
  CanHealth_MarkRecovered_def CanHealth_AttemptRecovery_def

text \<open>Every call another module can make on the health record.\<close>

datatype health_event =
    Error CanHealthErrorKind_t bool
  | Success bool
  | Sync u16 u16 bool
  | BusOff
  | Recovered
  | Attempt bool

fun health_step :: "health_event \<Rightarrow> CanHealth_t \<Rightarrow> CanHealth_t" where
  "health_step (Error k tx) h = CanHealth_RecordError h k tx"
| "health_step (Success tx) h = CanHealth_RecordSuccess h tx"
| "health_step (Sync t r off) h = CanHealth_SyncHardwareCounters h t r off"
| "health_step BusOff h = CanHealth_EnterBusOff h"
| "health_step Recovered h = CanHealth_MarkRecovered h"
| "health_step (Attempt ok) h = snd (CanHealth_AttemptRecovery h ok)"

definition worst_counter :: "CanHealth_t \<Rightarrow> u16" where
  "worst_counter h = max (h_tec h) (h_rec h)"

definition health_ok :: "CanHealth_t \<Rightarrow> bool" where
  "health_ok h \<longleftrightarrow> CanHealth_ConfigIsValid (h_config h) \<and> length (h_error_counts h) = 6 \<and>
     (case h_state h of
        CAN_HEALTH_STATE_BUS_OFF \<Rightarrow> True
      | CAN_HEALTH_STATE_ERROR_PASSIVE \<Rightarrow>
          h_tec h < bus_off_threshold (h_config h) \<and> passive_threshold (h_config h) \<le> worst_counter h
      | CAN_HEALTH_STATE_ERROR_ACTIVE \<Rightarrow>
          h_tec h < bus_off_threshold (h_config h) \<and> worst_counter h < passive_threshold (h_config h))"

lemma default_config_valid: "CanHealth_ConfigIsValid CanHealth_DefaultConfig"
  by (simp add: CanHealth_ConfigIsValid_def CanHealth_DefaultConfig_def
      CAN_HEALTH_PASSIVE_THRESHOLD_def CAN_HEALTH_BUS_OFF_THRESHOLD_def
      CAN_HEALTH_MAX_RECOVERY_FAILURES_def)

lemma health_ok_Init: "health_ok (CanHealth_Init c)"
  using default_config_valid
  by (auto simp: health_ok_def CanHealth_Init_def worst_counter_def CanHealth_ConfigIsValid_def
      split: option.splits)

lemma health_ok_EnterBusOff:
  "CanHealth_ConfigIsValid (h_config h) \<Longrightarrow> length (h_error_counts h) = 6 \<Longrightarrow>
    health_ok (CanHealth_EnterBusOff h)"
  by (simp add: health_ok_def CanHealth_EnterBusOff_def Let_def)

lemma health_ok_Update:
  "CanHealth_ConfigIsValid (h_config h) \<Longrightarrow> length (h_error_counts h) = 6 \<Longrightarrow>
    health_ok (CanHealth_UpdateErrorState h)"
  using health_ok_EnterBusOff [of h]
  by (auto simp: health_ok_def CanHealth_UpdateErrorState_def worst_counter_def Let_def max_def not_le)

lemma health_ok_step: "health_ok h \<Longrightarrow> health_ok (health_step e h)"
proof (cases e)
  case (Attempt ok)
  assume h: "health_ok h"
  show ?thesis
  proof (cases "h_state h")
    case CAN_HEALTH_STATE_ERROR_ACTIVE
    with h Attempt show ?thesis
      by (auto simp: health_ok_def CanHealth_AttemptRecovery_def CanHealth_MarkRecovered_def
          worst_counter_def CanHealth_ConfigIsValid_def Let_def)
  next
    case CAN_HEALTH_STATE_ERROR_PASSIVE
    with h Attempt show ?thesis
      by (auto simp: health_ok_def CanHealth_AttemptRecovery_def CanHealth_MarkRecovered_def
          worst_counter_def CanHealth_ConfigIsValid_def Let_def)
  next
    case CAN_HEALTH_STATE_BUS_OFF
    with h Attempt show ?thesis
      by (auto simp: health_ok_def CanHealth_AttemptRecovery_def CanHealth_MarkRecovered_def
          worst_counter_def CanHealth_ConfigIsValid_def Let_def)
  qed
qed (auto simp: health_ok_def [of h] CanHealth_RecordError_def CanHealth_RecordSuccess_def
      CanHealth_SyncHardwareCounters_def Let_def
      intro!: health_ok_Update health_ok_EnterBusOff,
     auto simp: health_ok_def CanHealth_MarkRecovered_def worst_counter_def CanHealth_ConfigIsValid_def)

lemma health_ok_run: "health_ok h \<Longrightarrow> health_ok (fold health_step es h)"
  by (induction es arbitrary: h) (simp_all add: health_ok_step)

subsection \<open>Bus-Off is left through a recovery only\<close>

fun is_recovery :: "health_event \<Rightarrow> bool" where
  "is_recovery Recovered = True"
| "is_recovery (Attempt ok) = ok"
| "is_recovery _ = False"

lemma bus_off_step:
  "h_state h = CAN_HEALTH_STATE_BUS_OFF \<Longrightarrow> \<not> is_recovery e \<Longrightarrow>
    h_state (health_step e h) = CAN_HEALTH_STATE_BUS_OFF \<and>
    h_bus_off_events (health_step e h) = h_bus_off_events h"
  by (cases e) (auto simp: health_defs Let_def)

lemma bus_off_run:
  "h_state h = CAN_HEALTH_STATE_BUS_OFF \<Longrightarrow> (\<forall>e \<in> set es. \<not> is_recovery e) \<Longrightarrow>
    h_state (fold health_step es h) = CAN_HEALTH_STATE_BUS_OFF \<and>
    h_bus_off_events (fold health_step es h) = h_bus_off_events h"
  by (induction es arbitrary: h) (simp_all add: bus_off_step)

text \<open>once in Bus-Off, no event other than a successful recovery leaves it, counts a
  second Bus-Off event for the same episode, or brings traffic back: errors, successes and
  counter read-backs in any order keep the state.\<close>

theorem bus_off_is_absorbing:
  assumes "h_state h = CAN_HEALTH_STATE_BUS_OFF" and "\<forall>e \<in> set es. \<not> is_recovery e"
  shows "CanHealth_GetState (Some (fold health_step es h)) = CAN_HEALTH_STATE_BUS_OFF \<and>
    h_bus_off_events (fold health_step es h) = h_bus_off_events h"
  using bus_off_run [OF assms] by (simp_all add: CanHealth_GetState_def)

subsection \<open>Escalation after consecutive failures\<close>

fun failures :: "nat \<Rightarrow> CanHealth_t \<Rightarrow> CanHealth_t" where
  "failures 0 h = h"
| "failures (Suc n) h = snd (CanHealth_AttemptRecovery (failures n h) False)"

lemma failed_attempt:
  "h_consecutive_recovery_failures (snd (CanHealth_AttemptRecovery h False)) =
     (if h_consecutive_recovery_failures h < 255 then h_consecutive_recovery_failures h + 1
      else h_consecutive_recovery_failures h)"
  "h_reset_requests (snd (CanHealth_AttemptRecovery h False)) =
     h_reset_requests h + (if max_recovery_failures (h_config h) \<le>
        h_consecutive_recovery_failures (snd (CanHealth_AttemptRecovery h False)) then 1 else 0)"
  "h_config (snd (CanHealth_AttemptRecovery h False)) = h_config h"
  by (auto simp: CanHealth_AttemptRecovery_def Let_def)

lemma unat_inc8: "unat (w :: u8) < 255 \<Longrightarrow> unat (w + 1) = unat w + 1"
  by (simp add: unat_word_ariths)

lemma failures_config [simp]: "h_config (failures n h) = h_config h"
  by (induction n) (simp_all add: failed_attempt)

lemma failures_consecutive:
  assumes "h_consecutive_recovery_failures h = 0"
  shows "unat (h_consecutive_recovery_failures (failures n h)) = min n 255"
proof (induction n)
  case 0
  with assms show ?case by simp
next
  case (Suc n)
  then show ?case
    by (auto simp: failed_attempt word_less_nat_alt unat_inc8)
qed

lemma failures_requests:
  assumes "h_consecutive_recovery_failures h = 0" "h_reset_requests h = 0"
    and "0 < max_recovery_failures (h_config h)" and "n < 2 ^ 32"
  shows "unat (h_reset_requests (failures n h)) = n - (unat (max_recovery_failures (h_config h)) - 1)"
  using assms(4)
proof (induction n)
  case 0
  with assms show ?case by simp
next
  case (Suc n)
  let ?m = "unat (max_recovery_failures (h_config h))"
  have m: "0 < ?m" "?m \<le> 255"
    using assms(3) unat_u8_le [of "max_recovery_failures (h_config h)"]
    by (simp_all add: word_less_nat_alt)
  have IH: "unat (h_reset_requests (failures n h)) = n - (?m - 1)"
    using Suc by simp
  have c: "max_recovery_failures (h_config h) \<le> h_consecutive_recovery_failures (failures (Suc n) h)
      \<longleftrightarrow> ?m \<le> min (Suc n) 255"
    using failures_consecutive [OF assms(1), of "Suc n"] by (simp add: word_le_nat_alt)
  show ?case
  proof (cases "?m \<le> Suc n")
    case True
    then have "h_reset_requests (failures (Suc n) h) = h_reset_requests (failures n h) + 1"
      using c m by (simp add: failed_attempt(2))
    moreover have "unat (h_reset_requests (failures n h)) + 1 < 2 ^ 32"
      using IH Suc.prems m by simp
    ultimately show ?thesis using IH True m
      by (simp add: unat_word_ariths)
  next
    case False
    then have "h_reset_requests (failures (Suc n) h) = h_reset_requests (failures n h)"
      using c m by (simp add: failed_attempt(2))
    with IH False show ?thesis by simp
  qed
qed

text \<open>starting from initialisation, the reset of the node is requested exactly from the
  configured number of consecutive failed recoveries on (three by default): one or two
  failures never request it, the third and every later one does.\<close>

theorem reset_after_max_failures:
  assumes "n < 2 ^ 32"
  shows "CanHealth_ResetRequested (Some (failures n (CanHealth_Init c))) \<longleftrightarrow>
    unat (max_recovery_failures (h_config (CanHealth_Init c))) \<le> n"
proof -
  let ?h = "CanHealth_Init c"
  have v: "0 < max_recovery_failures (h_config ?h)"
    using health_ok_Init [of c] by (simp add: health_ok_def CanHealth_ConfigIsValid_def)
  have "unat (h_reset_requests (failures n ?h)) = n - (unat (max_recovery_failures (h_config ?h)) - 1)"
    using assms v by (intro failures_requests) (simp_all add: CanHealth_Init_def)
  then show ?thesis
    using v by (auto simp: CanHealth_ResetRequested_def word_less_nat_alt)
qed

theorem reset_after_max_failures_witness:
  "\<not> CanHealth_ResetRequested (Some (failures 2 (CanHealth_Init None))) \<and>
   CanHealth_ResetRequested (Some (failures 3 (CanHealth_Init None)))"
  using reset_after_max_failures [of 2 None] reset_after_max_failures [of 3 None]
  by (simp add: CanHealth_Init_def CanHealth_DefaultConfig_def CAN_HEALTH_MAX_RECOVERY_FAILURES_def)

theorem bus_off_is_absorbing_witness:
  "CanHealth_GetState (Some (fold health_step [Success True, Sync 0 0 False, Attempt False]
     (CanHealth_EnterBusOff (CanHealth_Init None)))) = CAN_HEALTH_STATE_BUS_OFF"
  by (rule bus_off_is_absorbing [THEN conjunct1]) (simp_all add: CanHealth_EnterBusOff_def Let_def)

end
