(* ===== verification/HealthOrder.thy ===== *)
theory HealthOrder
  imports CanHealth
begin

section \<open>Severity of the error states\<close>

text \<open>
  Error-active, error-passive and Bus-Off are ordered by severity, so that \<open>\<le>\<close>, \<open>max\<close> and the facts of
  linear orders apply to \<open>CanHealthState_t\<close>.  A recorded error never lowers the state and a recorded
  success never raises it.  The claim says exactly which events lead to Bus-Off and which state the counters
  give while the node is not there.
\<close>

fun severity :: "CanHealthState_t \<Rightarrow> nat" where
  "severity CAN_HEALTH_STATE_ERROR_ACTIVE = 0"
| "severity CAN_HEALTH_STATE_ERROR_PASSIVE = 1"
| "severity CAN_HEALTH_STATE_BUS_OFF = 2"

lemma severity_inject: "severity a = severity b \<Longrightarrow> a = b"
  by (cases a; cases b; simp)

instantiation CanHealthState_t :: linorder
begin

definition less_eq_CanHealthState_t :: "CanHealthState_t \<Rightarrow> CanHealthState_t \<Rightarrow> bool" where
  "less_eq_CanHealthState_t a b \<longleftrightarrow> severity a \<le> severity b"

definition less_CanHealthState_t :: "CanHealthState_t \<Rightarrow> CanHealthState_t \<Rightarrow> bool" where
  "less_CanHealthState_t a b \<longleftrightarrow> severity a < severity b"

instance
  by standard (auto simp: less_eq_CanHealthState_t_def less_CanHealthState_t_def intro: severity_inject)

end

text \<open>The state the counters call for, monotone in both.\<close>

definition counted_state :: "CanHealthConfig_t \<Rightarrow> u16 \<Rightarrow> u16 \<Rightarrow> CanHealthState_t" where
  "counted_state c tec rc =
     (if bus_off_threshold c \<le> tec then CAN_HEALTH_STATE_BUS_OFF
      else if passive_threshold c \<le> max tec rc then CAN_HEALTH_STATE_ERROR_PASSIVE else CAN_HEALTH_STATE_ERROR_ACTIVE)"

lemma counted_state_mono: "t \<le> t' \<Longrightarrow> r \<le> r' \<Longrightarrow> counted_state c t r \<le> counted_state c t' r'"
  by (auto simp: counted_state_def less_eq_CanHealthState_t_def max_def)

lemma state_is_counted: "health_ok h \<Longrightarrow> h_state h \<noteq> CAN_HEALTH_STATE_BUS_OFF \<Longrightarrow>
    h_state h = counted_state (h_config h) (h_tec h) (h_rec h)"
  by (cases "h_state h") (auto simp: health_ok_def counted_state_def worst_counter_def le_max_iff_disj not_le)

lemma update_state:
  "h_state (CanHealth_UpdateErrorState h) =
    (if h_state h = CAN_HEALTH_STATE_BUS_OFF then CAN_HEALTH_STATE_BUS_OFF
     else counted_state (h_config h) (h_tec h) (h_rec h))"
  by (auto simp: CanHealth_UpdateErrorState_def CanHealth_EnterBusOff_def counted_state_def Let_def max_def)

lemma saturating_add_grows: "v \<le> CanHealth_SaturatingAdd v d"
proof (cases "(ucast v :: u32) + ucast d > 0xFFFF")
  case True
  have "unat v < 2 ^ 16" using unsigned_less [of v] by simp
  with True show ?thesis by (simp add: CanHealth_SaturatingAdd_def word_le_nat_alt)
next
  case False
  have "unat v < 2 ^ 16" "unat d < 2 ^ 16" using unsigned_less [of v] unsigned_less [of d] by simp_all
  then have "unat ((ucast v :: u32) + ucast d) = unat v + unat d"
    by (simp add: unat_word_ariths unsigned_ucast_eq take_bit_nat_eq_self)
  with False have "unat v + unat d < 2 ^ 16" by (simp add: word_le_nat_alt not_less)
  then have "v \<le> v + d" by (simp add: word_le_nat_alt unat_word_ariths)
  with False show ?thesis by (simp add: CanHealth_SaturatingAdd_def)
qed

lemma error_never_improves:
  assumes "health_ok h"
  shows "h_state h \<le> h_state (CanHealth_RecordError h k transmit)"
proof (cases "h_state h = CAN_HEALTH_STATE_BUS_OFF")
  case False
  with state_is_counted [OF assms] show ?thesis
    by (simp add: CanHealth_RecordError_def Let_def update_state counted_state_mono saturating_add_grows)
qed (simp add: CanHealth_RecordError_def Let_def update_state)

lemma dec_shrinks: "0 < w \<Longrightarrow> w - 1 \<le> (w :: u16)"
  by (simp add: word_le_nat_alt unat_minus_one)

lemma success_never_worsens:
  assumes "health_ok h"
  shows "h_state (CanHealth_RecordSuccess h transmit) \<le> h_state h"
proof (cases "h_state h = CAN_HEALTH_STATE_BUS_OFF")
  case False
  with state_is_counted [OF assms] show ?thesis
    by (auto simp: CanHealth_RecordSuccess_def Let_def update_state intro!: counted_state_mono dec_shrinks)
qed (simp add: CanHealth_RecordSuccess_def)

subsection \<open>Which events put the node in Bus-Off\<close>

text \<open>The transmit counter an event calls for, as a number: eight more for a transmit error (saturated), one
  less for a success, the controller's own on a read-back.\<close>

fun called_tec :: "CanHealth_t \<Rightarrow> health_event \<Rightarrow> nat" where
  "called_tec h (Error k transmit) = (if transmit then min 65535 (unat (h_tec h) + 8) else unat (h_tec h))"
| "called_tec h (Success transmit) = (if transmit then unat (h_tec h) - 1 else unat (h_tec h))"
| "called_tec h (Sync tec rc off) = unat tec"
| "called_tec h _ = 0"

fun reports_bus_off :: "health_event \<Rightarrow> bool" where
  "reports_bus_off BusOff = True"
| "reports_bus_off (Sync tec rc off) = off"
| "reports_bus_off _ = False"

definition trips :: "CanHealth_t \<Rightarrow> health_event \<Rightarrow> bool" where
  "trips h e \<longleftrightarrow> reports_bus_off e \<or> unat (bus_off_threshold (h_config h)) \<le> called_tec h e"

lemma saturating_add: "unat (CanHealth_SaturatingAdd v d) = min 65535 (unat v + unat d)"
proof -
  have "unat v < 2 ^ 16" "unat d < 2 ^ 16" using unsigned_less [of v] unsigned_less [of d] by simp_all
  then have sum: "unat ((ucast v :: u32) + ucast d) = unat v + unat d"
    by (simp add: unat_word_ariths unsigned_ucast_eq take_bit_nat_eq_self)
  show ?thesis
  proof (cases "(ucast v :: u32) + ucast d > 0xFFFF")
    case True
    then have "65535 < unat v + unat d" using sum by (simp add: word_less_nat_alt)
    with True show ?thesis by (simp add: CanHealth_SaturatingAdd_def)
  next
    case False
    then have "unat v + unat d \<le> 65535" using sum by (simp add: word_less_nat_alt)
    with False show ?thesis by (simp add: CanHealth_SaturatingAdd_def unat_word_ariths)
  qed
qed

lemma bus_off_state: "h_state (CanHealth_EnterBusOff h) = CAN_HEALTH_STATE_BUS_OFF"
  by (simp add: CanHealth_EnterBusOff_def Let_def)

lemma counted_bus_off: "counted_state c t r = CAN_HEALTH_STATE_BUS_OFF \<longleftrightarrow> bus_off_threshold c \<le> t"
  by (simp add: counted_state_def)

lemma step_enters:
  assumes "health_ok h" and "h_state h \<noteq> CAN_HEALTH_STATE_BUS_OFF"
  shows "h_state (health_step e h) = CAN_HEALTH_STATE_BUS_OFF \<longleftrightarrow> trips h e"
proof -
  have pos: "0 < unat (bus_off_threshold (h_config h))"
    using assms(1) by (auto simp: health_ok_def CanHealth_ConfigIsValid_def word_less_nat_alt)
  have below: "unat (h_tec h) < unat (bus_off_threshold (h_config h))"
    using assms by (cases "h_state h") (simp_all add: health_ok_def word_less_nat_alt)
  show ?thesis
  proof (cases e)
    case (Error k transmit)
    then show ?thesis
      using assms(2) by (simp add: trips_def CanHealth_RecordError_def Let_def update_state counted_bus_off
          word_le_nat_alt saturating_add CAN_HEALTH_ERROR_COUNTER_STEP_def)
  next
    case (Success transmit)
    have "unat (h_tec h - 1) = unat (h_tec h) - 1" if "0 < h_tec h"
      using that by (simp add: unat_minus_one word_greater_zero_iff)
    with Success show ?thesis
      using assms(2) below
      by (auto simp: trips_def CanHealth_RecordSuccess_def Let_def update_state counted_bus_off word_le_nat_alt
          word_less_nat_alt)
  next
    case (Sync tec rc off)
    then show ?thesis
      using assms(2) by (simp add: trips_def CanHealth_SyncHardwareCounters_def Let_def update_state counted_bus_off
          word_le_nat_alt bus_off_state)
  next
    case (Attempt ok)
    then show ?thesis
      using assms(2) pos by (simp add: trips_def CanHealth_AttemptRecovery_def CanHealth_MarkRecovered_def Let_def)
  qed (use pos assms(2) in \<open>simp_all add: trips_def bus_off_state CanHealth_MarkRecovered_def\<close>)
qed

text \<open>An event that trips ends in Bus-Off also when the node is there already; only a successful recovery leaves.\<close>

lemma step_trips:
  assumes "health_ok h" and "trips h e"
  shows "h_state (health_step e h) = CAN_HEALTH_STATE_BUS_OFF \<and> \<not> is_recovery e"
proof -
  have "0 < unat (bus_off_threshold (h_config h))"
    using assms(1) by (auto simp: health_ok_def CanHealth_ConfigIsValid_def word_less_nat_alt)
  then have "\<not> is_recovery e" using assms(2) by (cases e) (auto simp: trips_def)
  with step_enters [OF assms(1)] bus_off_step assms(2) show ?thesis by blast
qed

lemma step_recovers: "is_recovery e \<Longrightarrow> h_state (health_step e h) = CAN_HEALTH_STATE_ERROR_ACTIVE"
  by (cases e) (simp_all add: CanHealth_AttemptRecovery_def CanHealth_MarkRecovered_def Let_def)

definition tripped :: "CanHealth_t \<Rightarrow> health_event list \<Rightarrow> bool" where
  "tripped h es \<longleftrightarrow> (\<exists>xs e ys. es = xs @ e # ys \<and> trips (fold health_step xs h) e \<and> (\<forall>y \<in> set ys. \<not> is_recovery y))"

lemma tripped_snoc:
  "tripped h (es @ [e]) \<longleftrightarrow> trips (fold health_step es h) e \<or> tripped h es \<and> \<not> is_recovery e"
proof
  assume "tripped h (es @ [e])"
  then obtain xs x ys where d: "es @ [e] = xs @ x # ys" "trips (fold health_step xs h) x" "\<forall>y \<in> set ys. \<not> is_recovery y"
    by (auto simp: tripped_def)
  show "trips (fold health_step es h) e \<or> tripped h es \<and> \<not> is_recovery e"
  proof (cases ys rule: rev_cases)
    case Nil
    with d show ?thesis by simp
  next
    case (snoc zs z)
    with d have "es = xs @ x # zs" "z = e" by simp_all
    with d snoc show ?thesis by (auto simp: tripped_def)
  qed
next
  assume "trips (fold health_step es h) e \<or> tripped h es \<and> \<not> is_recovery e"
  then show "tripped h (es @ [e])"
  proof
    assume "trips (fold health_step es h) e"
    then show ?thesis unfolding tripped_def by (intro exI [of _ es] exI [of _ e] exI [of _ "[]"]) simp
  next
    assume "tripped h es \<and> \<not> is_recovery e"
    then obtain xs x ys where "es = xs @ x # ys" "trips (fold health_step xs h) x" "\<forall>y \<in> set ys. \<not> is_recovery y"
      "\<not> is_recovery e" by (auto simp: tripped_def)
    then show ?thesis unfolding tripped_def by (intro exI [of _ xs] exI [of _ x] exI [of _ "ys @ [e]"]) auto
  qed
qed

lemma run_tripped:
  assumes "health_ok h" and "h_state h \<noteq> CAN_HEALTH_STATE_BUS_OFF"
  shows "h_state (fold health_step es h) = CAN_HEALTH_STATE_BUS_OFF \<longleftrightarrow> tripped h es"
proof (induction es rule: rev_induct)
  case Nil
  with assms(2) show ?case by (simp add: tripped_def)
next
  case (snoc e es)
  let ?h = "fold health_step es h"
  have ok: "health_ok ?h" using health_ok_run [OF assms(1)] .
  show ?case
    using snoc step_enters [OF ok, of e] step_trips [OF ok, of e] bus_off_step [of ?h e] step_recovers [of e ?h]
    by (auto simp: tripped_snoc)
qed

text \<open>C25: The error state follows the counters and the events.  Whatever sequence of errors, successes,
  read-backs and recovery attempts follows initialisation with any configuration: the node is in Bus-Off exactly
  when, since the last successful recovery, some event reported Bus-Off or called for a transmit counter at or past the
  Bus-Off threshold; otherwise the transmit counter is below that threshold and the node is error-passive exactly
  when the larger counter has reached the passive threshold, error-active when it has not.\<close>

theorem health_state_follows_counters:
  "let h0 = CanHealth_Init c; h = fold health_step es h0 in
     CanHealth_ConfigIsValid (h_config h) \<and> length (h_error_counts h) = 6 \<and>
     (h_state h = CAN_HEALTH_STATE_BUS_OFF \<longleftrightarrow>
       (\<exists>xs e ys. es = xs @ e # ys \<and> trips (fold health_step xs h0) e \<and> (\<forall>y \<in> set ys. \<not> is_recovery y))) \<and>
     (h_state h \<noteq> CAN_HEALTH_STATE_BUS_OFF \<longrightarrow>
       h_tec h < bus_off_threshold (h_config h) \<and>
       h_state h = (if passive_threshold (h_config h) \<le> max (h_tec h) (h_rec h)
         then CAN_HEALTH_STATE_ERROR_PASSIVE else CAN_HEALTH_STATE_ERROR_ACTIVE))"
proof -
  let ?init = "CanHealth_Init c"
  let ?h = "fold health_step es ?init"
  have ok: "health_ok ?h" by (rule health_ok_run [OF health_ok_Init])
  have "h_state ?init \<noteq> CAN_HEALTH_STATE_BUS_OFF" by (simp add: CanHealth_Init_def)
  note off = run_tripped [OF health_ok_Init this, of es, unfolded tripped_def]
  have "h_tec ?h < bus_off_threshold (h_config ?h) \<and> h_state ?h = (if passive_threshold (h_config ?h) \<le> max (h_tec ?h) (h_rec ?h)
      then CAN_HEALTH_STATE_ERROR_PASSIVE else CAN_HEALTH_STATE_ERROR_ACTIVE)"
    if "h_state ?h \<noteq> CAN_HEALTH_STATE_BUS_OFF"
    using that ok state_is_counted [OF ok that] by (cases "h_state ?h") (auto simp: health_ok_def worst_counter_def max_def split: if_splits)
  with ok off show ?thesis by (simp add: Let_def health_ok_def [of ?h])
qed

text \<open>A read-back past the default threshold of 256, then a success.\<close>

theorem health_state_follows_counters_witness:
  "h_state (fold health_step [Error CAN_HEALTH_ERROR_ACK True, Sync 300 0 False, Success True] (CanHealth_Init None)) =
     CAN_HEALTH_STATE_BUS_OFF"
proof -
  let ?es = "[Error CAN_HEALTH_ERROR_ACK True, Sync 300 0 False, Success True]" and ?init = "CanHealth_Init None"
  have "trips (fold health_step [Error CAN_HEALTH_ERROR_ACK True] ?init) (Sync 300 0 False)" by code_simp
  then have "\<exists>xs e ys. ?es = xs @ e # ys \<and> trips (fold health_step xs ?init) e \<and> (\<forall>y \<in> set ys. \<not> is_recovery y)"
    by (intro exI [of _ "[Error CAN_HEALTH_ERROR_ACK True]"] exI [of _ "Sync 300 0 False"] exI [of _ "[Success True]"]) simp
  then show ?thesis
    using health_state_follows_counters [of None ?es] unfolding Let_def by blast
qed

end
