(* ===== verification/ParamStore.thy ===== *)
theory ParamStore
  imports Prelude
begin

section \<open>The parameter store and its image\<close>

text \<open>
  \<open>firmware/common/param_store.c\<close>: a table of three entries, its 80-byte img with magic,
  version, count and CRC-32, and the update of an img in storage.  A successful encoding is
  \<open>Some img\<close>; no caller looks at the buffer of a failed one.  The table is shown to be a map
  from the three known identifiers to values, and decoding to invert encoding on that map.
\<close>

subsection \<open>Types and bytes\<close>

definition PARAM_STORE_MAX_ENTRIES :: nat where "PARAM_STORE_MAX_ENTRIES = 3"
definition PARAM_STORE_VALUE_MAX :: nat where "PARAM_STORE_VALUE_MAX = 17"
definition PARAM_STORE_IMAGE_SIZE :: nat where "PARAM_STORE_IMAGE_SIZE = 80"
definition PARAM_STORE_MAGIC :: u32 where "PARAM_STORE_MAGIC = 0x50324442"
definition PARAM_STORE_VERSION :: u16 where "PARAM_STORE_VERSION = 1"
definition PARAM_STORE_HEADER_SIZE :: nat where "PARAM_STORE_HEADER_SIZE = 8"
definition PARAM_STORE_ENTRY_SIZE :: nat where "PARAM_STORE_ENTRY_SIZE = 22"
definition PARAM_STORE_CRC_OFFSET :: nat where "PARAM_STORE_CRC_OFFSET = 76"

lemmas param_sizes = PARAM_STORE_MAX_ENTRIES_def PARAM_STORE_VALUE_MAX_def PARAM_STORE_IMAGE_SIZE_def
  PARAM_STORE_HEADER_SIZE_def PARAM_STORE_ENTRY_SIZE_def PARAM_STORE_CRC_OFFSET_def

record ParamStoreEntry_t =
  ent_did :: u16
  ent_length :: u8
  ent_data :: "u8 list"

record ParamStore_t =
  ps_entries :: "ParamStoreEntry_t list"

definition g_param_store_dids :: "u16 list" where
  "g_param_store_dids = [0xF190, 0xF191, 0x0100]"

definition put_u16 :: "u16 \<Rightarrow> u8 list" where
  "put_u16 value = [lo8 value, hi8 value]"

definition put_u32 :: "u32 \<Rightarrow> u8 list" where
  "put_u32 value = [byte_of32 0 value, byte_of32 1 value, byte_of32 2 value, byte_of32 3 value]"

definition get_u16 :: "u8 list \<Rightarrow> u16" where
  "get_u16 source = ucast (source ! 0) OR push_bit 8 (ucast (source ! 1))"

definition get_u32 :: "u8 list \<Rightarrow> u32" where
  "get_u32 source = ucast (source ! 0) OR push_bit 8 (ucast (source ! 1)) OR
     push_bit 16 (ucast (source ! 2)) OR push_bit 24 (ucast (source ! 3))"

text \<open>One bit, one byte and all bytes of the CRC.\<close>

definition crc_bit :: "u32 \<Rightarrow> u32" where
  "crc_bit crc = (if crc AND 1 \<noteq> 0 then drop_bit 1 crc XOR 0xEDB88320 else drop_bit 1 crc)"

definition crc_byte :: "u32 \<Rightarrow> u8 \<Rightarrow> u32" where
  "crc_byte crc b = (crc_bit ^^ 8) (crc XOR ucast b)"

definition param_crc32 :: "u8 list \<Rightarrow> u32" where
  "param_crc32 data = NOT (foldl crc_byte 0xFFFFFFFF data)"

definition known_did :: "u16 \<Rightarrow> bool" where
  "known_did did \<longleftrightarrow> did \<in> set g_param_store_dids"

definition blank_entry :: ParamStoreEntry_t where
  "blank_entry = \<lparr>ent_did = 0, ent_length = 0, ent_data = replicate PARAM_STORE_VALUE_MAX 0\<rparr>"

definition ParamStore_Init :: ParamStore_t where
  "ParamStore_Init = \<lparr>ps_entries = replicate PARAM_STORE_MAX_ENTRIES blank_entry\<rparr>"

definition find_entry :: "ParamStore_t \<Rightarrow> u16 \<Rightarrow> nat option" where
  "find_entry store did =
     List.find (\<lambda>i. ent_did (ps_entries store ! i) = did) [0..<PARAM_STORE_MAX_ENTRIES]"

subsection \<open>The image\<close>

fun serialize_entries :: "ParamStoreEntry_t list \<Rightarrow> nat \<Rightarrow> u16 \<Rightarrow> u8 list \<Rightarrow> (u16 \<times> u8 list) option" where
  "serialize_entries [] offset count img = Some (count, img)"
| "serialize_entries (e # es) offset count img =
     (if ent_length e = 0 then serialize_entries es offset count img
      else if PARAM_STORE_VALUE_MAX < unat (ent_length e) \<or> \<not> known_did (ent_did e) \<or>
        PARAM_STORE_CRC_OFFSET < offset + PARAM_STORE_ENTRY_SIZE then None
      else serialize_entries es (offset + PARAM_STORE_ENTRY_SIZE) (count + 1)
        (buf_write (buf_write (buf_write img offset (put_u16 (ent_did e)))
           (offset + 2) (put_u16 (ucast (ent_length e))))
           (offset + 4) (take (unat (ent_length e)) (ent_data e))))"

definition serialize :: "ParamStore_t \<Rightarrow> u8 list option" where
  "serialize store =
     (let img = buf_write (buf_write (replicate PARAM_STORE_IMAGE_SIZE 0) 0 (put_u32 PARAM_STORE_MAGIC))
                    4 (put_u16 PARAM_STORE_VERSION) in
      case serialize_entries (ps_entries store) PARAM_STORE_HEADER_SIZE 0 img of None \<Rightarrow> None
      | Some (count, img1) \<Rightarrow>
        let img2 = buf_write img1 6 (put_u16 count)
        in Some (buf_write img2 PARAM_STORE_CRC_OFFSET
                   (put_u32 (param_crc32 (take PARAM_STORE_CRC_OFFSET img2)))))"

text \<open>The loop over \<open>remaining\<close> entries of the img.\<close>

fun deserialize_entries ::
  "nat \<Rightarrow> nat \<Rightarrow> nat \<Rightarrow> u8 list \<Rightarrow> ParamStore_t \<Rightarrow> bool \<times> ParamStore_t" where
  "deserialize_entries 0 index offset img store = (True, store)"
| "deserialize_entries (Suc remaining) index offset img store =
     (let did = get_u16 (drop offset img);
          len = get_u16 (drop (offset + 2) img) in
      if PARAM_STORE_VALUE_MAX < unat len \<or> \<not> known_did did \<or> find_entry store did \<noteq> None
      then (False, ParamStore_Init)
      else let old = ps_entries store ! index;
               entry = old\<lparr>ent_did := did, ent_length := ucast len,
                 ent_data := buf_write (ent_data old) 0 (take (unat len) (drop (offset + 4) img))\<rparr>
           in deserialize_entries remaining (Suc index) (offset + PARAM_STORE_ENTRY_SIZE) img
                (store\<lparr>ps_entries := (ps_entries store)[index := entry]\<rparr>))"

definition deserialize :: "u8 list \<Rightarrow> bool \<times> ParamStore_t" where
  "deserialize img =
     (if get_u32 img \<noteq> PARAM_STORE_MAGIC \<or> get_u16 (drop 4 img) \<noteq> PARAM_STORE_VERSION \<or>
         get_u32 (drop PARAM_STORE_CRC_OFFSET img) \<noteq> param_crc32 (take PARAM_STORE_CRC_OFFSET img)
      then (False, ParamStore_Init)
      else let count = get_u16 (drop 6 img) in
      if PARAM_STORE_MAX_ENTRIES < unat count then (False, ParamStore_Init)
      else deserialize_entries (unat count) 0 PARAM_STORE_HEADER_SIZE img ParamStore_Init)"

definition ParamStore_Encode :: "ParamStore_t \<Rightarrow> u8 list option" where
  "ParamStore_Encode store = serialize store"

definition ParamStore_Decode :: "u8 list \<Rightarrow> bool \<times> ParamStore_t" where
  "ParamStore_Decode img = deserialize img"

subsection \<open>Reading and updating\<close>

definition ParamStore_Get :: "ParamStore_t \<Rightarrow> u16 \<Rightarrow> u16 \<Rightarrow> u8 list option" where
  "ParamStore_Get store did capacity =
     (case find_entry store did of None \<Rightarrow> None | Some i \<Rightarrow>
      let entry = ps_entries store ! i in
      if capacity < ucast (ent_length entry) then None
      else Some (take (unat (ent_length entry)) (ent_data entry)))"

definition free_entry :: "ParamStore_t \<Rightarrow> nat option" where
  "free_entry store = List.find (\<lambda>i. ent_length (ps_entries store ! i) = 0) [0..<PARAM_STORE_MAX_ENTRIES]"

definition ParamStore_Update :: "ParamStore_t \<Rightarrow> u16 \<Rightarrow> u8 list \<Rightarrow> ParamStore_t option" where
  "ParamStore_Update store did data =
     (if length data = 0 \<or> PARAM_STORE_VALUE_MAX < length data \<or> \<not> known_did did then None
      else case (case find_entry store did of None \<Rightarrow> free_entry store | found \<Rightarrow> found) of
        None \<Rightarrow> None
      | Some i \<Rightarrow> Some (store\<lparr>ps_entries := (ps_entries store)[i :=
          \<lparr>ent_did = did, ent_length = of_nat (length data),
           ent_data = buf_write (replicate PARAM_STORE_VALUE_MAX 0) 0 data\<rparr>]\<rparr>))"

text \<open>The storage a store is kept in: the three functions of \<open>ParamStoreIo_t\<close> on a state \<open>'f\<close>
  behind their context.  \<open>None\<close> is a null pointer.\<close>

record 'f ParamStoreIo_t =
  io_read :: "(u32 \<Rightarrow> nat \<Rightarrow> 'f \<Rightarrow> u8 list option \<times> 'f) option"
  io_erase :: "('f \<Rightarrow> bool \<times> 'f) option"
  io_write :: "(u32 \<Rightarrow> u8 list \<Rightarrow> 'f \<Rightarrow> bool \<times> 'f) option"

definition ParamStore_Load :: "'f ParamStoreIo_t \<Rightarrow> ParamStore_t \<Rightarrow> 'f \<Rightarrow> bool \<times> ParamStore_t \<times> 'f" where
  "ParamStore_Load io store f =
     (case (io_read io, io_erase io, io_write io) of
        (Some rd, Some _, Some _) \<Rightarrow>
          (case rd 0 PARAM_STORE_IMAGE_SIZE f of
             (None, f1) \<Rightarrow> (False, ParamStore_Init, f1)
           | (Some img, f1) \<Rightarrow> let (ok, store1) = deserialize img in (ok, store1, f1))
      | _ \<Rightarrow> (False, store, f))"

text \<open>Writing an image and reading it back.\<close>

definition write_verified :: "(u32 \<Rightarrow> nat \<Rightarrow> 'f \<Rightarrow> u8 list option \<times> 'f) \<Rightarrow>
    (u32 \<Rightarrow> u8 list \<Rightarrow> 'f \<Rightarrow> bool \<times> 'f) \<Rightarrow> u32 \<Rightarrow> u8 list \<Rightarrow> 'f \<Rightarrow> bool \<times> 'f" where
  "write_verified rd wr offset img f =
     (let (written, f1) = wr offset img f in
      if \<not> written then (False, f1)
      else let (verification, f2) = rd offset PARAM_STORE_IMAGE_SIZE f1
           in (verification = Some img, f2))"

definition ParamStore_Set ::
  "'f ParamStoreIo_t \<Rightarrow> ParamStore_t \<Rightarrow> u16 \<Rightarrow> u8 list \<Rightarrow> 'f \<Rightarrow> bool \<times> ParamStore_t \<times> 'f" where
  "ParamStore_Set io store did data f =
     (case (io_read io, io_erase io, io_write io) of
        (Some rd, Some er, Some wr) \<Rightarrow>
          (case ParamStore_Update store did data of None \<Rightarrow> (False, store, f)
           | Some candidate \<Rightarrow>
             case serialize candidate of None \<Rightarrow> (False, store, f)
             | Some img \<Rightarrow>
               let (erased, f1) = er f in
               if \<not> erased then (False, store, f1)
               else let (written, f2) = write_verified rd wr 0 img f1
                    in (written, if written then candidate else store, f2))
      | _ \<Rightarrow> (False, store, f))"

subsection \<open>The table as a map\<close>

definition entry_value :: "ParamStoreEntry_t \<Rightarrow> u8 list" where
  "entry_value e = take (unat (ent_length e)) (ent_data e)"

text \<open>A slot is blank or carries a known identifier; identifiers in use are distinct.\<close>

definition entry_ok :: "ParamStoreEntry_t \<Rightarrow> bool" where
  "entry_ok e \<longleftrightarrow> length (ent_data e) = PARAM_STORE_VALUE_MAX \<and> unat (ent_length e) \<le> PARAM_STORE_VALUE_MAX \<and>
     (if ent_did e = 0 then ent_length e = 0 else known_did (ent_did e))"

definition used_dids :: "ParamStoreEntry_t list \<Rightarrow> u16 list" where
  "used_dids es = filter (\<lambda>d. d \<noteq> 0) (map ent_did es)"

definition store_ok :: "ParamStore_t \<Rightarrow> bool" where
  "store_ok store \<longleftrightarrow> length (ps_entries store) = PARAM_STORE_MAX_ENTRIES \<and>
     list_all entry_ok (ps_entries store) \<and> distinct (used_dids (ps_entries store))"

definition in_use :: "ParamStoreEntry_t list \<Rightarrow> ParamStoreEntry_t list" where
  "in_use es = filter (\<lambda>e. ent_length e \<noteq> 0) es"

text \<open>The abstract store.\<close>

definition param_map :: "ParamStore_t \<Rightarrow> u16 \<Rightarrow> u8 list option" where
  "param_map store = map_of (map (\<lambda>e. (ent_did e, entry_value e)) (in_use (ps_entries store)))"

lemma known_did_nonzero [simp]: "\<not> known_did 0"
  by (simp add: known_did_def g_param_store_dids_def)

lemma store_init_ok [simp]: "store_ok ParamStore_Init"
  by (simp add: store_ok_def ParamStore_Init_def blank_entry_def entry_ok_def used_dids_def list_all_iff
      PARAM_STORE_MAX_ENTRIES_def numeral_eq_Suc)

lemma init_map [simp]: "param_map ParamStore_Init = Map.empty"
  by (simp add: param_map_def ParamStore_Init_def in_use_def blank_entry_def)

lemma in_use_nonzero: "list_all entry_ok es \<Longrightarrow> e \<in> set (in_use es) \<Longrightarrow> ent_did e \<noteq> 0 \<and> known_did (ent_did e) \<and> entry_ok e"
  by (auto simp: in_use_def list_all_iff entry_ok_def split: if_splits)

lemma distinct_in_use:
  assumes "list_all entry_ok es" and "distinct (used_dids es)"
  shows "distinct (map ent_did (in_use es))"
  using assms
proof (induction es)
  case (Cons e es)
  have IH: "distinct (map ent_did (in_use es))"
    using Cons by (simp add: used_dids_def split: if_splits)
  show ?case
  proof (cases "ent_length e = 0")
    case True
    with IH show ?thesis by (simp add: in_use_def)
  next
    case False
    then have "ent_did e \<noteq> 0" using Cons.prems(1) by (auto simp: entry_ok_def)
    then have "ent_did e \<notin> ent_did ` set es" using Cons.prems(2) by (simp add: used_dids_def)
    then have "ent_did e \<notin> ent_did ` set (in_use es)" by (auto simp: in_use_def)
    with IH False show ?thesis by (simp add: in_use_def)
  qed
qed (simp add: in_use_def)

subsection \<open>Images\<close>

lemma get_put16 [simp]: "get_u16 (put_u16 v @ bs) = v"
proof -
  have "get_u16 (put_u16 v @ bs) = be16 (hi8 v) (lo8 v)"
    unfolding get_u16_def put_u16_def be16_def by (simp add: or.commute)
  then show ?thesis by simp
qed

lemma get_put32 [simp]: "get_u32 (put_u32 v @ bs) = v"
proof -
  have "get_u32 (put_u32 v @ bs) = be32 (byte_of32 3 v) (byte_of32 2 v) (byte_of32 1 v) (byte_of32 0 v)"
    unfolding get_u32_def put_u32_def be32_def by (simp add: or.assoc or.commute or.left_commute)
  then show ?thesis by (rule trans) (rule be32_bytes)
qed

lemma get_put32_end [simp]: "get_u32 (put_u32 v) = v"
  using get_put32 [of v "[]"] by simp

lemma length_put [simp]: "length (put_u16 v) = 2" "length (put_u32 w) = 4"
  by (simp_all add: put_u16_def put_u32_def)

text \<open>Writing at the end of a known prefix.\<close>

lemma buf_write_append:
  "length pre = off \<Longrightarrow> buf_write (pre @ rest) off bs = pre @ bs @ drop (length bs) rest"
  by (simp add: buf_write_def)

definition encoded_entry :: "ParamStoreEntry_t \<Rightarrow> u8 list" where
  "encoded_entry e = put_u16 (ent_did e) @ put_u16 (ucast (ent_length e)) @
     pad_to 18 0 (entry_value e)"

lemma length_encoded: "entry_ok e \<Longrightarrow> length (encoded_entry e) = 22"
  by (simp add: encoded_entry_def entry_ok_def entry_value_def PARAM_STORE_VALUE_MAX_def min_def)

lemma write_entry:
  assumes "entry_ok e" and "length pre = off" and "22 \<le> k"
  shows "buf_write (buf_write (buf_write (pre @ replicate k 0) off (put_u16 (ent_did e)))
           (off + 2) (put_u16 (ucast (ent_length e))))
           (off + 4) (take (unat (ent_length e)) (ent_data e)) =
    (pre @ encoded_entry e) @ replicate (k - 22) 0"
proof -
  have v: "length (entry_value e) \<le> 17"
    using assms(1) by (simp add: entry_ok_def entry_value_def PARAM_STORE_VALUE_MAX_def)
  have 1: "buf_write (pre @ replicate k 0) off (put_u16 (ent_did e)) =
      (pre @ put_u16 (ent_did e)) @ replicate (k - 2) 0"
    using assms(2) by (simp add: buf_write_append)
  have 2: "buf_write ((pre @ put_u16 (ent_did e)) @ replicate (k - 2) 0) (off + 2) (put_u16 (ucast (ent_length e))) =
      (pre @ put_u16 (ent_did e) @ put_u16 (ucast (ent_length e))) @ replicate (k - 4) 0"
    using assms(2) by (subst buf_write_append) simp_all
  have 3: "buf_write ((pre @ put_u16 (ent_did e) @ put_u16 (ucast (ent_length e))) @ replicate (k - 4) 0)
        (off + 4) (entry_value e) =
      (pre @ put_u16 (ent_did e) @ put_u16 (ucast (ent_length e))) @ entry_value e @
        replicate (k - 4 - length (entry_value e)) 0"
    using assms(2) by (subst buf_write_append) simp_all
  have "replicate (k - 4 - length (entry_value e)) (0 :: u8) =
      replicate (18 - length (entry_value e)) 0 @ replicate (k - 22) 0"
    using v assms(3) by (simp add: replicate_add [symmetric])
  then show ?thesis
    unfolding 1 2 entry_value_def [symmetric] 3 by (simp add: encoded_entry_def pad_to_def)
qed

lemma serialize_entries_layout:
  assumes "list_all entry_ok es" and "length pre = off" and "off + 22 * length (in_use es) \<le> 76"
    and "22 * length (in_use es) \<le> k"
  shows "serialize_entries es off c (pre @ replicate k 0) =
    Some (c + of_nat (length (in_use es)),
      pre @ concat (map encoded_entry (in_use es)) @ replicate (k - 22 * length (in_use es)) 0)"
  using assms
proof (induction es arbitrary: pre off c k)
  case Nil
  then show ?case by (simp add: in_use_def)
next
  case (Cons e es)
  show ?case
  proof (cases "ent_length e = 0")
    case True
    with Cons show ?thesis by (simp add: in_use_def)
  next
    case False
    then have used: "in_use (e # es) = e # in_use es" by (simp add: in_use_def)
    have ok: "entry_ok e" using Cons.prems(1) by simp
    have "known_did (ent_did e)" "unat (ent_length e) \<le> 17"
      using ok False by (auto simp: entry_ok_def PARAM_STORE_VALUE_MAX_def split: if_splits)
    moreover have "serialize_entries es (off + 22) (c + 1) ((pre @ encoded_entry e) @ replicate (k - 22) 0) =
        Some (c + 1 + of_nat (length (in_use es)),
          (pre @ encoded_entry e) @ concat (map encoded_entry (in_use es)) @
            replicate (k - 22 - 22 * length (in_use es)) 0)"
      using Cons.prems used length_encoded [OF ok] by (intro Cons.IH) simp_all
    moreover have "22 \<le> k" using Cons.prems(4) used by simp
    ultimately show ?thesis
      using False Cons.prems(2,3) used write_entry [OF ok Cons.prems(2)]
      by (simp add: param_sizes algebra_simps)
  qed
qed

text \<open>The image of a store: 76 bytes and their CRC.\<close>

definition image_body :: "ParamStoreEntry_t list \<Rightarrow> u8 list" where
  "image_body us = put_u32 PARAM_STORE_MAGIC @ put_u16 PARAM_STORE_VERSION @ put_u16 (of_nat (length us)) @
     concat (map encoded_entry us) @ replicate (68 - 22 * length us) 0"

lemma length_image_body:
  "list_all entry_ok us \<Longrightarrow> length us \<le> 3 \<Longrightarrow> length (image_body us) = 76"
proof -
  assume ok: "list_all entry_ok us" and n: "length us \<le> 3"
  have "length (concat (map encoded_entry us)) = 22 * length us"
    using ok by (induction us) (simp_all add: length_encoded)
  with n show ?thesis by (simp add: image_body_def)
qed

lemma in_use_ok: "store_ok store \<Longrightarrow> list_all entry_ok (in_use (ps_entries store)) \<and> length (in_use (ps_entries store)) \<le> 3"
  using length_filter_le [of "\<lambda>e. ent_length e \<noteq> 0" "ps_entries store"]
  by (auto simp: store_ok_def in_use_def list_all_iff PARAM_STORE_MAX_ENTRIES_def)

lemma serialize_layout:
  assumes "store_ok store"
  defines "us \<equiv> in_use (ps_entries store)"
  shows "serialize store = Some (image_body us @ put_u32 (param_crc32 (image_body us)))"
proof -
  let ?pre = "put_u32 PARAM_STORE_MAGIC @ put_u16 PARAM_STORE_VERSION @ [0, 0]"
  let ?rest = "concat (map encoded_entry us) @ replicate (72 - 22 * length us) 0"
  have us: "list_all entry_ok us" "length us \<le> 3" using in_use_ok [OF assms(1)] by (simp_all add: us_def)
  have r: "replicate PARAM_STORE_IMAGE_SIZE (0 :: u8) = [] @ replicate 80 0" by (simp add: PARAM_STORE_IMAGE_SIZE_def)
  have "buf_write (replicate PARAM_STORE_IMAGE_SIZE 0) 0 (put_u32 PARAM_STORE_MAGIC) =
      put_u32 PARAM_STORE_MAGIC @ replicate 76 0"
    unfolding r by (subst buf_write_append) simp_all
  then have "buf_write (buf_write (replicate PARAM_STORE_IMAGE_SIZE 0) 0 (put_u32 PARAM_STORE_MAGIC)) 4
      (put_u16 PARAM_STORE_VERSION) = (put_u32 PARAM_STORE_MAGIC @ put_u16 PARAM_STORE_VERSION) @ replicate 74 0"
    by (simp add: buf_write_append)
  also have "\<dots> = ?pre @ replicate 72 0" by (simp add: numeral_eq_Suc)
  finally have head: "buf_write (buf_write (replicate PARAM_STORE_IMAGE_SIZE 0) 0 (put_u32 PARAM_STORE_MAGIC)) 4
      (put_u16 PARAM_STORE_VERSION) = ?pre @ replicate 72 0" .
  have "serialize_entries (ps_entries store) 8 0 (?pre @ replicate 72 0) =
      Some (of_nat (length us), ?pre @ ?rest)"
    using serialize_entries_layout [of "ps_entries store" ?pre 8 72 0] us assms(1)
    by (simp add: store_ok_def us_def)
  moreover have "buf_write (?pre @ ?rest) 6 (put_u16 (of_nat (length us))) =
      (put_u32 PARAM_STORE_MAGIC @ put_u16 PARAM_STORE_VERSION) @ put_u16 (of_nat (length us)) @ ?rest"
  proof -
    have "?pre @ ?rest = (put_u32 PARAM_STORE_MAGIC @ put_u16 PARAM_STORE_VERSION) @ [0, 0] @ ?rest" by simp
    then show ?thesis by (simp only:) (subst buf_write_append, simp_all)
  qed
  moreover have "(put_u32 PARAM_STORE_MAGIC @ put_u16 PARAM_STORE_VERSION) @ put_u16 (of_nat (length us)) @ ?rest =
      image_body us @ replicate 4 0"
    using us(2) by (simp add: image_body_def replicate_add [symmetric])
  moreover have "buf_write (image_body us @ replicate 4 0) 76 (put_u32 w) = image_body us @ put_u32 w" for w
    using length_image_body [OF us] by (simp add: buf_write_append)
  ultimately show ?thesis
    using head length_image_body [OF us] by (simp add: serialize_def Let_def param_sizes)
qed

subsection \<open>Decoding an image\<close>

text \<open>What decoding makes of an entry: its value, and zeros behind it.\<close>

definition norm_entry :: "ParamStoreEntry_t \<Rightarrow> ParamStoreEntry_t" where
  "norm_entry e = \<lparr>ent_did = ent_did e, ent_length = ent_length e,
     ent_data = pad_to PARAM_STORE_VALUE_MAX 0 (entry_value e)\<rparr>"

definition table :: "ParamStoreEntry_t list \<Rightarrow> ParamStore_t" where
  "table es = \<lparr>ps_entries = es @ replicate (PARAM_STORE_MAX_ENTRIES - length es) blank_entry\<rparr>"

lemma find_entry_table:
  assumes "length es \<le> PARAM_STORE_MAX_ENTRIES" and "did \<noteq> 0" and "did \<notin> ent_did ` set es"
  shows "find_entry (table es) did = None"
proof -
  have "ent_did (ps_entries (table es) ! i) \<noteq> did" if "i < PARAM_STORE_MAX_ENTRIES" for i
    using assms that by (cases "i < length es") (auto simp: table_def nth_append blank_entry_def)
  then show ?thesis by (simp add: find_entry_def find_None_iff)
qed

lemma get_encoded:
  assumes "entry_ok e"
  shows "get_u16 (encoded_entry e @ bs) = ent_did e"
    and "get_u16 (drop 2 (encoded_entry e @ bs)) = ucast (ent_length e)"
    and "take (unat (ent_length e)) (drop 4 (encoded_entry e @ bs)) = entry_value e"
proof -
  show "get_u16 (encoded_entry e @ bs) = ent_did e" by (simp add: encoded_entry_def)
  show "get_u16 (drop 2 (encoded_entry e @ bs)) = ucast (ent_length e)" by (simp add: encoded_entry_def)
  have "length (entry_value e) = unat (ent_length e)" using assms by (simp add: entry_ok_def entry_value_def)
  then show "take (unat (ent_length e)) (drop 4 (encoded_entry e @ bs)) = entry_value e"
    by (simp add: encoded_entry_def pad_to_def)
qed

lemma table_next:
  assumes "length es < PARAM_STORE_MAX_ENTRIES"
  shows "ps_entries (table es) ! length es = blank_entry"
    and "(table es)\<lparr>ps_entries := (ps_entries (table es))[length es := x]\<rparr> = table (es @ [x])"
  using assms
  by (simp_all add: table_def nth_append list_update_append Suc_diff_Suc [symmetric] del: replicate_Suc)
    (simp add: Suc_diff_Suc [symmetric])

lemma deserialize_entries_layout:
  assumes "list_all entry_ok us" and "list_all (\<lambda>e. ent_length e \<noteq> 0) us" and "distinct (map ent_did (acc @ us))"
    and "length acc + length us \<le> PARAM_STORE_MAX_ENTRIES" and "drop off img = concat (map encoded_entry us) @ rest"
  shows "deserialize_entries (length us) (length acc) off img (table acc) = (True, table (acc @ map norm_entry us))"
  using assms
proof (induction us arbitrary: acc off)
  case Nil
  then show ?case by simp
next
  case (Cons e us)
  let ?more = "concat (map encoded_entry us) @ rest"
  have ok: "entry_ok e" "ent_length e \<noteq> 0" using Cons.prems(1,2) by simp_all
  then have known: "known_did (ent_did e)" "ent_did e \<noteq> 0" by (auto simp: entry_ok_def split: if_splits)
  have len: "unat (ent_length e) \<le> PARAM_STORE_VALUE_MAX" using ok by (simp add: entry_ok_def)
  have img: "drop off img = encoded_entry e @ ?more" using Cons.prems(5) by simp
  have d: "drop (off + 2) img = drop 2 (encoded_entry e @ ?more)" "drop (off + 4) img = drop 4 (encoded_entry e @ ?more)"
    by (metis add.commute drop_drop img)+
  have next_off: "drop (off + 22) img = ?more"
  proof -
    have "drop (off + 22) img = drop 22 (drop off img)" by (simp add: add.commute)
    then show ?thesis unfolding img using length_encoded [OF ok(1)] by simp
  qed
  have free: "find_entry (table acc) (ent_did e) = None"
    using Cons.prems(3,4) known by (intro find_entry_table) (auto simp: image_iff)
  have l: "ucast (ucast (ent_length e) :: u16) = ent_length e"
    by (rule word_unat_eq_iff [THEN iffD2]) (use unat_u8_le [of "ent_length e"] in \<open>simp add: unat_u16_u8\<close>)
  have v: "length (entry_value e) = unat (ent_length e)" using ok by (simp add: entry_ok_def entry_value_def)
  have "buf_write (ent_data blank_entry) 0 (entry_value e) = pad_to PARAM_STORE_VALUE_MAX 0 (entry_value e)"
    using v len by (simp add: buf_write_def blank_entry_def pad_to_def)
  then have entry: "blank_entry\<lparr>ent_did := ent_did e, ent_length := ent_length e,
      ent_data := buf_write (ent_data blank_entry) 0 (entry_value e)\<rparr> = norm_entry e"
    by (simp add: norm_entry_def blank_entry_def)
  have "deserialize_entries (length us) (length (acc @ [norm_entry e])) (off + 22) img (table (acc @ [norm_entry e])) =
      (True, table ((acc @ [norm_entry e]) @ map norm_entry us))"
    using Cons.prems next_off by (intro Cons.IH) (auto simp: norm_entry_def)
  then show ?case
    using get_encoded [OF ok(1), of ?more] img d known free len l entry table_next [of acc] Cons.prems(4)
    by (simp add: Let_def PARAM_STORE_ENTRY_SIZE_def)
qed

text \<open>Decoding inverts encoding on the table's map.\<close>

lemma deserialize_serialize:
  assumes "store_ok store" and "serialize store = Some img"
  shows "deserialize img = (True, table (map norm_entry (in_use (ps_entries store)))) \<and> length img = PARAM_STORE_IMAGE_SIZE"
proof -
  let ?us = "in_use (ps_entries store)"
  note us = in_use_ok [OF assms(1)]
  have img: "img = image_body ?us @ put_u32 (param_crc32 (image_body ?us))"
    using serialize_layout [OF assms(1)] assms(2) by simp
  have len: "length (image_body ?us) = 76" using length_image_body us by blast
  have n: "unat (of_nat (length ?us) :: u16) = length ?us" using us by (simp add: unat_of_nat)
  have count: "get_u16 (drop 6 img) = of_nat (length ?us)"
    by (simp add: img image_body_def)
  have version: "get_u16 (drop 4 img) = PARAM_STORE_VERSION" by (simp add: img image_body_def)
  have magic: "get_u32 img = PARAM_STORE_MAGIC" by (simp add: img image_body_def)
  have crc: "get_u32 (drop 76 img) = param_crc32 (take 76 img)" using len by (simp add: img)
  have rest: "drop 8 img = concat (map encoded_entry ?us) @ replicate (68 - 22 * length ?us) 0 @
      put_u32 (param_crc32 (image_body ?us))"
    by (simp add: img) (simp add: image_body_def)
  have "deserialize_entries (length ?us) (length ([] :: ParamStoreEntry_t list)) 8 img (table []) = (True, table ([] @ map norm_entry ?us))"
  proof (rule deserialize_entries_layout [OF _ _ _ _ rest])
    show "list_all (\<lambda>e. ent_length e \<noteq> 0) ?us" by (simp add: in_use_def list_all_iff)
    show "distinct (map ent_did ([] @ ?us))" using assms(1) distinct_in_use by (simp add: store_ok_def)
  qed (use us in \<open>simp_all add: PARAM_STORE_MAX_ENTRIES_def\<close>)
  then have "deserialize img = (True, table (map norm_entry ?us))"
    using magic version crc count n us
    by (simp add: deserialize_def param_sizes table_def ParamStore_Init_def)
  with len show ?thesis by (simp add: img PARAM_STORE_IMAGE_SIZE_def)
qed

lemma norm_value: "entry_ok e \<Longrightarrow> entry_value (norm_entry e) = entry_value e"
  by (simp add: entry_value_def norm_entry_def pad_to_def entry_ok_def)

lemma norm_ok: "entry_ok e \<Longrightarrow> entry_ok (norm_entry e)"
  by (simp add: entry_ok_def norm_entry_def entry_value_def)

lemma table_map:
  "list_all (\<lambda>e. ent_length e \<noteq> 0) us \<Longrightarrow> param_map (table us) = map_of (map (\<lambda>e. (ent_did e, entry_value e)) us)"
  by (simp add: param_map_def table_def in_use_def blank_entry_def list_all_iff)

lemma table_ok:
  assumes "list_all entry_ok us" and "length us \<le> PARAM_STORE_MAX_ENTRIES" and "distinct (map ent_did us)"
  shows "store_ok (table us)"
proof -
  have "entry_ok blank_entry" by (simp add: entry_ok_def blank_entry_def)
  with assms show ?thesis
    by (auto simp: store_ok_def table_def used_dids_def blank_entry_def list_all_iff distinct_map_filter
        filter_map o_def intro: distinct_filter)
qed

lemma decoded_store:
  assumes "store_ok store"
  defines "st' \<equiv> table (map norm_entry (in_use (ps_entries store)))"
  shows "store_ok st' \<and> param_map st' = param_map store"
proof -
  note us = in_use_ok [OF assms(1)]
  have d: "distinct (map ent_did (map norm_entry (in_use (ps_entries store))))"
    using assms(1) distinct_in_use by (simp add: store_ok_def o_def norm_entry_def)
  have "store_ok st'"
    unfolding st'_def using us norm_ok d
    by (intro table_ok) (auto simp: list_all_iff PARAM_STORE_MAX_ENTRIES_def)
  moreover have "param_map st' = param_map store"
    unfolding st'_def using us norm_value
    by (subst table_map) (auto simp: list_all_iff in_use_def norm_entry_def param_map_def o_def intro!: arg_cong [where f = map_of])
  ultimately show ?thesis ..
qed

subsection \<open>Updates and lookups on the map\<close>

lemma three_entries:
  assumes "store_ok store"
  obtains a b c where "store = \<lparr>ps_entries = [a, b, c]\<rparr>" "entry_ok a" "entry_ok b" "entry_ok c"
    "ent_did a \<noteq> 0 \<longrightarrow> ent_did a \<noteq> ent_did b \<and> ent_did a \<noteq> ent_did c" "ent_did b \<noteq> 0 \<longrightarrow> ent_did b \<noteq> ent_did c"
proof -
  have "length (ps_entries store) = 3" using assms by (simp add: store_ok_def PARAM_STORE_MAX_ENTRIES_def)
  then obtain a b c where es: "ps_entries store = [a, b, c]"
    by (auto simp: numeral_eq_Suc length_Suc_conv)
  have "list_all entry_ok [a, b, c]" "distinct (used_dids [a, b, c])"
    using assms es by (simp_all add: store_ok_def)
  then show ?thesis
    by (intro that [of a b c]) (auto simp: es used_dids_def split: if_splits intro: ParamStore_t.equality)
qed

lemma find_three:
  "find_entry \<lparr>ps_entries = [a, b, c]\<rparr> did =
    (if ent_did a = did then Some 0 else if ent_did b = did then Some 1 else if ent_did c = did then Some 2 else None)"
  by (simp add: find_entry_def PARAM_STORE_MAX_ENTRIES_def upt_rec numeral_eq_Suc)

lemma free_three:
  "free_entry \<lparr>ps_entries = [a, b, c]\<rparr> =
    (if ent_length a = 0 then Some 0 else if ent_length b = 0 then Some 1 else if ent_length c = 0 then Some 2 else None)"
  by (simp add: free_entry_def PARAM_STORE_MAX_ENTRIES_def upt_rec numeral_eq_Suc)

lemma map_three:
  "param_map \<lparr>ps_entries = [a, b, c]\<rparr> did =
    (if ent_length a \<noteq> 0 \<and> ent_did a = did then Some (entry_value a)
     else if ent_length b \<noteq> 0 \<and> ent_did b = did then Some (entry_value b)
     else if ent_length c \<noteq> 0 \<and> ent_did c = did then Some (entry_value c) else None)"
  by (simp add: param_map_def in_use_def)

definition new_entry :: "u16 \<Rightarrow> u8 list \<Rightarrow> ParamStoreEntry_t" where
  "new_entry did data = \<lparr>ent_did = did, ent_length = of_nat (length data),
     ent_data = buf_write (replicate PARAM_STORE_VALUE_MAX 0) 0 data\<rparr>"

lemma new_entry_props:
  assumes "data \<noteq> []" and "length data \<le> PARAM_STORE_VALUE_MAX" and "known_did did"
  shows "entry_ok (new_entry did data)" and "entry_value (new_entry did data) = data"
    and "ent_length (new_entry did data) \<noteq> 0" and "ent_did (new_entry did data) = did"
proof -
  have n: "unat (of_nat (length data) :: u8) = length data"
    using assms(2) by (simp add: unat_of_nat PARAM_STORE_VALUE_MAX_def)
  then show "entry_ok (new_entry did data)"
    using assms by (auto simp: entry_ok_def new_entry_def)
  show "entry_value (new_entry did data) = data"
    using n assms(2) take_buf_write [of 0 data "replicate PARAM_STORE_VALUE_MAX (0 :: u8)"]
    by (simp add: entry_value_def new_entry_def)
  show "ent_length (new_entry did data) \<noteq> 0"
    using n assms(1) by (auto simp: new_entry_def word_unat_eq_iff)
qed (simp add: new_entry_def)

text \<open>An update is refused exactly when the value or the identifier is unacceptable; otherwise a
  slot is found: at most three known identifiers share three slots.\<close>

lemma update_slot:
  assumes "store_ok store" and "known_did did"
  shows "(case find_entry store did of None \<Rightarrow> free_entry store | found \<Rightarrow> found) \<noteq> None"
proof -
  obtain a b c where s: "store = \<lparr>ps_entries = [a, b, c]\<rparr>" "entry_ok a" "entry_ok b" "entry_ok c"
    "ent_did a \<noteq> 0 \<longrightarrow> ent_did a \<noteq> ent_did b \<and> ent_did a \<noteq> ent_did c" "ent_did b \<noteq> 0 \<longrightarrow> ent_did b \<noteq> ent_did c"
    using three_entries [OF assms(1)] .
  show ?thesis
  proof (rule ccontr)
    assume none: "\<not> ?thesis"
    then have free: "ent_length a \<noteq> 0" "ent_length b \<noteq> 0" "ent_length c \<noteq> 0"
      and miss: "ent_did a \<noteq> did" "ent_did b \<noteq> did" "ent_did c \<noteq> did"
      by (auto simp: s(1) find_three free_three split: if_splits)
    have kn: "known_did (ent_did a)" "known_did (ent_did b)" "known_did (ent_did c)"
      "ent_did a \<noteq> 0" "ent_did b \<noteq> 0" "ent_did c \<noteq> 0"
      using s(2-4) free by (auto simp: entry_ok_def split: if_splits)
    then have "card {did, ent_did a, ent_did b, ent_did c} = 4" using s(5,6) miss by auto
    moreover have "{did, ent_did a, ent_did b, ent_did c} \<subseteq> set g_param_store_dids"
      using kn assms(2) by (auto simp: known_did_def)
    then have "card {did, ent_did a, ent_did b, ent_did c} \<le> card (set g_param_store_dids)"
      by (intro card_mono) simp_all
    moreover have "card (set g_param_store_dids) \<le> 3"
      using card_length [of g_param_store_dids] by (simp add: g_param_store_dids_def)
    ultimately show False by simp
  qed
qed

lemma update_refused:
  "data = [] \<or> PARAM_STORE_VALUE_MAX < length data \<or> \<not> known_did did \<Longrightarrow> ParamStore_Update store did data = None"
  by (auto simp: ParamStore_Update_def)

lemma update_refines:
  assumes "store_ok store" and data: "data \<noteq> []" "length data \<le> PARAM_STORE_VALUE_MAX" and known: "known_did did"
  shows "\<exists>store'. ParamStore_Update store did data = Some store' \<and> store_ok store' \<and>
        param_map store' = (param_map store)(did \<mapsto> data)"
proof -
  obtain a b c where s: "store = \<lparr>ps_entries = [a, b, c]\<rparr>" "entry_ok a" "entry_ok b" "entry_ok c"
    "ent_did a \<noteq> 0 \<longrightarrow> ent_did a \<noteq> ent_did b \<and> ent_did a \<noteq> ent_did c" "ent_did b \<noteq> 0 \<longrightarrow> ent_did b \<noteq> ent_did c"
    using three_entries [OF assms(1)] .
  note new = new_entry_props [OF data known]
  have nz: "did \<noteq> 0" using known known_did_nonzero by blast
  obtain i where i: "(case find_entry store did of None \<Rightarrow> free_entry store | found \<Rightarrow> found) = Some i"
    using update_slot [OF assms(1) known] by auto
  let ?s' = "\<lparr>ps_entries = [a, b, c][i := new_entry did data]\<rparr>"
  have "ParamStore_Update store did data = Some (store\<lparr>ps_entries := (ps_entries store)[i := new_entry did data]\<rparr>)"
    using i data known by (simp add: ParamStore_Update_def new_entry_def)
  then have u: "ParamStore_Update store did data = Some ?s'" by (simp only: s(1) ParamStore_t.simps)
  have cases: "i = 0 \<and> ?s' = \<lparr>ps_entries = [new_entry did data, b, c]\<rparr> \<and> ent_did b \<noteq> did \<and> ent_did c \<noteq> did \<and> (ent_did a = did \<or> ent_length a = 0) \<or>
      i = 1 \<and> ?s' = \<lparr>ps_entries = [a, new_entry did data, c]\<rparr> \<and> ent_did a \<noteq> did \<and> ent_did c \<noteq> did \<and> (ent_did b = did \<or> ent_length b = 0) \<or>
      i = 2 \<and> ?s' = \<lparr>ps_entries = [a, b, new_entry did data]\<rparr> \<and> ent_did a \<noteq> did \<and> ent_did b \<noteq> did \<and> (ent_did c = did \<or> ent_length c = 0)"
    using i s(5,6) nz by (auto simp: s(1) find_three free_three numeral_eq_Suc split: if_splits)
  have "store_ok ?s'"
    using cases s new nz by (auto simp: store_ok_def used_dids_def PARAM_STORE_MAX_ENTRIES_def)
  moreover have "param_map ?s' x = ((param_map store)(did \<mapsto> data)) x" for x
    using cases new by (auto simp: s(1) map_three)
  then have "param_map ?s' = (param_map store)(did \<mapsto> data)" by (rule ext)
  ultimately show "\<exists>store'. ParamStore_Update store did data = Some store' \<and> store_ok store' \<and>
        param_map store' = (param_map store)(did \<mapsto> data)"
    using u by blast
qed

lemma get_refines:
  assumes "store_ok store" and "did \<noteq> 0"
  shows "ParamStore_Get store did cap =
    (case find_entry store did of None \<Rightarrow> None
     | Some i \<Rightarrow> let v = (case param_map store did of Some v \<Rightarrow> v | None \<Rightarrow> []) in
                 if unat cap < length v then None else Some v)"
proof -
  obtain a b c where s: "store = \<lparr>ps_entries = [a, b, c]\<rparr>" "entry_ok a" "entry_ok b" "entry_ok c"
    "ent_did a \<noteq> 0 \<longrightarrow> ent_did a \<noteq> ent_did b \<and> ent_did a \<noteq> ent_did c" "ent_did b \<noteq> 0 \<longrightarrow> ent_did b \<noteq> ent_did c"
    using three_entries [OF assms(1)] .
  have len: "entry_ok e \<Longrightarrow> length (entry_value e) = unat (ent_length e)" for e
    by (simp add: entry_ok_def entry_value_def)
  show ?thesis
    using s(2-6) assms(2) len [of a] len [of b] len [of c]
    by (auto simp: s(1) ParamStore_Get_def find_three map_three entry_value_def Let_def word_less_nat_alt)
qed

text \<open>A value that is in the map is returned; a non-empty value that is returned is in the map.\<close>

lemma get_value:
  assumes "store_ok store" and "param_map store did = Some v" and "length v \<le> unat cap"
  shows "ParamStore_Get store did cap = Some v"
proof -
  obtain a b c where s: "store = \<lparr>ps_entries = [a, b, c]\<rparr>" "entry_ok a" "entry_ok b" "entry_ok c"
    using three_entries [OF assms(1)] by metis
  have nz: "did \<noteq> 0" using assms(2) s by (auto simp: map_three entry_ok_def split: if_splits)
  have "find_entry store did \<noteq> None" using assms(2) by (auto simp: s(1) find_three map_three split: if_splits)
  with get_refines [OF assms(1) nz, of cap] assms(2,3) show ?thesis by (auto simp: Let_def)
qed

subsection \<open>The CRC notices every changed byte\<close>

lemma crc_bit_top: "bit (crc_bit x) 31 \<longleftrightarrow> bit x 0"
proof -
  have "bit (0xEDB88320 :: u32) 31" by code_simp
  then show ?thesis by (auto simp: crc_bit_def bit_simps and_one_eq odd_iff_mod_2_eq_one [symmetric] bit_0
        dest: bit_imp_le_length)
qed

lemma crc_bit_inj: "crc_bit x = crc_bit y \<Longrightarrow> x = y"
proof -
  assume eq: "crc_bit x = crc_bit y"
  then have low: "bit x 0 \<longleftrightarrow> bit y 0" using crc_bit_top by metis
  have odd: "x AND 1 \<noteq> 0 \<longleftrightarrow> y AND 1 \<noteq> 0" using low by (simp add: and_one_eq bit_0 odd_iff_mod_2_eq_one)
  have "drop_bit 1 x = drop_bit 1 y"
  proof (cases "x AND 1 \<noteq> 0")
    case True
    then have "drop_bit 1 x XOR 0xEDB88320 = drop_bit 1 y XOR 0xEDB88320" using eq odd by (simp add: crc_bit_def)
    then have "(drop_bit 1 x XOR 0xEDB88320) XOR 0xEDB88320 = (drop_bit 1 y XOR 0xEDB88320) XOR 0xEDB88320" by simp
    then show ?thesis by (simp only: xor.assoc xor_self_eq xor.right_neutral)
  next
    case False
    then show ?thesis using eq odd by (simp add: crc_bit_def)
  qed
  then have up: "bit x (Suc n) \<longleftrightarrow> bit y (Suc n)" for n
    by (metis bit_drop_bit_eq comp_apply plus_1_eq_Suc)
  show "x = y"
  proof (rule bit_word_eqI)
    fix n show "bit x n \<longleftrightarrow> bit y n" using low up by (cases n) auto
  qed
qed

lemma crc_bits_inj: "(crc_bit ^^ n) x = (crc_bit ^^ n) y \<Longrightarrow> x = y"
  by (induction n) (auto dest: crc_bit_inj)

lemma xor_same: "x XOR c = y XOR c \<Longrightarrow> x = y" for x :: "'a::len word"
  by (metis xor.assoc xor.right_neutral xor_self_eq)

lemma crc_byte_inj:
  "crc_byte c b = crc_byte c' b \<Longrightarrow> c = c'"
  "crc_byte c b = crc_byte c b' \<Longrightarrow> b = b'"
proof -
  assume "crc_byte c b = crc_byte c' b"
  then have "c XOR ucast b = c' XOR ucast b" unfolding crc_byte_def by (rule crc_bits_inj)
  then show "c = c'" by (rule xor_same)
next
  assume "crc_byte c b = crc_byte c b'"
  then have "ucast b XOR c = ucast b' XOR (c :: u32)" unfolding crc_byte_def xor.commute [of c] by (rule crc_bits_inj)
  then have "(ucast b :: u32) = ucast b'" by (rule xor_same)
  then show "b = b'" by (metis unat_u8_u32 word_unat_eq_iff)
qed

lemma crc_fold_inj: "foldl crc_byte c bs = foldl crc_byte c' bs \<Longrightarrow> c = c'"
  by (induction bs arbitrary: c c') (auto dest: crc_byte_inj(1))

lemma crc_changed_byte:
  assumes "i < length bs" and "b \<noteq> bs ! i"
  shows "param_crc32 (bs[i := b]) \<noteq> param_crc32 bs"
proof
  assume "param_crc32 (bs[i := b]) = param_crc32 bs"
  then have "foldl crc_byte 0xFFFFFFFF (bs[i := b]) = foldl crc_byte 0xFFFFFFFF bs"
    unfolding param_crc32_def by (metis bit.double_compl)
  then have "foldl crc_byte (crc_byte (foldl crc_byte 0xFFFFFFFF (take i bs)) b) (drop (Suc i) bs) =
      foldl crc_byte (crc_byte (foldl crc_byte 0xFFFFFFFF (take i bs)) (bs ! i)) (drop (Suc i) bs)"
    using assms(1) by (simp add: upd_conv_take_nth_drop)
      (metis foldl_Cons foldl_append id_take_nth_drop)
  then have "b = bs ! i" using crc_fold_inj crc_byte_inj(2) by blast
  with assms(2) show False by contradiction
qed

lemma get_u32_bytes:
  assumes "length bs = 4"
  shows "byte_of32 0 (get_u32 bs) = bs ! 0 \<and> byte_of32 1 (get_u32 bs) = bs ! 1 \<and>
    byte_of32 2 (get_u32 bs) = bs ! 2 \<and> byte_of32 3 (get_u32 bs) = bs ! 3"
  unfolding byte_of32_def get_u32_def
  by (intro conjI; rule bit_word_eqI; auto simp: bit_simps dest: bit_imp_le_length)

lemma get_u32_changed:
  assumes "length bs = 4" and "i < 4" and "b \<noteq> bs ! i"
  shows "get_u32 (bs[i := b]) \<noteq> get_u32 bs"
proof
  assume "get_u32 (bs[i := b]) = get_u32 bs"
  moreover have "i = 0 \<or> i = 1 \<or> i = 2 \<or> i = 3" using assms(2) by auto
  ultimately show False
    using get_u32_bytes [of "bs[i := b]"] get_u32_bytes [OF assms(1)] assms(1,3) by auto
qed

subsection \<open>Decoding any accepted image\<close>

lemma table_distinct_find:
  assumes "length es \<le> PARAM_STORE_MAX_ENTRIES" and "find_entry (table es) did = None"
  shows "did \<notin> ent_did ` set es"
proof
  assume "did \<in> ent_did ` set es"
  then obtain i where i: "i < length es" "ent_did (es ! i) = did" by (auto simp: in_set_conv_nth)
  then have "i < PARAM_STORE_MAX_ENTRIES" "ent_did (ps_entries (table es) ! i) = did"
    using assms(1) by (auto simp: table_def nth_append)
  with assms(2) show False by (auto simp: find_entry_def find_None_iff)
qed

lemma deserialize_entries_ok:
  assumes "deserialize_entries n (length acc) off img (table acc) = (True, store)"
    and "list_all entry_ok acc" and "distinct (map ent_did acc)" and "length acc + n \<le> PARAM_STORE_MAX_ENTRIES"
  shows "store_ok store"
  using assms
proof (induction n arbitrary: acc off)
  case 0
  then show ?case using table_ok [of acc] by auto
next
  case (Suc n)
  let ?did = "get_u16 (drop off img)" and ?len = "get_u16 (drop (off + 2) img)"
  let ?e = "blank_entry\<lparr>ent_did := ?did, ent_length := ucast ?len,
    ent_data := buf_write (ent_data blank_entry) 0 (take (unat ?len) (drop (off + 4) img))\<rparr>"
  have c: "unat ?len \<le> 17" "known_did ?did" "find_entry (table acc) ?did = None"
    using Suc.prems(1) by (auto simp: PARAM_STORE_VALUE_MAX_def Let_def split: if_splits)
  have fresh: "?did \<notin> ent_did ` set acc" using Suc.prems(4) c(3) by (intro table_distinct_find) simp_all
  have "deserialize_entries n (length (acc @ [?e])) (off + 22) img (table (acc @ [?e])) = (True, store)"
    using Suc.prems(1,4) c table_next [of acc]
    by (simp add: PARAM_STORE_VALUE_MAX_def PARAM_STORE_ENTRY_SIZE_def Let_def)
  moreover have "entry_ok ?e"
    using c(1,2) by (auto simp: entry_ok_def blank_entry_def PARAM_STORE_VALUE_MAX_def unat_u16_u8)
  ultimately show ?case
    using Suc.prems(2-4) fresh by (intro Suc.IH [of "acc @ [?e]"]) auto
qed

lemma decode_ok: "ParamStore_Decode img = (True, store) \<Longrightarrow> store_ok store"
  using deserialize_entries_ok [of "unat (get_u16 (drop 6 img))" "[]" 8 img store]
  by (auto simp: ParamStore_Decode_def deserialize_def Let_def table_def ParamStore_Init_def
      PARAM_STORE_HEADER_SIZE_def split: if_splits)

subsection \<open>Claims\<close>

text \<open>The store behaves as a map from the three known identifiers to non-empty values of at
  most 17 bytes: an update is refused exactly for an unacceptable identifier or value (the table
  is never full for a known one), otherwise it changes that one entry of the map, and a lookup
  returns the value stored.\<close>

theorem param_store_refines_map:
  assumes "store_ok store"
  shows "case ParamStore_Update store did data of
      None \<Rightarrow> data = [] \<or> 17 < length data \<or> did \<notin> {0xF190, 0xF191, 0x0100}
    | Some store' \<Rightarrow> store_ok store' \<and> param_map store' = (param_map store)(did \<mapsto> data) \<and>
        ParamStore_Get store' did 17 = Some data"
proof (cases "data = [] \<or> 17 < length data \<or> \<not> known_did did")
  case True
  then have "data = [] \<or> 17 < length data \<or> did \<notin> {0xF190, 0xF191, 0x0100}"
    by (auto simp: known_did_def g_param_store_dids_def)
  moreover from True have "ParamStore_Update store did data = None"
    by (intro update_refused) (auto simp: PARAM_STORE_VALUE_MAX_def)
  ultimately show ?thesis by simp
next
  case False
  then obtain store' where "ParamStore_Update store did data = Some store'" "store_ok store'"
    "param_map store' = (param_map store)(did \<mapsto> data)"
    using update_refines [OF assms, of data did] by (auto simp: PARAM_STORE_VALUE_MAX_def)
  with get_value [of store' did data 17] False show ?thesis by simp
qed

theorem param_store_refines_map_witness:
  "ParamStore_Get (the (ParamStore_Update ParamStore_Init 0x0100 [1, 2])) 0x0100 17 = Some [1, 2]"
  using param_store_refines_map [OF store_init_ok, of "[1, 2]" "0x0100"] by (auto split: option.splits)

text \<open>C34: Every well-formed store can be encoded, into 80 bytes, and decoding them gives a
  well-formed store with the same map.\<close>

theorem param_image_roundtrip:
  assumes "store_ok store"
  shows "\<exists>img store'. ParamStore_Encode store = Some img \<and> length img = 80 \<and>
    ParamStore_Decode img = (True, store') \<and> store_ok store' \<and> param_map store' = param_map store"
proof -
  obtain img where "serialize store = Some img" using serialize_layout [OF assms] by blast
  with deserialize_serialize [OF assms this] decoded_store [OF assms] show ?thesis
    by (auto simp: ParamStore_Encode_def ParamStore_Decode_def PARAM_STORE_IMAGE_SIZE_def)
qed

theorem param_image_roundtrip_witness:
  "\<exists>img store'. ParamStore_Encode ParamStore_Init = Some img \<and> ParamStore_Decode img = (True, store') \<and>
     param_map store' = Map.empty"
  using param_image_roundtrip [OF store_init_ok] by fastforce

text \<open>C35: No corruption of a single byte goes unnoticed: an accepted image in which any one of the
  80 bytes is changed is rejected.\<close>

theorem corrupted_byte_rejected:
  assumes "fst (ParamStore_Decode img)" and "length img = 80" and "i < 80" and "b \<noteq> img ! i"
  shows "ParamStore_Decode (img[i := b]) = (False, ParamStore_Init)"
proof -
  have crc: "get_u32 (drop 76 img) = param_crc32 (take 76 img)"
    using assms(1) by (auto simp: ParamStore_Decode_def deserialize_def PARAM_STORE_CRC_OFFSET_def split: if_splits)
  have "get_u32 (drop 76 (img[i := b])) \<noteq> param_crc32 (take 76 (img[i := b]))"
  proof (cases "i < 76")
    case True
    with crc assms(2,4) crc_changed_byte [of i "take 76 img" b] show ?thesis
      by (simp add: drop_update_cancel take_update_swap)
  next
    case False
    with crc assms(2-4) get_u32_changed [of "drop 76 img" "i - 76" b] show ?thesis
      by (simp add: drop_update_swap take_update_cancel)
  qed
  then show ?thesis by (simp add: ParamStore_Decode_def deserialize_def PARAM_STORE_CRC_OFFSET_def)
qed

theorem corrupted_byte_rejected_witness:
  "\<exists>img. ParamStore_Encode ParamStore_Init = Some img \<and>
     ParamStore_Decode (img[7 := img ! 7 XOR 1]) = (False, ParamStore_Init)"
proof -
  obtain img where img: "serialize ParamStore_Init = Some img" using serialize_layout [OF store_init_ok] by blast
  have "img ! 7 XOR 1 \<noteq> img ! 7"
  proof
    assume "img ! 7 XOR 1 = img ! 7"
    then have "1 XOR img ! 7 = 0 XOR img ! 7" by (simp add: xor.commute)
    then have "(1 :: u8) = 0" by (rule xor_same)
    then show False by simp
  qed
  with corrupted_byte_rejected [of img 7] deserialize_serialize [OF store_init_ok img] img show ?thesis
    by (auto simp: ParamStore_Encode_def ParamStore_Decode_def PARAM_STORE_IMAGE_SIZE_def)
qed

end
