(* ===== verification/ParamLog.thy ===== *)
theory ParamLog
  imports ParamStore
begin

section \<open>The parameter log\<close>

text \<open>
  \<open>firmware/common/param_log.c\<close>: images appended slot by slot, the last valid one counts, and a
  full or damaged log is compacted at the next start.  \<open>param_flash\<close> is what the log asks of the
  storage functions: reads return the cells, a write touches its slice only and puts the bytes
  there if it reports success, an erase that reports success leaves all cells erased.  Inside it:
  every start leaves the log in agreement with the flash, every successful write keeps it so, and
  a restart finds the last successful write again.
\<close>

definition PARAM_LOG_MAX_SLOTS :: u16 where "PARAM_LOG_MAX_SLOTS = 1638"

record ParamLog_t =
  log_store :: ParamStore_t
  log_next_slot :: u16
  log_slot_count :: u16

definition slot_offset :: "u16 \<Rightarrow> u32" where
  "slot_offset slot = ucast slot * of_nat PARAM_STORE_IMAGE_SIZE"

definition image_is_erased :: "u8 list \<Rightarrow> bool" where
  "image_is_erased img \<longleftrightarrow> list_all (\<lambda>b. b = 0xFF) (take PARAM_STORE_IMAGE_SIZE img)"

definition ParamLog_Init :: ParamLog_t where
  "ParamLog_Init = \<lparr>log_store = ParamStore_Init, log_next_slot = 0, log_slot_count = 0\<rparr>"

text \<open>The scan over the slots: it ends at an erased slot (\<open>Some True\<close>), a failed read
  (\<open>Some False\<close>), or with the log to be compacted (\<open>None\<close>); \<open>latest\<close> is the last valid image.\<close>

fun scan_slots ::
  "(u32 \<Rightarrow> nat \<Rightarrow> 'f \<Rightarrow> u8 list option \<times> 'f) \<Rightarrow> nat \<Rightarrow> u16 \<Rightarrow> ParamLog_t \<Rightarrow> u8 list option \<Rightarrow> 'f \<Rightarrow>
    bool option \<times> ParamLog_t \<times> u8 list option \<times> 'f" where
  "scan_slots rd 0 slot log latest f = (None, log, latest, f)"
| "scan_slots rd (Suc n) slot log latest f =
     (case rd (slot_offset slot) PARAM_STORE_IMAGE_SIZE f of
        (None, f1) \<Rightarrow> (Some False, log, latest, f1)
      | (Some img, f1) \<Rightarrow>
        if image_is_erased img then (Some True, log\<lparr>log_next_slot := slot\<rparr>, latest, f1)
        else case ParamStore_Decode img of
          (True, candidate) \<Rightarrow>
            scan_slots rd n (slot + 1) (log\<lparr>log_store := candidate, log_next_slot := slot + 1\<rparr>) (Some img) f1
        | (False, _) \<Rightarrow> (None, log, latest, f1))"

definition compact ::
  "(u32 \<Rightarrow> nat \<Rightarrow> 'f \<Rightarrow> u8 list option \<times> 'f) \<Rightarrow> ('f \<Rightarrow> bool \<times> 'f) \<Rightarrow> (u32 \<Rightarrow> u8 list \<Rightarrow> 'f \<Rightarrow> bool \<times> 'f) \<Rightarrow>
    u16 \<Rightarrow> ParamLog_t \<Rightarrow> u8 list option \<Rightarrow> 'f \<Rightarrow> bool \<times> ParamLog_t \<times> 'f" where
  "compact rd er wr slot_count log latest f =
     (let (erased, f1) = er f in
      if \<not> erased then (False, ParamLog_Init, f1)
      else let log1 = log\<lparr>log_slot_count := slot_count\<rparr> in
      case latest of None \<Rightarrow> (True, log1, f1)
      | Some img \<Rightarrow>
        let (written, f2) = write_verified rd wr 0 img f1 in
        if written then (True, log1\<lparr>log_next_slot := 1\<rparr>, f2) else (False, ParamLog_Init, f2))"

definition ParamLog_Load ::
  "'f ParamStoreIo_t \<Rightarrow> u16 \<Rightarrow> ParamLog_t \<Rightarrow> 'f \<Rightarrow> bool \<times> ParamLog_t \<times> 'f" where
  "ParamLog_Load io slot_count log f =
     (case (io_read io, io_erase io, io_write io) of
        (Some rd, Some er, Some wr) \<Rightarrow>
          (if slot_count = 0 \<or> PARAM_LOG_MAX_SLOTS < slot_count then (False, log, f)
           else case scan_slots rd (unat slot_count) 0 (ParamLog_Init\<lparr>log_slot_count := slot_count\<rparr>) None f of
             (Some ok, log1, latest, f1) \<Rightarrow> (ok, log1, f1)
           | (None, log1, latest, f1) \<Rightarrow> compact rd er wr slot_count log1 latest f1)
      | _ \<Rightarrow> (False, log, f))"

definition ParamLog_Get :: "ParamLog_t \<Rightarrow> u16 \<Rightarrow> u16 \<Rightarrow> u8 list option" where
  "ParamLog_Get log did capacity = ParamStore_Get (log_store log) did capacity"

text \<open>Appending the image of a store.\<close>

definition append_image ::
  "'f ParamStoreIo_t \<Rightarrow> ParamLog_t \<Rightarrow> ParamStore_t \<Rightarrow> 'f \<Rightarrow> bool \<times> ParamLog_t \<times> 'f" where
  "append_image io log candidate f =
     (case (io_read io, io_write io) of
        (Some rd, Some wr) \<Rightarrow>
          (case ParamStore_Encode candidate of None \<Rightarrow> (False, log, f)
           | Some img \<Rightarrow>
             let (written, f1) = write_verified rd wr (slot_offset (log_next_slot log)) img f in
             if written then (True, log\<lparr>log_store := candidate, log_next_slot := log_next_slot log + 1\<rparr>, f1)
             else (False, log, f1))
      | _ \<Rightarrow> (False, log, f))"

definition ParamLog_Set ::
  "'f ParamStoreIo_t \<Rightarrow> ParamLog_t \<Rightarrow> u16 \<Rightarrow> u8 list \<Rightarrow> 'f \<Rightarrow> bool \<times> ParamLog_t \<times> 'f" where
  "ParamLog_Set io log did data f =
     (if io_read io = None \<or> io_write io = None \<or> log_slot_count log \<le> log_next_slot log then (False, log, f)
      else case ParamStore_Update (log_store log) did data of None \<Rightarrow> (False, log, f)
      | Some candidate \<Rightarrow> append_image io log candidate f)"

definition ParamLog_Clear :: "'f ParamStoreIo_t \<Rightarrow> ParamLog_t \<Rightarrow> 'f \<Rightarrow> bool \<times> ParamLog_t \<times> 'f" where
  "ParamLog_Clear io log f =
     (if io_read io = None \<or> io_write io = None \<or> log_slot_count log \<le> log_next_slot log then (False, log, f)
      else append_image io log ParamStore_Init f)"

lemma append_next:
  "append_image io log cand f = (True, log', f') \<Longrightarrow> log_next_slot log' = log_next_slot log + 1 \<and> log_slot_count log' = log_slot_count log"
  by (auto simp: append_image_def split: option.splits prod.splits if_splits)

lemma set_next:
  "ParamLog_Set io log did data f = (True, log', f') \<Longrightarrow> log_next_slot log' = log_next_slot log + 1 \<and> log_slot_count log' = log_slot_count log"
  by (auto simp: ParamLog_Set_def dest: append_next split: option.splits if_splits)

lemma set_valid:
  "ParamLog_Set io log did data f = (True, log', f') \<Longrightarrow> data \<noteq> [] \<and> length data \<le> PARAM_STORE_VALUE_MAX \<and> known_did did"
  using update_refused [of data did "log_store log"] by (fastforce simp: ParamLog_Set_def split: option.splits if_splits)

subsection \<open>Slots\<close>

definition slot_image :: "u8 list \<Rightarrow> nat \<Rightarrow> u8 list" where
  "slot_image cells i = take 80 (drop (80 * i) cells)"

lemma unat_slot_offset: "slot < 2000 \<Longrightarrow> unat (slot_offset slot) = 80 * unat slot"
proof -
  assume "slot < 2000"
  then have "unat slot < 2000" by (simp add: word_less_nat_alt)
  then show ?thesis
    by (simp add: slot_offset_def PARAM_STORE_IMAGE_SIZE_def unat_word_ariths)
qed

lemma slot_image_same:
  assumes "take off cells' = take off cells" and "80 * i + 80 \<le> off"
  shows "slot_image cells' i = slot_image cells i"
proof -
  have "take 80 (drop (80 * i) (take off xs)) = slot_image xs i" for xs :: "u8 list"
    using assms(2) by (simp add: slot_image_def take_drop min_def add.commute)
  then show ?thesis using assms(1) by metis
qed

lemma slot_image_same_after:
  assumes "drop off cells' = drop off cells" and "off \<le> 80 * i"
  shows "slot_image cells' i = slot_image cells i"
proof -
  have "drop (80 * i) xs = drop (80 * i - off) (drop off xs)" for xs :: "u8 list"
    using assms(2) by simp
  then show ?thesis using assms(1) by (metis slot_image_def)
qed

definition erased_image :: "u8 list" where
  "erased_image = replicate 80 0xFF"

lemma erased_iff:
  assumes "length img = 80"
  shows "image_is_erased img \<longleftrightarrow> img = erased_image"
proof
  assume "image_is_erased img"
  then have "\<forall>b \<in> set img. b = 0xFF"
    using assms by (simp add: image_is_erased_def PARAM_STORE_IMAGE_SIZE_def list_all_iff)
  then have "replicate (length img) 0xFF = img" by (intro replicate_length_same) blast
  then show "img = erased_image" using assms by (simp add: erased_image_def)
next
  assume "img = erased_image"
  then show "image_is_erased img"
    by (simp add: image_is_erased_def erased_image_def PARAM_STORE_IMAGE_SIZE_def list_all_iff)
qed

lemma erased_not_valid: "\<not> fst (ParamStore_Decode erased_image)"
proof -
  have "get_u32 erased_image \<noteq> PARAM_STORE_MAGIC" by code_simp
  then show ?thesis by (simp add: ParamStore_Decode_def deserialize_def)
qed

subsection \<open>The log agrees with the flash\<close>

text \<open>The slots before \<open>next_slot\<close> hold valid images, the last of them the store's map; the slots
  after \<open>next_slot\<close> are erased.  The slot \<open>next_slot\<close> itself may hold the rest of a write that
  failed.\<close>

definition log_agrees :: "u8 list \<Rightarrow> ParamLog_t \<Rightarrow> bool" where
  "log_agrees c log \<longleftrightarrow>
     (let n = unat (log_next_slot log); N = unat (log_slot_count log) in
      0 < N \<and> N \<le> 1638 \<and> 80 * N \<le> length c \<and> n \<le> N \<and> store_ok (log_store log) \<and>
      (\<forall>i < n. fst (ParamStore_Decode (slot_image c i))) \<and>
      (if n = 0 then param_map (log_store log) = Map.empty
       else param_map (snd (ParamStore_Decode (slot_image c (n - 1)))) = param_map (log_store log)) \<and>
      (\<forall>i. n < i \<and> i < N \<longrightarrow> slot_image c i = erased_image))"

text \<open>Slots behind an erased one are erased: what appending in order leaves.\<close>

definition tail_clean :: "u8 list \<Rightarrow> nat \<Rightarrow> bool" where
  "tail_clean c N \<longleftrightarrow> (\<forall>i j. i < j \<and> j < N \<and> slot_image c i = erased_image \<longrightarrow> slot_image c j = erased_image)"

text \<open>No unfinished write sits in the next slot, or it cannot be taken for a valid image.\<close>

definition no_torn :: "u8 list \<Rightarrow> ParamLog_t \<Rightarrow> bool" where
  "no_torn c log \<longleftrightarrow> (log_next_slot log < log_slot_count log \<longrightarrow>
     \<not> fst (ParamStore_Decode (slot_image c (unat (log_next_slot log)))))"

text \<open>The next slot is erased, as it is unless a write has failed in it.\<close>

definition next_erased :: "u8 list \<Rightarrow> ParamLog_t \<Rightarrow> bool" where
  "next_erased c log \<longleftrightarrow> (log_next_slot log < log_slot_count log \<longrightarrow>
     slot_image c (unat (log_next_slot log)) = erased_image)"

text \<open>What a restart finds: the values \<open>m\<close> of the log, or those of a complete image that a write
  reported as failed has left in the next slot.\<close>

definition found_map :: "u8 list \<Rightarrow> ParamLog_t \<Rightarrow> (u16 \<Rightarrow> u8 list option) \<Rightarrow> u16 \<Rightarrow> u8 list option" where
  "found_map c log m = (if no_torn c log then m
     else param_map (snd (ParamStore_Decode (slot_image c (unat (log_next_slot log))))))"

lemma erased_no_torn: "next_erased c log \<Longrightarrow> no_torn c log"
  using erased_not_valid by (auto simp: next_erased_def no_torn_def)

lemma length_slot: "80 * N \<le> length c \<Longrightarrow> i < N \<Longrightarrow> length (slot_image c i) = 80"
  by (simp add: slot_image_def)

lemma agrees_clean: "log_agrees c log \<Longrightarrow> tail_clean c (unat (log_slot_count log))"
  unfolding tail_clean_def log_agrees_def Let_def using erased_not_valid
  by (metis linorder_neqE_nat order_less_trans)

text \<open>A slice that covers slot \<open>n\<close> exactly.\<close>

lemma slot_written:
  assumes "take (80 * n) c' = take (80 * n) c" and "drop (80 * n + 80) c' = drop (80 * n + 80) c"
  shows "i \<noteq> n \<Longrightarrow> slot_image c' i = slot_image c i"
  using slot_image_same [OF assms(1), of i] slot_image_same_after [OF assms(2), of i]
  by (cases "i < n") auto

locale param_flash =
  fixes io :: "'f ParamStoreIo_t" and rd :: "u32 \<Rightarrow> nat \<Rightarrow> 'f \<Rightarrow> u8 list option \<times> 'f"
    and er :: "'f \<Rightarrow> bool \<times> 'f" and wr :: "u32 \<Rightarrow> u8 list \<Rightarrow> 'f \<Rightarrow> bool \<times> 'f"
    and cells :: "'f \<Rightarrow> u8 list" and valid :: "'f \<Rightarrow> bool"
  assumes io_ops: "io_read io = Some rd" "io_erase io = Some er" "io_write io = Some wr"
    and read_slice: "valid f \<Longrightarrow> unat off + n \<le> length (cells f) \<Longrightarrow> n < 65536 \<Longrightarrow>
      rd off n f = (Some (take n (drop (unat off) (cells f))), f)"
    and write_local: "valid f \<Longrightarrow> unat off + length bs \<le> length (cells f) \<Longrightarrow> length bs < 65536 \<Longrightarrow>
      wr off bs f = (ok, f') \<Longrightarrow> valid f' \<and> length (cells f') = length (cells f) \<and>
        take (unat off) (cells f') = take (unat off) (cells f) \<and>
        drop (unat off + length bs) (cells f') = drop (unat off + length bs) (cells f) \<and>
        (ok \<longrightarrow> take (length bs) (drop (unat off) (cells f')) = bs)"
    and erase_all: "valid f \<Longrightarrow> er f = (ok, f') \<Longrightarrow> valid f' \<and> length (cells f') = length (cells f) \<and>
      (ok \<longrightarrow> cells f' = replicate (length (cells f)) 0xFF)"
begin

lemma slot_fits: "log_agrees (cells f) log \<Longrightarrow> log_next_slot log < log_slot_count log \<Longrightarrow>
    unat (slot_offset (log_next_slot log)) = 80 * unat (log_next_slot log) \<and>
    80 * unat (log_next_slot log) + 80 \<le> length (cells f)"
  by (subst unat_slot_offset) (auto simp: log_agrees_def Let_def word_less_nat_alt)

lemma write_verified_slot:
  assumes "valid f" and "unat off = 80 * n" and "80 * n + 80 \<le> length (cells f)" and "length img = 80"
    and "write_verified rd wr off img f = (ok, f')"
  shows "valid f' \<and> length (cells f') = length (cells f) \<and> (\<forall>i. i \<noteq> n \<longrightarrow> slot_image (cells f') i = slot_image (cells f) i) \<and>
    (ok \<longrightarrow> slot_image (cells f') n = img)"
proof -
  obtain w f1 where w: "wr off img f = (w, f1)" by fastforce
  note law = write_local [OF assms(1) _ _ w]
  have f1: "valid f1" "length (cells f1) = length (cells f)" "take (80 * n) (cells f1) = take (80 * n) (cells f)"
    "drop (80 * n + 80) (cells f1) = drop (80 * n + 80) (cells f)"
    "w \<longrightarrow> take 80 (drop (80 * n) (cells f1)) = img"
    using law assms(2-4) by simp_all
  have "f' = f1 \<and> (ok \<longrightarrow> w)"
    using assms(5) w read_slice [of f1 off 80] f1(1,2) assms(2,3)
    by (auto simp: write_verified_def PARAM_STORE_IMAGE_SIZE_def split: if_splits)
  with f1 slot_written [OF f1(3,4)] show ?thesis by (auto simp: slot_image_def)
qed

lemma append_step:
  assumes "log_agrees (cells f) log" and "valid f" and "log_next_slot log < log_slot_count log" and "store_ok cand"
    and "append_image io log cand f = (ok, log', f')"
  shows "valid f' \<and> log_agrees (cells f') log' \<and> log_slot_count log' = log_slot_count log \<and>
    log_store log' = (if ok then cand else log_store log) \<and> (ok \<longrightarrow> next_erased (cells f') log')"
proof -
  obtain img where img: "serialize cand = Some img" using serialize_layout [OF assms(4)] by blast
  have len: "length img = 80" and dec: "ParamStore_Decode img = (True, table (map norm_entry (in_use (ps_entries cand))))"
    using deserialize_serialize [OF assms(4) img] by (simp_all add: PARAM_STORE_IMAGE_SIZE_def ParamStore_Decode_def)
  have dmap: "param_map (snd (ParamStore_Decode img)) = param_map cand" using dec decoded_store [OF assms(4)] by simp
  let ?n = "unat (log_next_slot log)"
  note fits = slot_fits [OF assms(1,3)]
  obtain w f1 where w: "write_verified rd wr (slot_offset (log_next_slot log)) img f = (w, f1)" by fastforce
  note eff = write_verified_slot [OF assms(2) fits [THEN conjunct1] fits [THEN conjunct2] len w]
  have next_n: "unat (log_next_slot log + 1) = Suc ?n"
    using assms(1,3) by (simp add: log_agrees_def Let_def word_less_nat_alt unat_word_ariths)
  have res: "f' = f1 \<and> ok = w \<and>
      log' = (if w then log\<lparr>log_store := cand, log_next_slot := log_next_slot log + 1\<rparr> else log)"
    using assms(5) img w by (auto simp: append_image_def io_ops ParamStore_Encode_def split: if_splits)
  have old: "\<forall>i < ?n. fst (ParamStore_Decode (slot_image (cells f1) i))"
    using assms(1) eff by (simp add: log_agrees_def Let_def)
  show ?thesis
  proof (cases w)
    case True
    have "fst (ParamStore_Decode (slot_image (cells f1) ?n))" using eff True dec by simp
    with old have valid: "\<forall>i < Suc ?n. fst (ParamStore_Decode (slot_image (cells f1) i))"
      by (auto simp: less_Suc_eq)
    have "log_agrees (cells f1) log'"
      using assms(1,3,4) eff True res valid next_n dmap
      by (simp add: log_agrees_def Let_def word_less_nat_alt)
    moreover have "next_erased (cells f1) log'"
      using assms(1) eff True res next_n
      by (simp add: next_erased_def log_agrees_def Let_def word_less_nat_alt)
    ultimately show ?thesis using res eff True by simp
  next
    case False
    have "log_agrees (cells f1) log"
      using assms(1) eff old by (auto simp: log_agrees_def Let_def)
    with res eff False show ?thesis by simp
  qed
qed

lemma set_step:
  assumes "log_agrees (cells f) log" and "valid f" and "ParamLog_Set io log did data f = (ok, log', f')"
  shows "valid f' \<and> log_agrees (cells f') log' \<and> log_slot_count log' = log_slot_count log \<and>
    param_map (log_store log') = (if ok then (param_map (log_store log))(did \<mapsto> data) else param_map (log_store log)) \<and>
    (ok \<longrightarrow> next_erased (cells f') log')"
proof (cases "log_slot_count log \<le> log_next_slot log \<or> ParamStore_Update (log_store log) did data = None")
  case True
  with assms show ?thesis by (auto simp: ParamLog_Set_def split: if_splits)
next
  case False
  then obtain cand where cand: "ParamStore_Update (log_store log) did data = Some cand" by auto
  have ok: "store_ok (log_store log)" using assms(1) by (simp add: log_agrees_def Let_def)
  have "\<not> (data = [] \<or> PARAM_STORE_VALUE_MAX < length data \<or> \<not> known_did did)"
    using cand update_refused by fastforce
  then have c: "store_ok cand" "param_map cand = (param_map (log_store log))(did \<mapsto> data)"
    using update_refines [OF ok, of data did] cand by auto
  have "append_image io log cand f = (ok, log', f')" if "ParamLog_Set io log did data f = (ok, log', f')" for ok
    using that False cand by (simp add: ParamLog_Set_def io_ops)
  from append_step [OF assms(1,2) _ c(1) this [OF assms(3)]] c(2) False show ?thesis by (simp add: not_le)
qed

lemma clear_step:
  assumes "log_agrees (cells f) log" and "valid f" and "ParamLog_Clear io log f = (ok, log', f')"
  shows "valid f' \<and> log_agrees (cells f') log' \<and> log_slot_count log' = log_slot_count log \<and>
    param_map (log_store log') = (if ok then Map.empty else param_map (log_store log)) \<and>
    (ok \<longrightarrow> next_erased (cells f') log')"
proof (cases "log_slot_count log \<le> log_next_slot log")
  case True
  with assms show ?thesis by (auto simp: ParamLog_Clear_def split: if_splits)
next
  case False
  then have "append_image io log ParamStore_Init f = (ok, log', f')"
    using assms(3) by (simp add: ParamLog_Clear_def io_ops)
  from append_step [OF assms(1,2) _ store_init_ok this] False show ?thesis by (simp add: not_le)
qed

end

subsection \<open>Starting\<close>

text \<open>The scan has read \<open>m\<close> valid slots.\<close>

definition scanned :: "u8 list \<Rightarrow> nat \<Rightarrow> ParamLog_t \<Rightarrow> u8 list option \<Rightarrow> bool" where
  "scanned c m log latest \<longleftrightarrow> log_next_slot log = of_nat m \<and>
     (\<forall>i < m. fst (ParamStore_Decode (slot_image c i))) \<and>
     (if m = 0 then log_store log = ParamStore_Init \<and> latest = None
      else ParamStore_Decode (slot_image c (m - 1)) = (True, log_store log) \<and> latest = Some (slot_image c (m - 1)))"

lemma scanned_store: "scanned c m log latest \<Longrightarrow> store_ok (log_store log)"
  using decode_ok by (auto simp: scanned_def split: if_splits)

lemma scanned_next:
  assumes "scanned c m log latest" and "ParamStore_Decode (slot_image c m) = (True, st)"
  shows "scanned c (Suc m) (log\<lparr>log_store := st, log_next_slot := of_nat m + 1\<rparr>) (Some (slot_image c m))"
  using assms by (auto simp: scanned_def less_Suc_eq)

lemma erased_cells: "80 * i + 80 \<le> n \<Longrightarrow> slot_image (replicate n 0xFF) i = erased_image"
  by (simp add: slot_image_def erased_image_def min_def)

lemma unat_slot: "n \<le> 1638 \<Longrightarrow> unat (of_nat n :: u16) = n"
  by (simp add: unat_of_nat)

text \<open>An erased rest of the flash behind the scanned slots makes the log agree.\<close>

lemma scanned_agrees:
  assumes "scanned c m log latest" and "m \<le> N" and "0 < N" and "N \<le> 1638" and "80 * N \<le> length c"
    and "log_slot_count log = of_nat N" and "\<And>i. m < i \<Longrightarrow> i < N \<Longrightarrow> slot_image c i = erased_image"
  shows "log_agrees c log"
proof -
  have u: "unat (log_next_slot log) = m" "unat (log_slot_count log) = N"
    using assms(1,2,4,6) unat_slot by (simp_all add: scanned_def)
  have "if m = 0 then param_map (log_store log) = Map.empty
      else param_map (snd (ParamStore_Decode (slot_image c (m - 1)))) = param_map (log_store log)"
    using assms(1) by (cases "m = 0") (simp_all add: scanned_def)
  with assms scanned_store [OF assms(1)] u show ?thesis
    by (simp add: log_agrees_def Let_def scanned_def)
qed

context param_flash
begin

lemma read_slot:
  assumes "valid f" and "80 * N \<le> length (cells f)" and "m < N" and "N \<le> 1638"
  shows "rd (slot_offset (of_nat m)) PARAM_STORE_IMAGE_SIZE f = (Some (slot_image (cells f) m), f)"
proof -
  have "unat (of_nat m :: u16) = m" using assms(3,4) by (intro unat_slot) simp
  then have "unat (slot_offset (of_nat m)) = 80 * m"
    using assms(3,4) unat_slot_offset [of "of_nat m"] by (simp add: word_less_nat_alt)
  with read_slice [of f "slot_offset (of_nat m)" 80] assms show ?thesis
    by (simp add: slot_image_def PARAM_STORE_IMAGE_SIZE_def)
qed

lemma scan_result:
  assumes "valid f" and "80 * N \<le> length (cells f)" and "N \<le> 1638" and "k + r = N"
    and "scanned (cells f) k log latest" and "scan_slots rd r (of_nat k) log latest f = (res, log', latest', f')"
  shows "f' = f \<and> log_slot_count log' = log_slot_count log \<and>
    (\<exists>m \<ge> k. m \<le> N \<and> scanned (cells f) m log' latest' \<and>
      (res = Some True \<and> m < N \<and> slot_image (cells f) m = erased_image \<or>
       res = None \<and> (m < N \<longrightarrow> \<not> fst (ParamStore_Decode (slot_image (cells f) m)) \<and> slot_image (cells f) m \<noteq> erased_image)))"
  using assms(4-6)
proof (induction r arbitrary: k log latest)
  case 0
  then show ?case by auto
next
  case (Suc r)
  let ?img = "slot_image (cells f) k"
  have k: "k < N" using Suc.prems(1) by simp
  note rdk = read_slot [OF assms(1,2) k assms(3)]
  have len: "length ?img = 80" using length_slot [OF assms(2) k] .
  show ?case
  proof (cases "image_is_erased ?img")
    case True
    have "log\<lparr>log_next_slot := of_nat k\<rparr> = log" using Suc.prems(2) by (simp add: scanned_def)
    with True Suc.prems rdk len k erased_iff [OF len] show ?thesis by (intro conjI exI [of _ k]) auto
  next
    case fresh: False
    obtain ok st where d: "ParamStore_Decode ?img = (ok, st)" by fastforce
    show ?thesis
    proof (cases ok)
      case True
      have "scan_slots rd r (of_nat (Suc k)) (log\<lparr>log_store := st, log_next_slot := of_nat k + 1\<rparr>) (Some ?img) f =
          (res, log', latest', f')"
        using Suc.prems(3) rdk fresh d True by (simp add: add.commute)
      moreover have "scanned (cells f) (Suc k) (log\<lparr>log_store := st, log_next_slot := of_nat k + 1\<rparr>) (Some ?img)"
        using scanned_next [OF Suc.prems(2)] d True by simp
      ultimately have IH: "f' = f \<and> log_slot_count log' = log_slot_count (log\<lparr>log_store := st, log_next_slot := of_nat k + 1\<rparr>) \<and>
        (\<exists>m \<ge> Suc k. m \<le> N \<and> scanned (cells f) m log' latest' \<and>
          (res = Some True \<and> m < N \<and> slot_image (cells f) m = erased_image \<or>
           res = None \<and> (m < N \<longrightarrow> \<not> fst (ParamStore_Decode (slot_image (cells f) m)) \<and> slot_image (cells f) m \<noteq> erased_image)))"
        using Suc.prems(1) by (intro Suc.IH) simp_all
      then show ?thesis by (auto intro: Suc_leD)
    next
      case False
      with Suc.prems rdk fresh d k erased_iff [OF len] show ?thesis by (intro conjI exI [of _ k]) auto
    qed
  qed
qed

text \<open>Compaction leaves one image, or none, on an erased flash.\<close>

lemma compact_result:
  assumes "valid f" and "0 < N" and "80 * N \<le> length (cells f)" and "N \<le> 1638" and "m \<le> N"
    and "scanned (cells f) m log latest" and "compact rd er wr (of_nat N) log latest f = (True, log', f')"
  shows "valid f' \<and> length (cells f') = length (cells f) \<and> log_agrees (cells f') log' \<and>
    param_map (log_store log') = param_map (log_store log) \<and> log_slot_count log' = of_nat N"
proof -
  obtain e f1 where e: "er f = (e, f1)" by fastforce
  have er: "e" "valid f1" "cells f1 = replicate (length (cells f)) 0xFF"
    using assms(7) e erase_all [OF assms(1) e] by (auto simp: compact_def split: if_splits)
  have blank: "slot_image (cells f1) i = erased_image" if "i < N" for i
    using er(3) assms(3) that by (simp add: erased_cells)
  show ?thesis
  proof (cases "m = 0")
    case True
    then have "log' = log\<lparr>log_slot_count := of_nat N\<rparr>" "f' = f1"
      using assms(6,7) e er(1) by (simp_all add: compact_def scanned_def)
    moreover have "scanned (cells f1) 0 (log\<lparr>log_slot_count := of_nat N\<rparr>) None"
      using assms(6) True by (simp add: scanned_def)
    ultimately show ?thesis
      using scanned_agrees [of "cells f1" 0 "log\<lparr>log_slot_count := of_nat N\<rparr>" None N] assms(2-4) er blank by simp
  next
    case False
    let ?img = "slot_image (cells f) (m - 1)"
    have dec: "ParamStore_Decode ?img = (True, log_store log)" and lat: "latest = Some ?img"
      using assms(6) False by (simp_all add: scanned_def)
    have len: "length ?img = 80" using length_slot [OF assms(3)] False assms(5) by simp
    obtain w f2 where w: "write_verified rd wr 0 ?img f1 = (w, f2)" by fastforce
    have r: "w" "f' = f2" "log' = log\<lparr>log_slot_count := of_nat N, log_next_slot := 1\<rparr>"
      using assms(7) e er(1) lat w by (auto simp: compact_def Let_def split: if_splits)
    have "80 * 0 + 80 \<le> length (cells f1)" using er(3) assms(2,3) by simp
    note eff = write_verified_slot [OF er(2) _ this len w]
    have "scanned (cells f2) 1 log' (Some ?img)"
      using eff r dec by (simp add: scanned_def)
    moreover have "slot_image (cells f2) i = erased_image" if "1 < i" "i < N" for i
      using eff blank that by simp
    ultimately show ?thesis
      using scanned_agrees [of "cells f2" 1 log' "Some ?img" N] assms(2-4) er eff r by simp
  qed
qed

lemma load_step:
  assumes "valid f" and "0 < N" and "N \<le> 1638" and "80 * N \<le> length (cells f)"
    and "ParamLog_Load io (of_nat N) l0 f = (True, log, f')"
  obtains m log1 latest where "m \<le> N" "scanned (cells f) m log1 latest" "param_map (log_store log) = param_map (log_store log1)"
    "valid f'" "length (cells f') = length (cells f)" "log_slot_count log = of_nat N"
    "m < N \<longrightarrow> slot_image (cells f) m = erased_image \<or> \<not> fst (ParamStore_Decode (slot_image (cells f) m))"
    "tail_clean (cells f) N \<longrightarrow> log_agrees (cells f') log"
proof -
  let ?l = "ParamLog_Init\<lparr>log_slot_count := of_nat N\<rparr>"
  have n: "unat (of_nat N :: u16) = N" using assms(3) by (rule unat_slot)
  have pos: "of_nat N \<noteq> (0 :: u16)" "\<not> PARAM_LOG_MAX_SLOTS < of_nat N"
    using n assms(2,3) by (auto simp: PARAM_LOG_MAX_SLOTS_def word_less_nat_alt word_unat_eq_iff)
  have init: "scanned (cells f) 0 ?l None" by (simp add: scanned_def ParamLog_Init_def)
  obtain res log1 latest f1 where s: "scan_slots rd N (of_nat 0) ?l None f = (res, log1, latest, f1)"
    by (metis prod_cases4)
  from scan_result [OF assms(1,4,3) _ init s] obtain m where m: "f1 = f" "log_slot_count log1 = of_nat N" "m \<le> N"
    "scanned (cells f) m log1 latest"
    "res = Some True \<and> m < N \<and> slot_image (cells f) m = erased_image \<or>
     res = None \<and> (m < N \<longrightarrow> \<not> fst (ParamStore_Decode (slot_image (cells f) m)))"
    by auto
  have load: "ParamLog_Load io (of_nat N) l0 f =
      (case res of Some ok \<Rightarrow> (ok, log1, f) | None \<Rightarrow> compact rd er wr (of_nat N) log1 latest f)"
    using s pos n m(1) by (simp add: ParamLog_Load_def io_ops split: option.split)
  from m(5) show ?thesis
  proof (elim disjE conjE)
    assume r: "res = Some True" "m < N" "slot_image (cells f) m = erased_image"
    then have e: "log = log1" "f' = f" using load assms(5) by simp_all
    have "tail_clean (cells f) N \<longrightarrow> log_agrees (cells f) log1"
      using scanned_agrees [OF m(4,3) assms(2,3,4) m(2)] r(2,3) unfolding tail_clean_def by blast
    with e m r show ?thesis by (intro that [OF m(3,4)]) (use assms(1) in auto)
  next
    assume r: "res = None" "m < N \<longrightarrow> \<not> fst (ParamStore_Decode (slot_image (cells f) m))"
    then have "compact rd er wr (of_nat N) log1 latest f = (True, log, f')" using load assms(5) by simp
    from compact_result [OF assms(1,2,4,3) m(3,4) this] m r show ?thesis by (intro that [OF m(3,4)]) auto
  qed
qed

text \<open>A start that meets an erased slot behind valid ones succeeds and changes nothing.\<close>

lemma load_succeeds:
  assumes "log_agrees (cells f) log" and "valid f" and "log_next_slot log < log_slot_count log"
    and "next_erased (cells f) log"
  obtains log' where "ParamLog_Load io (log_slot_count log) l0 f = (True, log', f)"
proof -
  let ?N = "unat (log_slot_count log)" and ?n = "unat (log_next_slot log)"
  let ?l = "ParamLog_Init\<lparr>log_slot_count := log_slot_count log\<rparr>"
  have sz: "0 < ?N" "?N \<le> 1638" "80 * ?N \<le> length (cells f)" "?n < ?N"
    "\<forall>i < ?n. fst (ParamStore_Decode (slot_image (cells f) i))"
    using assms(1,3) by (simp_all add: log_agrees_def Let_def word_less_nat_alt)
  have pos: "log_slot_count log \<noteq> 0" "\<not> PARAM_LOG_MAX_SLOTS < log_slot_count log"
    using sz(1,2) by (auto simp: PARAM_LOG_MAX_SLOTS_def word_less_nat_alt)
  have init: "scanned (cells f) 0 ?l None" by (simp add: scanned_def ParamLog_Init_def)
  obtain res log1 latest f1 where s: "scan_slots rd ?N (of_nat 0) ?l None f = (res, log1, latest, f1)"
    by (metis prod_cases4)
  from scan_result [OF assms(2) sz(3,2) _ init s] obtain m where m: "f1 = f" "m \<le> ?N" "scanned (cells f) m log1 latest"
    "res = Some True \<or> res = None \<and> (m < ?N \<longrightarrow> \<not> fst (ParamStore_Decode (slot_image (cells f) m)) \<and> slot_image (cells f) m \<noteq> erased_image)"
    by auto
  have blank: "slot_image (cells f) ?n = erased_image" using assms(3,4) by (simp add: next_erased_def)
  have "m \<le> ?n"
    using m(3) blank erased_not_valid by (metis not_le scanned_def)
  then have "res = Some True" using m(4) sz(4,5) blank by (metis le_neq_implies_less not_le order.strict_trans1)
  with s m(1) pos have "ParamLog_Load io (log_slot_count log) l0 f = (True, log1, f)"
    by (simp add: ParamLog_Load_def io_ops)
  then show ?thesis by (rule that)
qed

text \<open>A write that the storage carries out succeeds.\<close>

lemma append_succeeds:
  assumes "log_agrees (cells f) log" and "valid f" and "log_next_slot log < log_slot_count log" and "store_ok cand"
    and "\<And>img. length img = 80 \<Longrightarrow> fst (wr (slot_offset (log_next_slot log)) img f)"
  shows "fst (append_image io log cand f)"
proof -
  obtain img where img: "serialize cand = Some img" using serialize_layout [OF assms(4)] by blast
  have len: "length img = 80" using deserialize_serialize [OF assms(4) img] by (simp add: PARAM_STORE_IMAGE_SIZE_def)
  note fits = slot_fits [OF assms(1,3)]
  obtain f1 where w: "wr (slot_offset (log_next_slot log)) img f = (True, f1)"
    using assms(5) [OF len] by (metis prod.collapse)
  have "valid f1 \<and> length (cells f1) = length (cells f) \<and>
      take 80 (drop (80 * unat (log_next_slot log)) (cells f1)) = img"
    using write_local [OF assms(2) _ _ w] fits len by simp
  then have "rd (slot_offset (log_next_slot log)) 80 f1 = (Some img, f1)"
    using read_slice [of f1 "slot_offset (log_next_slot log)" 80] fits by simp
  then have "fst (write_verified rd wr (slot_offset (log_next_slot log)) img f)"
    using w by (simp add: write_verified_def PARAM_STORE_IMAGE_SIZE_def)
  then show ?thesis
    using img by (auto simp: append_image_def io_ops ParamStore_Encode_def split: prod.splits)
qed

lemma set_succeeds:
  assumes "log_agrees (cells f) log" and "valid f" and "log_next_slot log < log_slot_count log"
    and "data \<noteq> []" and "length data \<le> PARAM_STORE_VALUE_MAX" and "known_did did"
    and "\<And>img. length img = 80 \<Longrightarrow> fst (wr (slot_offset (log_next_slot log)) img f)"
  shows "fst (ParamLog_Set io log did data f)"
proof -
  have "store_ok (log_store log)" using assms(1) by (simp add: log_agrees_def Let_def)
  from update_refines [OF this assms(4-6)] obtain cand
    where cand: "ParamStore_Update (log_store log) did data = Some cand" "store_ok cand" by blast
  from append_succeeds [OF assms(1-3) cand(2) assms(7)] cand(1) assms(3) show ?thesis
    by (simp add: ParamLog_Set_def io_ops not_le)
qed

lemma clear_succeeds:
  assumes "log_agrees (cells f) log" and "valid f" and "log_next_slot log < log_slot_count log"
    and "\<And>img. length img = 80 \<Longrightarrow> fst (wr (slot_offset (log_next_slot log)) img f)"
  shows "fst (ParamLog_Clear io log f)"
  using append_succeeds [OF assms(1-3) _ assms(4)] assms(3) store_init_ok
  by (simp add: ParamLog_Clear_def io_ops not_le)

text \<open>A restart finds the map again, or the one of a torn image.\<close>

lemma restart_step:
  assumes "log_agrees (cells f) log" and "valid f"
    and "ParamLog_Load io (log_slot_count log) l0 f = (True, log', f')"
  shows "valid f' \<and> log_agrees (cells f') log' \<and>
    param_map (log_store log') = found_map (cells f) log (param_map (log_store log)) \<and>
    log_slot_count log' = log_slot_count log"
proof -
  let ?N = "unat (log_slot_count log)" and ?n = "unat (log_next_slot log)"
  have sz: "0 < ?N" "?N \<le> 1638" "80 * ?N \<le> length (cells f)" "?n \<le> ?N"
    "\<forall>i < ?n. fst (ParamStore_Decode (slot_image (cells f) i))"
    using assms(1) by (simp_all add: log_agrees_def Let_def)
  have rest: "slot_image (cells f) i = erased_image" if "?n < i" "i < ?N" for i
    using assms(1) that by (simp add: log_agrees_def Let_def)
  have load: "ParamLog_Load io (of_nat ?N) l0 f = (True, log', f')" using assms(3) by simp
  obtain m log1 latest where m: "m \<le> ?N" "scanned (cells f) m log1 latest"
    "param_map (log_store log') = param_map (log_store log1)" "valid f'" "log_slot_count log' = of_nat ?N"
    "m < ?N \<longrightarrow> slot_image (cells f) m = erased_image \<or> \<not> fst (ParamStore_Decode (slot_image (cells f) m))"
    "tail_clean (cells f) ?N \<longrightarrow> log_agrees (cells f') log'"
    using load_step [OF assms(2) sz(1-3) load] by metis
  have decodes: "fst (ParamStore_Decode (slot_image (cells f) i))" if "i < m" for i
    using m(2) that by (simp add: scanned_def)
  have low: "?n \<le> m"
  proof (rule ccontr)
    assume "\<not> ?n \<le> m"
    then have "m < ?N" "fst (ParamStore_Decode (slot_image (cells f) m))" using sz(4,5) by simp_all
    with m(6) erased_not_valid show False by auto
  qed
  have high: "m \<le> Suc ?n"
  proof (rule ccontr)
    assume "\<not> m \<le> Suc ?n"
    then have "Suc ?n < m" by simp
    with decodes [of "Suc ?n"] rest [of "Suc ?n"] m(1) erased_not_valid show False by simp
  qed
  have torn: "no_torn (cells f) log \<longleftrightarrow> m = ?n"
  proof
    assume nt: "no_torn (cells f) log"
    show "m = ?n"
    proof (rule ccontr)
      assume "m \<noteq> ?n"
      then have "?n < m" using low by simp
      with decodes m(1) nt show False by (simp add: no_torn_def word_less_nat_alt)
    qed
  next
    assume "m = ?n"
    with m(6) erased_not_valid show "no_torn (cells f) log" by (auto simp: no_torn_def word_less_nat_alt)
  qed
  have "param_map (log_store log1) = found_map (cells f) log (param_map (log_store log))"
  proof (cases "m = ?n")
    case True
    then have "param_map (log_store log1) = param_map (log_store log)"
      using m(2) assms(1) by (cases "?n = 0") (auto simp: scanned_def log_agrees_def Let_def split: if_splits)
    with True torn show ?thesis by (simp add: found_map_def)
  next
    case False
    then have "m = Suc ?n" using low high by simp
    with m(2) torn show ?thesis by (auto simp: found_map_def scanned_def)
  qed
  with m agrees_clean [OF assms(1)] show ?thesis by simp
qed

end

subsection \<open>Runs of the log\<close>

text \<open>Writes, clears and restarts in any order; \<open>m\<close> is what the operations that reported success
  should have left.  A restart is one that reports success; it goes on with what it finds.\<close>

inductive log_run ::
  "'f ParamStoreIo_t \<Rightarrow> ('f \<Rightarrow> u8 list) \<Rightarrow> ParamLog_t \<times> 'f \<times> (u16 \<Rightarrow> u8 list option) \<Rightarrow>
    ParamLog_t \<times> 'f \<times> (u16 \<Rightarrow> u8 list option) \<Rightarrow> bool"
  for io cells start where
  run_start: "log_run io cells start start"
| run_set: "log_run io cells start (log, f, m) \<Longrightarrow> ParamLog_Set io log did data f = (ok, log', f') \<Longrightarrow>
    log_run io cells start (log', f', if ok then m(did \<mapsto> data) else m)"
| run_clear: "log_run io cells start (log, f, m) \<Longrightarrow> ParamLog_Clear io log f = (ok, log', f') \<Longrightarrow>
    log_run io cells start (log', f', if ok then Map.empty else m)"
| run_restart: "log_run io cells start (log, f, m) \<Longrightarrow>
    ParamLog_Load io (log_slot_count log) l0 f = (True, log', f') \<Longrightarrow>
    log_run io cells start (log', f', found_map (cells f) log m)"

definition log_state_ok ::
  "('f \<Rightarrow> u8 list) \<Rightarrow> ('f \<Rightarrow> bool) \<Rightarrow> ParamLog_t \<times> 'f \<times> (u16 \<Rightarrow> u8 list option) \<Rightarrow> bool" where
  "log_state_ok cells valid x \<longleftrightarrow>
     (case x of (log, f, m) \<Rightarrow> valid f \<and> log_agrees (cells f) log \<and> param_map (log_store log) = m)"

context param_flash
begin

lemma log_run_ok: "log_run io cells start x \<Longrightarrow> log_state_ok cells valid start \<Longrightarrow> log_state_ok cells valid x"
proof (induction rule: log_run.induct)
  case (run_set log f m did data ok log' f')
  then show ?case using set_step [of f log did data ok log' f'] by (simp add: log_state_ok_def)
next
  case (run_clear log f m ok log' f')
  then show ?case using clear_step [of f log ok log' f'] by (simp add: log_state_ok_def)
next
  case (run_restart log f m l0 log' f')
  then show ?case using restart_step [of f log l0 log' f'] by (simp add: log_state_ok_def)
qed

text \<open>The first start on a flash whose tail is clean.\<close>

lemma first_start:
  assumes "valid f" and "0 < N" and "N \<le> 1638" and "80 * N \<le> length (cells f)" and "tail_clean (cells f) N"
    and "ParamLog_Load io (of_nat N) l0 f = (True, log, f')"
  shows "log_state_ok cells valid (log, f', param_map (log_store log))"
proof (rule load_step [OF assms(1-4,6)])
  assume "valid f'" and "tail_clean (cells f) N \<longrightarrow> log_agrees (cells f') log"
  with assms(5) show ?thesis by (simp add: log_state_ok_def)
qed

end

end
