(* ===== verification/UdsSecurity.thy ===== *)
theory UdsSecurity
  imports Prelude
begin

section \<open>The seed and key of security access\<close>

text \<open>
  \<open>UdsSecurity_ComputeKey\<close> and \<open>UdsSecurity_NextSeed\<close> of \<open>firmware/common/uds_server.c\<close>:
  the key transform and the xorshift generator of the seeds.  Both are permutations of the
  32-bit words, so different seeds have different keys and a seed state never becomes zero.
\<close>

definition UDS_DEFAULT_SEED :: u32 where "UDS_DEFAULT_SEED = 0x12345678"
definition UDS_DEFAULT_SECURITY_SALT :: u32 where "UDS_DEFAULT_SECURITY_SALT = 0x50324341"

definition UdsSecurity_ComputeKey :: "u32 \<Rightarrow> u32 \<Rightarrow> u32" where
  "UdsSecurity_ComputeKey seed salt =
     (let key0 = seed XOR salt;
          key1 = push_bit 13 key0 OR drop_bit 19 key0;
          key2 = key1 + 0x9E3779B9
      in key2 XOR drop_bit 16 key2)"

text \<open>\<open>None\<close> is the null pointer; the result carries the new contents of \<open>*state\<close>.\<close>

definition UdsSecurity_NextSeed :: "u32 option \<Rightarrow> u32 \<times> u32 option" where
  "UdsSecurity_NextSeed state =
     (case state of None \<Rightarrow> (UDS_DEFAULT_SEED, None) | Some v \<Rightarrow>
      let v0 = (if v = 0 then UDS_DEFAULT_SEED else v);
          v1 = v0 XOR push_bit 13 v0;
          v2 = v1 XOR drop_bit 17 v1;
          v3 = v2 XOR push_bit 5 v2
      in (if v3 = 0 \<or> v3 = 0xFFFFFFFF then UDS_DEFAULT_SEED else v3, Some v3))"

subsection \<open>Shift-and-xor steps are injective\<close>

lemma xor_push_inj:
  fixes x y :: "'a::len word"
  assumes "x XOR push_bit n x = y XOR push_bit n y" and "0 < n"
  shows "x = y"
proof (rule bit_word_eqI)
  fix m assume "m < LENGTH('a)"
  then show "bit x m \<longleftrightarrow> bit y m"
  proof (induction m rule: less_induct)
    case (less m)
    have "bit (x XOR push_bit n x) m \<longleftrightarrow> bit (y XOR push_bit n y) m" using assms(1) by simp
    with less assms(2) show ?case
      by (cases "n \<le> m") (auto simp: bit_simps)
  qed
qed

lemma xor_drop_inj:
  fixes x y :: "'a::len word"
  assumes "x XOR drop_bit n x = y XOR drop_bit n y" and "0 < n"
  shows "x = y"
proof -
  have "\<forall>m. LENGTH('a) - k \<le> m \<longrightarrow> m < LENGTH('a) \<longrightarrow> (bit x m \<longleftrightarrow> bit y m)" for k
  proof (induction k)
    case (Suc k)
    show ?case
    proof (intro allI impI)
      fix m assume m: "LENGTH('a) - Suc k \<le> m" "m < LENGTH('a)"
      have "bit (x XOR drop_bit n x) m \<longleftrightarrow> bit (y XOR drop_bit n y) m" using assms(1) by simp
      moreover have "bit x (m + n) \<longleftrightarrow> bit y (m + n)"
      proof (cases "m + n < LENGTH('a)")
        case True
        then show ?thesis using Suc m assms(2) by simp
      next
        case False
        then show ?thesis by (metis bit_imp_le_length)
      qed
      ultimately show "bit x m \<longleftrightarrow> bit y m" by (auto simp: bit_simps add.commute)
    qed
  qed simp
  from this [of "LENGTH('a)"] show ?thesis by (auto intro: bit_word_eqI)
qed

lemma rotate13_inj:
  fixes x y :: u32
  assumes "push_bit 13 x OR drop_bit 19 x = push_bit 13 y OR drop_bit 19 y"
  shows "x = y"
proof (rule bit_word_eqI)
  fix m assume "m < LENGTH(32)"
  let ?j = "if m < 19 then m + 13 else m - 19"
  have "bit (push_bit 13 x OR drop_bit 19 x) ?j \<longleftrightarrow> bit (push_bit 13 y OR drop_bit 19 y) ?j"
    using assms by simp
  with \<open>m < LENGTH(32)\<close> show "bit x m \<longleftrightarrow> bit y m"
    by (auto simp: bit_simps dest: bit_imp_le_length split: if_splits)
qed

lemma xorshift_nonzero:
  fixes v :: u32
  assumes "v \<noteq> 0"
  defines "v1 \<equiv> v XOR push_bit 13 v"
  defines "v2 \<equiv> v1 XOR drop_bit 17 v1"
  shows "v2 XOR push_bit 5 v2 \<noteq> 0"
proof
  assume "v2 XOR push_bit 5 v2 = 0"
  then have "v2 XOR push_bit 5 v2 = 0 XOR push_bit 5 0" by simp
  then have "v2 = 0" by (rule xor_push_inj) simp
  then have "v1 XOR drop_bit 17 v1 = 0 XOR drop_bit 17 0" by (simp add: v2_def)
  then have "v1 = 0" by (rule xor_drop_inj) simp
  then have "v XOR push_bit 13 v = 0 XOR push_bit 13 0" by (simp add: v1_def)
  then have "v = 0" by (rule xor_push_inj) simp
  with assms show False by simp
qed

subsection \<open>Claims\<close>

text \<open>The key transform is injective in the seed and in the salt: two different seeds never
  share a key, so a key observed for one seed does not open another.\<close>

theorem keys_distinguish_seeds:
  "UdsSecurity_ComputeKey s1 salt = UdsSecurity_ComputeKey s2 salt \<longleftrightarrow> s1 = s2"
proof
  assume eq: "UdsSecurity_ComputeKey s1 salt = UdsSecurity_ComputeKey s2 salt"
  let ?r = "\<lambda>s. push_bit 13 (s XOR salt) OR drop_bit 19 (s XOR salt) :: u32"
  have "?r s1 + 0x9E3779B9 = ?r s2 + 0x9E3779B9"
    using eq unfolding UdsSecurity_ComputeKey_def Let_def by (rule xor_drop_inj) simp
  then have "?r s1 = ?r s2" by simp
  then have "s1 XOR salt = s2 XOR salt" by (rule rotate13_inj)
  then have "(s1 XOR salt) XOR salt = (s2 XOR salt) XOR salt" by simp
  then show "s1 = s2" by (simp add: xor.assoc)
qed simp

text \<open>The seed generator never issues the seeds 0 (which means "already unlocked") and
  0xFFFFFFFF, and from any state but the one that maps to 0xFFFFFFFF the issued seed is the new
  state, which is never 0.\<close>

theorem next_seed_valid:
  "case UdsSecurity_NextSeed (Some v) of (seed, state) \<Rightarrow>
     seed \<noteq> 0 \<and> seed \<noteq> 0xFFFFFFFF \<and> state \<noteq> Some 0 \<and> (state = Some seed \<or> state = Some 0xFFFFFFFF)"
  using xorshift_nonzero [of v] xorshift_nonzero [of UDS_DEFAULT_SEED]
  by (auto simp: UdsSecurity_NextSeed_def Let_def UDS_DEFAULT_SEED_def)

end
