(* ===== verification/UdsServer.thy ===== *)
theory UdsServer
  imports UdsSecurity
begin

section \<open>The UDS server\<close>

text \<open>
  \<open>firmware/common/uds_server.c\<close>: sessions, security access, data identifiers, routines.
  A response is the result code with the bytes written (their number is
  \<open>*response_length\<close>).  A request is the list of its bytes.  The callbacks a DID or a routine
  carries are names; \<open>uds_calls\<close> gives what they do to the server itself (a routine's context
  may contain it) and to the rest \<open>'e\<close> of the application.  Data and storage of a DID are the
  arrays the pointers refer to.
\<close>

subsection \<open>Constants and types\<close>

definition UDS_SID_DIAGNOSTIC_SESSION_CONTROL :: u8 where "UDS_SID_DIAGNOSTIC_SESSION_CONTROL = 0x10"
definition UDS_SID_READ_DATA_BY_IDENTIFIER :: u8 where "UDS_SID_READ_DATA_BY_IDENTIFIER = 0x22"
definition UDS_SID_SECURITY_ACCESS :: u8 where "UDS_SID_SECURITY_ACCESS = 0x27"
definition UDS_SID_WRITE_DATA_BY_IDENTIFIER :: u8 where "UDS_SID_WRITE_DATA_BY_IDENTIFIER = 0x2E"
definition UDS_SID_ROUTINE_CONTROL :: u8 where "UDS_SID_ROUTINE_CONTROL = 0x31"
definition UDS_SID_TESTER_PRESENT :: u8 where "UDS_SID_TESTER_PRESENT = 0x3E"
definition UDS_SID_NEGATIVE_RESPONSE :: u8 where "UDS_SID_NEGATIVE_RESPONSE = 0x7F"

definition UDS_SESSION_DEFAULT :: u8 where "UDS_SESSION_DEFAULT = 1"
definition UDS_SESSION_PROGRAMMING :: u8 where "UDS_SESSION_PROGRAMMING = 2"
definition UDS_SESSION_EXTENDED :: u8 where "UDS_SESSION_EXTENDED = 3"

definition UDS_SECURITY_REQUEST_SEED :: u8 where "UDS_SECURITY_REQUEST_SEED = 1"
definition UDS_SECURITY_SEND_KEY :: u8 where "UDS_SECURITY_SEND_KEY = 2"
definition UDS_ROUTINE_START :: u8 where "UDS_ROUTINE_START = 1"
definition UDS_ROUTINE_STOP :: u8 where "UDS_ROUTINE_STOP = 2"
definition UDS_ROUTINE_REQUEST_RESULTS :: u8 where "UDS_ROUTINE_REQUEST_RESULTS = 3"

definition UDS_NRC_SERVICE_NOT_SUPPORTED :: u8 where "UDS_NRC_SERVICE_NOT_SUPPORTED = 0x11"
definition UDS_NRC_SUBFUNCTION_NOT_SUPPORTED :: u8 where "UDS_NRC_SUBFUNCTION_NOT_SUPPORTED = 0x12"
definition UDS_NRC_INCORRECT_LENGTH :: u8 where "UDS_NRC_INCORRECT_LENGTH = 0x13"
definition UDS_NRC_CONDITIONS_NOT_CORRECT :: u8 where "UDS_NRC_CONDITIONS_NOT_CORRECT = 0x22"
definition UDS_NRC_REQUEST_SEQUENCE_ERROR :: u8 where "UDS_NRC_REQUEST_SEQUENCE_ERROR = 0x24"
definition UDS_NRC_REQUEST_OUT_OF_RANGE :: u8 where "UDS_NRC_REQUEST_OUT_OF_RANGE = 0x31"
definition UDS_NRC_SECURITY_ACCESS_DENIED :: u8 where "UDS_NRC_SECURITY_ACCESS_DENIED = 0x33"
definition UDS_NRC_INVALID_KEY :: u8 where "UDS_NRC_INVALID_KEY = 0x35"
definition UDS_NRC_EXCEED_NUMBER_OF_ATTEMPTS :: u8 where "UDS_NRC_EXCEED_NUMBER_OF_ATTEMPTS = 0x36"
definition UDS_NRC_REQUIRED_TIME_DELAY_NOT_EXPIRED :: u8 where
  "UDS_NRC_REQUIRED_TIME_DELAY_NOT_EXPIRED = 0x37"
definition UDS_NRC_GENERAL_PROGRAMMING_FAILURE :: u8 where "UDS_NRC_GENERAL_PROGRAMMING_FAILURE = 0x72"
definition UDS_NRC_RESPONSE_PENDING :: u8 where "UDS_NRC_RESPONSE_PENDING = 0x78"
definition UDS_NRC_SUBFUNCTION_NOT_SUPPORTED_IN_ACTIVE_SESSION :: u8 where
  "UDS_NRC_SUBFUNCTION_NOT_SUPPORTED_IN_ACTIVE_SESSION = 0x7E"

definition UDS_SUPPRESS_POSITIVE_RESPONSE :: u8 where "UDS_SUPPRESS_POSITIVE_RESPONSE = 0x80"
definition UDS_SUBFUNCTION_MASK :: u8 where "UDS_SUBFUNCTION_MASK = 0x7F"
definition UDS_MAX_DIDS :: nat where "UDS_MAX_DIDS = 16"
definition UDS_MAX_ROUTINES :: nat where "UDS_MAX_ROUTINES = 8"
definition UDS_ROUTINE_RESULT_MAX :: nat where "UDS_ROUTINE_RESULT_MAX = 16"
definition UDS_PENDING_ROUTINE_DATA_MAX :: nat where "UDS_PENDING_ROUTINE_DATA_MAX = 16"
definition UDS_PENDING_DID_DATA_MAX :: nat where "UDS_PENDING_DID_DATA_MAX = 64"
definition UDS_SECURITY_MAX_ATTEMPTS :: u8 where "UDS_SECURITY_MAX_ATTEMPTS = 3"
definition UDS_SECURITY_DELAY_MS :: u32 where "UDS_SECURITY_DELAY_MS = 10000"
definition UDS_DEFAULT_SESSION_MASK :: u8 where "UDS_DEFAULT_SESSION_MASK = 0x0E"
definition UDS_EXTENDED_PROGRAMMING_MASK :: u8 where "UDS_EXTENDED_PROGRAMMING_MASK = 0x0C"
definition UDS_DEFAULT_P2_SERVER_MS :: u16 where "UDS_DEFAULT_P2_SERVER_MS = 50"
definition UDS_DEFAULT_P2_STAR_SERVER_MS :: u16 where "UDS_DEFAULT_P2_STAR_SERVER_MS = 5000"
definition UDS_DEFAULT_S3_SERVER_MS :: u16 where "UDS_DEFAULT_S3_SERVER_MS = 5000"

lemmas uds_consts = UDS_SID_DIAGNOSTIC_SESSION_CONTROL_def UDS_SID_READ_DATA_BY_IDENTIFIER_def
  UDS_SID_SECURITY_ACCESS_def UDS_SID_WRITE_DATA_BY_IDENTIFIER_def UDS_SID_ROUTINE_CONTROL_def
  UDS_SID_TESTER_PRESENT_def UDS_SID_NEGATIVE_RESPONSE_def UDS_SESSION_DEFAULT_def
  UDS_SESSION_PROGRAMMING_def UDS_SESSION_EXTENDED_def UDS_SECURITY_REQUEST_SEED_def
  UDS_SECURITY_SEND_KEY_def UDS_ROUTINE_START_def UDS_ROUTINE_STOP_def UDS_ROUTINE_REQUEST_RESULTS_def

lemmas uds_nrcs = UDS_NRC_SERVICE_NOT_SUPPORTED_def UDS_NRC_SUBFUNCTION_NOT_SUPPORTED_def
  UDS_NRC_INCORRECT_LENGTH_def UDS_NRC_CONDITIONS_NOT_CORRECT_def UDS_NRC_REQUEST_SEQUENCE_ERROR_def
  UDS_NRC_REQUEST_OUT_OF_RANGE_def UDS_NRC_SECURITY_ACCESS_DENIED_def UDS_NRC_INVALID_KEY_def
  UDS_NRC_EXCEED_NUMBER_OF_ATTEMPTS_def UDS_NRC_REQUIRED_TIME_DELAY_NOT_EXPIRED_def
  UDS_NRC_GENERAL_PROGRAMMING_FAILURE_def UDS_NRC_RESPONSE_PENDING_def
  UDS_NRC_SUBFUNCTION_NOT_SUPPORTED_IN_ACTIVE_SESSION_def

datatype UdsProcessResult_t =
    UDS_PROCESS_INVALID_ARGUMENT | UDS_PROCESS_NO_RESPONSE | UDS_PROCESS_RESPONSE
  | UDS_PROCESS_BUFFER_TOO_SMALL | UDS_PROCESS_RESPONSE_PENDING

datatype UdsRoutineStatus_t =
    UDS_ROUTINE_IDLE | UDS_ROUTINE_RUNNING | UDS_ROUTINE_COMPLETE | UDS_ROUTINE_FAILED

record UdsDid_t =
  did_id :: u16
  did_data :: "u8 list option"
  did_length :: u16
  did_storage :: "u8 list option"
  did_storage_capacity :: u16
  did_read_sessions_mask :: u8
  did_write_sessions_mask :: u8
  did_write_required_session :: u8
  did_write_requires_unlock :: bool
  did_storage_load :: "nat option"
  did_storage_save :: "nat option"

record UdsRoutine_t =
  rtn_id :: u16
  rtn_sessions_mask :: u8
  rtn_requires_unlock :: bool
  rtn_handler :: "nat option"

record UdsServerConfig_t =
  ucfg_dids :: "UdsDid_t list option"
  ucfg_did_count :: u16
  ucfg_routines :: "UdsRoutine_t list option"
  ucfg_routine_count :: u16
  ucfg_p2_server_ms :: u16
  ucfg_p2_star_server_ms :: u16
  ucfg_s3_server_ms :: u16
  ucfg_supported_sessions_mask :: u8
  ucfg_security_salt :: u32

record UdsServer_t =
  srv_dids :: "UdsDid_t list"
  srv_did_count :: u16
  srv_routines :: "UdsRoutine_t list"
  srv_routine_count :: u16
  srv_p2_server_ms :: u16
  srv_p2_star_server_ms :: u16
  srv_s3_server_ms :: u16
  srv_supported_sessions_mask :: u8
  srv_security_salt :: u32
  srv_session :: u8
  srv_s3_active :: bool
  srv_s3_deadline_ms :: u32
  srv_session_timeout_count :: u32
  srv_seed_state :: u32
  srv_pending_seed :: u32
  srv_seed_pending :: bool
  srv_security_unlocked :: bool
  srv_security_attempts :: u8
  srv_security_delay_until_ms :: u32
  srv_routine_state :: "UdsRoutineStatus_t list"
  srv_routine_result :: "u8 list list"
  srv_routine_result_length :: "u16 list"
  srv_pending_routine_response :: bool
  srv_pending_routine_index :: u8
  srv_pending_routine_subfunction :: u8
  srv_pending_routine_suppress_positive :: bool
  srv_pending_routine_data :: "u8 list"
  srv_pending_routine_data_length :: u16
  srv_pending_did_write :: bool
  srv_pending_did_index :: u8
  srv_pending_did_data :: "u8 list"
  srv_pending_did_length :: u16

text \<open>A routine handler gets the sub-function, the request data and the result capacity; it
  returns the status and the result bytes it has written (\<open>*result_length\<close> of them).\<close>

type_synonym 'e routine_call =
  "u8 \<Rightarrow> u8 list \<Rightarrow> nat \<Rightarrow> UdsServer_t \<times> 'e \<Rightarrow> (UdsRoutineStatus_t \<times> u8 list) \<times> UdsServer_t \<times> 'e"

record 'e uds_calls =
  call_routine :: "nat \<Rightarrow> 'e routine_call"
  call_save :: "nat \<Rightarrow> u16 \<Rightarrow> u8 list \<Rightarrow> 'e \<Rightarrow> bool \<times> 'e"

type_synonym uds_reply = "UdsProcessResult_t \<times> u8 list"

subsection \<open>Helpers\<close>

definition UdsServer_TimeReached :: "u32 \<Rightarrow> u32 \<Rightarrow> bool" where
  "UdsServer_TimeReached now deadline \<longleftrightarrow> now - deadline < 0x80000000"

definition UdsServer_FindDid :: "UdsServer_t \<Rightarrow> u16 \<Rightarrow> nat option" where
  "UdsServer_FindDid s did =
     List.find (\<lambda>i. did_id (srv_dids s ! i) = did) [0..<unat (srv_did_count s)]"

definition UdsServer_ClearPendingDid :: "UdsServer_t \<Rightarrow> UdsServer_t" where
  "UdsServer_ClearPendingDid s =
     s\<lparr>srv_pending_did_write := False, srv_pending_did_index := 0, srv_pending_did_length := 0\<rparr>"

definition UdsServer_FindRoutineIndex :: "UdsServer_t \<Rightarrow> u16 \<Rightarrow> u8" where
  "UdsServer_FindRoutineIndex s rid =
     (case List.find (\<lambda>i. rtn_id (srv_routines s ! i) = rid) [0..<unat (srv_routine_count s)] of
        Some i \<Rightarrow> of_nat i | None \<Rightarrow> of_nat UDS_MAX_ROUTINES)"

definition UdsServer_Negative :: "u16 \<Rightarrow> u8 \<Rightarrow> u8 \<Rightarrow> uds_reply" where
  "UdsServer_Negative cap service nrc =
     (if cap < 3 then (UDS_PROCESS_BUFFER_TOO_SMALL, [])
      else (UDS_PROCESS_RESPONSE, [UDS_SID_NEGATIVE_RESPONSE, service, nrc]))"

definition UdsServer_ResponsePending :: "u16 \<Rightarrow> u8 \<Rightarrow> uds_reply" where
  "UdsServer_ResponsePending cap service =
     (let (r, bs) = UdsServer_Negative cap service UDS_NRC_RESPONSE_PENDING in
      if r = UDS_PROCESS_RESPONSE then (UDS_PROCESS_RESPONSE_PENDING, bs) else (r, bs))"

definition UdsServer_SessionAllowed :: "u8 \<Rightarrow> u8 \<Rightarrow> bool" where
  "UdsServer_SessionAllowed msk session \<longleftrightarrow>
     (if msk = 0 then True
      else if session = 0 \<or> 7 < session then False
      else msk AND push_bit (unat session) 1 \<noteq> 0)"

definition UdsServer_LockSecurityState :: "UdsServer_t \<Rightarrow> UdsServer_t" where
  "UdsServer_LockSecurityState s =
     s\<lparr>srv_security_unlocked := False, srv_seed_pending := False, srv_pending_seed := 0,
       srv_security_attempts := 0\<rparr>"

definition UdsServer_SecurityDelayActive :: "UdsServer_t \<Rightarrow> u32 \<Rightarrow> bool \<times> UdsServer_t" where
  "UdsServer_SecurityDelayActive s now =
     (if srv_security_delay_until_ms s = 0 then (False, s)
      else if UdsServer_TimeReached now (srv_security_delay_until_ms s)
      then (False, s\<lparr>srv_security_delay_until_ms := 0, srv_security_attempts := 0\<rparr>)
      else (True, s))"

definition UdsServer_SetSession :: "UdsServer_t \<Rightarrow> u8 \<Rightarrow> u32 \<Rightarrow> UdsServer_t" where
  "UdsServer_SetSession s session now =
     (let s1 = (if session \<noteq> srv_session s then UdsServer_LockSecurityState s else s);
          s2 = s1\<lparr>srv_session := session\<rparr>
      in if session = UDS_SESSION_DEFAULT then s2\<lparr>srv_s3_active := False, srv_s3_deadline_ms := 0\<rparr>
         else s2\<lparr>srv_s3_active := True, srv_s3_deadline_ms := now + ucast (srv_s3_server_ms s2)\<rparr>)"

definition UdsServer_KeepSessionAlive :: "UdsServer_t \<Rightarrow> u32 \<Rightarrow> UdsServer_t" where
  "UdsServer_KeepSessionAlive s now =
     (if srv_s3_active s then s\<lparr>srv_s3_deadline_ms := now + ucast (srv_s3_server_ms s)\<rparr> else s)"

text \<open>A positive response of fixed length, or the two ways of giving none.\<close>

definition positive_reply :: "bool \<Rightarrow> u16 \<Rightarrow> u8 list \<Rightarrow> uds_reply" where
  "positive_reply suppress cap bs =
     (if suppress then (UDS_PROCESS_NO_RESPONSE, [])
      else if unat cap < length bs then (UDS_PROCESS_BUFFER_TOO_SMALL, [])
      else (UDS_PROCESS_RESPONSE, bs))"

subsection \<open>Services\<close>

definition UdsServer_SessionControl ::
  "UdsServer_t \<Rightarrow> u32 \<Rightarrow> u8 list \<Rightarrow> u16 \<Rightarrow> uds_reply \<times> UdsServer_t" where
  "UdsServer_SessionControl s now req cap =
     (let neg = UdsServer_Negative cap UDS_SID_DIAGNOSTIC_SESSION_CONTROL in
      if length req \<noteq> 2 then (neg UDS_NRC_INCORRECT_LENGTH, s)
      else let subf = req ! 1;
               suppress = subf AND UDS_SUPPRESS_POSITIVE_RESPONSE \<noteq> 0;
               requested = subf AND UDS_SUBFUNCTION_MASK in
      if requested < UDS_SESSION_DEFAULT \<or> UDS_SESSION_EXTENDED < requested \<or>
         \<not> UdsServer_SessionAllowed (srv_supported_sessions_mask s) requested
      then (neg UDS_NRC_SUBFUNCTION_NOT_SUPPORTED, s)
      else let s1 = UdsServer_SetSession s requested now in
        (positive_reply suppress cap
           [UDS_SID_DIAGNOSTIC_SESSION_CONTROL + 0x40, requested,
            hi8 (srv_p2_server_ms s1), lo8 (srv_p2_server_ms s1),
            hi8 (srv_p2_star_server_ms s1 div 10), lo8 (srv_p2_star_server_ms s1 div 10)], s1))"

text \<open>The identifiers of a request \<open>22 \<dots>\<close>, two bytes each; the first loop of
  \<open>UdsServer_ReadDid\<close> checks them and adds up the length it requires, the second copies.\<close>

fun request_dids :: "u8 list \<Rightarrow> u16 list" where
  "request_dids (a # b # bs) = be16 a b # request_dids bs"
| "request_dids _ = []"

fun read_check :: "UdsServer_t \<Rightarrow> u16 list \<Rightarrow> u32 \<Rightarrow> u8 + u32" where
  "read_check s [] required = Inr required"
| "read_check s (did # ds) required =
     (case UdsServer_FindDid s did of None \<Rightarrow> Inl UDS_NRC_REQUEST_OUT_OF_RANGE
      | Some i \<Rightarrow>
        if \<not> UdsServer_SessionAllowed (did_read_sessions_mask (srv_dids s ! i)) (srv_session s)
        then Inl UDS_NRC_SUBFUNCTION_NOT_SUPPORTED_IN_ACTIVE_SESSION
        else read_check s ds (required + (3 + ucast (did_length (srv_dids s ! i)))))"

definition did_value :: "UdsDid_t \<Rightarrow> u8 list" where
  "did_value d = (case did_data d of Some bs \<Rightarrow> take (unat (did_length d)) bs | None \<Rightarrow> [])"

fun read_copy :: "UdsServer_t \<Rightarrow> u16 list \<Rightarrow> u8 list" where
  "read_copy s [] = []"
| "read_copy s (did # ds) =
     (case UdsServer_FindDid s did of
        Some i \<Rightarrow> hi8 did # lo8 did # did_value (srv_dids s ! i) @ read_copy s ds
      | None \<Rightarrow> hi8 did # lo8 did # read_copy s ds)"

definition UdsServer_ReadDid :: "UdsServer_t \<Rightarrow> u8 list \<Rightarrow> u16 \<Rightarrow> uds_reply" where
  "UdsServer_ReadDid s req cap =
     (let neg = UdsServer_Negative cap UDS_SID_READ_DATA_BY_IDENTIFIER in
      if length req < 3 \<or> odd (length req - 1) then neg UDS_NRC_INCORRECT_LENGTH
      else let dids = request_dids (drop 1 req) in
      case read_check s dids 1 of Inl nrc \<Rightarrow> neg nrc
      | Inr required \<Rightarrow>
        if ucast cap < required then (UDS_PROCESS_BUFFER_TOO_SMALL, [])
        else (UDS_PROCESS_RESPONSE, (UDS_SID_READ_DATA_BY_IDENTIFIER + 0x40) # read_copy s dids))"

text \<open>The two sub-functions of security access, after the checks they share.\<close>

definition security_request_seed ::
  "UdsServer_t \<Rightarrow> bool \<Rightarrow> u16 \<Rightarrow> uds_reply \<times> UdsServer_t" where
  "security_request_seed s suppress cap =
     (let (seed, s1) =
        (if srv_security_unlocked s then (0, s)
         else let (v, st) = UdsSecurity_NextSeed (Some (srv_seed_state s))
              in (v, s\<lparr>srv_seed_state := the st, srv_pending_seed := v, srv_seed_pending := True\<rparr>))
      in (positive_reply suppress cap
            [UDS_SID_SECURITY_ACCESS + 0x40, UDS_SECURITY_REQUEST_SEED,
             byte_of32 3 seed, byte_of32 2 seed, byte_of32 1 seed, byte_of32 0 seed], s1))"

definition security_send_key ::
  "UdsServer_t \<Rightarrow> u32 \<Rightarrow> u8 list \<Rightarrow> bool \<Rightarrow> u16 \<Rightarrow> uds_reply \<times> UdsServer_t" where
  "security_send_key s now req suppress cap =
     (let neg = UdsServer_Negative cap UDS_SID_SECURITY_ACCESS in
      if length req \<noteq> 6 then (neg UDS_NRC_INCORRECT_LENGTH, s)
      else if \<not> srv_seed_pending s then (neg UDS_NRC_REQUEST_SEQUENCE_ERROR, s)
      else let key = be32 (req ! 2) (req ! 3) (req ! 4) (req ! 5);
               expected = UdsSecurity_ComputeKey (srv_pending_seed s) (srv_security_salt s);
               s1 = s\<lparr>srv_seed_pending := False, srv_pending_seed := 0\<rparr> in
      if key \<noteq> expected then
        let s2 = s1\<lparr>srv_security_attempts := srv_security_attempts s1 + 1\<rparr> in
        if UDS_SECURITY_MAX_ATTEMPTS \<le> srv_security_attempts s2 then
          (neg UDS_NRC_EXCEED_NUMBER_OF_ATTEMPTS,
           s2\<lparr>srv_security_attempts := 0, srv_security_delay_until_ms := now + UDS_SECURITY_DELAY_MS\<rparr>)
        else (neg UDS_NRC_INVALID_KEY, s2)
      else
        (positive_reply suppress cap [UDS_SID_SECURITY_ACCESS + 0x40, UDS_SECURITY_SEND_KEY],
         s1\<lparr>srv_security_unlocked := True, srv_security_attempts := 0, srv_security_delay_until_ms := 0\<rparr>))"

definition UdsServer_SecurityAccess ::
  "UdsServer_t \<Rightarrow> u32 \<Rightarrow> u8 list \<Rightarrow> u16 \<Rightarrow> uds_reply \<times> UdsServer_t" where
  "UdsServer_SecurityAccess s now req cap =
     (let neg = UdsServer_Negative cap UDS_SID_SECURITY_ACCESS in
      if length req < 2 then (neg UDS_NRC_INCORRECT_LENGTH, s)
      else let subf = req ! 1 AND UDS_SUBFUNCTION_MASK;
               suppress = req ! 1 AND UDS_SUPPRESS_POSITIVE_RESPONSE \<noteq> 0 in
      if subf \<noteq> UDS_SECURITY_REQUEST_SEED \<and> subf \<noteq> UDS_SECURITY_SEND_KEY
      then (neg UDS_NRC_SUBFUNCTION_NOT_SUPPORTED, s)
      else if srv_session s \<noteq> UDS_SESSION_EXTENDED \<and> srv_session s \<noteq> UDS_SESSION_PROGRAMMING
      then (neg UDS_NRC_SUBFUNCTION_NOT_SUPPORTED_IN_ACTIVE_SESSION, s)
      else let (delayed, s1) = UdsServer_SecurityDelayActive s now in
      if delayed then (neg UDS_NRC_REQUIRED_TIME_DELAY_NOT_EXPIRED, s1)
      else if subf = UDS_SECURITY_REQUEST_SEED then security_request_seed s1 suppress cap
      else security_send_key s1 now req suppress cap)"

text \<open>\<open>xs[i] = v\<close> for an array \<open>xs\<close> that a stored index reaches.  Writing beyond the array lengthens
  the list, so that an array that keeps its size was never written out of bounds.\<close>

definition arr_set :: "'a list \<Rightarrow> nat \<Rightarrow> 'a \<Rightarrow> 'a list" where
  "arr_set xs i v = buf_write xs i [v]"

lemma arr_set_inside [simp]: "i < length xs \<Longrightarrow> arr_set xs i v = xs[i := v]"
  by (simp add: arr_set_def buf_write_def upd_conv_take_nth_drop)

lemma length_arr_set: "length (arr_set xs i v) = length xs \<longleftrightarrow> i < length xs"
  by (auto simp: arr_set_def buf_write_def)

text \<open>Storing a value in a DID's storage, which its data pointer then refers to.\<close>

definition did_store :: "UdsDid_t \<Rightarrow> u8 list \<Rightarrow> UdsDid_t" where
  "did_store d bs =
     (let st = map_option (\<lambda>m. buf_write m 0 bs) (did_storage d)
      in d\<lparr>did_storage := st, did_data := st, did_length := of_nat (length bs)\<rparr>)"

text \<open>The checks of a write, in order; \<open>Inr i\<close> is the entry to write.\<close>

definition write_check :: "UdsServer_t \<Rightarrow> u8 list \<Rightarrow> u8 + nat" where
  "write_check s req =
     (if length req < 3 then Inl UDS_NRC_INCORRECT_LENGTH
      else case UdsServer_FindDid s (be16 (req ! 1) (req ! 2)) of None \<Rightarrow> Inl UDS_NRC_REQUEST_OUT_OF_RANGE
      | Some i \<Rightarrow>
        let entry = srv_dids s ! i in
        if did_storage entry = None \<or> did_write_sessions_mask entry = 0
        then Inl UDS_NRC_REQUEST_OUT_OF_RANGE
        else if \<not> UdsServer_SessionAllowed (did_write_sessions_mask entry) (srv_session s)
        then Inl UDS_NRC_SUBFUNCTION_NOT_SUPPORTED_IN_ACTIVE_SESSION
        else if did_write_requires_unlock entry \<and> \<not> srv_security_unlocked s
        then Inl UDS_NRC_SECURITY_ACCESS_DENIED
        else if did_write_required_session entry \<noteq> 0 \<and> srv_session s \<noteq> did_write_required_session entry
        then Inl UDS_NRC_CONDITIONS_NOT_CORRECT
        else if unat (did_storage_capacity entry) < length req - 3
        then Inl UDS_NRC_REQUEST_OUT_OF_RANGE
        else Inr i)"

definition UdsServer_WriteDid ::
  "UdsServer_t \<Rightarrow> u8 list \<Rightarrow> u16 \<Rightarrow> uds_reply \<times> UdsServer_t" where
  "UdsServer_WriteDid s req cap =
     (let neg = UdsServer_Negative cap UDS_SID_WRITE_DATA_BY_IDENTIFIER in
      case write_check s req of Inl nrc \<Rightarrow> (neg nrc, s)
      | Inr i \<Rightarrow>
        let did = be16 (req ! 1) (req ! 2);
            entry = srv_dids s ! i;
            data = drop 3 req in
        if did_storage_save entry \<noteq> None then
          (if UDS_PENDING_DID_DATA_MAX < length data then (neg UDS_NRC_REQUEST_OUT_OF_RANGE, s)
           else let s1 = UdsServer_ClearPendingDid s;
                    s2 = s1\<lparr>srv_pending_did_write := True, srv_pending_did_index := of_nat i,
                           srv_pending_did_length := of_nat (length data),
                           srv_pending_did_data := buf_write (srv_pending_did_data s1) 0 data\<rparr>
                in (UdsServer_ResponsePending cap UDS_SID_WRITE_DATA_BY_IDENTIFIER, s2))
        else (positive_reply False cap [UDS_SID_WRITE_DATA_BY_IDENTIFIER + 0x40, hi8 did, lo8 did],
              s\<lparr>srv_dids := (srv_dids s)[i := did_store entry data]\<rparr>))"

subsection \<open>Routines\<close>

definition UdsServer_StoreRoutineResult :: "UdsServer_t \<Rightarrow> u8 \<Rightarrow> u8 list \<Rightarrow> UdsServer_t" where
  "UdsServer_StoreRoutineResult s index result =
     (let i = unat index;
          bs = take UDS_ROUTINE_RESULT_MAX result
      in s\<lparr>srv_routine_result := arr_set (srv_routine_result s) i (buf_write (srv_routine_result s ! i) 0 bs),
           srv_routine_result_length := arr_set (srv_routine_result_length s) i (of_nat (length bs))\<rparr>)"

definition UdsServer_RoutinePositive ::
  "u8 \<Rightarrow> u16 \<Rightarrow> u8 list \<Rightarrow> bool \<Rightarrow> u16 \<Rightarrow> uds_reply" where
  "UdsServer_RoutinePositive subf rid result suppress cap =
     positive_reply suppress cap ([UDS_SID_ROUTINE_CONTROL + 0x40, subf, hi8 rid, lo8 rid] @ result)"

definition UdsServer_ClearPendingRoutine :: "UdsServer_t \<Rightarrow> UdsServer_t" where
  "UdsServer_ClearPendingRoutine s =
     s\<lparr>srv_pending_routine_response := False, srv_pending_routine_index := 0,
       srv_pending_routine_subfunction := 0, srv_pending_routine_suppress_positive := False,
       srv_pending_routine_data_length := 0\<rparr>"

definition UdsServer_ArmPendingRoutine ::
  "UdsServer_t \<Rightarrow> u8 \<Rightarrow> u8 \<Rightarrow> bool \<Rightarrow> u8 list \<Rightarrow> UdsServer_t" where
  "UdsServer_ArmPendingRoutine s index subf suppress data =
     (let bs = take UDS_PENDING_ROUTINE_DATA_MAX data
      in s\<lparr>srv_pending_routine_response := True, srv_pending_routine_index := index,
           srv_pending_routine_subfunction := subf, srv_pending_routine_suppress_positive := suppress,
           srv_pending_routine_data_length := of_nat (length bs),
           srv_pending_routine_data := buf_write (srv_pending_routine_data s) 0 bs\<rparr>)"

text \<open>Calling the handler of routine \<open>i\<close>, and recording the status and the result.\<close>

definition call_handler ::
  "'e uds_calls \<Rightarrow> u8 \<Rightarrow> u8 \<Rightarrow> u8 list \<Rightarrow> UdsServer_t \<times> 'e \<Rightarrow>
    (UdsRoutineStatus_t \<times> u8 list) \<times> UdsServer_t \<times> 'e" where
  "call_handler calls index subf data st =
     call_routine calls (the (rtn_handler (srv_routines (fst st) ! unat index))) subf data
       UDS_ROUTINE_RESULT_MAX st"

definition record_routine ::
  "u8 \<Rightarrow> UdsRoutineStatus_t \<Rightarrow> u8 list \<Rightarrow> UdsServer_t \<Rightarrow> UdsServer_t" where
  "record_routine index status result s =
     UdsServer_StoreRoutineResult
       (s\<lparr>srv_routine_state := arr_set (srv_routine_state s) (unat index) status\<rparr>) index result"

definition run_routine ::
  "'e uds_calls \<Rightarrow> u8 \<Rightarrow> u8 \<Rightarrow> u8 list \<Rightarrow> UdsServer_t \<times> 'e \<Rightarrow>
    (UdsRoutineStatus_t \<times> u8 list) \<times> UdsServer_t \<times> 'e" where
  "run_routine calls index subf data st =
     (let ((status, result), s1, e1) = call_handler calls index subf data st
      in ((status, result), record_routine index status result s1, e1))"

text \<open>The three sub-functions, after the checks they share.\<close>

definition routine_dispatch ::
  "'e uds_calls \<Rightarrow> u8 \<Rightarrow> u16 \<Rightarrow> u8 \<Rightarrow> bool \<Rightarrow> u8 list \<Rightarrow> u16 \<Rightarrow> UdsServer_t \<times> 'e \<Rightarrow>
    uds_reply \<times> UdsServer_t \<times> 'e" where
  "routine_dispatch calls index rid subf suppress data cap st =
     (let neg = UdsServer_Negative cap UDS_SID_ROUTINE_CONTROL;
          state = srv_routine_state (fst st) ! unat index in
      if subf = UDS_ROUTINE_START then
        (if state = UDS_ROUTINE_RUNNING then (neg UDS_NRC_CONDITIONS_NOT_CORRECT, st)
         else let ((status, result), st1) = run_routine calls index UDS_ROUTINE_START data st
              in (UdsServer_RoutinePositive subf rid result suppress cap, st1))
      else if subf = UDS_ROUTINE_STOP then
        (if state \<noteq> UDS_ROUTINE_RUNNING then (neg UDS_NRC_REQUEST_SEQUENCE_ERROR, st)
         else let ((status, result), st1) = run_routine calls index UDS_ROUTINE_STOP data st
              in (UdsServer_RoutinePositive subf rid result suppress cap, st1))
      else if state = UDS_ROUTINE_IDLE then (neg UDS_NRC_REQUEST_SEQUENCE_ERROR, st)
      else if state = UDS_ROUTINE_COMPLETE \<or> state = UDS_ROUTINE_FAILED then
        (UdsServer_RoutinePositive subf rid
           (take (unat (srv_routine_result_length (fst st) ! unat index))
              (srv_routine_result (fst st) ! unat index)) suppress cap, st)
      else let ((status, result), s1, e1) = run_routine calls index UDS_ROUTINE_REQUEST_RESULTS data st in
        if status = UDS_ROUTINE_RUNNING then
          (UdsServer_ResponsePending cap UDS_SID_ROUTINE_CONTROL,
           UdsServer_ArmPendingRoutine s1 index subf suppress data, e1)
        else (UdsServer_RoutinePositive subf rid result suppress cap, s1, e1))"

text \<open>The checks between the lookup of the routine and the sub-function.\<close>

definition routine_checked ::
  "'e uds_calls \<Rightarrow> u8 \<Rightarrow> u8 list \<Rightarrow> u16 \<Rightarrow> UdsServer_t \<times> 'e \<Rightarrow> uds_reply \<times> UdsServer_t \<times> 'e" where
  "routine_checked calls index req cap st =
     (let neg = UdsServer_Negative cap UDS_SID_ROUTINE_CONTROL;
          s = fst st;
          subf = req ! 1 AND UDS_SUBFUNCTION_MASK;
          suppress = req ! 1 AND UDS_SUPPRESS_POSITIVE_RESPONSE \<noteq> 0;
          rtn = srv_routines s ! unat index in
      if subf \<noteq> UDS_ROUTINE_START \<and> subf \<noteq> UDS_ROUTINE_STOP \<and> subf \<noteq> UDS_ROUTINE_REQUEST_RESULTS
      then (neg UDS_NRC_SUBFUNCTION_NOT_SUPPORTED, st)
      else if \<not> UdsServer_SessionAllowed (rtn_sessions_mask rtn) (srv_session s)
      then (neg UDS_NRC_SUBFUNCTION_NOT_SUPPORTED_IN_ACTIVE_SESSION, st)
      else if rtn_requires_unlock rtn \<and> \<not> srv_security_unlocked s
      then (neg UDS_NRC_SECURITY_ACCESS_DENIED, st)
      else if rtn_handler rtn = None then (neg UDS_NRC_REQUEST_OUT_OF_RANGE, st)
      else routine_dispatch calls index (be16 (req ! 2) (req ! 3)) subf suppress (drop 4 req) cap st)"

definition UdsServer_RoutineControl ::
  "'e uds_calls \<Rightarrow> u8 list \<Rightarrow> u16 \<Rightarrow> UdsServer_t \<times> 'e \<Rightarrow> uds_reply \<times> UdsServer_t \<times> 'e" where
  "UdsServer_RoutineControl calls req cap st =
     (let neg = UdsServer_Negative cap UDS_SID_ROUTINE_CONTROL; s = fst st in
      if length req < 4 then (neg UDS_NRC_INCORRECT_LENGTH, st)
      else let index = UdsServer_FindRoutineIndex s (be16 (req ! 2) (req ! 3)) in
      if UDS_MAX_ROUTINES \<le> unat index then (neg UDS_NRC_REQUEST_OUT_OF_RANGE, st)
      else let s1 = (if srv_pending_routine_response s \<and> srv_pending_routine_index s = index
                     then UdsServer_ClearPendingRoutine s else s)
           in routine_checked calls index req cap (s1, snd st))"

definition UdsServer_TesterPresent ::
  "UdsServer_t \<Rightarrow> u32 \<Rightarrow> u8 list \<Rightarrow> u16 \<Rightarrow> uds_reply \<times> UdsServer_t" where
  "UdsServer_TesterPresent s now req cap =
     (let neg = UdsServer_Negative cap UDS_SID_TESTER_PRESENT in
      if length req \<noteq> 2 then (neg UDS_NRC_INCORRECT_LENGTH, s)
      else let subf = req ! 1 in
      if subf AND UDS_SUBFUNCTION_MASK \<noteq> 0 then (neg UDS_NRC_SUBFUNCTION_NOT_SUPPORTED, s)
      else (positive_reply (subf AND UDS_SUPPRESS_POSITIVE_RESPONSE \<noteq> 0) cap
              [UDS_SID_TESTER_PRESENT + 0x40, 0],
            UdsServer_KeepSessionAlive s now))"

subsection \<open>The server\<close>

definition UdsServer_Tick :: "UdsServer_t \<Rightarrow> u32 \<Rightarrow> UdsServer_t" where
  "UdsServer_Tick s now =
     (if srv_s3_active s \<and> UdsServer_TimeReached now (srv_s3_deadline_ms s)
      then UdsServer_LockSecurityState
             (s\<lparr>srv_session := UDS_SESSION_DEFAULT, srv_s3_active := False, srv_s3_deadline_ms := 0,
                srv_session_timeout_count := srv_session_timeout_count s + 1\<rparr>)
      else s)"

text \<open>After a pending or positive response of one of the four data services the session timer
  starts again.\<close>

definition keep_after :: "uds_reply \<Rightarrow> u32 \<Rightarrow> UdsServer_t \<Rightarrow> UdsServer_t" where
  "keep_after reply now s =
     (if fst reply = UDS_PROCESS_RESPONSE_PENDING \<or>
         fst reply = UDS_PROCESS_RESPONSE \<and> 0 < length (snd reply) \<and>
         snd reply ! 0 \<noteq> UDS_SID_NEGATIVE_RESPONSE
      then UdsServer_KeepSessionAlive s now else s)"

definition uds_service ::
  "'e uds_calls \<Rightarrow> u32 \<Rightarrow> u8 list \<Rightarrow> u16 \<Rightarrow> UdsServer_t \<times> 'e \<Rightarrow> uds_reply \<times> UdsServer_t \<times> 'e" where
  "uds_service calls now req cap st =
     (let s = fst st; e = snd st; service = req ! 0 in
      if service = UDS_SID_DIAGNOSTIC_SESSION_CONTROL then
        let (reply, s1) = UdsServer_SessionControl s now req cap in (reply, s1, e)
      else if service = UDS_SID_READ_DATA_BY_IDENTIFIER then
        let reply = UdsServer_ReadDid s req cap in (reply, keep_after reply now s, e)
      else if service = UDS_SID_SECURITY_ACCESS then
        let (reply, s1) = UdsServer_SecurityAccess s now req cap in (reply, keep_after reply now s1, e)
      else if service = UDS_SID_WRITE_DATA_BY_IDENTIFIER then
        let (reply, s1) = UdsServer_WriteDid s req cap in (reply, keep_after reply now s1, e)
      else if service = UDS_SID_ROUTINE_CONTROL then
        let (reply, s1, e1) = UdsServer_RoutineControl calls req cap (s, e) in (reply, keep_after reply now s1, e1)
      else if service = UDS_SID_TESTER_PRESENT then
        let (reply, s1) = UdsServer_TesterPresent s now req cap in (reply, s1, e)
      else (UdsServer_Negative cap service UDS_NRC_SERVICE_NOT_SUPPORTED, s, e))"

text \<open>\<open>request = None\<close> is the null pointer, \<open>capacity = None\<close> a null response or length
  pointer.\<close>

definition UdsServer_Process ::
  "'e uds_calls \<Rightarrow> u32 \<Rightarrow> u8 list option \<Rightarrow> u16 \<Rightarrow> u16 option \<Rightarrow> UdsServer_t \<times> 'e \<Rightarrow>
    uds_reply \<times> UdsServer_t \<times> 'e" where
  "UdsServer_Process calls now request len capacity st =
     (case capacity of None \<Rightarrow> ((UDS_PROCESS_INVALID_ARGUMENT, []), st) | Some cap \<Rightarrow>
      if request = None \<and> 0 < len then ((UDS_PROCESS_INVALID_ARGUMENT, []), st)
      else let s = UdsServer_Tick (fst st) now in
      if len = 0 then (UdsServer_Negative cap 0 UDS_NRC_INCORRECT_LENGTH, s, snd st)
      else uds_service calls now (take (unat len) (the request)) cap (s, snd st))"

text \<open>The commit of a deferred write, and the poll of a running routine.\<close>

definition poll_did_write ::
  "'e uds_calls \<Rightarrow> u16 \<Rightarrow> UdsServer_t \<times> 'e \<Rightarrow> uds_reply \<times> UdsServer_t \<times> 'e" where
  "poll_did_write calls cap st =
     (let s = fst st; e = snd st;
          failed = UdsServer_Negative cap UDS_SID_WRITE_DATA_BY_IDENTIFIER UDS_NRC_GENERAL_PROGRAMMING_FAILURE in
      if srv_did_count s \<le> ucast (srv_pending_did_index s) then (failed, UdsServer_ClearPendingDid s, e)
      else let i = unat (srv_pending_did_index s);
               entry = srv_dids s ! i;
               data = take (unat (srv_pending_did_length s)) (srv_pending_did_data s) in
      if did_storage_save entry = None \<or> did_storage entry = None \<or>
         did_storage_capacity entry < srv_pending_did_length s
      then (failed, UdsServer_ClearPendingDid s, e)
      else let (saved, e1) = call_save calls (the (did_storage_save entry)) (did_id entry) data e in
      if \<not> saved then (failed, UdsServer_ClearPendingDid s, e1)
      else (positive_reply False cap
              [UDS_SID_WRITE_DATA_BY_IDENTIFIER + 0x40, hi8 (did_id entry), lo8 (did_id entry)],
            UdsServer_ClearPendingDid (s\<lparr>srv_dids := (srv_dids s)[i := did_store entry data]\<rparr>), e1))"

definition poll_routine ::
  "'e uds_calls \<Rightarrow> u16 \<Rightarrow> UdsServer_t \<times> 'e \<Rightarrow> uds_reply \<times> UdsServer_t \<times> 'e" where
  "poll_routine calls cap st =
     (let s = fst st in
      if \<not> srv_pending_routine_response s \<or> srv_routine_count s \<le> ucast (srv_pending_routine_index s)
      then ((UDS_PROCESS_NO_RESPONSE, []), st)
      else let rid = rtn_id (srv_routines s ! unat (srv_pending_routine_index s));
               ((status, result), s1, e1) =
                 call_handler calls (srv_pending_routine_index s) UDS_ROUTINE_REQUEST_RESULTS
                   (take (unat (srv_pending_routine_data_length s)) (srv_pending_routine_data s)) st;
               s2 = record_routine (srv_pending_routine_index s1) status result s1 in
      if status = UDS_ROUTINE_RUNNING then ((UDS_PROCESS_NO_RESPONSE, []), s2, e1)
      else (UdsServer_RoutinePositive (srv_pending_routine_subfunction s2) rid result
              (srv_pending_routine_suppress_positive s2) cap,
            UdsServer_ClearPendingRoutine s2, e1))"

definition UdsServer_PollPending ::
  "'e uds_calls \<Rightarrow> u16 option \<Rightarrow> UdsServer_t \<times> 'e \<Rightarrow> uds_reply \<times> UdsServer_t \<times> 'e" where
  "UdsServer_PollPending calls capacity st =
     (case capacity of None \<Rightarrow> ((UDS_PROCESS_INVALID_ARGUMENT, []), st) | Some cap \<Rightarrow>
      if srv_pending_did_write (fst st) then poll_did_write calls cap st
      else poll_routine calls cap st)"

subsection \<open>Initialisation and queries\<close>

fun dids_valid :: "UdsDid_t list \<Rightarrow> UdsDid_t list \<Rightarrow> bool" where
  "dids_valid previous [] = True"
| "dids_valid previous (d # ds) =
     (\<not> (0 < did_length d \<and> did_data d = None) \<and>
      \<not> (0 < did_storage_capacity d \<and> did_storage d = None) \<and>
      did_id d \<notin> did_id ` set previous \<and> dids_valid (previous @ [d]) ds)"

fun routines_valid :: "UdsRoutine_t list \<Rightarrow> UdsRoutine_t list \<Rightarrow> bool" where
  "routines_valid previous [] = True"
| "routines_valid previous (r # rs) =
     (rtn_handler r \<noteq> None \<and> rtn_id r \<notin> rtn_id ` set previous \<and> routines_valid (previous @ [r]) rs)"

text \<open>The number of entries copied before the first rejected one: a rejected configuration
  leaves the earlier entries in the server.\<close>

fun dids_copied :: "UdsDid_t list \<Rightarrow> UdsDid_t list \<Rightarrow> nat" where
  "dids_copied previous [] = 0"
| "dids_copied previous (d # ds) =
     (if dids_valid previous [d] then Suc (dids_copied (previous @ [d]) ds) else 0)"

fun routines_copied :: "UdsRoutine_t list \<Rightarrow> UdsRoutine_t list \<Rightarrow> nat" where
  "routines_copied previous [] = 0"
| "routines_copied previous (r # rs) =
     (if routines_valid previous [r] then Suc (routines_copied (previous @ [r]) rs) else 0)"

text \<open>The fields written once the configuration is accepted.\<close>

definition server_start :: "UdsServerConfig_t \<Rightarrow> UdsServer_t \<Rightarrow> UdsServer_t" where
  "server_start cfg s =
     UdsServer_ClearPendingDid (UdsServer_ClearPendingRoutine
        (s\<lparr>srv_did_count := ucfg_did_count cfg, srv_routine_count := ucfg_routine_count cfg,
            srv_p2_server_ms := (if ucfg_p2_server_ms cfg = 0 then UDS_DEFAULT_P2_SERVER_MS
                                 else ucfg_p2_server_ms cfg),
            srv_p2_star_server_ms := (if ucfg_p2_star_server_ms cfg = 0 then UDS_DEFAULT_P2_STAR_SERVER_MS
                                      else ucfg_p2_star_server_ms cfg),
            srv_s3_server_ms := (if ucfg_s3_server_ms cfg = 0 then UDS_DEFAULT_S3_SERVER_MS
                                 else ucfg_s3_server_ms cfg),
            srv_supported_sessions_mask := (if ucfg_supported_sessions_mask cfg = 0 then UDS_DEFAULT_SESSION_MASK
                                            else ucfg_supported_sessions_mask cfg),
            srv_security_salt := (if ucfg_security_salt cfg = 0 then UDS_DEFAULT_SECURITY_SALT
                                  else ucfg_security_salt cfg),
            srv_session := UDS_SESSION_DEFAULT, srv_s3_active := False, srv_s3_deadline_ms := 0,
            srv_session_timeout_count := 0, srv_seed_state := UDS_DEFAULT_SEED, srv_pending_seed := 0,
            srv_seed_pending := False, srv_security_unlocked := False, srv_security_attempts := 0,
            srv_security_delay_until_ms := 0,
            srv_routine_state := replicate UDS_MAX_ROUTINES UDS_ROUTINE_IDLE,
            srv_routine_result_length := replicate UDS_MAX_ROUTINES 0\<rparr>))"

definition UdsServer_Init :: "UdsServer_t \<Rightarrow> UdsServerConfig_t option \<Rightarrow> bool \<times> UdsServer_t" where
  "UdsServer_Init s config =
     (case config of None \<Rightarrow> (False, s) | Some cfg \<Rightarrow>
      if UDS_MAX_DIDS < unat (ucfg_did_count cfg) \<or> UDS_MAX_ROUTINES < unat (ucfg_routine_count cfg)
      then (False, s)
      else if 0 < ucfg_did_count cfg \<and> ucfg_dids cfg = None then (False, s)
      else if 0 < ucfg_routine_count cfg \<and> ucfg_routines cfg = None then (False, s)
      else let dids = take (unat (ucfg_did_count cfg)) (case ucfg_dids cfg of Some ds \<Rightarrow> ds | None \<Rightarrow> []);
               rtns = take (unat (ucfg_routine_count cfg)) (case ucfg_routines cfg of Some rs \<Rightarrow> rs | None \<Rightarrow> []);
               s1 = s\<lparr>srv_dids := buf_write (srv_dids s) 0 (take (dids_copied [] dids) dids)\<rparr> in
      if \<not> dids_valid [] dids then (False, s1)
      else let s2 = s1\<lparr>srv_routines := buf_write (srv_routines s1) 0 (take (routines_copied [] rtns) rtns)\<rparr> in
      if \<not> routines_valid [] rtns then (False, s2)
      else (True, server_start cfg s2))"

definition UdsServer_GetSession :: "UdsServer_t option \<Rightarrow> u8" where
  "UdsServer_GetSession p = (case p of None \<Rightarrow> UDS_SESSION_DEFAULT | Some s \<Rightarrow> srv_session s)"

definition UdsServer_GetSessionTimeoutCount :: "UdsServer_t option \<Rightarrow> u32" where
  "UdsServer_GetSessionTimeoutCount p = (case p of None \<Rightarrow> 0 | Some s \<Rightarrow> srv_session_timeout_count s)"

definition UdsServer_IsSecurityUnlocked :: "UdsServer_t option \<Rightarrow> bool" where
  "UdsServer_IsSecurityUnlocked p = (case p of None \<Rightarrow> False | Some s \<Rightarrow> srv_security_unlocked s)"

definition UdsServer_GetSecurityAttempts :: "UdsServer_t option \<Rightarrow> u8" where
  "UdsServer_GetSecurityAttempts p = (case p of None \<Rightarrow> 0 | Some s \<Rightarrow> srv_security_attempts s)"

definition UdsServer_GetRoutineState :: "UdsServer_t option \<Rightarrow> u16 \<Rightarrow> UdsRoutineStatus_t" where
  "UdsServer_GetRoutineState p rid =
     (case p of None \<Rightarrow> UDS_ROUTINE_IDLE | Some s \<Rightarrow>
      let index = UdsServer_FindRoutineIndex s rid in
      if UDS_MAX_ROUTINES \<le> unat index then UDS_ROUTINE_IDLE
      else srv_routine_state s ! unat index)"

definition UdsServer_LockSecurity :: "UdsServer_t option \<Rightarrow> UdsServer_t option" where
  "UdsServer_LockSecurity p = map_option UdsServer_LockSecurityState p"

end
