(* ===== verification/UdsDidDb.thy ===== *)
theory UdsDidDb
  imports UdsServer
begin

section \<open>The data identifiers of the two ECUs\<close>

text \<open>
  \<open>firmware/common/uds_did_db.c\<close>.  The storage arrays of the database are held by the entries
  whose pointers refer to them.  The storage backend's two functions act on the
  application state \<open>'a\<close> behind their context; \<open>load\<close> returns the bytes it has read, or
  \<open>None\<close> for false.  An entry refers to the backend's functions by the name 0.
\<close>

definition UDS_DID_DB_MAX :: nat where "UDS_DID_DB_MAX = 8"
definition UDS_DID_CUSTOM_CAPACITY :: u16 where "UDS_DID_CUSTOM_CAPACITY = 16"
definition UDS_DID_DTC_CAPACITY :: u16 where "UDS_DID_DTC_CAPACITY = 4"
definition UDS_DID_VIN_CAPACITY :: u16 where "UDS_DID_VIN_CAPACITY = 17"

datatype UdsEcuVariant_t = UDS_ECU_F407 | UDS_ECU_F103

record UdsDidDb_t =
  db_dids :: "UdsDid_t list"
  db_did_count :: u16

record 'a UdsDidStorage_t =
  st_load :: "(u16 \<Rightarrow> u16 \<Rightarrow> 'a \<Rightarrow> u8 list option \<times> 'a) option"
  st_save :: "(u16 \<Rightarrow> u8 list \<Rightarrow> 'a \<Rightarrow> bool \<times> 'a) option"

definition g_vin_f407 :: "u8 list" where "g_vin_f407 = map of_char ''P2F407TESTVIN0001''"
definition g_vin_f103 :: "u8 list" where "g_vin_f103 = map of_char ''P2F103TESTVIN0001''"
definition g_hw_f407 :: "u8 list" where "g_hw_f407 = map of_char ''F407-HW-REV-A''"
definition g_hw_f103 :: "u8 list" where "g_hw_f103 = map of_char ''F103-HW-REV-A''"
definition g_name_f407 :: "u8 list" where "g_name_f407 = map of_char ''ecu1''"
definition g_name_f103 :: "u8 list" where "g_name_f103 = map of_char ''ecu2''"
definition g_software_version :: "u8 list" where "g_software_version = map of_char ''V1.0''"
definition g_custom_default :: "u8 list" where "g_custom_default = [0, 1]"
definition g_dtc_default :: "u8 list" where "g_dtc_default = [0, 0, 0, 0]"

text \<open>An entry of all zero bytes, which \<open>memset\<close> leaves.\<close>

definition zero_did :: UdsDid_t where
  "zero_did = \<lparr>did_id = 0, did_data = None, did_length = 0, did_storage = None, did_storage_capacity = 0,
     did_read_sessions_mask = 0, did_write_sessions_mask = 0, did_write_required_session = 0,
     did_write_requires_unlock = False, did_storage_load = None, did_storage_save = None\<rparr>"

definition fixed_did :: "u16 \<Rightarrow> u8 list \<Rightarrow> UdsDid_t" where
  "fixed_did did value =
     zero_did\<lparr>did_id := did, did_data := Some value, did_length := of_nat (length value)\<rparr>"

definition stored_did :: "u16 \<Rightarrow> u8 list \<Rightarrow> u16 \<Rightarrow> u8 \<Rightarrow> UdsDid_t" where
  "stored_did did value capacity required =
     (fixed_did did value)\<lparr>did_storage := Some (pad_to (unat capacity) 0 value),
       did_storage_capacity := capacity, did_write_sessions_mask := UDS_EXTENDED_PROGRAMMING_MASK,
       did_write_required_session := required, did_write_requires_unlock := True\<rparr>"

definition UdsDidDb_Init :: "UdsEcuVariant_t \<Rightarrow> UdsDidDb_t" where
  "UdsDidDb_Init variant =
     (let vin = (if variant = UDS_ECU_F103 then g_vin_f103 else g_vin_f407);
          hardware = (if variant = UDS_ECU_F103 then g_hw_f103 else g_hw_f407);
          name = (if variant = UDS_ECU_F103 then g_name_f103 else g_name_f407)
      in \<lparr>db_dids =
            [stored_did 0xF190 vin UDS_DID_VIN_CAPACITY UDS_SESSION_PROGRAMMING,
             fixed_did 0xF193 hardware,
             stored_did 0x0100 g_custom_default UDS_DID_CUSTOM_CAPACITY 0,
             stored_did 0xF191 g_dtc_default UDS_DID_DTC_CAPACITY 0,
             fixed_did 0xF19A name,
             fixed_did 0xF19B g_software_version,
             zero_did, zero_did],
          db_did_count = 6\<rparr>)"

definition attach_did :: "'a UdsDidStorage_t \<Rightarrow> UdsDid_t \<Rightarrow> 'a \<Rightarrow> UdsDid_t \<times> 'a" where
  "attach_did st d a =
     (if did_write_sessions_mask d = 0 \<or> did_storage d = None \<or> did_storage_capacity d = 0 then (d, a)
      else let d1 = d\<lparr>did_storage_load := map_option (\<lambda>_. 0) (st_load st),
                    did_storage_save := map_option (\<lambda>_. 0) (st_save st)\<rparr> in
      case st_load st of None \<Rightarrow> (d1, a)
      | Some load \<Rightarrow>
        (case load (did_id d1) UDS_DID_VIN_CAPACITY a of
           (None, a1) \<Rightarrow> (d1, a1)
         | (Some bs, a1) \<Rightarrow>
           if unat (did_storage_capacity d1) < length bs then (d1, a1) else (did_store d1 bs, a1)))"

fun attach_dids :: "'a UdsDidStorage_t \<Rightarrow> UdsDid_t list \<Rightarrow> 'a \<Rightarrow> UdsDid_t list \<times> 'a" where
  "attach_dids st [] a = ([], a)"
| "attach_dids st (d # ds) a =
     (let (d1, a1) = attach_did st d a; (ds1, a2) = attach_dids st ds a1 in (d1 # ds1, a2))"

definition UdsDidDb_AttachStorage ::
  "UdsDidDb_t \<Rightarrow> 'a UdsDidStorage_t option \<Rightarrow> 'a \<Rightarrow> UdsDidDb_t \<times> 'a" where
  "UdsDidDb_AttachStorage db storage a =
     (case storage of None \<Rightarrow> (db, a) | Some st \<Rightarrow>
      let n = unat (db_did_count db);
          (ds, a1) = attach_dids st (take n (db_dids db)) a
      in (db\<lparr>db_dids := ds @ drop n (db_dids db)\<rparr>, a1))"

end
