(* ===== verification/CanHw.thy ===== *)
theory CanHw
  imports Prelude
begin

section \<open>The CAN peripheral under the driver\<close>

text \<open>
  The part of ST's HAL (\<open>firmware/ecu-f407/Drivers/.../stm32f4xx_hal_can.c\<close>) the driver calls,
  over the state it touches: the handle's \<open>State\<close>, \<open>ErrorCode\<close> and \<open>Init\<close>, the three transmit
  mailboxes, the two receive FIFOs, the filter banks, the error status register; and the
  millisecond tick.  A mailbox is \<open>None\<close> when its \<open>TME\<close> bit says empty.  Three fields are not in
  the hardware: \<open>hw_tx_log\<close> records every frame accepted for transmission, \<open>clk_systick\<close> says
  for each coming reading of the tick whether the SysTick interrupt has come in before it, and
  \<open>hw_ack\<close> says for each coming mode change whether the controller acknowledges it within the
  HAL's timeout.
\<close>

datatype HAL_StatusTypeDef = HAL_OK | HAL_ERROR | HAL_BUSY | HAL_TIMEOUT

datatype HAL_CAN_StateTypeDef =
    HAL_CAN_STATE_RESET | HAL_CAN_STATE_READY | HAL_CAN_STATE_LISTENING
  | HAL_CAN_STATE_SLEEP_PENDING | HAL_CAN_STATE_SLEEP_ACTIVE | HAL_CAN_STATE_ERROR

definition HAL_CAN_ERROR_NONE :: u32 where "HAL_CAN_ERROR_NONE = 0"
definition HAL_CAN_ERROR_EWG :: u32 where "HAL_CAN_ERROR_EWG = 0x1"
definition HAL_CAN_ERROR_EPV :: u32 where "HAL_CAN_ERROR_EPV = 0x2"
definition HAL_CAN_ERROR_BOF :: u32 where "HAL_CAN_ERROR_BOF = 0x4"
definition HAL_CAN_ERROR_TIMEOUT :: u32 where "HAL_CAN_ERROR_TIMEOUT = 0x20000"
definition HAL_CAN_ERROR_NOT_INITIALIZED :: u32 where "HAL_CAN_ERROR_NOT_INITIALIZED = 0x40000"
definition HAL_CAN_ERROR_NOT_READY :: u32 where "HAL_CAN_ERROR_NOT_READY = 0x80000"
definition HAL_CAN_ERROR_NOT_STARTED :: u32 where "HAL_CAN_ERROR_NOT_STARTED = 0x100000"
definition HAL_CAN_ERROR_PARAM :: u32 where "HAL_CAN_ERROR_PARAM = 0x200000"

definition CAN_IT_RX_FIFO0_MSG_PENDING :: u32 where "CAN_IT_RX_FIFO0_MSG_PENDING = 0x2"
definition CAN_IT_RX_FIFO1_MSG_PENDING :: u32 where "CAN_IT_RX_FIFO1_MSG_PENDING = 0x10"
definition CAN_IT_ERROR_WARNING :: u32 where "CAN_IT_ERROR_WARNING = 0x100"
definition CAN_IT_ERROR_PASSIVE :: u32 where "CAN_IT_ERROR_PASSIVE = 0x200"
definition CAN_IT_BUSOFF :: u32 where "CAN_IT_BUSOFF = 0x400"
definition CAN_IT_LAST_ERROR_CODE :: u32 where "CAN_IT_LAST_ERROR_CODE = 0x800"
definition CAN_IT_ERROR :: u32 where "CAN_IT_ERROR = 0x8000"

datatype rx_fifo = CAN_RX_FIFO0 | CAN_RX_FIFO1

record CAN_InitTypeDef =
  ini_Prescaler :: u32
  ini_TimeSeg1 :: u32
  ini_TimeSeg2 :: u32
  ini_AutoBusOff :: bool
  ini_AutoRetransmission :: bool

record CAN_FilterTypeDef =
  flt_id_high :: u32
  flt_id_low :: u32
  flt_mask_high :: u32
  flt_mask_low :: u32
  flt_fifo :: rx_fifo
  flt_bank :: u32
  flt_active :: bool

record CAN_RxHeaderTypeDef =
  rxh_StdId :: u32
  rxh_ExtId :: u32
  rxh_ext :: bool
  rxh_DLC :: u32

record can_hw =
  hcan_state :: HAL_CAN_StateTypeDef
  hcan_error_code :: u32
  hcan_init :: CAN_InitTypeDef
  hw_mailboxes :: "(u32 \<times> u32 \<times> frame) option list"
  hw_fifo0 :: "(CAN_RxHeaderTypeDef \<times> frame) list"
  hw_fifo1 :: "(CAN_RxHeaderTypeDef \<times> frame) list"
  hw_filters :: "CAN_FilterTypeDef list"
  hw_esr :: u32
  hw_ier :: u32
  hw_ack :: "bool list"
  hw_tx_log :: "(u32 \<times> frame) list"

subsection \<open>The tick\<close>

record systick =
  uwTick :: u32
  clk_systick :: "bool list"

definition HAL_GetTick :: "systick \<Rightarrow> u32 \<times> systick" where
  "HAL_GetTick k =
     (case clk_systick k of [] \<Rightarrow> (uwTick k, k)
      | b # bs \<Rightarrow> let t = (if b then uwTick k + 1 else uwTick k)
                 in (t, k\<lparr>uwTick := t, clk_systick := bs\<rparr>))"

subsection \<open>Transmission\<close>

definition hal_ready :: "can_hw \<Rightarrow> bool" where
  "hal_ready hw \<longleftrightarrow> hcan_state hw = HAL_CAN_STATE_READY \<or> hcan_state hw = HAL_CAN_STATE_LISTENING"

definition HAL_CAN_GetTxMailboxesFreeLevel :: "can_hw \<Rightarrow> u32" where
  "HAL_CAN_GetTxMailboxesFreeLevel hw =
     (if hal_ready hw then of_nat (length (filter (\<lambda>m. m = None) (hw_mailboxes hw))) else 0)"

definition HAL_CAN_IsTxMessagePending :: "can_hw \<Rightarrow> bool" where
  "HAL_CAN_IsTxMessagePending hw \<longleftrightarrow> hal_ready hw \<and> (\<exists>m\<in>set (hw_mailboxes hw). m \<noteq> None)"

text \<open>\<open>TSR.CODE\<close>: the number of the next free mailbox.\<close>

fun next_mailbox :: "'a option list \<Rightarrow> nat" where
  "next_mailbox [] = 0"
| "next_mailbox (None # ms) = 0"
| "next_mailbox (Some m # ms) = Suc (next_mailbox ms)"

definition HAL_CAN_AddTxMessage ::
  "can_hw \<Rightarrow> u32 \<Rightarrow> u32 \<Rightarrow> frame \<Rightarrow> HAL_StatusTypeDef \<times> can_hw" where
  "HAL_CAN_AddTxMessage hw std_id dlc data =
     (if hal_ready hw then
        if \<exists>m\<in>set (hw_mailboxes hw). m = None then
          (HAL_OK, hw\<lparr>hw_mailboxes := (hw_mailboxes hw)[next_mailbox (hw_mailboxes hw) := Some (std_id, dlc, data)],
                      hw_tx_log := hw_tx_log hw @ [(std_id, data)]\<rparr>)
        else (HAL_ERROR, hw\<lparr>hcan_error_code := hcan_error_code hw OR HAL_CAN_ERROR_PARAM\<rparr>)
      else (HAL_ERROR, hw\<lparr>hcan_error_code := hcan_error_code hw OR HAL_CAN_ERROR_NOT_INITIALIZED\<rparr>))"

subsection \<open>Reception\<close>

definition fifo_of :: "rx_fifo \<Rightarrow> can_hw \<Rightarrow> (CAN_RxHeaderTypeDef \<times> frame) list" where
  "fifo_of f hw = (case f of CAN_RX_FIFO0 \<Rightarrow> hw_fifo0 hw | CAN_RX_FIFO1 \<Rightarrow> hw_fifo1 hw)"

definition HAL_CAN_GetRxFifoFillLevel :: "can_hw \<Rightarrow> rx_fifo \<Rightarrow> nat" where
  "HAL_CAN_GetRxFifoFillLevel hw f = (if hal_ready hw then length (fifo_of f hw) else 0)"

definition HAL_CAN_GetRxMessage ::
  "can_hw \<Rightarrow> rx_fifo \<Rightarrow> (CAN_RxHeaderTypeDef \<times> frame) option \<times> can_hw" where
  "HAL_CAN_GetRxMessage hw f =
     (if hal_ready hw then
        case fifo_of f hw of
          [] \<Rightarrow> (None, hw\<lparr>hcan_error_code := hcan_error_code hw OR HAL_CAN_ERROR_PARAM\<rparr>)
        | m # ms \<Rightarrow> (Some m, case f of CAN_RX_FIFO0 \<Rightarrow> hw\<lparr>hw_fifo0 := ms\<rparr> | CAN_RX_FIFO1 \<Rightarrow> hw\<lparr>hw_fifo1 := ms\<rparr>)
      else (None, hw\<lparr>hcan_error_code := hcan_error_code hw OR HAL_CAN_ERROR_NOT_INITIALIZED\<rparr>))"

subsection \<open>Filters\<close>

definition HAL_CAN_ConfigFilter :: "can_hw \<Rightarrow> CAN_FilterTypeDef \<Rightarrow> HAL_StatusTypeDef \<times> can_hw" where
  "HAL_CAN_ConfigFilter hw f =
     (if hal_ready hw then
        (HAL_OK, hw\<lparr>hw_filters := (hw_filters hw)[unat (flt_bank f) := f]\<rparr>)
      else (HAL_ERROR, hw\<lparr>hcan_error_code := hcan_error_code hw OR HAL_CAN_ERROR_NOT_INITIALIZED\<rparr>))"

text \<open>The 32-bit mask comparison of a bank against a standard identifier, which the
  controller shifts to the top of the register, and the FIFO of the lowest matching bank.\<close>

definition filter_matches :: "CAN_FilterTypeDef \<Rightarrow> u32 \<Rightarrow> bool" where
  "filter_matches f std_id \<longleftrightarrow>
     (let fr1 = push_bit 16 (flt_id_high f AND 0xFFFF) OR (flt_id_low f AND 0xFFFF);
          fr2 = push_bit 16 (flt_mask_high f AND 0xFFFF) OR (flt_mask_low f AND 0xFFFF)
      in flt_active f \<and> push_bit 21 std_id AND fr2 = fr1 AND fr2)"

definition filter_route :: "can_hw \<Rightarrow> u32 \<Rightarrow> rx_fifo option" where
  "filter_route hw std_id = map_option flt_fifo (find (\<lambda>f. filter_matches f std_id) (hw_filters hw))"

subsection \<open>Modes\<close>

definition hal_ack :: "can_hw \<Rightarrow> bool \<times> can_hw" where
  "hal_ack hw = (case hw_ack hw of [] \<Rightarrow> (True, hw) | b # bs \<Rightarrow> (b, hw\<lparr>hw_ack := bs\<rparr>))"

definition hal_timeout :: "can_hw \<Rightarrow> can_hw" where
  "hal_timeout hw = hw\<lparr>hcan_error_code := hcan_error_code hw OR HAL_CAN_ERROR_TIMEOUT,
                      hcan_state := HAL_CAN_STATE_ERROR\<rparr>"

definition HAL_CAN_Init :: "can_hw \<Rightarrow> HAL_StatusTypeDef \<times> can_hw" where
  "HAL_CAN_Init hw =
     (let (awake, hw1) = hal_ack hw in
      if \<not> awake then (HAL_ERROR, hal_timeout hw1)
      else let (ini, hw2) = hal_ack hw1 in
        if \<not> ini then (HAL_ERROR, hal_timeout hw2)
        else (HAL_OK, hw2\<lparr>hcan_error_code := HAL_CAN_ERROR_NONE, hcan_state := HAL_CAN_STATE_READY\<rparr>))"

definition HAL_CAN_Start :: "can_hw \<Rightarrow> HAL_StatusTypeDef \<times> can_hw" where
  "HAL_CAN_Start hw =
     (if hcan_state hw = HAL_CAN_STATE_READY then
        let (ok, hw1) = hal_ack (hw\<lparr>hcan_state := HAL_CAN_STATE_LISTENING\<rparr>) in
        if \<not> ok then (HAL_ERROR, hal_timeout hw1)
        else (HAL_OK, hw1\<lparr>hcan_error_code := HAL_CAN_ERROR_NONE\<rparr>)
      else (HAL_ERROR, hw\<lparr>hcan_error_code := hcan_error_code hw OR HAL_CAN_ERROR_NOT_READY\<rparr>))"

definition HAL_CAN_Stop :: "can_hw \<Rightarrow> HAL_StatusTypeDef \<times> can_hw" where
  "HAL_CAN_Stop hw =
     (if hcan_state hw = HAL_CAN_STATE_LISTENING then
        let (ok, hw1) = hal_ack hw in
        if \<not> ok then (HAL_ERROR, hal_timeout hw1)
        else (HAL_OK, hw1\<lparr>hcan_state := HAL_CAN_STATE_READY\<rparr>)
      else (HAL_ERROR, hw\<lparr>hcan_error_code := hcan_error_code hw OR HAL_CAN_ERROR_NOT_STARTED\<rparr>))"

text \<open>The reset of the peripheral empties its mailboxes and FIFOs.\<close>

definition HAL_CAN_DeInit :: "can_hw \<Rightarrow> HAL_StatusTypeDef \<times> can_hw" where
  "HAL_CAN_DeInit hw =
     (let (r, hw1) = HAL_CAN_Stop hw in
      (HAL_OK, hw1\<lparr>hw_mailboxes := replicate 3 None, hw_fifo0 := [], hw_fifo1 := [],
                   hw_esr := 0, hw_ier := 0,
                   hcan_error_code := HAL_CAN_ERROR_NONE, hcan_state := HAL_CAN_STATE_RESET\<rparr>))"

definition HAL_CAN_ActivateNotification :: "can_hw \<Rightarrow> u32 \<Rightarrow> HAL_StatusTypeDef \<times> can_hw" where
  "HAL_CAN_ActivateNotification hw its =
     (if hal_ready hw then (HAL_OK, hw\<lparr>hw_ier := hw_ier hw OR its\<rparr>)
      else (HAL_ERROR, hw\<lparr>hcan_error_code := hcan_error_code hw OR HAL_CAN_ERROR_NOT_INITIALIZED\<rparr>))"

subsection \<open>What the frames on the bus depend on\<close>

lemma GetTick_steady:
  "HAL_GetTick k = (t1, k1) \<Longrightarrow> HAL_GetTick k1 = (t2, k2) \<Longrightarrow> t2 - t1 \<le> 1"
  by (auto simp: HAL_GetTick_def Let_def split: list.splits)

lemma AddTx_log:
  "HAL_CAN_AddTxMessage hw i n d = (r, hw') \<Longrightarrow>
    hw_tx_log hw' = hw_tx_log hw @ (if r = HAL_OK then [(i, d)] else [])"
  by (auto simp: HAL_CAN_AddTxMessage_def split: if_splits)

lemma GetRx_decreases:
  "HAL_CAN_GetRxMessage hw f = (Some m, hw') \<Longrightarrow> length (fifo_of f hw') < length (fifo_of f hw)"
  by (auto simp: HAL_CAN_GetRxMessage_def fifo_of_def split: if_splits list.splits rx_fifo.splits)

end
