(* ===== verification/AppParam.thy ===== *)
theory AppParam
  imports ParamLog UdsDidDb CanHw
begin

section \<open>Parameters in flash\<close>

text \<open>
  \<open>firmware/ecu-f407/Core/Src/app_param_storage.c\<close> and its F103 twin, which differ in the size of
  the flash region only; \<open>fsize\<close> is \<open>APP_PARAM_FLASH_SIZE\<close>.  The flash is its cells, the lock bit
  and the outcomes of the coming operations: \<open>None\<close> for success, \<open>Some junk\<close> for a failure that
  leaves \<open>junk\<close> in the cells it was working on (an operation cut short by a power loss is one).
  Programming clears bits, erasing sets them, a locked controller does nothing.  The read, erase
  and write functions satisfy the contract of the log.
\<close>

subsection \<open>The flash and its HAL\<close>

record flash_hw =
  fl_cells :: "u8 list"
  fl_locked :: bool
  fl_faults :: "u8 list option list"

definition flash_fault :: "flash_hw \<Rightarrow> u8 list option \<times> flash_hw" where
  "flash_fault f = (case fl_faults f of [] \<Rightarrow> (None, f) | x # xs \<Rightarrow> (x, f\<lparr>fl_faults := xs\<rparr>))"

text \<open>The first \<open>n\<close> cells behind \<open>i\<close> hold \<open>junk\<close>, as far as it goes.\<close>

definition leave_junk :: "u8 list \<Rightarrow> nat \<Rightarrow> nat \<Rightarrow> u8 list \<Rightarrow> u8 list" where
  "leave_junk c i n junk = buf_write c i (take n (junk @ drop (i + length junk) c))"

definition HAL_FLASH_Unlock :: "flash_hw \<Rightarrow> HAL_StatusTypeDef \<times> flash_hw" where
  "HAL_FLASH_Unlock f =
     (if fl_locked f then
        let (fault, f1) = flash_fault f in
        if fault \<noteq> None then (HAL_ERROR, f1) else (HAL_OK, f1\<lparr>fl_locked := False\<rparr>)
      else (HAL_OK, f))"

definition HAL_FLASH_Lock :: "flash_hw \<Rightarrow> HAL_StatusTypeDef \<times> flash_hw" where
  "HAL_FLASH_Lock f = (HAL_OK, f\<lparr>fl_locked := True\<rparr>)"

definition HAL_FLASH_Program :: "nat \<Rightarrow> u32 \<Rightarrow> flash_hw \<Rightarrow> HAL_StatusTypeDef \<times> flash_hw" where
  "HAL_FLASH_Program i w f =
     (let (fault, f1) = flash_fault f in
      if fl_locked f then (HAL_ERROR, f1)
      else case fault of
        Some junk \<Rightarrow> (HAL_ERROR, f1\<lparr>fl_cells := leave_junk (fl_cells f1) i 4 junk\<rparr>)
      | None \<Rightarrow> (HAL_OK, f1\<lparr>fl_cells := buf_write (fl_cells f1) i (put_u32 (get_u32 (drop i (fl_cells f1)) AND w))\<rparr>))"

definition HAL_FLASHEx_Erase :: "flash_hw \<Rightarrow> (HAL_StatusTypeDef \<times> u32) \<times> flash_hw" where
  "HAL_FLASHEx_Erase f =
     (let (fault, f1) = flash_fault f in
      if fl_locked f then ((HAL_ERROR, 0), f1)
      else case fault of
        Some junk \<Rightarrow> ((HAL_ERROR, 0), f1\<lparr>fl_cells := leave_junk (fl_cells f1) 0 (length (fl_cells f1)) junk\<rparr>)
      | None \<Rightarrow> ((HAL_OK, 0xFFFFFFFF), f1\<lparr>fl_cells := replicate (length (fl_cells f1)) 0xFF\<rparr>))"

subsection \<open>The storage functions\<close>

definition app_flash_read :: "u32 \<Rightarrow> u32 \<Rightarrow> nat \<Rightarrow> flash_hw \<Rightarrow> u8 list option \<times> flash_hw" where
  "app_flash_read fsize off len f =
     (if fsize < off + of_nat len then (None, f)
      else (Some (take len (drop (unat off) (fl_cells f))), f))"

definition app_flash_erase :: "flash_hw \<Rightarrow> bool \<times> flash_hw" where
  "app_flash_erase f =
     (let (unlocked, f1) = HAL_FLASH_Unlock f in
      if unlocked \<noteq> HAL_OK then (False, f1)
      else let ((status, sector_error), f2) = HAL_FLASHEx_Erase f1;
               (_, f3) = HAL_FLASH_Lock f2
           in (status = HAL_OK \<and> sector_error = 0xFFFFFFFF, f3))"

text \<open>The loop over the words: a word that is not erased, or cannot be programmed, ends it.\<close>

fun program_words :: "nat \<Rightarrow> u8 list \<Rightarrow> flash_hw \<Rightarrow> bool \<times> flash_hw" where
  "program_words i (a # b # c # d # bs) f =
     (if get_u32 (drop i (fl_cells f)) \<noteq> 0xFFFFFFFF then (False, f)
      else let (status, f1) = HAL_FLASH_Program i (get_u32 [a, b, c, d]) f in
           if status \<noteq> HAL_OK then (False, f1) else program_words (i + 4) bs f1)"
| "program_words i _ f = (True, f)"

definition app_flash_write :: "u32 \<Rightarrow> u32 \<Rightarrow> u8 list \<Rightarrow> flash_hw \<Rightarrow> bool \<times> flash_hw" where
  "app_flash_write fsize off bs f =
     (if off mod 4 \<noteq> 0 \<or> length bs mod 4 \<noteq> 0 \<or> fsize < off + of_nat (length bs) then (False, f)
      else let (unlocked, f1) = HAL_FLASH_Unlock f in
      if unlocked \<noteq> HAL_OK then (False, f1)
      else let (success, f2) = program_words (unat off) bs f1;
               (_, f3) = HAL_FLASH_Lock f2
           in (success, f3))"

definition app_io :: "u32 \<Rightarrow> flash_hw ParamStoreIo_t" where
  "app_io fsize = \<lparr>io_read = Some (app_flash_read fsize), io_erase = Some app_flash_erase,
     io_write = Some (app_flash_write fsize)\<rparr>"

record AppParamStorage_t =
  aps_log :: ParamLog_t
  aps_valid :: bool

text \<open>What the storage functions reach: the storage and the flash, in a larger state.\<close>

record param_state =
  st_params :: AppParamStorage_t
  st_flash :: flash_hw

definition APP_PARAM_FLASH_SIZE_F407 :: u32 where "APP_PARAM_FLASH_SIZE_F407 = 128 * 1024"
definition APP_PARAM_FLASH_SIZE_F103 :: u32 where "APP_PARAM_FLASH_SIZE_F103 = 1024"

definition APP_PARAM_SLOT_COUNT :: "u32 \<Rightarrow> u16" where
  "APP_PARAM_SLOT_COUNT fsize = ucast (fsize div of_nat PARAM_STORE_IMAGE_SIZE)"

text \<open>\<open>APP_PARAM_FORCE_SAVE_FAILURE\<close>, a build option for tests, is its default 0.\<close>

definition app_param_load ::
  "u16 \<Rightarrow> u16 \<Rightarrow> 'x param_state_scheme \<Rightarrow> u8 list option \<times> 'x param_state_scheme" where
  "app_param_load did capacity st = (ParamLog_Get (aps_log (st_params st)) did capacity, st)"

definition app_param_save ::
  "u32 \<Rightarrow> u16 \<Rightarrow> u8 list \<Rightarrow> 'x param_state_scheme \<Rightarrow> bool \<times> 'x param_state_scheme" where
  "app_param_save fsize did data st =
     (let (ok, log, f) = ParamLog_Set (app_io fsize) (aps_log (st_params st)) did data (st_flash st)
      in (ok, st\<lparr>st_params := (st_params st)\<lparr>aps_log := log\<rparr>, st_flash := f\<rparr>))"

definition AppParamStorage_Init :: "u32 \<Rightarrow> flash_hw \<Rightarrow> AppParamStorage_t \<times> flash_hw" where
  "AppParamStorage_Init fsize f =
     (let (ok, log, f1) = ParamLog_Load (app_io fsize) (APP_PARAM_SLOT_COUNT fsize) ParamLog_Init f
      in (\<lparr>aps_log = log, aps_valid = ok\<rparr>, f1))"

definition AppParamStorage_GetUdsStorage :: "u32 \<Rightarrow> ('x param_state_scheme) UdsDidStorage_t" where
  "AppParamStorage_GetUdsStorage fsize = \<lparr>st_load = Some app_param_load, st_save = Some (app_param_save fsize)\<rparr>"

definition AppParamStorage_IsValid :: "AppParamStorage_t option \<Rightarrow> bool" where
  "AppParamStorage_IsValid storage = (case storage of None \<Rightarrow> False | Some s \<Rightarrow> aps_valid s)"

definition AppParamStorage_Clear :: "u32 \<Rightarrow> 'x param_state_scheme \<Rightarrow> bool \<times> 'x param_state_scheme" where
  "AppParamStorage_Clear fsize st =
     (let (cleared, log, f) = ParamLog_Clear (app_io fsize) (aps_log (st_params st)) (st_flash st);
          p1 = (st_params st)\<lparr>aps_log := log\<rparr>
      in (cleared, st\<lparr>st_params := if cleared then p1\<lparr>aps_valid := True\<rparr> else p1, st_flash := f\<rparr>))"

definition flash_valid :: "u32 \<Rightarrow> flash_hw \<Rightarrow> bool" where
  "flash_valid fsize f \<longleftrightarrow> length (fl_cells f) = unat fsize"

subsection \<open>The contract of the log\<close>

lemma fault_cells: "flash_fault f = (b, f') \<Longrightarrow> fl_cells f' = fl_cells f \<and> fl_locked f' = fl_locked f"
  by (auto simp: flash_fault_def split: list.splits)

lemma unlock_cells: "HAL_FLASH_Unlock f = (s, f') \<Longrightarrow> fl_cells f' = fl_cells f"
  by (auto simp: HAL_FLASH_Unlock_def dest: fault_cells split: if_splits prod.splits)

lemma put_get32: "put_u32 (get_u32 [a, b, c, d]) = [a, b, c, d]"
  using get_u32_bytes [of "[a, b, c, d]"] by (simp add: put_u32_def)

lemma erased_and: "0xFFFFFFFF AND w = (w :: u32)"
proof -
  have "0xFFFFFFFF = (NOT 0 :: u32)" by code_simp
  then show ?thesis by (simp only:) simp
qed

lemma leave_junk_local:
  assumes "i + n \<le> length c"
  shows "length (leave_junk c i n junk) = length c \<and> take i (leave_junk c i n junk) = take i c \<and>
    (i + n \<le> k \<longrightarrow> drop k (leave_junk c i n junk) = drop k c)"
proof -
  have n: "length (take n (junk @ drop (i + length junk) c)) = n" using assms by simp
  then show ?thesis
    unfolding leave_junk_def using assms
    by (simp add: take_buf_write_before drop_buf_write_after del: length_take)
qed

lemma program_word:
  assumes "HAL_FLASH_Program i w f = (s, f')" and "i + 4 \<le> length (fl_cells f)"
    and "get_u32 (drop i (fl_cells f)) = 0xFFFFFFFF"
  shows "if s = HAL_OK then fl_cells f' = buf_write (fl_cells f) i (put_u32 w)
    else length (fl_cells f') = length (fl_cells f) \<and> take i (fl_cells f') = take i (fl_cells f) \<and>
      (\<forall>k \<ge> i + 4. drop k (fl_cells f') = drop k (fl_cells f))"
proof -
  obtain x f1 where x: "flash_fault f = (x, f1)" by fastforce
  with assms leave_junk_local [OF assms(2)] fault_cells [OF x] show ?thesis
    by (auto simp: HAL_FLASH_Program_def erased_and split: if_splits option.splits)
qed

text \<open>A slice written front to back.\<close>

lemma word_then_rest:
  assumes "take (i + length w) c' = take (i + length w) (buf_write c i w)"
    and "drop (i + length w + n) c' = drop (i + length w + n) (buf_write c i w)"
    and "i + length w + n \<le> length c"
  shows "take i c' = take i c \<and> drop (i + length w + n) c' = drop (i + length w + n) c \<and>
    take (length w + n) (drop i c') = w @ take n (drop (i + length w) c')"
proof -
  have four: "take (i + length w) c' = take i c @ w" using assms(1,3) by (simp add: take_buf_write)
  have i: "length (take i c) = i" using assms(3) by simp
  have "take i c' = take i (take (i + length w) c')" by (simp add: min_def)
  also have "\<dots> = take i c" unfolding four using i by simp
  finally have pre: "take i c' = take i c" .
  have "take (length w) (drop i c') = drop i (take (i + length w) c')" by (simp add: drop_take)
  also have "\<dots> = w" unfolding four using i by simp
  finally have "take (length w) (drop i c') = w" .
  then have "take (length w + n) (drop i c') = w @ take n (drop (i + length w) c')"
    unfolding take_add drop_drop by (simp only: add.commute)
  with pre assms(2,3) show ?thesis by (simp add: drop_buf_write_after)
qed

lemma program_words_local:
  assumes "program_words i bs f = (ok, f')" and "i + length bs \<le> length (fl_cells f)"
  shows "length (fl_cells f') = length (fl_cells f) \<and> take i (fl_cells f') = take i (fl_cells f) \<and>
    drop (i + length bs) (fl_cells f') = drop (i + length bs) (fl_cells f) \<and>
    (ok \<and> length bs mod 4 = 0 \<longrightarrow> take (length bs) (drop i (fl_cells f')) = bs)"
  using assms
proof (induction i bs f arbitrary: ok f' rule: program_words.induct)
  case (1 i a b c d bs f)
  show ?case
  proof (cases "get_u32 (drop i (fl_cells f)) = 0xFFFFFFFF")
    case False
    with "1.prems" show ?thesis by auto
  next
    case True
    obtain s f1 where p: "HAL_FLASH_Program i (get_u32 [a, b, c, d]) f = (s, f1)" by fastforce
    have fits: "i + 4 \<le> length (fl_cells f)" using "1.prems"(2) by simp
    note effect = program_word [OF p fits True, unfolded put_get32]
    show ?thesis
    proof (cases "s = HAL_OK")
      case False
      with "1.prems"(1) True p have f': "f' = f1" "\<not> ok" by auto
      have "i + 4 \<le> i + length (a # b # c # d # bs)" by simp
      with effect False f' show ?thesis by presburger
    next
      case ok: True
      have c1: "fl_cells f1 = buf_write (fl_cells f) i [a, b, c, d]" using effect ok by simp
      have rest: "program_words (i + 4) bs f1 = (ok, f')" using "1.prems"(1) True p ok by simp
      have len: "length (fl_cells f1) = length (fl_cells f)" using c1 fits by simp
      have IH: "length (fl_cells f') = length (fl_cells f1) \<and> take (i + 4) (fl_cells f') = take (i + 4) (fl_cells f1) \<and>
          drop (i + 4 + length bs) (fl_cells f') = drop (i + 4 + length bs) (fl_cells f1) \<and>
          (ok \<and> length bs mod 4 = 0 \<longrightarrow> take (length bs) (drop (i + 4) (fl_cells f')) = bs)"
        using "1.IH" [OF _ p [symmetric]] True ok rest len "1.prems"(2) by simp
      have four: "length [a, b, c, d] = 4" by simp
      have ends: "take (i + length [a, b, c, d]) (fl_cells f') = take (i + length [a, b, c, d]) (buf_write (fl_cells f) i [a, b, c, d])"
        "drop (i + length [a, b, c, d] + length bs) (fl_cells f') =
          drop (i + length [a, b, c, d] + length bs) (buf_write (fl_cells f) i [a, b, c, d])"
        using IH [unfolded c1] by (simp_all only: four)
      have "i + length [a, b, c, d] + length bs \<le> length (fl_cells f)" using "1.prems"(2) by simp
      note split = word_then_rest [OF ends this, unfolded four]
      have n: "length (a # b # c # d # bs) = 4 + length bs" by simp
      have "length (a # b # c # d # bs) mod 4 = 0 \<longrightarrow> length bs mod 4 = 0" by simp
      with split IH len show ?thesis unfolding n by (auto simp: add.assoc)
    qed
  qed
qed auto

lemma app_write_local:
  assumes "flash_valid fsize f" and "unat off + length bs \<le> length (fl_cells f)" and "length bs < 65536"
    and "app_flash_write fsize off bs f = (ok, f')"
  shows "flash_valid fsize f' \<and> length (fl_cells f') = length (fl_cells f) \<and>
    take (unat off) (fl_cells f') = take (unat off) (fl_cells f) \<and>
    drop (unat off + length bs) (fl_cells f') = drop (unat off + length bs) (fl_cells f) \<and>
    (ok \<longrightarrow> take (length bs) (drop (unat off) (fl_cells f')) = bs)"
proof -
  obtain u f1 where u: "HAL_FLASH_Unlock f = (u, f1)" by fastforce
  obtain s f2 where p: "program_words (unat off) bs f1 = (s, f2)" by fastforce
  note cells = unlock_cells [OF u]
  note eff = program_words_local [OF p, unfolded cells, OF assms(2)]
  have "(f' = f \<or> f' = f1) \<and> \<not> ok \<or> f' = f2\<lparr>fl_locked := True\<rparr> \<and> ok = s \<and> length bs mod 4 = 0"
    using assms(4) u p by (auto simp: app_flash_write_def HAL_FLASH_Lock_def split: if_splits)
  with eff cells assms(1) show ?thesis by (auto simp: flash_valid_def)
qed

lemma app_read_bound:
  assumes "flash_valid fsize f" and "unat off + n \<le> length (fl_cells f)" and "n < 65536"
  shows "\<not> fsize < off + of_nat n"
proof -
  have "unat off + n < 2 ^ 32" using assms(1,2) unat_u32_less [of fsize] by (simp add: flash_valid_def)
  moreover have "unat (of_nat n :: u32) = n" using assms(3) by (simp add: unat_of_nat)
  ultimately have "unat (off + of_nat n) = unat off + n" using unat_add_lem [of off "of_nat n"] by simp
  then show ?thesis using assms(1,2) by (simp add: flash_valid_def word_less_nat_alt)
qed

lemma app_read_slice:
  assumes "flash_valid fsize f" and "unat off + n \<le> length (fl_cells f)" and "n < 65536"
  shows "app_flash_read fsize off n f = (Some (take n (drop (unat off) (fl_cells f))), f)"
  using app_read_bound [OF assms] by (simp add: app_flash_read_def)

lemma app_erase_all:
  assumes "flash_valid fsize f" and "app_flash_erase f = (ok, f')"
  shows "flash_valid fsize f' \<and> length (fl_cells f') = length (fl_cells f) \<and>
    (ok \<longrightarrow> fl_cells f' = replicate (length (fl_cells f)) 0xFF)"
proof -
  obtain u f1 where u: "HAL_FLASH_Unlock f = (u, f1)" by fastforce
  obtain b f2 where b: "flash_fault f1 = (b, f2)" by fastforce
  note cells = unlock_cells [OF u] fault_cells [OF b]
  from assms u b cells leave_junk_local [of 0 "length (fl_cells f2)" "fl_cells f2"] show ?thesis
    by (auto simp: app_flash_erase_def HAL_FLASHEx_Erase_def HAL_FLASH_Lock_def flash_valid_def split: if_splits option.splits)
qed

interpretation app_flash: param_flash "app_io fsize" "app_flash_read fsize" app_flash_erase "app_flash_write fsize"
  fl_cells "flash_valid fsize" for fsize
  by unfold_locales
    (simp add: app_io_def, simp add: app_io_def, simp add: app_io_def, erule app_read_slice, assumption, assumption,
     erule app_write_local, assumption, assumption, assumption, erule app_erase_all, assumption)

subsection \<open>Operations that succeed\<close>

text \<open>The next \<open>n\<close> operations of the flash succeed.\<close>

definition no_fault :: "nat \<Rightarrow> flash_hw \<Rightarrow> bool" where
  "no_fault n f \<longleftrightarrow> list_all (\<lambda>x. x = None) (take n (fl_faults f))"

lemma no_fault_step:
  assumes "no_fault (Suc n) f"
  obtains f' where "flash_fault f = (None, f')" "no_fault n f'" "fl_cells f' = fl_cells f" "fl_locked f' = fl_locked f"
  using assms by (cases "fl_faults f") (auto simp: no_fault_def flash_fault_def intro: that)

lemma get_u32_prefix: "length a = 4 \<Longrightarrow> get_u32 (a @ b) = get_u32 a"
  by (simp add: get_u32_def nth_append)

lemma no_fault_mono: "no_fault n f \<Longrightarrow> m \<le> n \<Longrightarrow> no_fault m f"
  unfolding no_fault_def list_all_length by (simp add: min_def split: if_splits)

lemma replicate_split:
  assumes "take (k + n) xs = replicate (k + n) x"
  shows "take k xs = replicate k x \<and> take n (drop k xs) = replicate n x"
proof -
  have "k + n \<le> length xs" using arg_cong [OF assms, of length] by (simp only: length_take length_replicate)
  then have "length (take k xs) = length (replicate k x)" by simp
  moreover have "take k xs @ take n (drop k xs) = replicate k x @ replicate n x"
    using assms unfolding take_add replicate_add .
  ultimately show ?thesis using append_eq_append_conv by blast
qed

lemma word_erased: "take 4 (drop i c) = replicate 4 0xFF \<Longrightarrow> get_u32 (drop i c) = 0xFFFFFFFF"
proof -
  assume e: "take 4 (drop i c) = replicate 4 0xFF"
  then have "drop i c = replicate 4 0xFF @ drop 4 (drop i c)" by (metis append_take_drop_id)
  then have "get_u32 (drop i c) = get_u32 (replicate 4 0xFF)" using get_u32_prefix [of "replicate 4 0xFF" "drop 4 (drop i c)"] by simp
  also have "\<dots> = 0xFFFFFFFF" by code_simp
  finally show ?thesis .
qed

lemma program_succeeds:
  assumes "length bs mod 4 = 0" and "i + length bs \<le> length (fl_cells f)" and "\<not> fl_locked f"
    and "take (length bs) (drop i (fl_cells f)) = replicate (length bs) 0xFF" and "no_fault (length bs div 4) f"
  shows "fst (program_words i bs f)"
  using assms
proof (induction i bs f rule: program_words.induct)
  case (1 i a b c d bs f)
  have n: "length (a # b # c # d # bs) = 4 + length bs" by simp
  have e: "take (4 + length bs) (drop i (fl_cells f)) = replicate (4 + length bs) 0xFF"
    using "1.prems"(4) unfolding n .
  note split = replicate_split [OF e]
  have blank: "get_u32 (drop i (fl_cells f)) = 0xFFFFFFFF" by (rule word_erased [OF split [THEN conjunct1]])
  have rest: "take (length bs) (drop (i + 4) (fl_cells f)) = replicate (length bs) 0xFF"
    using split [THEN conjunct2] by (simp only: drop_drop add.commute)
  have "(4 + length bs) div 4 = Suc (length bs div 4)" by simp
  then have "no_fault (Suc (length bs div 4)) f" using "1.prems"(5) unfolding n by (simp only:)
  then obtain f0 where f0: "flash_fault f = (None, f0)" "no_fault (length bs div 4) f0" "fl_cells f0 = fl_cells f"
    "fl_locked f0 = fl_locked f" by (rule no_fault_step)
  let ?f1 = "f0\<lparr>fl_cells := buf_write (fl_cells f) i [a, b, c, d]\<rparr>"
  have p: "HAL_FLASH_Program i (get_u32 [a, b, c, d]) f = (HAL_OK, ?f1)"
    using f0 "1.prems"(3) blank by (simp add: HAL_FLASH_Program_def erased_and put_get32)
  have w: "i + length [a, b, c, d] \<le> i + 4" "i + length [a, b, c, d] \<le> length (fl_cells f)"
    using "1.prems"(2) by simp_all
  have "fst (program_words (i + 4) bs ?f1)"
  proof (rule "1.IH" [OF _ p [symmetric]])
    show "take (length bs) (drop (i + 4) (fl_cells ?f1)) = replicate (length bs) 0xFF"
      using rest drop_buf_write_after [OF w] by simp
    show "i + 4 + length bs \<le> length (fl_cells ?f1)" using "1.prems"(2) w(2) by simp
  qed (use "1.prems" blank f0 in \<open>simp_all add: no_fault_def\<close>)
  with blank p show ?case by simp
qed auto

lemma app_write_succeeds:
  assumes "flash_valid fsize f" and "unat off + length bs \<le> length (fl_cells f)" and "length bs < 65536"
    and "off mod 4 = 0" and "length bs mod 4 = 0" and "no_fault (Suc (length bs div 4)) f"
    and "take (length bs) (drop (unat off) (fl_cells f)) = replicate (length bs) 0xFF"
  shows "fst (app_flash_write fsize off bs f)"
proof -
  have fits: "\<not> fsize < off + of_nat (length bs)" using app_read_bound [OF assms(1-3)] .
  have "\<exists>f1. HAL_FLASH_Unlock f = (HAL_OK, f1) \<and> \<not> fl_locked f1 \<and> fl_cells f1 = fl_cells f \<and> no_fault (length bs div 4) f1"
  proof (cases "fl_locked f")
    case True
    from assms(6) obtain f0 where "flash_fault f = (None, f0)" "no_fault (length bs div 4) f0" "fl_cells f0 = fl_cells f"
      by (rule no_fault_step)
    with True show ?thesis by (simp add: HAL_FLASH_Unlock_def no_fault_def)
  next
    case False
    with no_fault_mono [OF assms(6)] show ?thesis by (simp add: HAL_FLASH_Unlock_def)
  qed
  then obtain f1 where f1: "HAL_FLASH_Unlock f = (HAL_OK, f1)" "\<not> fl_locked f1" "fl_cells f1 = fl_cells f"
    "no_fault (length bs div 4) f1" by blast
  then have "fst (program_words (unat off) bs f1)" using program_succeeds [of bs "unat off" f1] assms by simp
  with f1 fits assms(4,5) show ?thesis
    by (cases "program_words (unat off) bs f1") (simp add: app_flash_write_def HAL_FLASH_Lock_def)
qed

subsection \<open>Starts\<close>

definition ecu_flash :: "u32 \<Rightarrow> bool" where
  "ecu_flash fsize \<longleftrightarrow> fsize = APP_PARAM_FLASH_SIZE_F407 \<or> fsize = APP_PARAM_FLASH_SIZE_F103"

lemma slot_counts:
  assumes "ecu_flash fsize"
  defines "N \<equiv> unat (APP_PARAM_SLOT_COUNT fsize)"
  shows "0 < N" "N \<le> 1638" "80 * N \<le> unat fsize" "APP_PARAM_SLOT_COUNT fsize = of_nat N"
proof -
  have "0 < N \<and> N \<le> 1638 \<and> 80 * N \<le> unat fsize"
    using assms(1) unfolding ecu_flash_def
    by (auto simp: N_def APP_PARAM_SLOT_COUNT_def PARAM_STORE_IMAGE_SIZE_def APP_PARAM_FLASH_SIZE_F407_def
        APP_PARAM_FLASH_SIZE_F103_def )
  then show "0 < N" "N \<le> 1638" "80 * N \<le> unat fsize" by simp_all
  show "APP_PARAM_SLOT_COUNT fsize = of_nat N" by (simp add: N_def)
qed

text \<open>A successful start: the log agrees with the flash it leaves.\<close>

lemma storage_starts:
  assumes "ecu_flash fsize" and "flash_valid fsize f" and "tail_clean (fl_cells f) (unat (APP_PARAM_SLOT_COUNT fsize))"
    and "AppParamStorage_Init fsize f = (st, f')" and "aps_valid st"
  shows "log_state_ok fl_cells (flash_valid fsize) (aps_log st, f', param_map (log_store (aps_log st))) \<and>
    log_slot_count (aps_log st) = APP_PARAM_SLOT_COUNT fsize"
proof -
  note n = slot_counts [OF assms(1)]
  have load: "ParamLog_Load (app_io fsize) (of_nat (unat (APP_PARAM_SLOT_COUNT fsize))) ParamLog_Init f = (True, aps_log st, f')"
    using assms(4,5) n(4) by (auto simp: AppParamStorage_Init_def split: prod.splits)
  have c: "80 * unat (APP_PARAM_SLOT_COUNT fsize) \<le> length (fl_cells f)"
    using n(3) assms(2) by (simp add: flash_valid_def)
  have "log_slot_count (aps_log st) = APP_PARAM_SLOT_COUNT fsize"
    using app_flash.load_step [OF assms(2) n(1,2) c load] by (metis n(4))
  with app_flash.first_start [OF assms(2) n(1,2) c assms(3) load] show ?thesis by blast
qed

lemma storage_restarts:
  assumes "log_state_ok fl_cells (flash_valid fsize) (log, f, m)"
    and "log_slot_count log = APP_PARAM_SLOT_COUNT fsize" and "AppParamStorage_Init fsize f = (st, f')" and "aps_valid st"
  shows "log_state_ok fl_cells (flash_valid fsize) (aps_log st, f', found_map (fl_cells f) log m)"
proof -
  have "ParamLog_Load (app_io fsize) (log_slot_count log) ParamLog_Init f = (True, aps_log st, f')"
    using assms(2-4) by (auto simp: AppParamStorage_Init_def split: prod.splits)
  with app_flash.restart_step [where fsize = fsize and f = f and log = log] assms(1) show ?thesis
    by (auto simp: log_state_ok_def)
qed

lemma found_erased: "next_erased c log \<Longrightarrow> found_map c log m = m"
  using erased_no_torn by (simp add: found_map_def)

text \<open>The state of a running ECU, which every storage function keeps.\<close>

definition storage_ok :: "u32 \<Rightarrow> 'x param_state_scheme \<Rightarrow> bool" where
  "storage_ok fsize st \<longleftrightarrow> flash_valid fsize (st_flash st) \<and> log_agrees (fl_cells (st_flash st)) (aps_log (st_params st)) \<and>
     log_slot_count (aps_log (st_params st)) = APP_PARAM_SLOT_COUNT fsize"

abbreviation params_of :: "'x param_state_scheme \<Rightarrow> u16 \<Rightarrow> u8 list option" where
  "params_of st \<equiv> param_map (log_store (aps_log (st_params st)))"

lemma save_step:
  assumes "storage_ok fsize st" and "app_param_save fsize did data st = (ok, st')"
  shows "storage_ok fsize st' \<and> params_of st' = (if ok then (params_of st)(did \<mapsto> data) else params_of st) \<and>
    (ok \<longrightarrow> next_erased (fl_cells (st_flash st')) (aps_log (st_params st')))"
proof -
  obtain b log f where "ParamLog_Set (app_io fsize) (aps_log (st_params st)) did data (st_flash st) = (b, log, f)"
    by (metis prod_cases3)
  with app_flash.set_step [OF _ _ this] assms show ?thesis by (auto simp: storage_ok_def app_param_save_def)
qed

lemma clear_storage_step:
  assumes "storage_ok fsize st" and "AppParamStorage_Clear fsize st = (ok, st')"
  shows "storage_ok fsize st' \<and> params_of st' = (if ok then Map.empty else params_of st) \<and>
    (ok \<longrightarrow> next_erased (fl_cells (st_flash st')) (aps_log (st_params st')))"
proof -
  obtain b log f where "ParamLog_Clear (app_io fsize) (aps_log (st_params st)) (st_flash st) = (b, log, f)"
    by (metis prod_cases3)
  with app_flash.clear_step [OF _ _ this] assms show ?thesis
    by (auto simp: storage_ok_def AppParamStorage_Clear_def Let_def)
qed

lemma state_get:
  assumes "log_state_ok cells valid (log, f, m)" and "m did = Some v" and "length v \<le> unat cap"
  shows "ParamLog_Get log did cap = Some v"
  using assms get_value [of "log_store log" did v cap]
  by (simp add: ParamLog_Get_def log_state_ok_def log_agrees_def Let_def)

lemma run_slot_count:
  "log_run (app_io fsize) fl_cells start x \<Longrightarrow> log_state_ok fl_cells (flash_valid fsize) start \<Longrightarrow>
    log_slot_count (fst x) = log_slot_count (fst start)"
proof (induction rule: log_run.induct)
  case (run_set log f m did data ok log' f')
  then show ?case using app_flash.log_run_ok [OF run_set.hyps(1)] app_flash.set_step [where fsize = fsize and f = f and log = log]
    by (simp add: log_state_ok_def)
next
  case (run_clear log f m ok log' f')
  then show ?case using app_flash.log_run_ok [OF run_clear.hyps(1)] app_flash.clear_step [where fsize = fsize and f = f and log = log]
    by (simp add: log_state_ok_def)
next
  case (run_restart log f m l0 log' f')
  then show ?case using app_flash.log_run_ok [OF run_restart.hyps(1)] app_flash.restart_step [where fsize = fsize and f = f and log = log]
    by (simp add: log_state_ok_def)
qed simp

lemma erased_start:
  assumes "ecu_flash fsize" and "fl_cells f = replicate (unat fsize) 0xFF"
  obtains st where "AppParamStorage_Init fsize f = (st, f)" "aps_valid st"
    "log_state_ok fl_cells (flash_valid fsize) (aps_log st, f, Map.empty)"
    "log_slot_count (aps_log st) = APP_PARAM_SLOT_COUNT fsize"
    "log_next_slot (aps_log st) = 0" "next_erased (fl_cells f) (aps_log st)"
proof -
  let ?N = "unat (APP_PARAM_SLOT_COUNT fsize)"
  let ?l = "\<lparr>log_store = ParamStore_Init, log_next_slot = 0, log_slot_count = APP_PARAM_SLOT_COUNT fsize\<rparr>"
  note n = slot_counts [OF assms(1)]
  have blank: "slot_image (fl_cells f) i = erased_image" if "i < ?N" for i
    using assms(2) n(3) that by (simp add: erased_cells)
  have valid: "flash_valid fsize f" using assms(2) by (simp add: flash_valid_def)
  have agrees: "log_agrees (fl_cells f) ?l"
    using n assms(2) blank by (simp add: log_agrees_def Let_def)
  have ok: "log_state_ok fl_cells (flash_valid fsize) (?l, f, Map.empty)"
    using agrees valid by (simp add: log_state_ok_def)
  have less: "log_next_slot ?l < log_slot_count ?l" using n(1) by (simp add: word_less_nat_alt)
  have erased: "next_erased (fl_cells f) ?l" using blank n(1) by (simp add: next_erased_def)
  obtain log' where load: "ParamLog_Load (app_io fsize) (log_slot_count ?l) ParamLog_Init f = (True, log', f)"
    using app_flash.load_succeeds [OF agrees valid less erased] .
  let ?st = "\<lparr>aps_log = log', aps_valid = True\<rparr>"
  have init: "AppParamStorage_Init fsize f = (?st, f)"
    using load by (simp add: AppParamStorage_Init_def)
  have st: "log_state_ok fl_cells (flash_valid fsize) (aps_log ?st, f, Map.empty)"
    using storage_restarts [OF ok _ init] found_erased [OF erased] by simp
  have count: "log_slot_count (aps_log ?st) = APP_PARAM_SLOT_COUNT fsize"
    using app_flash.restart_step [OF agrees valid load] by simp
  have "unat (log_next_slot log') = 0"
  proof (rule ccontr)
    assume "unat (log_next_slot log') \<noteq> 0"
    then have "fst (ParamStore_Decode (slot_image (fl_cells f) 0))"
      using st by (simp add: log_state_ok_def log_agrees_def Let_def)
    with blank n(1) erased_not_valid show False by simp
  qed
  then have zero: "log_next_slot log' = 0" by (simp add: unat_eq_0)
  then have "next_erased (fl_cells f) log'" using blank n(1) by (simp add: next_erased_def)
  with init st count zero show ?thesis by (intro that [of ?st]) simp_all
qed

lemma app_write_slot_succeeds:
  assumes "log_agrees (fl_cells f) log" and "flash_valid fsize f" and "log_next_slot log < log_slot_count log"
    and "next_erased (fl_cells f) log" and "no_fault 21 f" and "length img = 80"
  shows "fst (app_flash_write fsize (slot_offset (log_next_slot log)) img f)"
proof (rule app_write_succeeds)
  note fits = app_flash.slot_fits [OF assms(1,3)]
  show "unat (slot_offset (log_next_slot log)) + length img \<le> length (fl_cells f)" using fits assms(6) by simp
  show "take (length img) (drop (unat (slot_offset (log_next_slot log))) (fl_cells f)) = replicate (length img) 0xFF"
    using fits assms(3,4,6) by (simp add: next_erased_def slot_image_def erased_image_def)
  show "slot_offset (log_next_slot log) mod 4 = 0"
  proof -
    have "unat (slot_offset (log_next_slot log)) mod 4 = 0" using fits by simp
    then show ?thesis by (simp add: word_unat_eq_iff unat_mod)
  qed
  show "no_fault (Suc (length img div 4)) f" using assms(5,6) by simp
qed (use assms in simp_all)

lemma save_carried_out:
  assumes "log_agrees (fl_cells f) log" and "flash_valid fsize f"
    and "log_slot_count log = APP_PARAM_SLOT_COUNT fsize" and "log_next_slot log < log_slot_count log"
    and "next_erased (fl_cells f) log" and "no_fault 21 f"
    and "known_did did" and "data \<noteq> []" and "length data \<le> PARAM_STORE_VALUE_MAX"
  obtains log' f' where "ParamLog_Set (app_io fsize) log did data f = (True, log', f')"
    "log_next_slot log' < log_slot_count log' \<longrightarrow> (\<exists>st2. AppParamStorage_Init fsize f' = (st2, f') \<and> aps_valid st2)"
proof -
  have "fst (ParamLog_Set (app_io fsize) log did data f)"
    by (rule app_flash.set_succeeds [OF assms(1,2,4,8,9,7) app_write_slot_succeeds [OF assms(1,2,4-6)]])
  then obtain log' f' where set: "ParamLog_Set (app_io fsize) log did data f = (True, log', f')"
    by (metis prod.collapse)
  note eff = app_flash.set_step [OF assms(1,2) set]
  have "\<exists>st2. AppParamStorage_Init fsize f' = (st2, f') \<and> aps_valid st2" if less: "log_next_slot log' < log_slot_count log'"
  proof -
    obtain log2 where "ParamLog_Load (app_io fsize) (log_slot_count log') ParamLog_Init f' = (True, log2, f')"
      by (rule app_flash.load_succeeds [where fsize = fsize and f = f' and log = log']) (use eff less in auto)
    then show ?thesis using eff assms(3) by (simp add: AppParamStorage_Init_def)
  qed
  with set show ?thesis by (intro that) auto
qed

end
