(* ===== verification/Watchdog.thy ===== *)
theory Watchdog
  imports Prelude
begin

section \<open>The two watchdogs\<close>

text \<open>
  \<open>firmware/common/watchdog.c\<close>.  The independent watchdog is its registers, with the values its
  status register will be read as; the window watchdog is its registers, the milliseconds since its
  counter was written and whether it has reset the node.  The counter falls once every
  \<open>4096 * 8\<close> bus cycles; \<open>ww_khz\<close> is the bus clock in kHz and \<open>ww_phase\<close> the unknown position of the
  prescaler.
\<close>

definition WATCHDOG_DEFAULT_TIMEOUT_MS :: u32 where "WATCHDOG_DEFAULT_TIMEOUT_MS = 1000"
definition WATCHDOG_WWDG_COUNTER_INIT :: u32 where "WATCHDOG_WWDG_COUNTER_INIT = 0x7F"
definition WATCHDOG_WWDG_WINDOW :: u32 where "WATCHDOG_WWDG_WINDOW = 0x68"
definition WATCHDOG_WWDG_REFRESH_MS :: u32 where "WATCHDOG_WWDG_REFRESH_MS = 30"
definition WATCHDOG_STATUS_IWDG_READY :: u8 where "WATCHDOG_STATUS_IWDG_READY = 1"
definition WATCHDOG_STATUS_WWDG_READY :: u8 where "WATCHDOG_STATUS_WWDG_READY = 2"
definition WATCHDOG_PRESCALER_DIVIDER :: u32 where "WATCHDOG_PRESCALER_DIVIDER = 64"
definition WATCHDOG_RELOAD_MAX :: u32 where "WATCHDOG_RELOAD_MAX = 0x0FFF"
definition WATCHDOG_PRESCALER_BITS :: u32 where "WATCHDOG_PRESCALER_BITS = 4"
definition IWDG_KEY_START :: u32 where "IWDG_KEY_START = 0xCCCC"
definition IWDG_KEY_ENABLE_WRITE :: u32 where "IWDG_KEY_ENABLE_WRITE = 0x5555"
definition IWDG_KEY_RELOAD :: u32 where "IWDG_KEY_RELOAD = 0xAAAA"
definition WWDG_CR_WDGA :: u32 where "WWDG_CR_WDGA = 0x80"
definition WWDG_CFR_CONFIG :: u32 where "WWDG_CFR_CONFIG = push_bit 7 3 OR WATCHDOG_WWDG_WINDOW"
definition WATCHDOG_SYNC_SPIN_LIMIT :: nat where "WATCHDOG_SYNC_SPIN_LIMIT = 0xFFFFF"

subsection \<open>The hardware\<close>

record iwdg_hw =
  iw_keys :: "u32 list"
  iw_pr :: u32
  iw_rlr :: u32
  iw_sr :: "u32 list"

record wwdg_hw =
  ww_clocked :: bool
  ww_cfr :: u32
  ww_cr :: u32
  ww_since :: nat
  ww_reset :: bool
  ww_khz :: nat
  ww_phase :: nat

definition ww_ticks :: "wwdg_hw \<Rightarrow> nat" where
  "ww_ticks h = (ww_since h * ww_khz h + ww_phase h) div 32768"

definition ww_armed :: "wwdg_hw \<Rightarrow> bool" where
  "ww_armed h \<longleftrightarrow> ww_cr h AND WWDG_CR_WDGA \<noteq> 0"

text \<open>A write of the counter while it is above the window resets the node; \<open>WDGA\<close> stays set.\<close>

definition ww_write_cr :: "u32 \<Rightarrow> wwdg_hw \<Rightarrow> wwdg_hw" where
  "ww_write_cr w h =
     (if \<not> ww_clocked h then h
      else h\<lparr>ww_cr := (w AND 0xFF) OR (ww_cr h AND WWDG_CR_WDGA), ww_since := 0,
             ww_reset := ww_reset h \<or> ww_armed h \<and> int (unat (ww_cr h AND 0x7F)) - int (ww_ticks h) > int (unat (ww_cfr h AND 0x7F))\<rparr>)"

definition ww_write_cfr :: "u32 \<Rightarrow> wwdg_hw \<Rightarrow> wwdg_hw" where
  "ww_write_cfr w h = (if ww_clocked h then h\<lparr>ww_cfr := w\<rparr> else h)"

text \<open>Time passes; a counter that falls below \<open>0x40\<close> resets the node.\<close>

definition ww_elapse :: "nat \<Rightarrow> wwdg_hw \<Rightarrow> wwdg_hw" where
  "ww_elapse ms h =
     (let h1 = h\<lparr>ww_since := ww_since h + ms\<rparr> in
      h1\<lparr>ww_reset := ww_reset h1 \<or> ww_armed h1 \<and> int (unat (ww_cr h1 AND 0x7F)) - int (ww_ticks h1) < 0x40\<rparr>)"

record watchdog =
  s_wwdg_last_refresh_tick :: u32
  s_iwdg_started :: bool
  s_wwdg_started :: bool
  wd_iwdg :: iwdg_hw
  wd_wwdg :: wwdg_hw

subsection \<open>The functions\<close>

definition iw_key :: "u32 \<Rightarrow> watchdog \<Rightarrow> watchdog" where
  "iw_key k w = w\<lparr>wd_iwdg := (wd_iwdg w)\<lparr>iw_keys := iw_keys (wd_iwdg w) @ [k]\<rparr>\<rparr>"

text \<open>Reading the status until it is zero or the spins are used up.\<close>

fun wait_settled :: "nat \<Rightarrow> u32 list \<Rightarrow> u32 list" where
  "wait_settled spin [] = []"
| "wait_settled 0 (sr # srs) = srs"
| "wait_settled (Suc spin) (sr # srs) = (if sr \<noteq> 0 then wait_settled spin srs else srs)"

definition Watchdog_Init :: "u32 \<Rightarrow> u32 \<Rightarrow> watchdog \<Rightarrow> bool \<times> watchdog" where
  "Watchdog_Init lsi_hz timeout_ms w =
     (if timeout_ms = 0 then (False, w)
      else let reload = (timeout_ms * lsi_hz) div (WATCHDOG_PRESCALER_DIVIDER * 1000) in
      if reload = 0 \<or> WATCHDOG_RELOAD_MAX < reload then (False, w)
      else let w1 = iw_key IWDG_KEY_ENABLE_WRITE (iw_key IWDG_KEY_START w);
               hw = (wd_iwdg w1)\<lparr>iw_pr := WATCHDOG_PRESCALER_BITS, iw_rlr := reload\<rparr>;
               srs = wait_settled WATCHDOG_SYNC_SPIN_LIMIT (iw_sr hw);
               w2 = w1\<lparr>wd_iwdg := hw\<lparr>iw_sr := tl srs\<rparr>\<rparr>
           in if srs \<noteq> [] \<and> hd srs \<noteq> 0 then (False, w2)
              else (True, (iw_key IWDG_KEY_RELOAD w2)\<lparr>s_iwdg_started := True\<rparr>))"

definition Watchdog_Kick :: "watchdog \<Rightarrow> watchdog" where
  "Watchdog_Kick w = iw_key IWDG_KEY_RELOAD w"

definition Watchdog_WwdgInit :: "u32 \<Rightarrow> watchdog \<Rightarrow> bool \<times> watchdog" where
  "Watchdog_WwdgInit now w =
     (let h1 = ww_write_cfr WWDG_CFR_CONFIG ((wd_wwdg w)\<lparr>ww_clocked := True\<rparr>) in
      if ww_cfr h1 AND (0x180 OR 0x7F) \<noteq> WWDG_CFR_CONFIG then (False, w\<lparr>wd_wwdg := h1\<rparr>)
      else let h2 = ww_write_cr WATCHDOG_WWDG_COUNTER_INIT h1;
               h3 = ww_write_cr (WWDG_CR_WDGA OR WATCHDOG_WWDG_COUNTER_INIT) h2
           in (True, w\<lparr>wd_wwdg := h3, s_wwdg_last_refresh_tick := now, s_wwdg_started := True\<rparr>))"

definition Watchdog_WwdgKick :: "watchdog \<Rightarrow> watchdog" where
  "Watchdog_WwdgKick w = w\<lparr>wd_wwdg := ww_write_cr WATCHDOG_WWDG_COUNTER_INIT (wd_wwdg w)\<rparr>"

definition Watchdog_WwdgService :: "u32 \<Rightarrow> watchdog \<Rightarrow> watchdog" where
  "Watchdog_WwdgService now w =
     (if WATCHDOG_WWDG_REFRESH_MS \<le> now - s_wwdg_last_refresh_tick w
      then Watchdog_WwdgKick (w\<lparr>s_wwdg_last_refresh_tick := now\<rparr>) else w)"

definition Watchdog_GetStatus :: "watchdog \<Rightarrow> u8" where
  "Watchdog_GetStatus w =
     (if s_iwdg_started w then WATCHDOG_STATUS_IWDG_READY else 0) OR
     (if s_wwdg_started w \<and> ww_armed (wd_wwdg w) then WATCHDOG_STATUS_WWDG_READY else 0)"

subsection \<open>The window is met\<close>

text \<open>The main loop: some milliseconds pass, then the service function is called.\<close>

fun wwdg_run :: "u32 \<Rightarrow> nat list \<Rightarrow> watchdog \<Rightarrow> watchdog" where
  "wwdg_run now [] w = w"
| "wwdg_run now (ms # gaps) w =
     wwdg_run (now + of_nat ms) gaps
       (Watchdog_WwdgService (now + of_nat ms) (w\<lparr>wd_wwdg := ww_elapse ms (wd_wwdg w)\<rparr>))"

text \<open>Between two services: armed, not reset, less than 30 ms since the last refresh.\<close>

definition wwdg_ok :: "u32 \<Rightarrow> watchdog \<Rightarrow> bool" where
  "wwdg_ok now w \<longleftrightarrow> (let h = wd_wwdg w in
     ww_clocked h \<and> ww_cfr h = WWDG_CFR_CONFIG \<and> ww_cr h = WWDG_CR_WDGA OR WATCHDOG_WWDG_COUNTER_INIT \<and> \<not> ww_reset h \<and>
     36000 \<le> ww_khz h \<and> ww_khz h \<le> 42000 \<and> ww_phase h < 32768 \<and> ww_since h < 30 \<and> s_wwdg_started w \<and>
     now = s_wwdg_last_refresh_tick w + of_nat (ww_since h))"

lemma wwdg_registers: "WWDG_CFR_CONFIG AND 0x7F = 0x68" "(WWDG_CR_WDGA OR WATCHDOG_WWDG_COUNTER_INIT) AND 0x7F = 0x7F"
  "(WATCHDOG_WWDG_COUNTER_INIT AND 0xFF) OR ((WWDG_CR_WDGA OR WATCHDOG_WWDG_COUNTER_INIT) AND WWDG_CR_WDGA) =
    WWDG_CR_WDGA OR WATCHDOG_WWDG_COUNTER_INIT"
  "(WWDG_CR_WDGA OR WATCHDOG_WWDG_COUNTER_INIT) AND WWDG_CR_WDGA \<noteq> 0"
  "WWDG_CFR_CONFIG AND 511 = WWDG_CFR_CONFIG" "(WATCHDOG_WWDG_COUNTER_INIT AND 255) AND WWDG_CR_WDGA = 0"
  "(WWDG_CR_WDGA OR WATCHDOG_WWDG_COUNTER_INIT) AND 255 = WWDG_CR_WDGA OR WATCHDOG_WWDG_COUNTER_INIT"
  "((WWDG_CR_WDGA OR WATCHDOG_WWDG_COUNTER_INIT) AND 0xFF) OR (WATCHDOG_WWDG_COUNTER_INIT AND WWDG_CR_WDGA) =
    WWDG_CR_WDGA OR WATCHDOG_WWDG_COUNTER_INIT"
  "WWDG_CR_WDGA \<noteq> 0" "(WATCHDOG_WWDG_COUNTER_INIT AND 255) OR WWDG_CR_WDGA = WWDG_CR_WDGA OR WATCHDOG_WWDG_COUNTER_INIT"
  by code_simp+

lemma ticks_bound:
  assumes "36000 \<le> khz" and "khz \<le> 42000" and "phase < (32768 :: nat)"
  shows "d \<le> 47 \<Longrightarrow> (d * khz + phase) div 32768 \<le> 61" and "30 \<le> d \<Longrightarrow> 32 \<le> (d * khz + phase) div 32768"
proof -
  assume "d \<le> 47"
  then have "d * khz \<le> 47 * 42000" using assms(2) by (intro mult_mono) simp_all
  then show "(d * khz + phase) div 32768 \<le> 61" using assms(3) by simp
next
  assume "30 \<le> d"
  then have "30 * 36000 \<le> d * khz" using assms(1) by (intro mult_mono) simp_all
  then show "32 \<le> (d * khz + phase) div 32768" by simp
qed

lemma service_step:
  assumes "wwdg_ok now w" and "ms \<le> 18"
  shows "wwdg_ok (now + of_nat ms) (Watchdog_WwdgService (now + of_nat ms) (w\<lparr>wd_wwdg := ww_elapse ms (wd_wwdg w)\<rparr>))"
proof -
  let ?h = "wd_wwdg w" let ?d = "ww_since ?h + ms"
  have h: "ww_clocked ?h" "ww_cfr ?h = WWDG_CFR_CONFIG" "ww_cr ?h = WWDG_CR_WDGA OR WATCHDOG_WWDG_COUNTER_INIT" "\<not> ww_reset ?h"
    "36000 \<le> ww_khz ?h" "ww_khz ?h \<le> 42000" "ww_phase ?h < 32768" "ww_since ?h < 30" "s_wwdg_started w"
    "now = s_wwdg_last_refresh_tick w + of_nat (ww_since ?h)"
    using assms(1) by (simp_all add: wwdg_ok_def Let_def)
  have d: "?d \<le> 47" using h(8) assms(2) by simp
  note t = ticks_bound [OF h(5-7)]
  have el: "ww_elapse ms ?h = ?h\<lparr>ww_since := ?d\<rparr>"
    using t(1) [OF d] h(3,4) by (simp add: ww_elapse_def ww_ticks_def wwdg_registers Let_def)
  have now: "now + of_nat ms - s_wwdg_last_refresh_tick w = of_nat ?d" using h(10) by simp
  have cmp: "WATCHDOG_WWDG_REFRESH_MS \<le> now + of_nat ms - s_wwdg_last_refresh_tick w \<longleftrightarrow> 30 \<le> ?d"
    using d unfolding now WATCHDOG_WWDG_REFRESH_MS_def by (simp add: word_le_nat_alt unat_of_nat del: of_nat_add)
  show ?thesis
  proof (cases "30 \<le> ?d")
    case True
    have "\<not> int (unat (ww_cr (?h\<lparr>ww_since := ?d\<rparr>) AND 0x7F)) - int (ww_ticks (?h\<lparr>ww_since := ?d\<rparr>)) > 0x68"
      using t(2) [OF True] h(3) by (simp add: ww_ticks_def wwdg_registers)
    with True cmp h el show ?thesis
      by (simp add: Watchdog_WwdgService_def Watchdog_WwdgKick_def ww_write_cr_def wwdg_ok_def wwdg_registers Let_def)
  next
    case False
    with cmp h el show ?thesis
      by (simp add: Watchdog_WwdgService_def wwdg_ok_def wwdg_registers Let_def)
  qed
qed

lemma wwdg_run_ok: "wwdg_ok now w \<Longrightarrow> \<forall>ms \<in> set gaps. ms \<le> 18 \<Longrightarrow>
    wwdg_ok (now + of_nat (sum_list gaps)) (wwdg_run now gaps w)"
proof (induction gaps arbitrary: now w)
  case (Cons ms gaps)
  have "wwdg_ok (now + of_nat ms + of_nat (sum_list gaps)) (wwdg_run now (ms # gaps) w)"
    using Cons.IH [OF service_step [OF Cons.prems(1)]] Cons.prems(2) by simp
  then show ?case by (simp add: add.assoc)
qed simp

subsection \<open>Claims\<close>

text \<open>C28: After a successful start of the window watchdog no run of the main loop that calls its
  service function at least every 18 ms, however the gaps fall, for however long and across the
  wrap-around of the tick, resets the node: every refresh lies inside the window and before the
  timeout, at every bus clock from 36 to 42 MHz (the F103 and the F407) and any prescaler phase.\<close>

theorem window_watchdog_is_met:
  assumes "Watchdog_WwdgInit now w = (True, w1)" and "\<not> ww_reset (wd_wwdg w)" and "\<not> ww_armed (wd_wwdg w)"
    and "36000 \<le> ww_khz (wd_wwdg w)" and "ww_khz (wd_wwdg w) \<le> 42000" and "ww_phase (wd_wwdg w) < 32768"
    and "\<forall>ms \<in> set gaps. ms \<le> 18"
  shows "\<not> ww_reset (wd_wwdg (wwdg_run now gaps w1)) \<and>
    Watchdog_GetStatus (wwdg_run now gaps w1) AND WATCHDOG_STATUS_WWDG_READY = WATCHDOG_STATUS_WWDG_READY"
proof -
  have cr: "ww_cr (wd_wwdg w) AND WWDG_CR_WDGA = 0" using assms(3) by (simp add: ww_armed_def)
  have "wwdg_ok now w1"
    using assms(1,2,4-6) cr
    by (auto simp: Watchdog_WwdgInit_def ww_write_cr_def ww_write_cfr_def wwdg_ok_def ww_armed_def wwdg_registers Let_def)
  from wwdg_run_ok [OF this assms(7)] have w: "wwdg_ok (now + of_nat (sum_list gaps)) (wwdg_run now gaps w1)" .
  then have st: "s_wwdg_started (wwdg_run now gaps w1)" "ww_armed (wd_wwdg (wwdg_run now gaps w1))"
    by (simp_all add: wwdg_ok_def ww_armed_def wwdg_registers Let_def)
  have "(1 OR 2) AND 2 = (2 :: u8)" "(0 OR 2) AND 2 = (2 :: u8)" by code_simp+
  with w st show ?thesis
    by (simp add: wwdg_ok_def Let_def Watchdog_GetStatus_def WATCHDOG_STATUS_IWDG_READY_def WATCHDOG_STATUS_WWDG_READY_def)
qed

definition powered_on :: watchdog where
  "powered_on = \<lparr>s_wwdg_last_refresh_tick = 0, s_iwdg_started = False, s_wwdg_started = False,
     wd_iwdg = \<lparr>iw_keys = [], iw_pr = 0, iw_rlr = 0xFFF, iw_sr = []\<rparr>,
     wd_wwdg = \<lparr>ww_clocked = False, ww_cfr = 0x7F, ww_cr = 0x7F, ww_since = 0, ww_reset = False, ww_khz = 42000, ww_phase = 99\<rparr>\<rparr>"

theorem window_watchdog_is_met_witness:
  "\<not> ww_reset (wd_wwdg (wwdg_run 0xFFFFFFF0 [10, 12, 11, 18, 9] (snd (Watchdog_WwdgInit 0xFFFFFFF0 powered_on))))"
proof -
  have "fst (Watchdog_WwdgInit 0xFFFFFFF0 powered_on) \<and> \<not> ww_armed (wd_wwdg powered_on)"
    by (simp add: Watchdog_WwdgInit_def ww_write_cfr_def wwdg_registers ww_armed_def powered_on_def WWDG_CR_WDGA_def Let_def)
  then have 1: "Watchdog_WwdgInit 0xFFFFFFF0 powered_on = (True, snd (Watchdog_WwdgInit 0xFFFFFFF0 powered_on))"
    and 2: "\<not> ww_armed (wd_wwdg powered_on)" by (simp_all add: prod_eq_iff)
  from window_watchdog_is_met [OF 1 _ 2, of "[10, 12, 11, 18, 9]"] show ?thesis by (simp add: powered_on_def)
qed

lemma wait_none [simp]: "wait_settled n [] = []"
  by (cases n) simp_all

text \<open>A timeout too long for the hardware can be accepted: the product of the milliseconds and
  the oscillator frequency wraps around at 32 bits, and for 134250 ms the wrapped product passes the
  range check, so the function reports success with a reload value of 16, a timeout of 32 ms.\<close>

theorem long_timeout_wraps:
  "fst (Watchdog_Init 32000 134250 powered_on) \<and> iw_rlr (wd_iwdg (snd (Watchdog_Init 32000 134250 powered_on))) = 16 \<and>
   134250 * 32000 div 64000 > (unat WATCHDOG_RELOAD_MAX :: nat)"
  by (simp add: Watchdog_Init_def powered_on_def iw_key_def WATCHDOG_PRESCALER_DIVIDER_def WATCHDOG_RELOAD_MAX_def Let_def)

end
