(* ===== verification/CanRxQueue.thy ===== *)
theory CanRxQueue
  imports Prelude
begin

section \<open>The receive queue between the CAN interrupt and the main loop\<close>

text \<open>
  \<open>firmware/common/can_rx_queue.c\<close>: a ring of 17 slots with \<open>head\<close> written by the
  interrupt and \<open>tail\<close> written by the main loop; one slot always stays free, so the ring
  holds \<open>CAN_RX_QUEUE_DEPTH\<close> = 16 frames.  The interface a client relies on is the
  locale \<open>bounded_fifo\<close>: a bounded first-in first-out list with a refusal when full.
\<close>

subsection \<open>State\<close>

definition CAN_RX_QUEUE_DEPTH :: nat where "CAN_RX_QUEUE_DEPTH = 16"
definition CAN_RX_QUEUE_MAX_DATA :: nat where "CAN_RX_QUEUE_MAX_DATA = 8"

record CanRxFrame_t =
  frame_id :: u32
  frame_length :: u8
  frame_data :: "u8 list"

record CanRxQueue_t =
  q_frames :: "CanRxFrame_t list"
  q_head :: u16
  q_tail :: u16
  q_dropped :: u32

subsection \<open>Operations\<close>

definition CanRxQueue_Init :: "CanRxQueue_t \<Rightarrow> CanRxQueue_t" where
  "CanRxQueue_Init q = q\<lparr>q_head := 0, q_tail := 0, q_dropped := 0\<rparr>"

text \<open>\<open>(uint16_t)((index + 1U) % (CAN_RX_QUEUE_DEPTH + 1U))\<close>: the sum is a 32-bit
  unsigned, so it does not wrap at 16 bits before the modulus.\<close>

definition next_slot :: "u16 \<Rightarrow> u16" where
  "next_slot index = of_nat ((unat index + 1) mod (CAN_RX_QUEUE_DEPTH + 1))"

text \<open>\<open>data = None\<close> is the null pointer.  The slot is cleared before the
  \<open>length\<close> bytes are copied in.\<close>

definition CanRxQueue_Push ::
  "CanRxQueue_t \<Rightarrow> u32 \<Rightarrow> u8 list option \<Rightarrow> u8 \<Rightarrow> bool \<times> CanRxQueue_t" where
  "CanRxQueue_Push q fid data len =
     (if data = None \<or> CAN_RX_QUEUE_MAX_DATA < unat len
      then (False, q\<lparr>q_dropped := q_dropped q + 1\<rparr>)
      else let index = q_head q; nxt = next_slot index in
        if nxt = q_tail q then (False, q\<lparr>q_dropped := q_dropped q + 1\<rparr>)
        else let cleared = replicate CAN_RX_QUEUE_MAX_DATA 0;
                 slot = \<lparr>frame_id = fid, frame_length = len,
                         frame_data = buf_write cleared 0 (take (unat len) (the data))\<rparr>
             in (True, q\<lparr>q_frames := (q_frames q)[unat index := slot], q_head := nxt\<rparr>))"

definition CanRxQueue_Pop :: "CanRxQueue_t \<Rightarrow> CanRxFrame_t option \<times> CanRxQueue_t" where
  "CanRxQueue_Pop q =
     (if q_head q = q_tail q then (None, q)
      else let index = q_tail q in
        (Some (q_frames q ! unat index), q\<lparr>q_tail := next_slot index\<rparr>))"

subsection \<open>The interface\<close>

text \<open>What a driver may assume of a receive queue: \<open>contents\<close> is what is buffered, oldest
  first; \<open>mk\<close> is the frame a push stores.\<close>

locale bounded_fifo =
  fixes invar :: "'q \<Rightarrow> bool"
    and contents :: "'q \<Rightarrow> 'f list"
    and capacity :: nat
    and push :: "'q \<Rightarrow> 'a \<Rightarrow> bool \<times> 'q"
    and pop :: "'q \<Rightarrow> 'f option \<times> 'q"
    and mk :: "'a \<Rightarrow> 'f option"
  assumes bounded: "invar q \<Longrightarrow> length (contents q) \<le> capacity"
    and push_invar: "invar q \<Longrightarrow> invar (snd (push q a))"
    and pop_invar: "invar q \<Longrightarrow> invar (snd (pop q))"
    and push_accepts: "invar q \<Longrightarrow> fst (push q a) \<longleftrightarrow> mk a \<noteq> None \<and> length (contents q) < capacity"
    and push_contents:
      "invar q \<Longrightarrow> contents (snd (push q a)) =
         (if fst (push q a) then contents q @ [the (mk a)] else contents q)"
    and pop_contents:
      "invar q \<Longrightarrow> pop q = (case contents q of [] \<Rightarrow> (None, q) | f # fs \<Rightarrow> (Some f, snd (pop q)))"
    and pop_rest: "invar q \<Longrightarrow> contents (snd (pop q)) = tl (contents q)"
begin

fun push_all :: "'q \<Rightarrow> 'a list \<Rightarrow> 'q" where
  "push_all q [] = q"
| "push_all q (a # as) = push_all (snd (push q a)) as"

text \<open>Draining: pop until the queue is empty, as \<open>CanDriver_ProcessRx\<close> does.\<close>

fun drain :: "nat \<Rightarrow> 'q \<Rightarrow> 'f list \<times> 'q" where
  "drain 0 q = ([], q)"
| "drain (Suc n) q =
     (case pop q of (None, q') \<Rightarrow> ([], q')
      | (Some f, q') \<Rightarrow> (let (fs, q'') = drain n q' in (f # fs, q'')))"

lemma push_all_invar: "invar q \<Longrightarrow> invar (push_all q as)"
  by (induction as arbitrary: q) (simp_all add: push_invar)

lemma push_all_contents:
  "invar q \<Longrightarrow> contents (push_all q as) =
    contents q @ take (capacity - length (contents q))
      (map the (filter (\<lambda>f. f \<noteq> None) (map mk as)))"
proof (induction as arbitrary: q)
  case Nil
  then show ?case by simp
next
  case (Cons a as)
  let ?q = "snd (push q a)"
  have inv: "invar ?q" using Cons.prems by (rule push_invar)
  have IH: "contents (push_all ?q as) = contents ?q @ take (capacity - length (contents ?q))
      (map the (filter (\<lambda>f. f \<noteq> None) (map mk as)))"
    using inv by (rule Cons.IH)
  show ?case
  proof (cases "fst (push q a)")
    case True
    then have "mk a \<noteq> None" "length (contents q) < capacity"
      using push_accepts [OF Cons.prems] by auto
    moreover from this have "capacity - length (contents q) = Suc (capacity - Suc (length (contents q)))"
      by simp
    ultimately show ?thesis
      using True IH by (auto simp: push_contents [OF Cons.prems])
  next
    case False
    then have "mk a = None \<or> capacity \<le> length (contents q)"
      using push_accepts [OF Cons.prems] by auto
    with False IH show ?thesis
      by (auto simp: push_contents [OF Cons.prems])
  qed
qed

lemma drain_contents:
  "invar q \<Longrightarrow> length (contents q) \<le> n \<Longrightarrow>
    fst (drain n q) = contents q \<and> contents (snd (drain n q)) = [] \<and> invar (snd (drain n q))"
proof (induction n arbitrary: q)
  case 0
  then show ?case by simp
next
  case (Suc n)
  show ?case
  proof (cases "contents q")
    case Nil
    then have "pop q = (None, q)" using pop_contents [OF Suc.prems(1)] by simp
    with Nil Suc.prems show ?thesis by simp
  next
    case (Cons f fs)
    then have p: "pop q = (Some f, snd (pop q))" using pop_contents [OF Suc.prems(1)] by simp
    have r: "contents (snd (pop q)) = fs" using pop_rest [OF Suc.prems(1)] Cons by simp
    have "fst (drain n (snd (pop q))) = fs \<and> contents (snd (drain n (snd (pop q)))) = [] \<and>
        invar (snd (drain n (snd (pop q))))"
      using Suc.IH [of "snd (pop q)"] pop_invar [OF Suc.prems(1)] r Suc.prems(2) Cons by simp
    with Cons show ?thesis
      by (subst (1 2 3) drain.simps) (subst (1 2 3) p, auto split: prod.splits)
  qed
qed

end

subsection \<open>The ring implements the interface\<close>

definition queue_ok :: "CanRxQueue_t \<Rightarrow> bool" where
  "queue_ok q \<longleftrightarrow> length (q_frames q) = 17 \<and> unat (q_head q) < 17 \<and> unat (q_tail q) < 17"

definition ring_count :: "CanRxQueue_t \<Rightarrow> nat" where
  "ring_count q = (unat (q_head q) + 17 - unat (q_tail q)) mod 17"

definition ring_contents :: "CanRxQueue_t \<Rightarrow> CanRxFrame_t list" where
  "ring_contents q =
     map (\<lambda>i. q_frames q ! ((unat (q_tail q) + i) mod 17)) [0..<ring_count q]"

type_synonym rx_event = "u32 \<times> u8 list option \<times> u8"

definition push_event :: "CanRxQueue_t \<Rightarrow> rx_event \<Rightarrow> bool \<times> CanRxQueue_t" where
  "push_event q e = (case e of (fid, data, len) \<Rightarrow> CanRxQueue_Push q fid data len)"

definition stored_frame :: "rx_event \<Rightarrow> CanRxFrame_t option" where
  "stored_frame e = (case e of (fid, data, len) \<Rightarrow>
     if data = None \<or> 8 < unat len then None
     else Some \<lparr>frame_id = fid, frame_length = len,
                frame_data = buf_write (replicate 8 0) 0 (take (unat len) (the data))\<rparr>)"

lemma unat_next_slot: "unat (next_slot i) = (unat i + 1) mod 17"
proof -
  have "(unat i + 1) mod 17 < 2 ^ 16"
    by (rule less_trans [of _ 17]) simp_all
  then show ?thesis
    by (simp add: next_slot_def CAN_RX_QUEUE_DEPTH_def unat_of_nat)
qed

lemma ring_count_less: "ring_count q < 17"
  by (simp add: ring_count_def)

lemma mod_17: "n < 34 \<Longrightarrow> n mod 17 = (if n < 17 then n else n - (17::nat))"
  by (simp add: mod_if)

lemma ring_count_eq:
  "queue_ok q \<Longrightarrow> ring_count q =
    (if unat (q_tail q) \<le> unat (q_head q) then unat (q_head q) - unat (q_tail q)
     else unat (q_head q) + 17 - unat (q_tail q))"
  by (auto simp: ring_count_def queue_ok_def mod_17)

lemma unat_next_slot_if:
  "unat i < 17 \<Longrightarrow> unat (next_slot i) = (if unat i = 16 then 0 else unat i + 1)"
  by (auto simp: unat_next_slot mod_17)

lemma ring_full_iff:
  assumes "queue_ok q"
  shows "next_slot (q_head q) = q_tail q \<longleftrightarrow> ring_count q = 16"
  using assms
  by (auto simp: word_unat_eq_iff ring_count_eq queue_ok_def unat_next_slot_if split: if_splits)

lemma ring_empty_iff: "queue_ok q \<Longrightarrow> q_head q = q_tail q \<longleftrightarrow> ring_count q = 0"
  by (auto simp: word_unat_eq_iff ring_count_eq queue_ok_def)

lemma ring_head_free:
  "queue_ok q \<Longrightarrow> i < ring_count q \<Longrightarrow> (unat (q_tail q) + i) mod 17 \<noteq> unat (q_head q)"
  by (auto simp: ring_count_eq queue_ok_def mod_17 split: if_splits)

lemma ring_head_position:
  "queue_ok q \<Longrightarrow> (unat (q_tail q) + ring_count q) mod 17 = unat (q_head q)"
  by (auto simp: ring_count_eq queue_ok_def mod_17 split: if_splits)

lemma ring_count_push:
  assumes "queue_ok q" "ring_count q \<noteq> 16"
  shows "ring_count (q\<lparr>q_frames := fs, q_head := next_slot (q_head q)\<rparr>) = Suc (ring_count q)"
  using assms by (auto simp: ring_count_def queue_ok_def unat_next_slot_if mod_17 split: if_splits)

lemma ring_count_pop:
  assumes "queue_ok q" "ring_count q \<noteq> 0"
  shows "ring_count (q\<lparr>q_tail := next_slot (q_tail q)\<rparr>) = ring_count q - 1"
  using assms by (auto simp: ring_count_def queue_ok_def unat_next_slot_if mod_17 split: if_splits)

lemma length_ring_contents [simp]: "length (ring_contents q) = ring_count q"
  by (simp add: ring_contents_def)

lemma queue_ok_Init: "length (q_frames q) = 17 \<Longrightarrow> queue_ok (CanRxQueue_Init q)"
  by (simp add: queue_ok_def CanRxQueue_Init_def)

lemma unat_next_slot_less [simp]: "unat (next_slot i) < 17"
  by (simp add: unat_next_slot)

lemma queue_ok_push: "queue_ok q \<Longrightarrow> queue_ok (snd (push_event q e))"
  by (auto simp: queue_ok_def push_event_def CanRxQueue_Push_def Let_def split: prod.splits)

lemma queue_ok_pop: "queue_ok q \<Longrightarrow> queue_ok (snd (CanRxQueue_Pop q))"
  by (auto simp: queue_ok_def CanRxQueue_Pop_def Let_def)

lemma fst_push_event:
  "queue_ok q \<Longrightarrow> fst (push_event q e) \<longleftrightarrow> stored_frame e \<noteq> None \<and> ring_count q \<noteq> 16"
  by (auto simp: push_event_def CanRxQueue_Push_def stored_frame_def Let_def ring_full_iff
      CAN_RX_QUEUE_MAX_DATA_def split: prod.splits)

lemma ring_contents_dropped: "ring_contents (q\<lparr>q_dropped := n\<rparr>) = ring_contents q"
  by (simp add: ring_contents_def ring_count_def)

lemma push_rejected:
  "\<not> fst (push_event q e) \<Longrightarrow> snd (push_event q e) = q\<lparr>q_dropped := q_dropped q + 1\<rparr>"
  by (auto simp: push_event_def CanRxQueue_Push_def Let_def split: prod.splits if_splits)

lemma push_accepted:
  "fst (push_event q e) \<Longrightarrow> snd (push_event q e) =
     q\<lparr>q_frames := (q_frames q)[unat (q_head q) := the (stored_frame e)],
       q_head := next_slot (q_head q)\<rparr>"
  by (auto simp: push_event_def CanRxQueue_Push_def stored_frame_def Let_def
      CAN_RX_QUEUE_MAX_DATA_def split: prod.splits if_splits)

lemma ring_contents_push:
  assumes q: "queue_ok q"
  shows "ring_contents (snd (push_event q e)) =
     (if fst (push_event q e) then ring_contents q @ [the (stored_frame e)] else ring_contents q)"
proof (cases "fst (push_event q e)")
  case False
  then show ?thesis by (simp add: push_rejected ring_contents_dropped)
next
  case True
  let ?x = "the (stored_frame e)"
  let ?q = "snd (push_event q e)"
  have n: "ring_count q \<noteq> 16" using True fst_push_event [OF q] by simp
  have cnt: "ring_count ?q = Suc (ring_count q)"
    using ring_count_push [OF q n] push_accepted [OF True] by simp
  have head: "(unat (q_tail q) + ring_count q) mod 17 = unat (q_head q)" "unat (q_head q) < 17"
      "length (q_frames q) = 17"
    using ring_head_position [OF q] q by (auto simp: queue_ok_def)
  have "ring_contents ?q ! i = (ring_contents q @ [?x]) ! i" if "i < Suc (ring_count q)" for i
  proof (cases "i = ring_count q")
    case True
    with \<open>fst (push_event q e)\<close> that head cnt show ?thesis
      by (simp add: ring_contents_def push_accepted nth_append del: upt_Suc)
  next
    case False
    with that have "i < ring_count q" by simp
    with \<open>fst (push_event q e)\<close> cnt ring_head_free [OF q this] show ?thesis
      by (simp add: ring_contents_def push_accepted nth_append del: upt_Suc)
  qed
  with cnt True show ?thesis
    by (simp add: list_eq_iff_nth_eq)
qed

lemma ring_contents_pop:
  assumes q: "queue_ok q"
  shows "ring_contents (snd (CanRxQueue_Pop q)) = tl (ring_contents q)"
proof (cases "ring_count q = 0")
  case True
  then have "CanRxQueue_Pop q = (None, q)"
    using ring_empty_iff [OF q] by (simp add: CanRxQueue_Pop_def)
  with True show ?thesis by (simp add: ring_contents_def)
next
  case False
  let ?q = "snd (CanRxQueue_Pop q)"
  have pop: "?q = q\<lparr>q_tail := next_slot (q_tail q)\<rparr>"
    using False ring_empty_iff [OF q] by (simp add: CanRxQueue_Pop_def Let_def)
  have cnt: "ring_count ?q = ring_count q - 1"
    using ring_count_pop [OF q False] pop by simp
  have wrap: "(unat (next_slot (q_tail q)) + i) mod 17 = (unat (q_tail q) + Suc i) mod 17" for i
    by (simp add: unat_next_slot mod_add_left_eq)
  have "ring_contents ?q ! i = tl (ring_contents q) ! i" if "i < ring_count q - 1" for i
  proof -
    have "ring_contents ?q ! i = q_frames q ! ((unat (q_tail q) + Suc i) mod 17)"
      using that cnt pop wrap [of i] by (simp add: ring_contents_def)
    moreover have "tl (ring_contents q) ! i = q_frames q ! ((unat (q_tail q) + Suc i) mod 17)"
      using that by (simp add: ring_contents_def nth_tl del: upt_Suc)
    ultimately show ?thesis by simp
  qed
  with cnt show ?thesis by (simp add: list_eq_iff_nth_eq)
qed

lemma pop_first:
  assumes q: "queue_ok q"
  shows "CanRxQueue_Pop q = (case ring_contents q of [] \<Rightarrow> (None, q)
     | f # fs \<Rightarrow> (Some f, snd (CanRxQueue_Pop q)))"
proof (cases "ring_count q")
  case 0
  then show ?thesis
    using ring_empty_iff [OF q] by (simp add: CanRxQueue_Pop_def ring_contents_def)
next
  case (Suc n)
  then have "ring_contents q ! 0 = q_frames q ! unat (q_tail q)" and ne: "ring_contents q \<noteq> []"
    using q by (auto simp: ring_contents_def queue_ok_def nth_map simp del: upt_Suc)
  with Suc show ?thesis
    using ring_empty_iff [OF q]
    by (cases "ring_contents q") (auto simp: CanRxQueue_Pop_def Let_def)
qed

interpretation rxq: bounded_fifo queue_ok ring_contents 16 push_event CanRxQueue_Pop stored_frame
proof unfold_locales
  fix q :: CanRxQueue_t and e :: rx_event
  assume q: "queue_ok q"
  show "length (ring_contents q) \<le> 16" using ring_count_less [of q] by simp
  show "queue_ok (snd (push_event q e))" using q by (rule queue_ok_push)
  show "queue_ok (snd (CanRxQueue_Pop q))" using q by (rule queue_ok_pop)
  show "fst (push_event q e) = (stored_frame e \<noteq> None \<and> length (ring_contents q) < 16)"
    using fst_push_event [OF q] ring_count_less [of q] by auto
  show "ring_contents (snd (push_event q e)) =
      (if fst (push_event q e) then ring_contents q @ [the (stored_frame e)] else ring_contents q)"
    using q by (rule ring_contents_push)
  show "CanRxQueue_Pop q = (case ring_contents q of [] \<Rightarrow> (None, q)
     | f # fs \<Rightarrow> (Some f, snd (CanRxQueue_Pop q)))"
    using q by (rule pop_first)
  show "ring_contents (snd (CanRxQueue_Pop q)) = tl (ring_contents q)"
    using q by (rule ring_contents_pop)
qed

subsection \<open>The interrupt may push while the main loop pops\<close>

text \<open>
  \<open>CanRxQueue_Pop\<close> runs in the main loop in three memory accesses: the empty test, the copy
  out of the slot at \<open>tail\<close>, and the store of the new \<open>tail\<close>.  The receive interrupt can
  run any number of pushes before each of them.
\<close>

definition pop_interrupted ::
  "rx_event list \<Rightarrow> rx_event list \<Rightarrow> CanRxQueue_t \<Rightarrow> CanRxFrame_t option \<times> CanRxQueue_t" where
  "pop_interrupted es1 es2 q =
     (if q_head q = q_tail q then (None, q)
      else let index = q_tail q;
               q1 = rxq.push_all q es1;
               f = q_frames q1 ! unat index;
               q2 = rxq.push_all q1 es2
           in (Some f, q2\<lparr>q_tail := next_slot index\<rparr>))"

lemma push_all_tail: "q_tail (rxq.push_all q es) = q_tail q"
proof (induction es arbitrary: q)
  case (Cons e es)
  then show ?case
    by (cases "fst (push_event q e)") (simp_all add: push_accepted push_rejected)
qed simp

text \<open>However the interrupt interleaves, the pop is one pop of the queue as it is after all
  the pushes: no frame is lost, duplicated or torn.\<close>

lemma pop_interrupted_linear:
  assumes q: "queue_ok q" and ne: "ring_contents q \<noteq> []"
  shows "pop_interrupted es1 es2 q = CanRxQueue_Pop (rxq.push_all (rxq.push_all q es1) es2)"
proof -
  let ?q1 = "rxq.push_all q es1" and ?q2 = "rxq.push_all (rxq.push_all q es1) es2"
  have ok1: "queue_ok ?q1" and ok2: "queue_ok ?q2"
    using q by (simp_all add: rxq.push_all_invar)
  obtain f fs where c: "ring_contents q = f # fs" using ne by (cases "ring_contents q") auto
  have c1: "ring_contents ?q1 \<noteq> []" "hd (ring_contents ?q1) = f"
    using rxq.push_all_contents [OF q, of es1] c by auto
  have c2: "ring_contents ?q2 \<noteq> []" "hd (ring_contents ?q2) = f"
    using rxq.push_all_contents [OF ok1, of es2] c1 by auto
  have head: "q_frames r ! unat (q_tail r) = hd (ring_contents r) \<and> q_head r \<noteq> q_tail r"
    if "queue_ok r" "ring_contents r \<noteq> []" for r
    using that pop_first [OF that(1)]
    by (cases "ring_contents r") (auto simp: CanRxQueue_Pop_def Let_def split: if_splits)
  have f1: "q_frames ?q1 ! unat (q_tail q) = f" and f2: "q_frames ?q2 ! unat (q_tail q) = f"
    and n: "q_head q \<noteq> q_tail q" "q_head ?q2 \<noteq> q_tail ?q2"
    using head [OF ok1 c1(1)] head [OF ok2 c2(1)] head [OF q ne] c1 c2 by (simp_all add: push_all_tail)
  show ?thesis
    using f1 f2 n by (simp add: pop_interrupted_def CanRxQueue_Pop_def Let_def push_all_tail)
qed

subsection \<open>Properties\<close>

text \<open>C12: the ring refines a bounded first-in first-out list of at most 16 frames: a push of a
  valid frame into a ring with room appends exactly that frame, zero-padded to eight bytes; a
  push that is invalid (null data or more than 8 bytes) or finds 16 frames changes nothing but
  the drop counter, which it increments; a pop returns and removes the oldest frame, and
  reports an empty ring without changing it.\<close>

theorem queue_refines_fifo:
  assumes "queue_ok q"
  shows "queue_ok (snd (CanRxQueue_Push q fid data len)) \<and> queue_ok (snd (CanRxQueue_Pop q)) \<and>
    length (ring_contents q) \<le> 16 \<and>
    (if data \<noteq> None \<and> unat len \<le> 8 \<and> length (ring_contents q) < 16
     then fst (CanRxQueue_Push q fid data len) \<and>
       ring_contents (snd (CanRxQueue_Push q fid data len)) = ring_contents q @
         [\<lparr>frame_id = fid, frame_length = len,
           frame_data = buf_write (replicate 8 0) 0 (take (unat len) (the data))\<rparr>]
     else CanRxQueue_Push q fid data len = (False, q\<lparr>q_dropped := q_dropped q + 1\<rparr>)) \<and>
    (case ring_contents q of [] \<Rightarrow> CanRxQueue_Pop q = (None, q)
     | f # fs \<Rightarrow> fst (CanRxQueue_Pop q) = Some f \<and> ring_contents (snd (CanRxQueue_Pop q)) = fs)"
proof -
  let ?e = "(fid, data, len)"
  have pe: "push_event q ?e = CanRxQueue_Push q fid data len" by (simp add: push_event_def)
  have acc: "fst (push_event q ?e) \<longleftrightarrow> data \<noteq> None \<and> unat len \<le> 8 \<and> length (ring_contents q) < 16"
    using rxq.push_accepts [OF assms, of ?e] by (auto simp: stored_frame_def)
  have rej: "push_event q ?e = (False, q\<lparr>q_dropped := q_dropped q + 1\<rparr>)" if "\<not> fst (push_event q ?e)"
    using that push_rejected [OF that] by (cases "push_event q ?e") simp
  have pop: "case ring_contents q of [] \<Rightarrow> CanRxQueue_Pop q = (None, q)
     | f # fs \<Rightarrow> fst (CanRxQueue_Pop q) = Some f \<and> ring_contents (snd (CanRxQueue_Pop q)) = fs"
    using rxq.pop_contents [OF assms] rxq.pop_rest [OF assms]
    by (cases "ring_contents q") (simp_all, metis fst_conv)
  show ?thesis
    using rxq.push_invar [OF assms, of ?e] rxq.pop_invar [OF assms] rxq.bounded [OF assms]
      rxq.push_contents [OF assms, of ?e] acc rej pop
    unfolding pe [symmetric] by (auto simp: stored_frame_def)
qed

definition sample_queue :: CanRxQueue_t where
  "sample_queue = CanRxQueue_Init \<lparr>q_frames = replicate 17 \<lparr>frame_id = 0, frame_length = 0,
     frame_data = replicate 8 0\<rparr>, q_head = 5, q_tail = 3, q_dropped = 0\<rparr>"

lemma sample_queue_ok: "queue_ok sample_queue"
  unfolding sample_queue_def by (rule queue_ok_Init) simp

theorem queue_refines_fifo_witness:
  "queue_ok sample_queue \<and> fst (CanRxQueue_Push sample_queue 0x7E0 (Some [1, 2, 3]) 3)"
  using queue_refines_fifo [OF sample_queue_ok, of "0x7E0" "Some [1, 2, 3]" 3] sample_queue_ok
  by (simp add: ring_contents_def ring_count_def sample_queue_def CanRxQueue_Init_def)

text \<open>C13: the receive interrupt may preempt the main loop inside \<open>CanRxQueue_Pop\<close>, pushing any
  number of frames between the empty test, the copy of the slot and the update of \<open>tail\<close>;
  the pop still returns the oldest frame and leaves the ring exactly as one uninterrupted pop
  after all those pushes would.\<close>

theorem pop_is_interrupt_safe:
  assumes "queue_ok q" and "ring_contents q \<noteq> []"
  shows "pop_interrupted es1 es2 q = CanRxQueue_Pop (rxq.push_all (rxq.push_all q es1) es2) \<and>
    fst (pop_interrupted es1 es2 q) = Some (hd (ring_contents q))"
proof -
  let ?q2 = "rxq.push_all (rxq.push_all q es1) es2"
  have ok: "queue_ok (rxq.push_all q es1)" "queue_ok ?q2" using assms(1) by (simp_all add: rxq.push_all_invar)
  have "hd (ring_contents ?q2) = hd (ring_contents q)" "ring_contents ?q2 \<noteq> []"
    using rxq.push_all_contents [OF assms(1), of es1] rxq.push_all_contents [OF ok(1), of es2] assms(2)
    by auto
  then have "fst (CanRxQueue_Pop ?q2) = Some (hd (ring_contents q))"
    using rxq.pop_contents [OF ok(2)] by (cases "ring_contents ?q2") (simp_all, metis fst_conv)
  then show ?thesis by (simp add: pop_interrupted_linear [OF assms])
qed

theorem pop_is_interrupt_safe_witness:
  "fst (pop_interrupted [] [(2, Some [7], 1)] (snd (CanRxQueue_Push sample_queue 1 (Some [9]) 1)))
   = Some \<lparr>frame_id = 1, frame_length = 1, frame_data = [9, 0, 0, 0, 0, 0, 0, 0]\<rparr>"
proof -
  let ?q = "snd (CanRxQueue_Push sample_queue 1 (Some [9]) 1)"
  have ok: "queue_ok ?q" using queue_ok_push [OF sample_queue_ok, of "(1, Some [9], 1)"]
    by (simp add: push_event_def)
  have c: "ring_contents ?q = [\<lparr>frame_id = 1, frame_length = 1, frame_data = [9, 0, 0, 0, 0, 0, 0, 0]\<rparr>]"
    by code_simp
  then have ne: "ring_contents ?q \<noteq> []" by simp
  show ?thesis
    unfolding pop_is_interrupt_safe [OF ok ne, THEN conjunct2] by (simp add: c)
qed

end
