(* ===== verification/CanDriver.thy ===== *)
theory CanDriver
  imports CanHw CanRxQueue CanHealth
begin

section \<open>The CAN driver\<close>

text \<open>
  \<open>firmware/common/can_driver.c\<close>: \<open>CanDriver_t\<close> with the objects its pointers refer to held
  by value (\<open>None\<close> for a null pointer): the HAL handle with the peripheral behind it, the health
  object attached to it.  \<open>rx_callback\<close> is the name of a callback; the callbacks themselves,
  \<open>cbs\<close>, act on the driver and the rest \<open>'e\<close> of the application.  A null \<open>driver\<close> argument
  has no counterpart.  The two receive queues are used through the interface
  \<open>bounded_fifo\<close>.
\<close>

subsection \<open>State\<close>

definition CAN_DRIVER_BACKGROUND_ID :: u32 where "CAN_DRIVER_BACKGROUND_ID = 0x7F0"
definition CAN_DRIVER_FRAME_LOSS_ID :: u32 where "CAN_DRIVER_FRAME_LOSS_ID = 0x6F0"
definition CAN_DRIVER_ERROR_LOG_SIZE :: u32 where "CAN_DRIVER_ERROR_LOG_SIZE = 32"

definition CAN_DRIVER_ERROR_INTERRUPTS :: u32 where
  "CAN_DRIVER_ERROR_INTERRUPTS =
     CAN_IT_ERROR OR CAN_IT_ERROR_WARNING OR CAN_IT_ERROR_PASSIVE OR CAN_IT_BUSOFF OR CAN_IT_LAST_ERROR_CODE"

record CanDriverErrorLogEntry_t =
  log_sequence :: u32
  log_error_code :: u32
  log_esr :: u32
  log_tick :: u32

record CanDriverErrorLog_t =
  log_entries :: "CanDriverErrorLogEntry_t list"
  log_next_index :: u32
  log_recorded :: u32

record CanDriver_t =
  drv_handle :: "can_hw option"
  drv_rx_callback :: "nat option"
  drv_health :: "CanHealth_t option"
  drv_prescaler :: u32
  drv_time_seg1 :: u32
  drv_time_seg2 :: u32
  drv_filter_bank :: u32
  drv_priority_rx_queue :: CanRxQueue_t
  drv_rx_queue :: CanRxQueue_t

subsection \<open>Bring-up\<close>

definition id_filter :: "u32 \<Rightarrow> u32 \<Rightarrow> rx_fifo \<Rightarrow> u32 \<Rightarrow> CAN_FilterTypeDef" where
  "id_filter std_id msk fifo bank =
     \<lparr>flt_id_high = push_bit 5 std_id, flt_id_low = 0, flt_mask_high = push_bit 5 msk,
      flt_mask_low = 0, flt_fifo = fifo, flt_bank = bank, flt_active = True\<rparr>"

definition CanDriver_ConfigureFilter :: "can_hw \<Rightarrow> u32 \<Rightarrow> HAL_StatusTypeDef \<times> can_hw" where
  "CanDriver_ConfigureFilter hw bank =
     (let background = id_filter CAN_DRIVER_BACKGROUND_ID 0x7FF CAN_RX_FIFO1 bank;
          frame_loss = id_filter CAN_DRIVER_FRAME_LOSS_ID 0x7FE CAN_RX_FIFO1 (bank + 1);
          control = id_filter 0 0 CAN_RX_FIFO0 (bank + 2);
          (r1, hw1) = HAL_CAN_ConfigFilter hw background
      in if r1 \<noteq> HAL_OK then (HAL_ERROR, hw1)
         else let (r2, hw2) = HAL_CAN_ConfigFilter hw1 frame_loss in
           if r2 \<noteq> HAL_OK then (HAL_ERROR, hw2)
           else HAL_CAN_ConfigFilter hw2 control)"

definition CanDriver_Init ::
  "CanDriver_t \<Rightarrow> can_hw option \<Rightarrow> u32 \<Rightarrow> u32 \<Rightarrow> u32 \<Rightarrow> u32 \<Rightarrow> nat option \<Rightarrow>
    HAL_StatusTypeDef \<times> CanDriver_t" where
  "CanDriver_Init d handle prescaler seg1 seg2 bank cb =
     (case handle of None \<Rightarrow> (HAL_ERROR, d) | Some hw \<Rightarrow>
      let d1 = d\<lparr>drv_rx_callback := cb, drv_prescaler := prescaler, drv_time_seg1 := seg1,
                drv_time_seg2 := seg2, drv_filter_bank := bank,
                drv_priority_rx_queue := CanRxQueue_Init (drv_priority_rx_queue d),
                drv_rx_queue := CanRxQueue_Init (drv_rx_queue d)\<rparr>;
          hw1 = hw\<lparr>hcan_init := \<lparr>ini_Prescaler = prescaler, ini_TimeSeg1 = seg1, ini_TimeSeg2 = seg2,
                                ini_AutoBusOff = False, ini_AutoRetransmission = False\<rparr>\<rparr>;
          (r, hw2) = HAL_CAN_Init hw1
      in if r \<noteq> HAL_OK then (HAL_ERROR, d1\<lparr>drv_handle := Some hw2\<rparr>)
         else let (r2, hw3) = CanDriver_ConfigureFilter hw2 bank
              in (r2, d1\<lparr>drv_handle := Some hw3\<rparr>))"

text \<open>\<open>CanDriver_Start\<close> is only called after \<open>CanDriver_Init\<close> has set the handle; on a driver
  without one the C code dereferences null inside the HAL.\<close>

definition CanDriver_Start :: "CanDriver_t \<Rightarrow> HAL_StatusTypeDef \<times> CanDriver_t" where
  "CanDriver_Start d =
     (case drv_handle d of None \<Rightarrow> (HAL_ERROR, d) | Some hw \<Rightarrow>
      let (r, hw1) = HAL_CAN_Start hw in
      if r \<noteq> HAL_OK then (HAL_ERROR, d\<lparr>drv_handle := Some hw1\<rparr>)
      else let (r2, hw2) = HAL_CAN_ActivateNotification hw1
                 (CAN_IT_RX_FIFO0_MSG_PENDING OR CAN_IT_RX_FIFO1_MSG_PENDING OR CAN_DRIVER_ERROR_INTERRUPTS)
           in (r2, d\<lparr>drv_handle := Some hw2\<rparr>))"

subsection \<open>Transmission\<close>

definition CanDriver_SendStd ::
  "CanDriver_t \<Rightarrow> u32 \<Rightarrow> u8 list option \<Rightarrow> u8 \<Rightarrow> HAL_StatusTypeDef \<times> CanDriver_t" where
  "CanDriver_SendStd d std_id data len =
     (if data = None \<or> len = 0 \<or> 8 < len then (HAL_ERROR, d)
      else case drv_handle d of None \<Rightarrow> (HAL_ERROR, d) | Some hw \<Rightarrow>
      if HAL_CAN_GetTxMailboxesFreeLevel hw = 0 then (HAL_BUSY, d)
      else let payload = pad_to 8 0 (take (unat len) (the data));
               (r, hw1) = HAL_CAN_AddTxMessage hw std_id (ucast len) payload
           in (r, d\<lparr>drv_handle := Some hw1\<rparr>))"

definition CanDriver_GetTxMailboxesFreeLevel :: "CanDriver_t \<Rightarrow> u32" where
  "CanDriver_GetTxMailboxesFreeLevel d =
     (case drv_handle d of None \<Rightarrow> 0 | Some hw \<Rightarrow> HAL_CAN_GetTxMailboxesFreeLevel hw)"

definition CanDriver_IsTxPending :: "CanDriver_t \<Rightarrow> bool" where
  "CanDriver_IsTxPending d =
     (case drv_handle d of None \<Rightarrow> False | Some hw \<Rightarrow> HAL_CAN_IsTxMessagePending hw)"

subsection \<open>Reception\<close>

text \<open>One of the two loops of the interrupt handler; the Boolean says that the handler goes on
  (a failed \<open>HAL_CAN_GetRxMessage\<close> leaves it).\<close>

definition rx_header_id :: "CAN_RxHeaderTypeDef \<Rightarrow> u32" where
  "rx_header_id h = (if rxh_ext h then rxh_ExtId h else rxh_StdId h)"

function rx_irq_drain ::
  "rx_fifo \<Rightarrow> can_hw \<Rightarrow> CanRxQueue_t \<Rightarrow> bool \<times> can_hw \<times> CanRxQueue_t" where
  "rx_irq_drain f hw q =
     (if 0 < HAL_CAN_GetRxFifoFillLevel hw f then
        case HAL_CAN_GetRxMessage hw f of
          (None, hw1) \<Rightarrow> (False, hw1, q)
        | (Some (h, data), hw1) \<Rightarrow>
            rx_irq_drain f hw1 (snd (CanRxQueue_Push q (rx_header_id h) (Some data) (ucast (rxh_DLC h))))
      else (True, hw, q))"
  by pat_completeness auto
termination
  by (relation "measure (\<lambda>(f, hw, q). length (fifo_of f hw))") (auto intro: GetRx_decreases [OF sym])

declare rx_irq_drain.simps [simp del]

definition CanDriver_RxIrqHandler :: "CanDriver_t \<Rightarrow> CanDriver_t" where
  "CanDriver_RxIrqHandler d =
     (case drv_handle d of None \<Rightarrow> d | Some hw \<Rightarrow>
      let (go_on, hw1, q1) = rx_irq_drain CAN_RX_FIFO0 hw (drv_priority_rx_queue d);
          d1 = d\<lparr>drv_handle := Some hw1, drv_priority_rx_queue := q1\<rparr>
      in if \<not> go_on then d1
         else let (go_on2, hw2, q2) = rx_irq_drain CAN_RX_FIFO1 hw1 (drv_rx_queue d1)
              in d1\<lparr>drv_handle := Some hw2, drv_rx_queue := q2\<rparr>)"

text \<open>The two loops of \<open>CanDriver_ProcessRx\<close>.  A callback may run the loop again for as long as
  it keeps the queue from emptying, so the loop is partial: \<open>None\<close> is not returning.\<close>

type_synonym 'e rx_callback = "u32 \<Rightarrow> u8 list \<Rightarrow> u32 \<Rightarrow> CanDriver_t \<times> 'e \<Rightarrow> CanDriver_t \<times> 'e"

partial_function (option) process_priority ::
  "'e rx_callback \<Rightarrow> CanDriver_t \<times> 'e \<Rightarrow> (CanDriver_t \<times> 'e) option" where
  "process_priority cb s =
     (case CanRxQueue_Pop (drv_priority_rx_queue (fst s)) of
        (None, q) \<Rightarrow> Some ((fst s)\<lparr>drv_priority_rx_queue := q\<rparr>, snd s)
      | (Some f, q) \<Rightarrow> process_priority cb
          (cb (frame_id f) (frame_data f) (ucast (frame_length f))
             ((fst s)\<lparr>drv_priority_rx_queue := q\<rparr>, snd s)))"

partial_function (option) process_normal ::
  "'e rx_callback \<Rightarrow> CanDriver_t \<times> 'e \<Rightarrow> (CanDriver_t \<times> 'e) option" where
  "process_normal cb s =
     (case CanRxQueue_Pop (drv_rx_queue (fst s)) of
        (None, q) \<Rightarrow> Some ((fst s)\<lparr>drv_rx_queue := q\<rparr>, snd s)
      | (Some f, q) \<Rightarrow> process_normal cb
          (cb (frame_id f) (frame_data f) (ucast (frame_length f))
             ((fst s)\<lparr>drv_rx_queue := q\<rparr>, snd s)))"

definition CanDriver_ProcessRx ::
  "(nat \<Rightarrow> 'e rx_callback) \<Rightarrow> CanDriver_t \<times> 'e \<Rightarrow> (CanDriver_t \<times> 'e) option" where
  "CanDriver_ProcessRx cbs s =
     (case drv_rx_callback (fst s) of None \<Rightarrow> Some s | Some i \<Rightarrow>
      case process_priority (cbs i) s of None \<Rightarrow> None
      | Some s1 \<Rightarrow> process_normal (cbs i) s1)"

subsection \<open>Errors and recovery\<close>

definition CanDriver_AttachHealth :: "CanDriver_t \<Rightarrow> CanHealth_t option \<Rightarrow> CanDriver_t" where
  "CanDriver_AttachHealth d health = d\<lparr>drv_health := health\<rparr>"

text \<open>\<open>CAN_ESR_TEC\<close>, \<open>CAN_ESR_REC\<close> and \<open>CAN_ESR_BOFF\<close>.\<close>

definition esr_tec :: "u32 \<Rightarrow> u16" where "esr_tec esr = ucast (drop_bit 16 (esr AND 0x00FF0000))"
definition esr_rec :: "u32 \<Rightarrow> u16" where "esr_rec esr = ucast (drop_bit 24 (esr AND 0xFF000000))"
definition esr_boff :: "u32 \<Rightarrow> bool" where "esr_boff esr \<longleftrightarrow> esr AND 0x4 \<noteq> 0"

definition CanDriver_GetErrorCounters :: "CanDriver_t \<Rightarrow> (u16 \<times> u16 \<times> bool) option" where
  "CanDriver_GetErrorCounters d =
     (case drv_handle d of None \<Rightarrow> None
      | Some hw \<Rightarrow> Some (esr_tec (hw_esr hw), esr_rec (hw_esr hw), esr_boff (hw_esr hw)))"

definition CanDriver_LogErrorIsr ::
  "CanDriverErrorLog_t \<Rightarrow> u32 \<Rightarrow> u32 \<Rightarrow> systick \<Rightarrow> CanDriverErrorLog_t \<times> systick" where
  "CanDriver_LogErrorIsr lg error_code esr clk =
     (let index = log_next_index lg;
          (t, clk1) = HAL_GetTick clk;
          entry = \<lparr>log_sequence = log_recorded lg, log_error_code = error_code, log_esr = esr, log_tick = t\<rparr>
      in (lg\<lparr>log_entries := (log_entries lg)[unat index := entry],
             log_next_index := (index + 1) mod CAN_DRIVER_ERROR_LOG_SIZE,
             log_recorded := log_recorded lg + 1\<rparr>, clk1))"

text \<open>What the handler does with the health object once it has the code and the counters.\<close>

definition classify_error :: "CanHealth_t \<Rightarrow> u32 \<Rightarrow> u16 \<times> u16 \<times> bool \<Rightarrow> CanHealth_t" where
  "classify_error health error_code counters =
     (case counters of (tec, rc, bus_off) \<Rightarrow>
      if bus_off \<or> error_code AND HAL_CAN_ERROR_BOF \<noteq> 0 then
        CanHealth_EnterBusOff (CanHealth_SyncHardwareCounters health tec rc True)
      else if error_code AND NOT (HAL_CAN_ERROR_EWG OR HAL_CAN_ERROR_EPV) = 0 then
        CanHealth_SyncHardwareCounters health tec rc False
      else
        let transmit = (if h_tec health < tec then True
                        else if h_rec health < rc then False else True)
        in CanHealth_SyncHardwareCounters
             (CanHealth_RecordError health (CanHealth_KindFromErrorFlags error_code) transmit) tec rc False)"

definition CanDriver_OnErrorIsr ::
  "CanDriver_t \<Rightarrow> CanDriverErrorLog_t \<Rightarrow> systick \<Rightarrow> CanDriver_t \<times> CanDriverErrorLog_t \<times> systick" where
  "CanDriver_OnErrorIsr d lg clk =
     (case drv_handle d of None \<Rightarrow> (d, lg, clk) | Some hw \<Rightarrow>
      case drv_health d of None \<Rightarrow> (d, lg, clk) | Some health \<Rightarrow>
      let error_code = hcan_error_code hw;
          (lg1, clk1) = CanDriver_LogErrorIsr lg error_code (hw_esr hw) clk
      in if error_code = HAL_CAN_ERROR_NONE then (d, lg1, clk1)
         else let d1 = d\<lparr>drv_handle := Some (hw\<lparr>hcan_error_code := HAL_CAN_ERROR_NONE\<rparr>)\<rparr> in
           case CanDriver_GetErrorCounters d1 of None \<Rightarrow> (d1, lg1, clk1)
           | Some counters \<Rightarrow>
             (d1\<lparr>drv_health := Some (classify_error health error_code counters)\<rparr>, lg1, clk1))"

definition CanDriver_Recover :: "CanDriver_t \<Rightarrow> HAL_StatusTypeDef \<times> CanDriver_t" where
  "CanDriver_Recover d =
     (case drv_handle d of None \<Rightarrow> (HAL_ERROR, d) | Some hw \<Rightarrow>
      let (r0, hw1) = HAL_CAN_DeInit hw;
          (r, d1) = CanDriver_Init (d\<lparr>drv_handle := Some hw1\<rparr>) (Some hw1) (drv_prescaler d)
                      (drv_time_seg1 d) (drv_time_seg2 d) (drv_filter_bank d) (drv_rx_callback d)
      in if r \<noteq> HAL_OK then (HAL_ERROR, d1) else CanDriver_Start d1)"

subsection \<open>Filters: which FIFO a frame lands in\<close>

lemma filter_mask:
  fixes i :: u32
  assumes "unat i < 2 ^ 11" and "unat m < 2 ^ 11" and "unat b < 2 ^ 11"
  shows "filter_matches (id_filter b m f k) i \<longleftrightarrow> i AND m = b AND m"
proof -
  note small = bit_small [where n = 11 and ?'a = 32]
  have id: "push_bit 16 (push_bit 5 w AND 0xFFFF) OR (0 AND 0xFFFF) = push_bit 21 w"
    if "unat w < 2 ^ 11" for w :: u32
  proof -
    have m: "(0xFFFF :: u32) = Bit_Operations.mask 16" by (simp add: mask_numeral)
    show ?thesis
      unfolding m using small [OF that] by (auto intro!: bit_word_eqI simp: bit_simps)
  qed
  have inj: "push_bit 21 x = push_bit 21 y \<longleftrightarrow> x = y"
    if "unat x < 2 ^ 11" "unat y < 2 ^ 11" for x y :: u32
  proof
    assume eq: "push_bit 21 x = push_bit 21 y"
    show "x = y"
    proof (rule bit_word_eqI)
      fix n assume "n < LENGTH(32)"
      have "bit (push_bit 21 x) (n + 21) = bit (push_bit 21 y) (n + 21)" using eq by simp
      then show "bit x n = bit y n"
        using small [OF that(1), of n] small [OF that(2), of n]
        by (cases "n < 11") (auto simp: bit_simps)
    qed
  qed simp
  have less: "unat (x AND m) < 2 ^ 11" for x :: u32
    using assms(2) word_and_le1 [of x m] by (simp add: word_le_nat_alt)
  have "filter_matches (id_filter b m f k) i \<longleftrightarrow> push_bit 21 i AND push_bit 21 m = push_bit 21 b AND push_bit 21 m"
    unfolding filter_matches_def id_filter_def
    by (simp add: Let_def id [OF assms(2), simplified] id [OF assms(3), simplified])
  also have "\<dots> \<longleftrightarrow> push_bit 21 (i AND m) = push_bit 21 (b AND m)" by (simp add: push_bit_and)
  also have "\<dots> \<longleftrightarrow> i AND m = b AND m" by (rule inj [OF less less])
  finally show ?thesis .
qed

lemma and_7FE:
  fixes i :: u32
  assumes "unat i < 2 ^ 11"
  shows "i AND 0x7FE = 0x6F0 \<longleftrightarrow> i = 0x6F0 \<or> i = 0x6F1"
proof
  have m: "(0x7FE :: u32) = Bit_Operations.mask 11 AND NOT 1" by (simp add: mask_numeral)
  have split: "i = (i AND 0x7FE) OR (i AND 1)"
  proof -
    have "bit i n \<Longrightarrow> n < 11" for n using bit_small [OF assms, of n] by (metis not_le)
    then show ?thesis
      unfolding m by (auto intro!: bit_word_eqI simp: bit_simps bit_1_iff)
  qed
  assume "i AND 0x7FE = 0x6F0"
  with split have "i = 0x6F0 OR i mod 2" by (simp add: and_one_eq)
  then show "i = 0x6F0 \<or> i = 0x6F1"
    by (cases "odd i") (simp_all add: mod_2_eq_odd)
next
  assume "i = 0x6F0 \<or> i = 0x6F1"
  then show "i AND 0x7FE = 0x6F0" by (elim disjE) simp_all
qed

lemma and_7FF: "unat i < 2 ^ 11 \<Longrightarrow> i AND 0x7FF = i" for i :: u32
proof -
  assume i: "unat i < 2 ^ 11"
  have m: "(0x7FF :: u32) = Bit_Operations.mask 11" by (simp add: mask_numeral)
  show ?thesis unfolding m using take_bit_small [OF i] by (simp only: take_bit_eq_mask)
qed

text \<open>After the three banks are configured from bank 0, the background and the frame-loss
  identifiers go to FIFO 1 and every other standard frame to FIFO 0.\<close>

definition routed_fifo :: "u32 \<Rightarrow> rx_fifo" where
  "routed_fifo i =
     (if i = CAN_DRIVER_BACKGROUND_ID \<or> i = CAN_DRIVER_FRAME_LOSS_ID \<or> i = CAN_DRIVER_FRAME_LOSS_ID + 1
      then CAN_RX_FIFO1 else CAN_RX_FIFO0)"

lemma configured_route:
  assumes "CanDriver_ConfigureFilter hw 0 = (HAL_OK, hw')" and "3 \<le> length (hw_filters hw)"
    and "unat i < 2 ^ 11"
  shows "filter_route hw' i = Some (routed_fifo i)"
proof -
  obtain a b c fs where fs: "hw_filters hw = a # b # c # fs"
    using assms(2) by (auto simp: numeral_3_eq_3 Suc_le_length_iff)
  have ready: "hal_ready hw"
    using assms(1) by (auto simp: CanDriver_ConfigureFilter_def HAL_CAN_ConfigFilter_def Let_def split: if_splits)
  have hw': "hw_filters hw' = id_filter CAN_DRIVER_BACKGROUND_ID 0x7FF CAN_RX_FIFO1 0 #
      id_filter CAN_DRIVER_FRAME_LOSS_ID 0x7FE CAN_RX_FIFO1 1 # id_filter 0 0 CAN_RX_FIFO0 2 # fs"
    using assms(1) ready fs
    by (auto simp: CanDriver_ConfigureFilter_def HAL_CAN_ConfigFilter_def hal_ready_def id_filter_def Let_def)
  show ?thesis
    using assms(3) and_7FE [OF assms(3)] and_7FF [OF assms(3)]
    by (auto simp: filter_route_def hw' filter_mask routed_fifo_def CAN_DRIVER_BACKGROUND_ID_def
        CAN_DRIVER_FRAME_LOSS_ID_def) (simp_all add: id_filter_def)
qed

subsection \<open>From the interrupt to the callback\<close>

text \<open>The events the interrupt handler pushes for the messages of a FIFO.\<close>

definition rx_push_event :: "CAN_RxHeaderTypeDef \<times> frame \<Rightarrow> u32 \<times> u8 list option \<times> u8" where
  "rx_push_event m = (rx_header_id (fst m), Some (snd m), ucast (rxh_DLC (fst m)))"

lemma hal_ready_fifo [simp]:
  "hal_ready (hw\<lparr>hw_fifo0 := ms\<rparr>) = hal_ready hw" "hal_ready (hw\<lparr>hw_fifo1 := ms\<rparr>) = hal_ready hw"
  by (simp_all add: hal_ready_def)

lemma irq_drain:
  "hal_ready hw \<Longrightarrow> rx_irq_drain f hw q =
    (True, case f of CAN_RX_FIFO0 \<Rightarrow> hw\<lparr>hw_fifo0 := []\<rparr> | CAN_RX_FIFO1 \<Rightarrow> hw\<lparr>hw_fifo1 := []\<rparr>,
     rxq.push_all q (map rx_push_event (fifo_of f hw)))"
proof (induction "fifo_of f hw" arbitrary: hw q)
  case Nil
  then show ?case
    by (subst rx_irq_drain.simps)
      (cases f; simp add: HAL_CAN_GetRxFifoFillLevel_def fifo_of_def)
next
  case (Cons m ms)
  let ?hw = "case f of CAN_RX_FIFO0 \<Rightarrow> hw\<lparr>hw_fifo0 := ms\<rparr> | CAN_RX_FIFO1 \<Rightarrow> hw\<lparr>hw_fifo1 := ms\<rparr>"
  obtain h d where m: "m = (h, d)" by fastforce
  have f1: "fifo_of f hw = m # ms" using Cons.hyps(2) by simp
  have msg: "HAL_CAN_GetRxMessage hw f = (Some (h, d), ?hw)"
    using f1 Cons.prems m by (simp add: HAL_CAN_GetRxMessage_def)
  have lvl: "0 < HAL_CAN_GetRxFifoFillLevel hw f"
    using f1 Cons.prems by (simp add: HAL_CAN_GetRxFifoFillLevel_def)
  have rest: "fifo_of f ?hw = ms" "hal_ready ?hw"
    using Cons.prems by (cases f; simp add: fifo_of_def)+
  have "rx_irq_drain f hw q = rx_irq_drain f ?hw (snd (push_event q (rx_push_event m)))"
    using msg lvl m
    by (subst rx_irq_drain.simps) (simp add: push_event_def rx_push_event_def)
  also have "\<dots> = (True, case f of CAN_RX_FIFO0 \<Rightarrow> ?hw\<lparr>hw_fifo0 := []\<rparr> | CAN_RX_FIFO1 \<Rightarrow> ?hw\<lparr>hw_fifo1 := []\<rparr>,
      rxq.push_all (snd (push_event q (rx_push_event m))) (map rx_push_event ms))"
    using Cons.hyps(1) [of ?hw "snd (push_event q (rx_push_event m))"] rest by simp
  finally show ?case using f1 by (cases f) simp_all
qed

text \<open>A callback that leaves the receive queues alone and appends what it is given to a
  trace.\<close>

definition traces :: "(u32 \<times> u8 list \<times> u32) list rx_callback \<Rightarrow> bool" where
  "traces cb \<longleftrightarrow> (\<forall>i d n s. snd (cb i d n s) = snd s @ [(i, d, n)] \<and>
     drv_priority_rx_queue (fst (cb i d n s)) = drv_priority_rx_queue (fst s) \<and>
     drv_rx_queue (fst (cb i d n s)) = drv_rx_queue (fst s))"

definition callback_args :: "CanRxFrame_t \<Rightarrow> u32 \<times> u8 list \<times> u32" where
  "callback_args f = (frame_id f, frame_data f, ucast (frame_length f))"

lemma process_priority_delivers:
  "traces cb \<Longrightarrow> queue_ok (drv_priority_rx_queue (fst s)) \<Longrightarrow>
    \<exists>s'. process_priority cb s = Some s' \<and>
      snd s' = snd s @ map callback_args (ring_contents (drv_priority_rx_queue (fst s))) \<and>
      ring_contents (drv_priority_rx_queue (fst s')) = [] \<and> drv_rx_queue (fst s') = drv_rx_queue (fst s)"
proof (induction "ring_contents (drv_priority_rx_queue (fst s))" arbitrary: s)
  case Nil
  have "CanRxQueue_Pop (drv_priority_rx_queue (fst s)) = (None, drv_priority_rx_queue (fst s))"
    using rxq.pop_contents [OF Nil.prems(2)] Nil.hyps [symmetric] by simp
  with Nil show ?case by (subst process_priority.simps) simp
next
  case (Cons f fs)
  let ?q = "drv_priority_rx_queue (fst s)"
  obtain q' where pop: "CanRxQueue_Pop ?q = (Some f, q')"
    using rxq.pop_contents [OF Cons.prems(2)] Cons.hyps(2) [symmetric] by (metis list.case(2))
  let ?s = "cb (frame_id f) (frame_data f) (ucast (frame_length f)) ((fst s)\<lparr>drv_priority_rx_queue := q'\<rparr>, snd s)"
  have s: "drv_priority_rx_queue (fst ?s) = q'" "drv_rx_queue (fst ?s) = drv_rx_queue (fst s)"
      "snd ?s = snd s @ [callback_args f]"
    using Cons.prems(1) by (simp_all add: traces_def callback_args_def)
  have "process_priority cb s = process_priority cb ?s"
    by (subst process_priority.simps) (simp add: pop)
  moreover have "ring_contents q' = fs" "queue_ok q'"
    using rxq.pop_rest [OF Cons.prems(2)] rxq.pop_invar [OF Cons.prems(2)] Cons.hyps(2) [symmetric] pop
    by simp_all
  ultimately show ?case
    using Cons.hyps(1) [of ?s] Cons.prems(1) s Cons.hyps(2) [symmetric] by simp
qed

lemma process_normal_delivers:
  "traces cb \<Longrightarrow> queue_ok (drv_rx_queue (fst s)) \<Longrightarrow>
    \<exists>s'. process_normal cb s = Some s' \<and>
      snd s' = snd s @ map callback_args (ring_contents (drv_rx_queue (fst s))) \<and>
      ring_contents (drv_rx_queue (fst s')) = [] \<and>
      drv_priority_rx_queue (fst s') = drv_priority_rx_queue (fst s)"
proof (induction "ring_contents (drv_rx_queue (fst s))" arbitrary: s)
  case Nil
  have "CanRxQueue_Pop (drv_rx_queue (fst s)) = (None, drv_rx_queue (fst s))"
    using rxq.pop_contents [OF Nil.prems(2)] Nil.hyps [symmetric] by simp
  with Nil show ?case by (subst process_normal.simps) simp
next
  case (Cons f fs)
  let ?q = "drv_rx_queue (fst s)"
  obtain q' where pop: "CanRxQueue_Pop ?q = (Some f, q')"
    using rxq.pop_contents [OF Cons.prems(2)] Cons.hyps(2) [symmetric] by (metis list.case(2))
  let ?s = "cb (frame_id f) (frame_data f) (ucast (frame_length f)) ((fst s)\<lparr>drv_rx_queue := q'\<rparr>, snd s)"
  have s: "drv_rx_queue (fst ?s) = q'" "drv_priority_rx_queue (fst ?s) = drv_priority_rx_queue (fst s)"
      "snd ?s = snd s @ [callback_args f]"
    using Cons.prems(1) by (simp_all add: traces_def callback_args_def)
  have "process_normal cb s = process_normal cb ?s"
    by (subst process_normal.simps) (simp add: pop)
  moreover have "ring_contents q' = fs" "queue_ok q'"
    using rxq.pop_rest [OF Cons.prems(2)] rxq.pop_invar [OF Cons.prems(2)] Cons.hyps(2) [symmetric] pop
    by simp_all
  ultimately show ?case
    using Cons.hyps(1) [of ?s] Cons.prems(1) s Cons.hyps(2) [symmetric] by simp
qed

text \<open>What the health object looks like after the two outcomes of the error interrupt.\<close>

lemma bus_off_entered:
  "h_state (CanHealth_EnterBusOff (CanHealth_SyncHardwareCounters h t r True)) = CAN_HEALTH_STATE_BUS_OFF"
  "h_error_counts (CanHealth_EnterBusOff (CanHealth_SyncHardwareCounters h t r True)) = h_error_counts h"
  "h_bus_off_events (CanHealth_EnterBusOff (CanHealth_SyncHardwareCounters h t r True)) =
     h_bus_off_events h + (if h_state h = CAN_HEALTH_STATE_BUS_OFF then 0 else 1)"
  by (simp_all add: CanHealth_SyncHardwareCounters_def CanHealth_EnterBusOff_def Let_def)

lemma counters_synced:
  "h_rec (CanHealth_SyncHardwareCounters h t r False) = r"
  "h_state (CanHealth_SyncHardwareCounters h t r False) \<noteq> CAN_HEALTH_STATE_BUS_OFF \<Longrightarrow>
     h_tec (CanHealth_SyncHardwareCounters h t r False) = t"
  "h_error_counts (CanHealth_SyncHardwareCounters h t r False) = h_error_counts h"
  by (auto simp: CanHealth_SyncHardwareCounters_def CanHealth_UpdateErrorState_def
      CanHealth_EnterBusOff_def Let_def split: if_splits)

text \<open>What a successful initialisation and start leave alone.\<close>

lemma hal_init_keeps:
  "hw_mailboxes (snd (HAL_CAN_Init h)) = hw_mailboxes h" "hw_ier (snd (HAL_CAN_Init h)) = hw_ier h"
  "hw_filters (snd (HAL_CAN_Init h)) = hw_filters h"
  "fst (HAL_CAN_Init h) = HAL_OK \<Longrightarrow> hcan_state (snd (HAL_CAN_Init h)) = HAL_CAN_STATE_READY"
  by (auto simp: HAL_CAN_Init_def hal_timeout_def hal_ack_def Let_def split: list.splits if_splits)

lemma configure_keeps:
  "hw_mailboxes (snd (CanDriver_ConfigureFilter h b)) = hw_mailboxes h"
  "hw_ier (snd (CanDriver_ConfigureFilter h b)) = hw_ier h"
  "hcan_state (snd (CanDriver_ConfigureFilter h b)) = hcan_state h"
  by (simp_all add: CanDriver_ConfigureFilter_def HAL_CAN_ConfigFilter_def Let_def)

lemma init_ok:
  assumes "CanDriver_Init d (Some hw) p s1 s2 b cb = (HAL_OK, d')"
  shows "\<exists>hw'. drv_handle d' = Some hw' \<and> hw_mailboxes hw' = hw_mailboxes hw \<and> hw_ier hw' = hw_ier hw \<and>
    hcan_state hw' = HAL_CAN_STATE_READY \<and> drv_health d' = drv_health d \<and> drv_rx_callback d' = cb \<and>
    drv_priority_rx_queue d' = CanRxQueue_Init (drv_priority_rx_queue d) \<and>
    drv_rx_queue d' = CanRxQueue_Init (drv_rx_queue d)"
proof -
  let ?hw = "hw\<lparr>hcan_init := \<lparr>ini_Prescaler = p, ini_TimeSeg1 = s1, ini_TimeSeg2 = s2,
      ini_AutoBusOff = False, ini_AutoRetransmission = False\<rparr>\<rparr>"
  obtain r hw2 where h: "HAL_CAN_Init ?hw = (r, hw2)" by fastforce
  obtain r3 hw3 where c: "CanDriver_ConfigureFilter hw2 b = (r3, hw3)" by fastforce
  show ?thesis
    using assms h c hal_init_keeps [of ?hw] configure_keeps [of hw2 b]
    by (auto simp: CanDriver_Init_def Let_def split: if_splits)
qed

lemma start_ok:
  "CanDriver_Start d = (HAL_OK, d') \<Longrightarrow> drv_handle d = Some hw \<Longrightarrow>
    \<exists>hw'. d' = d\<lparr>drv_handle := Some hw'\<rparr> \<and> hw_mailboxes hw' = hw_mailboxes hw \<and>
      hcan_state hw' = HAL_CAN_STATE_LISTENING \<and>
      hw_ier hw' = hw_ier hw OR (CAN_IT_RX_FIFO0_MSG_PENDING OR CAN_IT_RX_FIFO1_MSG_PENDING OR
        CAN_DRIVER_ERROR_INTERRUPTS)"
  by (auto simp: CanDriver_Start_def HAL_CAN_Start_def HAL_CAN_ActivateNotification_def hal_ready_def
      hal_timeout_def hal_ack_def Let_def split: if_splits prod.splits list.splits)

subsection \<open>Claims\<close>

text \<open>C11: The frames waiting in the two hardware FIFOs reach the receive callback in order,
  those of FIFO 0 (diagnostics) before those of FIFO 1 (background load): with empty queues and a
  started controller, the interrupt handler followed by \<open>CanDriver_ProcessRx\<close> returns, has called
  the callback on the first 16 well-formed frames of FIFO 0, then on the first 16 of FIFO 1,
  and leaves both queues and both FIFOs empty.\<close>

theorem control_frames_first:
  assumes "drv_handle d = Some hw" and "hal_ready hw"
    and "queue_ok (drv_priority_rx_queue d)" and "ring_contents (drv_priority_rx_queue d) = []"
    and "queue_ok (drv_rx_queue d)" and "ring_contents (drv_rx_queue d) = []"
    and "drv_rx_callback d = Some i" and "traces (cbs i)"
  shows "\<exists>s'. CanDriver_ProcessRx cbs (CanDriver_RxIrqHandler d, tr) = Some s' \<and>
    snd s' = tr @ map callback_args
      (take 16 (map the (filter (\<lambda>f. f \<noteq> None) (map (stored_frame \<circ> rx_push_event) (hw_fifo0 hw)))) @
       take 16 (map the (filter (\<lambda>f. f \<noteq> None) (map (stored_frame \<circ> rx_push_event) (hw_fifo1 hw))))) \<and>
    ring_contents (drv_priority_rx_queue (fst s')) = [] \<and> ring_contents (drv_rx_queue (fst s')) = [] \<and>
    drv_handle (CanDriver_RxIrqHandler d) = Some (hw\<lparr>hw_fifo0 := [], hw_fifo1 := []\<rparr>)"
proof -
  let ?p = "rxq.push_all (drv_priority_rx_queue d) (map rx_push_event (hw_fifo0 hw))"
  let ?n = "rxq.push_all (drv_rx_queue d) (map rx_push_event (hw_fifo1 hw))"
  let ?d = "d\<lparr>drv_handle := Some (hw\<lparr>hw_fifo0 := [], hw_fifo1 := []\<rparr>),
      drv_priority_rx_queue := ?p, drv_rx_queue := ?n\<rparr>"
  have irq: "CanDriver_RxIrqHandler d = ?d"
    using assms(1,2) by (simp add: CanDriver_RxIrqHandler_def irq_drain fifo_of_def Let_def)
  obtain s1 where s1: "process_priority (cbs i) (?d, tr) = Some s1"
      "snd s1 = tr @ map callback_args (ring_contents ?p)"
      "ring_contents (drv_priority_rx_queue (fst s1)) = []" "drv_rx_queue (fst s1) = ?n"
    using process_priority_delivers [OF assms(8), of "(?d, tr)"] rxq.push_all_invar [OF assms(3)] by auto
  obtain s2 where s2: "process_normal (cbs i) s1 = Some s2"
      "snd s2 = snd s1 @ map callback_args (ring_contents ?n)"
      "ring_contents (drv_rx_queue (fst s2)) = []"
      "drv_priority_rx_queue (fst s2) = drv_priority_rx_queue (fst s1)"
    using process_normal_delivers [OF assms(8), of s1] rxq.push_all_invar [OF assms(5)] s1(4) by auto
  show ?thesis
    using s1 s2 irq assms(7) rxq.push_all_contents [OF assms(3)] rxq.push_all_contents [OF assms(5)]
    by (simp add: CanDriver_ProcessRx_def assms(4,6))
qed

text \<open>C30: After a successful \<open>CanDriver_Init\<close> on filter bank 0, the controller routes every
  standard identifier: the load generator's 0x7F0 and the frame-loss pair 0x6F0, 0x6F1 to
  FIFO 1, everything else to FIFO 0.\<close>

theorem init_routes_identifiers:
  assumes "CanDriver_Init d (Some hw) prescaler seg1 seg2 0 cb = (HAL_OK, d')"
    and "3 \<le> length (hw_filters hw)" and "unat i < 2 ^ 11"
  shows "\<exists>hw'. drv_handle d' = Some hw' \<and>
    filter_route hw' i = Some (if i \<in> {0x7F0, 0x6F0, 0x6F1} then CAN_RX_FIFO1 else CAN_RX_FIFO0)"
proof -
  obtain r hw2 where h: "HAL_CAN_Init (hw\<lparr>hcan_init := \<lparr>ini_Prescaler = prescaler, ini_TimeSeg1 = seg1,
      ini_TimeSeg2 = seg2, ini_AutoBusOff = False, ini_AutoRetransmission = False\<rparr>\<rparr>) = (r, hw2)" by fastforce
  then have "hw_filters hw2 = hw_filters hw"
    using hal_init_keeps(3) [of "hw\<lparr>hcan_init := \<lparr>ini_Prescaler = prescaler, ini_TimeSeg1 = seg1,
      ini_TimeSeg2 = seg2, ini_AutoBusOff = False, ini_AutoRetransmission = False\<rparr>\<rparr>"] by simp
  moreover obtain hw3 where "CanDriver_ConfigureFilter hw2 0 = (HAL_OK, hw3)" "drv_handle d' = Some hw3"
    using assms(1) h by (auto simp: CanDriver_Init_def Let_def split: if_splits prod.splits)
  ultimately show ?thesis
    using configured_route [of hw2 hw3 i] assms(2,3)
    by (auto simp: routed_fifo_def CAN_DRIVER_BACKGROUND_ID_def CAN_DRIVER_FRAME_LOSS_ID_def)
qed

text \<open>The error interrupt consumes the HAL's accumulated error code and mirrors the
  controller: a Bus-Off flag (in the code or in ESR) puts the node in Bus-Off, counting the event
  once per episode; otherwise the counters become TEC and REC (unless they themselves call
  for Bus-Off), and a code of warning and passive flags only classifies no error.\<close>

theorem error_isr_mirrors_controller:
  assumes "drv_handle d = Some hw" and "drv_health d = Some h" and "hcan_error_code hw \<noteq> 0"
    and "CanDriver_OnErrorIsr d lg clk = (d', lg', clk')"
  shows "\<exists>hw' h'. drv_handle d' = Some hw' \<and> hcan_error_code hw' = 0 \<and> drv_health d' = Some h' \<and>
    (if esr_boff (hw_esr hw) \<or> hcan_error_code hw AND 0x4 \<noteq> 0
     then h_state h' = CAN_HEALTH_STATE_BUS_OFF \<and> h_error_counts h' = h_error_counts h \<and>
       h_bus_off_events h' = h_bus_off_events h + (if h_state h = CAN_HEALTH_STATE_BUS_OFF then 0 else 1)
     else h_rec h' = esr_rec (hw_esr hw) \<and>
       (h_state h' \<noteq> CAN_HEALTH_STATE_BUS_OFF \<longrightarrow> h_tec h' = esr_tec (hw_esr hw)) \<and>
       (hcan_error_code hw AND NOT 3 = 0 \<longrightarrow> h_error_counts h' = h_error_counts h))"
proof -
  let ?code = "hcan_error_code hw"
  obtain h' where d': "drv_handle d' = Some (hw\<lparr>hcan_error_code := 0\<rparr>)" "drv_health d' = Some h'"
      "h' = classify_error h ?code (esr_tec (hw_esr hw), esr_rec (hw_esr hw), esr_boff (hw_esr hw))"
    using assms by (auto simp: CanDriver_OnErrorIsr_def CanDriver_GetErrorCounters_def
        HAL_CAN_ERROR_NONE_def Let_def split: prod.splits)
  have fin: "if esr_boff (hw_esr hw) \<or> ?code AND 0x4 \<noteq> 0
     then h_state h' = CAN_HEALTH_STATE_BUS_OFF \<and> h_error_counts h' = h_error_counts h \<and>
       h_bus_off_events h' = h_bus_off_events h + (if h_state h = CAN_HEALTH_STATE_BUS_OFF then 0 else 1)
     else h_rec h' = esr_rec (hw_esr hw) \<and>
       (h_state h' \<noteq> CAN_HEALTH_STATE_BUS_OFF \<longrightarrow> h_tec h' = esr_tec (hw_esr hw)) \<and>
       (?code AND NOT 3 = 0 \<longrightarrow> h_error_counts h' = h_error_counts h)"
    unfolding d'(3)
    by (simp add: classify_error_def HAL_CAN_ERROR_EWG_def HAL_CAN_ERROR_EPV_def HAL_CAN_ERROR_BOF_def
        bus_off_entered counters_synced Let_def)
  show ?thesis using d'(1,2) fin by auto
qed

text \<open>C29: A successful \<open>CanDriver_Recover\<close> leaves the node as after a fresh start: listening,
  every mailbox free, both receive queues empty, the receive and error interrupts enabled;
  the health object and the callback are untouched.\<close>

theorem recover_restarts_node:
  assumes "CanDriver_Recover d = (HAL_OK, d')"
  shows "\<exists>hw'. drv_handle d' = Some hw' \<and> hcan_state hw' = HAL_CAN_STATE_LISTENING \<and>
    hw_mailboxes hw' = replicate 3 None \<and> hw_ier hw' = 0x8F12 \<and>
    ring_contents (drv_priority_rx_queue d') = [] \<and> ring_contents (drv_rx_queue d') = [] \<and>
    drv_health d' = drv_health d \<and> drv_rx_callback d' = drv_rx_callback d"
proof -
  have its: "CAN_IT_RX_FIFO0_MSG_PENDING OR CAN_IT_RX_FIFO1_MSG_PENDING OR CAN_DRIVER_ERROR_INTERRUPTS = 0x8F12"
    by (simp add: CAN_IT_RX_FIFO0_MSG_PENDING_def CAN_IT_RX_FIFO1_MSG_PENDING_def CAN_DRIVER_ERROR_INTERRUPTS_def
        CAN_IT_ERROR_def CAN_IT_ERROR_WARNING_def CAN_IT_ERROR_PASSIVE_def CAN_IT_BUSOFF_def CAN_IT_LAST_ERROR_CODE_def)
  have empty: "ring_contents (CanRxQueue_Init q) = []" for q
    by (simp add: ring_contents_def ring_count_def CanRxQueue_Init_def)
  obtain hw where hw: "drv_handle d = Some hw"
    using assms by (auto simp: CanDriver_Recover_def split: option.splits)
  obtain hw1 where de: "HAL_CAN_DeInit hw = (HAL_OK, hw1)" "hw_mailboxes hw1 = replicate 3 None" "hw_ier hw1 = 0"
    by (cases "HAL_CAN_Stop hw") (simp add: HAL_CAN_DeInit_def)
  obtain r d1 where ini: "CanDriver_Init (d\<lparr>drv_handle := Some hw1\<rparr>) (Some hw1) (drv_prescaler d)
      (drv_time_seg1 d) (drv_time_seg2 d) (drv_filter_bank d) (drv_rx_callback d) = (r, d1)" by fastforce
  with assms hw de have start: "r = HAL_OK" "CanDriver_Start d1 = (HAL_OK, d')"
    by (auto simp: CanDriver_Recover_def split: if_splits)
  from init_ok [OF ini [unfolded start(1)]] obtain hw2 where two: "drv_handle d1 = Some hw2"
      "hw_mailboxes hw2 = replicate 3 None" "hw_ier hw2 = 0" "drv_health d1 = drv_health d"
      "drv_rx_callback d1 = drv_rx_callback d" "ring_contents (drv_priority_rx_queue d1) = []"
      "ring_contents (drv_rx_queue d1) = []"
    using de(2,3) empty by auto
  from start_ok [OF start(2) two(1)] show ?thesis
    using two its by auto
qed

subsection \<open>Witnesses\<close>

definition sample_hw :: can_hw where
  "sample_hw = \<lparr>hcan_state = HAL_CAN_STATE_LISTENING, hcan_error_code = 0,
     hcan_init = \<lparr>ini_Prescaler = 6, ini_TimeSeg1 = 0, ini_TimeSeg2 = 0, ini_AutoBusOff = False,
                  ini_AutoRetransmission = False\<rparr>,
     hw_mailboxes = [None, None, None],
     hw_fifo0 = [(\<lparr>rxh_StdId = 0x7E0, rxh_ExtId = 0, rxh_ext = False, rxh_DLC = 8\<rparr>, [2, 0x3E, 0, 0, 0, 0, 0, 0])],
     hw_fifo1 = [(\<lparr>rxh_StdId = 0x7F0, rxh_ExtId = 0, rxh_ext = False, rxh_DLC = 8\<rparr>, [1, 2, 3, 4, 5, 6, 7, 8])],
     hw_filters = replicate 28 (id_filter 0 0 CAN_RX_FIFO0 0),
     hw_esr = 0x00800007, hw_ier = 0, hw_ack = [], hw_tx_log = []\<rparr>"

definition sample_driver :: CanDriver_t where
  "sample_driver = \<lparr>drv_handle = Some sample_hw, drv_rx_callback = Some 0,
     drv_health = Some (CanHealth_Init None), drv_prescaler = 6, drv_time_seg1 = 0, drv_time_seg2 = 0,
     drv_filter_bank = 0, drv_priority_rx_queue = sample_queue, drv_rx_queue = sample_queue\<rparr>"

theorem control_frames_first_witness:
  "\<exists>s'. CanDriver_ProcessRx (\<lambda>_ i d n s. (fst s, snd s @ [(i, d, n)]))
      (CanDriver_RxIrqHandler sample_driver, []) = Some s' \<and>
    snd s' = [(0x7E0, [2, 0x3E, 0, 0, 0, 0, 0, 0], 8), (0x7F0, [1, 2, 3, 4, 5, 6, 7, 8], 8)]"
proof -
  have e: "ring_contents sample_queue = []" by code_simp
  have "\<exists>s'. CanDriver_ProcessRx (\<lambda>_ i d n s. (fst s, snd s @ [(i, d, n)]))
      (CanDriver_RxIrqHandler sample_driver, []) = Some s' \<and>
    snd s' = [] @ map callback_args
      (take 16 (map the (filter (\<lambda>f. f \<noteq> None) (map (stored_frame \<circ> rx_push_event) (hw_fifo0 sample_hw)))) @
       take 16 (map the (filter (\<lambda>f. f \<noteq> None) (map (stored_frame \<circ> rx_push_event) (hw_fifo1 sample_hw))))) \<and>
    ring_contents (drv_priority_rx_queue (fst s')) = [] \<and> ring_contents (drv_rx_queue (fst s')) = [] \<and>
    drv_handle (CanDriver_RxIrqHandler sample_driver) = Some (sample_hw\<lparr>hw_fifo0 := [], hw_fifo1 := []\<rparr>)"
    by (rule control_frames_first [where i = 0])
      (simp_all add: sample_driver_def sample_queue_ok e hal_ready_def sample_hw_def traces_def)
  moreover have "map callback_args
      (take 16 (map the (filter (\<lambda>f. f \<noteq> None) (map (stored_frame \<circ> rx_push_event) (hw_fifo0 sample_hw)))) @
       take 16 (map the (filter (\<lambda>f. f \<noteq> None) (map (stored_frame \<circ> rx_push_event) (hw_fifo1 sample_hw))))) =
      [(0x7E0, [2, 0x3E, 0, 0, 0, 0, 0, 0], 8), (0x7F0, [1, 2, 3, 4, 5, 6, 7, 8], 8)]"
    by (simp add: sample_hw_def stored_frame_def rx_push_event_def rx_header_id_def callback_args_def buf_write_def)
  ultimately show ?thesis by auto
qed

theorem init_routes_identifiers_witness:
  "\<exists>d' hw'. CanDriver_Init sample_driver (Some sample_hw) 6 0 0 0 (Some 0) = (HAL_OK, d') \<and>
     drv_handle d' = Some hw' \<and> filter_route hw' 0x6F1 = Some CAN_RX_FIFO1"
proof -
  obtain d' where d': "CanDriver_Init sample_driver (Some sample_hw) 6 0 0 0 (Some 0) = (HAL_OK, d')"
    by (simp add: CanDriver_Init_def HAL_CAN_Init_def hal_ack_def sample_hw_def CanDriver_ConfigureFilter_def
        HAL_CAN_ConfigFilter_def hal_ready_def Let_def)
  from init_routes_identifiers [OF d', of "0x6F1"] d' show ?thesis
    by (auto simp: sample_hw_def)
qed

theorem error_isr_mirrors_controller_witness:
  "\<exists>d' lg' clk' h'. CanDriver_OnErrorIsr (sample_driver\<lparr>drv_handle := Some (sample_hw\<lparr>hcan_error_code := 4\<rparr>)\<rparr>)
      \<lparr>log_entries = [], log_next_index = 0, log_recorded = 0\<rparr> \<lparr>uwTick = 0, clk_systick = []\<rparr> = (d', lg', clk') \<and>
     drv_health d' = Some h' \<and> h_state h' = CAN_HEALTH_STATE_BUS_OFF \<and> h_bus_off_events h' = 1"
proof -
  let ?d = "sample_driver\<lparr>drv_handle := Some (sample_hw\<lparr>hcan_error_code := 4\<rparr>)\<rparr>"
  let ?lg = "\<lparr>log_entries = [], log_next_index = 0, log_recorded = 0\<rparr> :: CanDriverErrorLog_t"
  let ?clk = "\<lparr>uwTick = 0, clk_systick = []\<rparr> :: systick"
  obtain d' lg' clk' where eq: "CanDriver_OnErrorIsr ?d ?lg ?clk = (d', lg', clk')"
    by (metis prod_cases3)
  show ?thesis
    using error_isr_mirrors_controller [OF _ _ _ eq, of "sample_hw\<lparr>hcan_error_code := 4\<rparr>" "CanHealth_Init None"] eq
    by (auto simp: sample_driver_def sample_hw_def CanHealth_Init_def)
qed

theorem recover_restarts_node_witness:
  "\<exists>d' hw'. CanDriver_Recover sample_driver = (HAL_OK, d') \<and> drv_handle d' = Some hw' \<and>
     hcan_state hw' = HAL_CAN_STATE_LISTENING \<and> hw_mailboxes hw' = replicate 3 None"
proof -
  have "fst (CanDriver_Recover sample_driver) = HAL_OK" by code_simp
  then obtain d' where d': "CanDriver_Recover sample_driver = (HAL_OK, d')" by (metis prod.collapse)
  from recover_restarts_node [OF this] d' show ?thesis by auto
qed

end
