(* ===== verification/IsotpCore.thy ===== *)
theory IsotpCore
  imports Prelude
begin

section \<open>ISO-TP: constants, the channel interface and the segmentation of a message\<close>

text \<open>
  \<open>firmware/common/isotp.h\<close> and the shared head of \<open>isotp.c\<close>.  A channel is a table of
  function pointers with a context; the model's channel functions act on the state \<open>'c\<close>
  behind that context (clock, mailboxes, bus), and a null pointer is \<open>None\<close>.  The locale
  \<open>isotp_channel\<close> is what the protocol core needs of a channel: it has a send function, a
  send of eight bytes that returns true has put exactly that frame on the bus, and nothing
  else does.
  \<open>segment\<close> is the frame sequence ISO 15765-2 prescribes for a payload: the abstract
  specification of the sender and the receiver.
\<close>

subsection \<open>Constants\<close>

definition ISOTP_PCI_SF :: u8 where "ISOTP_PCI_SF = 0x0"
definition ISOTP_PCI_FF :: u8 where "ISOTP_PCI_FF = 0x1"
definition ISOTP_PCI_CF :: u8 where "ISOTP_PCI_CF = 0x2"
definition ISOTP_PCI_FC :: u8 where "ISOTP_PCI_FC = 0x3"
definition ISOTP_FC_CTS :: u8 where "ISOTP_FC_CTS = 0x0"
definition ISOTP_FC_WAIT :: u8 where "ISOTP_FC_WAIT = 0x1"
definition ISOTP_FC_OVERFLOW :: u8 where "ISOTP_FC_OVERFLOW = 0x2"
definition ISOTP_SF_PAYLOAD_MAX :: u16 where "ISOTP_SF_PAYLOAD_MAX = 7"
definition ISOTP_FF_PAYLOAD_MAX :: u16 where "ISOTP_FF_PAYLOAD_MAX = 6"
definition ISOTP_CF_PAYLOAD_MAX :: u16 where "ISOTP_CF_PAYLOAD_MAX = 7"
definition ISOTP_CAN_DLC :: nat where "ISOTP_CAN_DLC = 8"
definition ISOTP_DEFAULT_PADDING :: u8 where "ISOTP_DEFAULT_PADDING = 0xCC"
definition ISOTP_DEFAULT_BLOCK_SIZE :: u8 where "ISOTP_DEFAULT_BLOCK_SIZE = 8"
definition ISOTP_DEFAULT_STMIN_MS :: u8 where "ISOTP_DEFAULT_STMIN_MS = 20"
definition ISOTP_SEQ_MASK :: u8 where "ISOTP_SEQ_MASK = 0x0F"
definition ISOTP_MAX_SINGLE_FRAME :: u16 where "ISOTP_MAX_SINGLE_FRAME = ISOTP_SF_PAYLOAD_MAX"
definition ISOTP_MAX_TOTAL_LENGTH :: u16 where "ISOTP_MAX_TOTAL_LENGTH = 0x0FFF"
definition ISOTP_DEFAULT_N_AS_MS :: u16 where "ISOTP_DEFAULT_N_AS_MS = 1000"
definition ISOTP_DEFAULT_N_BS_MS :: u16 where "ISOTP_DEFAULT_N_BS_MS = 1000"
definition ISOTP_DEFAULT_N_CR_MS :: u16 where "ISOTP_DEFAULT_N_CR_MS = 1000"
definition ISOTP_DEFAULT_N_AR_MS :: u16 where "ISOTP_DEFAULT_N_AR_MS = 1000"

lemmas isotp_consts = ISOTP_PCI_SF_def ISOTP_PCI_FF_def ISOTP_PCI_CF_def ISOTP_PCI_FC_def
  ISOTP_FC_CTS_def ISOTP_FC_WAIT_def ISOTP_FC_OVERFLOW_def ISOTP_SF_PAYLOAD_MAX_def
  ISOTP_FF_PAYLOAD_MAX_def ISOTP_CF_PAYLOAD_MAX_def ISOTP_CAN_DLC_def ISOTP_SEQ_MASK_def
  ISOTP_MAX_SINGLE_FRAME_def ISOTP_MAX_TOTAL_LENGTH_def

datatype IsotpResult_t =
    ISOTP_OK | ISOTP_ERR_BUSY | ISOTP_ERR_TOO_LONG | ISOTP_ERR_INVALID | ISOTP_ERR_TIMEOUT
  | ISOTP_ERR_OVERFLOW | ISOTP_ERR_NO_RESPONSE | ISOTP_ERR_STATE

record 'c IsotpChannel_t =
  ch_send :: "(u32 \<Rightarrow> frame \<Rightarrow> 'c \<Rightarrow> bool \<times> 'c) option"
  ch_receive :: "('c \<Rightarrow> (u32 \<times> frame) option \<times> 'c) option"
  ch_tick_ms :: "('c \<Rightarrow> u32 \<times> 'c) option"
  ch_tx_pending :: "('c \<Rightarrow> bool \<times> 'c) option"

text \<open>\<open>(IsotpChannel_t){0}\<close>: every pointer null.\<close>

definition null_channel :: "'c IsotpChannel_t" where
  "null_channel = \<lparr>ch_send = None, ch_receive = None, ch_tick_ms = None, ch_tx_pending = None\<rparr>"

record IsotpConfig_t =
  cfg_txid :: u32
  cfg_rxid :: u32
  cfg_n_as_ms :: u16
  cfg_n_bs_ms :: u16
  cfg_n_cr_ms :: u16
  cfg_n_ar_ms :: u16
  cfg_block_size :: u8
  cfg_stmin_ms :: u8
  cfg_padding :: u8
  cfg_rx_buffer :: "u8 list option"
  cfg_rx_buffer_size :: u16

definition IsotpConfig_Init ::
  "u32 \<Rightarrow> u32 \<Rightarrow> u8 list option \<Rightarrow> u16 \<Rightarrow> IsotpConfig_t" where
  "IsotpConfig_Init txid rxid rx_buffer rx_buffer_size =
     \<lparr>cfg_txid = txid, cfg_rxid = rxid,
      cfg_n_as_ms = ISOTP_DEFAULT_N_AS_MS, cfg_n_bs_ms = ISOTP_DEFAULT_N_BS_MS,
      cfg_n_cr_ms = ISOTP_DEFAULT_N_CR_MS, cfg_n_ar_ms = ISOTP_DEFAULT_N_AR_MS,
      cfg_block_size = ISOTP_DEFAULT_BLOCK_SIZE, cfg_stmin_ms = ISOTP_DEFAULT_STMIN_MS,
      cfg_padding = ISOTP_DEFAULT_PADDING,
      cfg_rx_buffer = rx_buffer, cfg_rx_buffer_size = rx_buffer_size\<rparr>"

definition isotp_tick :: "'c IsotpChannel_t \<Rightarrow> 'c \<Rightarrow> u32 \<times> 'c" where
  "isotp_tick ch c = (case ch_tick_ms ch of Some f \<Rightarrow> f c | None \<Rightarrow> (0, c))"

text \<open>The two uses of an optional function pointer in the sources:
  \<open>(tx_pending != NULL) && tx_pending(ctx)\<close> and \<open>(send != NULL) && send(ctx, id, frame)\<close>.\<close>

definition channel_pending :: "'c IsotpChannel_t \<Rightarrow> 'c \<Rightarrow> bool \<times> 'c" where
  "channel_pending ch c = (case ch_tx_pending ch of Some f \<Rightarrow> f c | None \<Rightarrow> (False, c))"

definition channel_send :: "'c IsotpChannel_t \<Rightarrow> u32 \<Rightarrow> frame \<Rightarrow> 'c \<Rightarrow> bool \<times> 'c" where
  "channel_send ch i fr c = (case ch_send ch of Some f \<Rightarrow> f i fr c | None \<Rightarrow> (False, c))"

subsection \<open>The channel contract\<close>

locale isotp_channel =
  fixes ch :: "'c IsotpChannel_t"
    and sent :: "'c \<Rightarrow> (u32 \<times> frame) list"
  assumes send_bound: "ch_send ch \<noteq> None"
    and send_true: "channel_send ch i fr c = (True, c') \<Longrightarrow> length fr = 8 \<Longrightarrow> sent c' = sent c @ [(i, fr)]"
    and send_false: "channel_send ch i fr c = (False, c') \<Longrightarrow> sent c' = sent c"
    and tick_quiet: "isotp_tick ch c = (t, c') \<Longrightarrow> sent c' = sent c"
    and pending_quiet: "channel_pending ch c = (b, c') \<Longrightarrow> sent c' = sent c"

text \<open>A calm channel's clock advances by at most one tick between two readings in one call, so
  a deadline two or more ticks away is not reached in the call that sets it.\<close>

locale calm_channel = isotp_channel +
  assumes tick_steady:
    "isotp_tick ch c = (t1, c1) \<Longrightarrow> isotp_tick ch c1 = (t2, c2) \<Longrightarrow> t2 - t1 \<le> 1"
begin

lemma not_reached: "t2 - t1 \<le> 1 \<Longrightarrow> 2 \<le> n \<Longrightarrow> \<not> tick_reached t2 (t1 + ucast (n :: u16))"
proof -
  assume d: "t2 - t1 \<le> 1" and n: "2 \<le> n"
  define e where "e = t2 - t1"
  have t2: "t2 = t1 + e" by (simp add: e_def)
  have u: "unat (ucast n :: u32) = unat n"
    by simp
  have "unat e \<le> 1" using d by (simp add: e_def word_le_nat_alt)
  moreover have "2 \<le> unat n" using n by (simp add: word_le_nat_alt)
  ultimately have "\<not> (ucast n :: u32) \<le> e"
    using u by (simp add: word_le_nat_alt)
  moreover have "unat (ucast n :: u32) < 2 ^ 31" "unat e < 2 ^ 31"
    using u unat_u16_le [of n] \<open>unat e \<le> 1\<close> by simp_all
  ultimately show ?thesis
    unfolding t2 using tick_reached_after by blast
qed

end

subsection \<open>Segmentation\<close>

text \<open>The sender's frames for a payload: one single frame up to 7 bytes; otherwise a first
  frame with the 12-bit length and 6 bytes, then consecutive frames of 7 bytes whose
  sequence number counts 1, 2, \<dots>, 15, 0, 1, \<dots>; every frame padded to 8 bytes.\<close>

definition sf_frame :: "u8 \<Rightarrow> u8 list \<Rightarrow> frame" where
  "sf_frame pad p = pad_to 8 pad (of_nat (length p) # p)"

definition ff_frame :: "u8 \<Rightarrow> u8 list \<Rightarrow> frame" where
  "ff_frame pad p = pad_to 8 pad
     ([0x10 OR (hi8 (of_nat (length p)) AND 0x0F), lo8 (of_nat (length p))] @ take 6 p)"

definition cf_frame :: "u8 \<Rightarrow> nat \<Rightarrow> u8 list \<Rightarrow> frame" where
  "cf_frame pad sn chunk = pad_to 8 pad ((0x20 OR of_nat (sn mod 16)) # chunk)"

fun cf_frames :: "u8 \<Rightarrow> nat \<Rightarrow> u8 list \<Rightarrow> frame list" where
  "cf_frames pad sn [] = []"
| "cf_frames pad sn (x # xs) =
     cf_frame pad sn (take 7 (x # xs)) # cf_frames pad (Suc sn) (drop 7 (x # xs))"

definition segment :: "u8 \<Rightarrow> u8 list \<Rightarrow> frame list" where
  "segment pad p =
     (if length p \<le> 7 then [sf_frame pad p]
      else ff_frame pad p # cf_frames pad 1 (drop 6 p))"

lemma cf_frames_nonempty:
  "xs \<noteq> [] \<Longrightarrow> cf_frames pad sn xs = cf_frame pad sn (take 7 xs) # cf_frames pad (Suc sn) (drop 7 xs)"
  by (cases xs) simp_all

text \<open>The number of consecutive frames: one per started group of seven bytes.\<close>

lemma length_cf_frames: "length (cf_frames pad sn xs) = (length xs + 6) div 7"
proof (induction pad sn xs rule: cf_frames.induct)
  case (2 pad sn x xs)
  show ?case
  proof (cases "length xs < 7")
    case True
    then show ?thesis by simp
  next
    case False
    with "2.IH" show ?thesis by (simp add: div_add_self2 [symmetric] del: div_add_self2)
  qed
qed simp

lemma nth_cf_frames:
  "k < length (cf_frames pad sn xs) \<Longrightarrow>
    cf_frames pad sn xs ! k = cf_frame pad (sn + k) (take 7 (drop (7 * k) xs))"
proof (induction pad sn xs arbitrary: k rule: cf_frames.induct)
  case (2 pad sn x xs)
  then show ?case
    by (cases k) (simp_all add: drop_drop drop_Cons' add.commute)
qed simp

lemma cf_frames_frame_length: "f \<in> set (cf_frames pad sn xs) \<Longrightarrow> length f = 8"
proof (induction pad sn xs rule: cf_frames.induct)
  case (2 pad sn x xs)
  then show ?case by (auto simp: cf_frame_def min_def)
qed simp

lemma segment_frame_length: "f \<in> set (segment pad p) \<Longrightarrow> length f = 8"
  by (auto simp: segment_def sf_frame_def ff_frame_def cf_frames_frame_length split: if_splits)

lemma length_segment:
  "length (segment pad p) = (if length p \<le> 7 then 1 else Suc (length p div 7))"
  by (auto simp: segment_def length_cf_frames)

lemma length_segment_long: "7 < length p \<Longrightarrow> length (segment pad p) = 1 + length p div 7"
  by (simp add: length_segment)

end
