(* ===== verification/IsotpTx.thy ===== *)
theory IsotpTx
  imports IsotpCore
begin

section \<open>The ISO-TP sender\<close>

text \<open>
  The \<open>IsotpTx_t\<close> state machine of \<open>firmware/common/isotp.c\<close>.  Every operation takes the
  sender and the channel state and returns its result with both, in the order the code reads
  the clock and calls the driver.  The payload pointer is captured by value, as the code
  requires the buffer to stay valid and unchanged during the transfer.  The main result is
  that, over every channel that meets the contract and every schedule of polls, received
  frames and driver refusals, what reaches the bus is a prefix of \<open>segment\<close>, and the whole
  of it when a poll completes the transfer.
\<close>

subsection \<open>State\<close>

record 'c IsotpTx_t =
  tx_channel :: "'c IsotpChannel_t"
  tx_txid :: u32
  tx_rxid :: u32
  tx_n_as_ms :: u16
  tx_n_bs_ms :: u16
  tx_n_cr_ms :: u16
  tx_block_size :: u8
  tx_stmin_ms :: u8
  tx_padding :: u8
  tx_data :: "u8 list option"
  tx_length :: u16
  tx_total_length :: u16
  tx_offset :: u16
  tx_sn :: u8
  tx_sent_in_block :: u16
  tx_deadline_ms :: u32
  tx_as_deadline_ms :: u32
  tx_enqueue_deadline_ms :: u32
  tx_last_cf_ms :: u32
  tx_pending_frame :: frame
  tx_ff_sent :: bool
  tx_has_sent_cf :: bool
  tx_waiting_enqueue :: bool
  tx_waiting_fc :: bool
  tx_waiting_after_block :: bool
  tx_frame_pending :: bool
  tx_ongoing :: bool

subsection \<open>Frame transmission\<close>

definition isotp_tx_pending :: "'c IsotpTx_t \<Rightarrow> 'c \<Rightarrow> bool \<times> 'c" where
  "isotp_tx_pending tx c = channel_pending (tx_channel tx) c"

definition isotp_note_frame_sent :: "'c IsotpTx_t \<Rightarrow> u32 \<Rightarrow> 'c \<Rightarrow> 'c IsotpTx_t \<times> 'c" where
  "isotp_note_frame_sent tx now c =
     (let (p, c1) = isotp_tx_pending tx c in
      (tx\<lparr>tx_frame_pending := p, tx_as_deadline_ms := now + ucast (tx_n_as_ms tx)\<rparr>, c1))"

definition isotp_tx_service_enqueue ::
  "'c IsotpTx_t \<Rightarrow> u32 \<Rightarrow> 'c \<Rightarrow> IsotpResult_t \<times> 'c IsotpTx_t \<times> 'c" where
  "isotp_tx_service_enqueue tx now c =
     (if \<not> tx_waiting_enqueue tx then (ISOTP_OK, tx, c)
      else let (ok, c1) = channel_send (tx_channel tx) (tx_txid tx) (tx_pending_frame tx) c in
        if ok then
          let (tx1, c2) = isotp_note_frame_sent (tx\<lparr>tx_waiting_enqueue := False\<rparr>) now c1
          in (ISOTP_OK, tx1, c2)
        else if tick_reached now (tx_enqueue_deadline_ms tx) then
          (ISOTP_ERR_TIMEOUT, tx\<lparr>tx_waiting_enqueue := False, tx_ongoing := False\<rparr>, c1)
        else (ISOTP_OK, tx, c1))"

definition isotp_tx_schedule_frame ::
  "'c IsotpTx_t \<Rightarrow> frame \<Rightarrow> 'c \<Rightarrow> bool \<times> 'c IsotpTx_t \<times> 'c" where
  "isotp_tx_schedule_frame tx fr c =
     (if ch_send (tx_channel tx) = None then (False, tx, c)
      else let (t1, c1) = isotp_tick (tx_channel tx) c;
               tx1 = tx\<lparr>tx_pending_frame := fr, tx_waiting_enqueue := True,
                        tx_enqueue_deadline_ms := t1 + ucast (tx_n_as_ms tx)\<rparr>;
               (t2, c2) = isotp_tick (tx_channel tx1) c1;
               (r, tx2, c3) = isotp_tx_service_enqueue tx1 t2 c2
           in (True, tx2, c3))"

text \<open>The three frame builders write the PCI bytes, copy the payload chunk and fill the rest
  of the eight bytes with the padding byte.\<close>

definition isotp_send_sf ::
  "'c IsotpTx_t \<Rightarrow> u8 list \<Rightarrow> u16 \<Rightarrow> 'c \<Rightarrow> bool \<times> 'c IsotpTx_t \<times> 'c" where
  "isotp_send_sf tx data len c =
     (let fr = pad_to 8 (tx_padding tx)
                 ((push_bit 4 ISOTP_PCI_SF OR ucast len) # take (unat len) data)
      in isotp_tx_schedule_frame (tx\<lparr>tx_offset := len\<rparr>) fr c)"

definition isotp_send_ff :: "'c IsotpTx_t \<Rightarrow> 'c \<Rightarrow> bool \<times> 'c IsotpTx_t \<times> 'c" where
  "isotp_send_ff tx c =
     (let chunk = (if tx_length tx < ISOTP_FF_PAYLOAD_MAX then tx_length tx
                   else ISOTP_FF_PAYLOAD_MAX);
          fr = pad_to 8 (tx_padding tx)
                 ([push_bit 4 ISOTP_PCI_FF OR (hi8 (tx_total_length tx) AND 0x0F),
                   lo8 (tx_total_length tx)] @ take (unat chunk) (the (tx_data tx)));
          (t, c1) = isotp_tick (tx_channel tx) c;
          tx1 = tx\<lparr>tx_offset := chunk, tx_ff_sent := True, tx_waiting_fc := True,
                   tx_waiting_after_block := False,
                   tx_deadline_ms := t + ucast (tx_n_bs_ms tx)\<rparr>
      in isotp_tx_schedule_frame tx1 fr c1)"

definition isotp_send_cf ::
  "'c IsotpTx_t \<Rightarrow> u32 \<Rightarrow> 'c \<Rightarrow> bool \<times> 'c IsotpTx_t \<times> 'c" where
  "isotp_send_cf tx now c =
     (let remaining = tx_length tx - tx_offset tx;
          chunk = (if remaining < ISOTP_CF_PAYLOAD_MAX then remaining else ISOTP_CF_PAYLOAD_MAX);
          fr = pad_to 8 (tx_padding tx)
                 ((push_bit 4 ISOTP_PCI_CF OR (tx_sn tx AND ISOTP_SEQ_MASK)) #
                  take (unat chunk) (drop (unat (tx_offset tx)) (the (tx_data tx))));
          tx1 = tx\<lparr>tx_offset := tx_offset tx + chunk,
                   tx_sn := (tx_sn tx + 1) AND ISOTP_SEQ_MASK,
                   tx_sent_in_block := tx_sent_in_block tx + 1,
                   tx_has_sent_cf := True, tx_last_cf_ms := now\<rparr>
      in isotp_tx_schedule_frame tx1 fr c)"

subsection \<open>Operations\<close>

text \<open>\<open>tx_last_cf_ms\<close> and \<open>tx_pending_frame\<close> are not written by the initialiser: they keep
  what the memory held, which the model takes from the old record.\<close>

definition IsotpTx_Init ::
  "'c IsotpTx_t \<Rightarrow> 'c IsotpChannel_t option \<Rightarrow> IsotpConfig_t \<Rightarrow> 'c IsotpTx_t" where
  "IsotpTx_Init tx ch cfg =
     tx\<lparr>tx_channel := (case ch of Some k \<Rightarrow> k | None \<Rightarrow> null_channel),
        tx_txid := cfg_txid cfg, tx_rxid := cfg_rxid cfg,
        tx_n_as_ms := (if cfg_n_as_ms cfg \<noteq> 0 then cfg_n_as_ms cfg else ISOTP_DEFAULT_N_AS_MS),
        tx_n_bs_ms := (if cfg_n_bs_ms cfg \<noteq> 0 then cfg_n_bs_ms cfg else ISOTP_DEFAULT_N_BS_MS),
        tx_n_cr_ms := (if cfg_n_cr_ms cfg \<noteq> 0 then cfg_n_cr_ms cfg else ISOTP_DEFAULT_N_CR_MS),
        tx_padding := (if cfg_padding cfg \<noteq> 0 then cfg_padding cfg else ISOTP_DEFAULT_PADDING),
        tx_block_size := 0, tx_stmin_ms := 0,
        tx_data := None, tx_length := 0, tx_total_length := 0, tx_offset := 0, tx_sn := 1,
        tx_sent_in_block := 0, tx_deadline_ms := 0, tx_as_deadline_ms := 0,
        tx_enqueue_deadline_ms := 0, tx_ff_sent := False, tx_has_sent_cf := False,
        tx_waiting_enqueue := False, tx_waiting_fc := False, tx_waiting_after_block := False,
        tx_frame_pending := False, tx_ongoing := False\<rparr>"

definition tx_begin :: "'c IsotpTx_t \<Rightarrow> u8 list \<Rightarrow> u16 \<Rightarrow> 'c IsotpTx_t" where
  "tx_begin tx data len =
     tx\<lparr>tx_data := Some data, tx_length := len, tx_total_length := len, tx_offset := 0,
        tx_sn := 1, tx_sent_in_block := 0, tx_ff_sent := False, tx_has_sent_cf := False,
        tx_waiting_enqueue := False, tx_waiting_fc := False, tx_waiting_after_block := False,
        tx_frame_pending := False, tx_last_cf_ms := 0, tx_as_deadline_ms := 0,
        tx_enqueue_deadline_ms := 0, tx_ongoing := True\<rparr>"

text \<open>\<open>data = None\<close> is the null pointer.\<close>

definition IsotpTx_Start ::
  "'c IsotpTx_t \<Rightarrow> u8 list option \<Rightarrow> u16 \<Rightarrow> 'c \<Rightarrow> IsotpResult_t \<times> 'c IsotpTx_t \<times> 'c" where
  "IsotpTx_Start tx data len c =
     (if data = None \<or> len = 0 then (ISOTP_ERR_INVALID, tx, c)
      else if tx_ongoing tx then (ISOTP_ERR_BUSY, tx, c)
      else if ISOTP_MAX_TOTAL_LENGTH < len then (ISOTP_ERR_TOO_LONG, tx, c)
      else let tx1 = tx_begin tx (the data) len in
        if len \<le> ISOTP_MAX_SINGLE_FRAME then
          let (ok, tx2, c1) = isotp_send_sf tx1 (the data) len c in
          if \<not> ok then (ISOTP_ERR_STATE, tx2\<lparr>tx_ongoing := False\<rparr>, c1)
          else (ISOTP_OK,
                (if \<not> tx_frame_pending tx2 \<and> \<not> tx_waiting_enqueue tx2
                 then tx2\<lparr>tx_ongoing := False\<rparr> else tx2), c1)
        else
          let (ok, tx2, c1) = isotp_send_ff tx1 c in
          if \<not> ok then (ISOTP_ERR_STATE, tx2\<lparr>tx_ongoing := False\<rparr>, c1)
          else (ISOTP_OK, tx2, c1))"

definition IsotpTx_IsBusy :: "'c IsotpTx_t option \<Rightarrow> bool" where
  "IsotpTx_IsBusy p = (case p of Some tx \<Rightarrow> tx_ongoing tx | None \<Rightarrow> False)"

definition tx_block_full :: "'c IsotpTx_t \<Rightarrow> bool" where
  "tx_block_full tx \<longleftrightarrow> 0 < tx_block_size tx \<and> ucast (tx_block_size tx) \<le> tx_sent_in_block tx"

definition IsotpTx_OnFrame ::
  "'c IsotpTx_t \<Rightarrow> frame option \<Rightarrow> 'c \<Rightarrow> IsotpResult_t \<times> 'c IsotpTx_t \<times> 'c" where
  "IsotpTx_OnFrame tx fp c =
     (case fp of None \<Rightarrow> (ISOTP_ERR_STATE, tx, c) | Some data \<Rightarrow>
      if \<not> tx_ongoing tx then (ISOTP_ERR_STATE, tx, c)
      else let after_block = tx_block_full tx in
      if \<not> tx_waiting_fc tx \<and> \<not> after_block then (ISOTP_ERR_STATE, tx, c)
      else if drop_bit 4 (data ! 0) \<noteq> ISOTP_PCI_FC then (ISOTP_ERR_INVALID, tx, c)
      else let status = data ! 0 AND 0x0F in
      if status = ISOTP_FC_WAIT then
        let (t, c1) = isotp_tick (tx_channel tx) c in
        (ISOTP_OK,
         tx\<lparr>tx_deadline_ms := t + ucast (if tx_waiting_after_block tx \<or> after_block
                                         then tx_n_cr_ms tx else tx_n_bs_ms tx)\<rparr>, c1)
      else if status \<noteq> ISOTP_FC_CTS then
        (if status = ISOTP_FC_OVERFLOW then ISOTP_ERR_OVERFLOW else ISOTP_ERR_NO_RESPONSE,
         tx\<lparr>tx_ongoing := False\<rparr>, c)
      else
        let tx1 = tx\<lparr>tx_block_size := data ! 1, tx_stmin_ms := data ! 2,
                     tx_waiting_fc := False, tx_waiting_after_block := False,
                     tx_sent_in_block := 0\<rparr>;
            (t, c1) = isotp_tick (tx_channel tx1) c
        in (ISOTP_OK, tx1\<lparr>tx_deadline_ms := t + ucast (tx_n_as_ms tx1)\<rparr>, c1))"

text \<open>The part of \<open>IsotpTx_Poll\<close> that runs once no frame is waiting for the driver: flow
  control, block boundary, completion, separation time, next consecutive frame.\<close>

definition tx_poll_idle ::
  "'c IsotpTx_t \<Rightarrow> u32 \<Rightarrow> 'c \<Rightarrow> IsotpResult_t \<times> 'c IsotpTx_t \<times> 'c" where
  "tx_poll_idle tx now c =
     (if tx_waiting_fc tx then
        (if tick_reached now (tx_deadline_ms tx)
         then (ISOTP_ERR_TIMEOUT, tx\<lparr>tx_ongoing := False\<rparr>, c)
         else (ISOTP_OK, tx, c))
      else if tx_block_full tx then
        (ISOTP_OK, tx\<lparr>tx_waiting_fc := True, tx_waiting_after_block := True,
                       tx_deadline_ms := now + ucast (tx_n_cr_ms tx)\<rparr>, c)
      else if tx_length tx \<le> tx_offset tx then (ISOTP_OK, tx\<lparr>tx_ongoing := False\<rparr>, c)
      else if tx_has_sent_cf tx \<and> 0 < tx_stmin_ms tx \<and>
              now - tx_last_cf_ms tx < ucast (tx_stmin_ms tx) then (ISOTP_OK, tx, c)
      else let (ok, tx1, c1) = isotp_send_cf tx now c in
        if \<not> ok then (ISOTP_ERR_STATE, tx1\<lparr>tx_ongoing := False\<rparr>, c1)
        else (ISOTP_OK, tx1, c1))"

definition IsotpTx_Poll ::
  "'c IsotpTx_t \<Rightarrow> 'c \<Rightarrow> IsotpResult_t \<times> 'c IsotpTx_t \<times> 'c" where
  "IsotpTx_Poll tx c =
     (if \<not> tx_ongoing tx then (ISOTP_OK, tx, c)
      else let (now, c1) = isotp_tick (tx_channel tx) c;
               (r, tx1, c2) = isotp_tx_service_enqueue tx now c1 in
      if r = ISOTP_ERR_TIMEOUT then (ISOTP_ERR_TIMEOUT, tx1, c2)
      else if tx_waiting_enqueue tx1 then (ISOTP_OK, tx1, c2)
      else if tx_frame_pending tx1 then
        let (p, c3) = isotp_tx_pending tx1 c2 in
        if p then
          (if tick_reached now (tx_as_deadline_ms tx1)
           then (ISOTP_ERR_TIMEOUT, tx1\<lparr>tx_ongoing := False, tx_frame_pending := False\<rparr>, c3)
           else (ISOTP_OK, tx1, c3))
        else tx_poll_idle (tx1\<lparr>tx_frame_pending := False\<rparr>) now c3
      else tx_poll_idle tx1 now c2)"

definition IsotpTx_Reset :: "'c IsotpTx_t \<Rightarrow> 'c IsotpTx_t" where
  "IsotpTx_Reset tx =
     tx\<lparr>tx_ongoing := False, tx_waiting_enqueue := False, tx_waiting_fc := False,
        tx_waiting_after_block := False, tx_frame_pending := False, tx_ff_sent := False,
        tx_has_sent_cf := False, tx_data := None, tx_length := 0, tx_offset := 0\<rparr>"

subsection \<open>What the sender has put on the bus\<close>

text \<open>\<open>tx_progress k p tx\<close>: the first \<open>k\<close> frames of the segmentation of \<open>p\<close> have been built.\<close>

definition tx_progress :: "nat \<Rightarrow> u8 list \<Rightarrow> 'c IsotpTx_t \<Rightarrow> bool" where
  "tx_progress k p tx \<longleftrightarrow> 0 < k \<and>
     (if length p \<le> 7 then k = 1 \<and> unat (tx_offset tx) = length p
      else unat (tx_offset tx) = min (6 + 7 * (k - 1)) (length p) \<and>
           k \<le> length (segment (tx_padding tx) p) \<and> unat (tx_sn tx) = k mod 16)"

definition tx_static :: "u8 list \<Rightarrow> 'c IsotpTx_t \<Rightarrow> bool" where
  "tx_static p tx \<longleftrightarrow> tx_data tx = Some p \<and> unat (tx_length tx) = length p \<and>
     tx_total_length tx = tx_length tx \<and> p \<noteq> [] \<and> length p \<le> 0xFFF"

definition on_bus :: "'c IsotpTx_t \<Rightarrow> u8 list \<Rightarrow> nat \<Rightarrow> (u32 \<times> frame) list" where
  "on_bus tx p n = map (Pair (tx_txid tx)) (take n (segment (tx_padding tx) p))"

lemma on_bus_update [simp]:
  "on_bus (tx\<lparr>tx_ongoing := a\<rparr>) = on_bus tx"
  "on_bus (tx\<lparr>tx_frame_pending := a\<rparr>) = on_bus tx"
  by (simp_all add: on_bus_def fun_eq_iff)

lemma on_bus_cong:
  "tx_txid tx' = tx_txid tx \<Longrightarrow> tx_padding tx' = tx_padding tx \<Longrightarrow> on_bus tx' = on_bus tx"
  by (simp add: on_bus_def fun_eq_iff)

lemma segment_nth_Suc:
  "7 < length p \<Longrightarrow> 0 < k \<Longrightarrow> k < length (segment pad p) \<Longrightarrow>
    segment pad p ! k = cf_frame pad k (take 7 (drop (6 + 7 * (k - 1)) p))"
  by (cases k) (auto simp: segment_def nth_cf_frames drop_drop add.commute)

lemma tx_progress_complete:
  assumes "tx_progress k p tx" "length p \<le> unat (tx_offset tx)"
  shows "take k (segment (tx_padding tx) p) = segment (tx_padding tx) p"
proof (cases "length p \<le> 7")
  case True
  with assms show ?thesis by (simp add: tx_progress_def segment_def)
next
  case False
  with assms have "length p \<le> 6 + 7 * (k - 1)" "0 < k"
    by (auto simp: tx_progress_def)
  then have "1 + length p div 7 \<le> k" by linarith
  with False length_segment_long [of p "tx_padding tx"] show ?thesis by simp
qed

lemma tx_progress_more:
  assumes "tx_progress k p tx" "unat (tx_offset tx) < length p"
  shows "7 < length p \<and> 6 + 7 * (k - 1) < length p \<and> k < length (segment (tx_padding tx) p) \<and>
    unat (tx_offset tx) = 6 + 7 * (k - 1)"
proof -
  from assms have l: "7 < length p" and o: "6 + 7 * (k - 1) < length p" "0 < k"
      "unat (tx_offset tx) = 6 + 7 * (k - 1)"
    by (auto simp: tx_progress_def split: if_splits)
  then have "k < 1 + length p div 7" by linarith
  with l o length_segment_long [OF l] show ?thesis by simp
qed

lemma tx_progress_frame:
  assumes "tx_progress k p tx"
  shows "tx_progress k p (tx\<lparr>tx_waiting_enqueue := a, tx_frame_pending := b, tx_as_deadline_ms := d\<rparr>)"
  using assms by (simp add: tx_progress_def)

context isotp_channel
begin

text \<open>While the transfer runs: \<open>k\<close> frames are built, all of them are on the bus except the
  last one while it waits for a mailbox.\<close>

definition tx_running :: "(u32 \<times> frame) list \<Rightarrow> u8 list \<Rightarrow> 'c IsotpTx_t \<Rightarrow> 'c \<Rightarrow> bool" where
  "tx_running base p tx c \<longleftrightarrow> tx_static p tx \<and> tx_channel tx = ch \<and>
     (\<exists>k. tx_progress k p tx \<and>
        (if tx_waiting_enqueue tx
         then tx_pending_frame tx = segment (tx_padding tx) p ! (k - 1) \<and>
              k \<le> length (segment (tx_padding tx) p) \<and> sent c = base @ on_bus tx p (k - 1)
         else sent c = base @ on_bus tx p k))"

definition tx_safe :: "(u32 \<times> frame) list \<Rightarrow> u8 list \<Rightarrow> 'c IsotpTx_t \<Rightarrow> 'c \<Rightarrow> bool" where
  "tx_safe base p tx c \<longleftrightarrow>
     (if tx_ongoing tx then tx_running base p tx c else \<exists>n. sent c = base @ on_bus tx p n)"

lemma running_prefix: "tx_running base p tx c \<Longrightarrow> \<exists>n. sent c = base @ on_bus tx p n"
  by (auto simp: tx_running_def split: if_splits)

lemma running_quiet: "tx_running base p tx c \<Longrightarrow> sent c' = sent c \<Longrightarrow> tx_running base p tx c'"
  by (simp only: tx_running_def)

lemma on_bus_next:
  "0 < k \<Longrightarrow> k \<le> length (segment (tx_padding tx) p) \<Longrightarrow>
    on_bus tx p (k - 1) @ [(tx_txid tx, segment (tx_padding tx) p ! (k - 1))] = on_bus tx p k"
  by (cases k) (simp_all add: on_bus_def take_Suc_conv_app_nth)

lemma service_running:
  assumes run: "tx_running base p tx c"
    and eq: "isotp_tx_service_enqueue tx now c = (r, tx', c')"
  shows "(r = ISOTP_OK \<and> tx_running base p tx' c' \<and> tx_ongoing tx' = tx_ongoing tx) \<or>
         (r = ISOTP_ERR_TIMEOUT \<and> \<not> tx_ongoing tx' \<and> (\<exists>n. sent c' = base @ on_bus tx' p n))"
    and "tx_txid tx' = tx_txid tx \<and> tx_padding tx' = tx_padding tx"
proof -
  obtain k where st: "tx_static p tx" "tx_channel tx = ch" and k: "tx_progress k p tx"
    using run by (auto simp: tx_running_def)
  have "((r = ISOTP_OK \<and> tx_running base p tx' c' \<and> tx_ongoing tx' = tx_ongoing tx) \<or>
         (r = ISOTP_ERR_TIMEOUT \<and> \<not> tx_ongoing tx' \<and> (\<exists>n. sent c' = base @ on_bus tx' p n))) \<and>
        tx_txid tx' = tx_txid tx \<and> tx_padding tx' = tx_padding tx"
  proof (cases "tx_waiting_enqueue tx")
    case False
    with run eq show ?thesis by (simp add: isotp_tx_service_enqueue_def)
  next
    case True
    with run obtain k where k: "tx_progress k p tx"
      "tx_pending_frame tx = segment (tx_padding tx) p ! (k - 1)"
      "k \<le> length (segment (tx_padding tx) p)" and snt: "sent c = base @ on_bus tx p (k - 1)"
      by (auto simp: tx_running_def)
    obtain ok c1 where send: "channel_send ch (tx_txid tx) (tx_pending_frame tx) c = (ok, c1)"
      by fastforce
    show ?thesis
    proof (cases ok)
      case True
      obtain b c2 where pend: "channel_pending ch c1 = (b, c2)" by fastforce
      have "length (tx_pending_frame tx) = 8"
        using k by (intro segment_frame_length [of _ "tx_padding tx" p]) (auto simp: tx_progress_def)
      then have "sent c2 = sent c @ [(tx_txid tx, tx_pending_frame tx)]"
        using send_true send True pending_quiet pend by simp
      then have "sent c2 = base @ on_bus tx p k"
        using snt k on_bus_next [of k tx p] by (simp add: tx_progress_def)
      with True \<open>tx_waiting_enqueue tx\<close> send pend eq k st show ?thesis
        by (auto simp: isotp_tx_service_enqueue_def isotp_note_frame_sent_def isotp_tx_pending_def
            tx_running_def tx_static_def tx_progress_def on_bus_def)
    next
      case False
      with send have "sent c1 = sent c" using send_false by simp
      with False \<open>tx_waiting_enqueue tx\<close> send eq k st snt run show ?thesis
        by (auto simp: isotp_tx_service_enqueue_def tx_running_def on_bus_def split: if_splits)
    qed
  qed
  then show "(r = ISOTP_OK \<and> tx_running base p tx' c' \<and> tx_ongoing tx' = tx_ongoing tx) \<or>
         (r = ISOTP_ERR_TIMEOUT \<and> \<not> tx_ongoing tx' \<and> (\<exists>n. sent c' = base @ on_bus tx' p n))"
    and "tx_txid tx' = tx_txid tx \<and> tx_padding tx' = tx_padding tx" by blast+
qed

lemma schedule_running:
  assumes st: "tx_static p tx" "tx_channel tx = ch" and k: "tx_progress k p tx"
    "k \<le> length (segment (tx_padding tx) p)" and fr: "fr = segment (tx_padding tx) p ! (k - 1)"
    and snt: "sent c = base @ on_bus tx p (k - 1)"
    and eq: "isotp_tx_schedule_frame tx fr c = (ok, tx', c')"
  shows "ok \<and> tx_txid tx' = tx_txid tx \<and> tx_padding tx' = tx_padding tx \<and>
    ((tx_running base p tx' c' \<and> tx_ongoing tx' = tx_ongoing tx) \<or>
     (\<not> tx_ongoing tx' \<and> (\<exists>n. sent c' = base @ on_bus tx' p n)))"
proof -
  obtain t1 c1 where t1: "isotp_tick ch c = (t1, c1)" by fastforce
  obtain t2 c2 where t2: "isotp_tick ch c1 = (t2, c2)" by fastforce
  let ?tx = "tx\<lparr>tx_pending_frame := fr, tx_waiting_enqueue := True,
                 tx_enqueue_deadline_ms := t1 + ucast (tx_n_as_ms tx)\<rparr>"
  obtain r where serv: "isotp_tx_service_enqueue ?tx t2 c2 = (r, tx', c')" and ok: ok
    using eq st t1 t2 send_bound
    by (auto simp: isotp_tx_schedule_frame_def split: prod.splits)
  have "sent c2 = base @ on_bus tx p (k - 1)"
    using snt tick_quiet [OF t1] tick_quiet [OF t2] by simp
  with st k fr have "tx_running base p ?tx c2"
    by (auto simp: tx_running_def tx_static_def tx_progress_def on_bus_def)
  from service_running [OF this serv] ok show ?thesis by auto
qed

lemma cf_header:
  "unat sn = k mod 16 \<Longrightarrow> push_bit 4 ISOTP_PCI_CF OR (sn AND ISOTP_SEQ_MASK) = 0x20 OR of_nat (k mod 16)"
  using and_0F_of_nat [of sn k] by (simp add: isotp_consts)

lemma sn_succ: "unat (sn :: u8) = k mod 16 \<Longrightarrow> unat ((sn + 1) AND ISOTP_SEQ_MASK) = Suc k mod 16"
proof -
  assume "unat sn = k mod 16"
  then have "unat (sn + 1) = Suc (k mod 16)" by (simp add: unat_word_ariths)
  then show ?thesis by (simp add: isotp_consts unat_and_0F mod_Suc_eq)
qed

lemma send_cf_running:
  assumes run: "tx_running base p tx c" and nw: "\<not> tx_waiting_enqueue tx"
    and more: "tx_offset tx < tx_length tx" and eq: "isotp_send_cf tx now c = (ok, tx', c')"
  shows "ok \<and> tx_txid tx' = tx_txid tx \<and> tx_padding tx' = tx_padding tx \<and>
    ((tx_running base p tx' c' \<and> tx_ongoing tx' = tx_ongoing tx) \<or>
     (\<not> tx_ongoing tx' \<and> (\<exists>n. sent c' = base @ on_bus tx' p n)))"
proof -
  obtain k where st: "tx_static p tx" "tx_channel tx = ch" and k: "tx_progress k p tx"
    and snt: "sent c = base @ on_bus tx p k"
    using run nw by (auto simp: tx_running_def)
  have len: "unat (tx_length tx) = length p" "the (tx_data tx) = p"
    using st by (simp_all add: tx_static_def)
  have o: "unat (tx_offset tx) < length p" using more len by (simp add: word_less_nat_alt)
  from tx_progress_more [OF k o] have l: "7 < length p"
    and off: "unat (tx_offset tx) = 6 + 7 * (k - 1)" and kl: "k < length (segment (tx_padding tx) p)"
    by auto
  have sn: "unat (tx_sn tx) = k mod 16" "0 < k" using k l by (auto simp: tx_progress_def)
  let ?rem = "tx_length tx - tx_offset tx"
  let ?chunk = "if ?rem < ISOTP_CF_PAYLOAD_MAX then ?rem else ISOTP_CF_PAYLOAD_MAX"
  have rem: "unat ?rem = length p - unat (tx_offset tx)"
    using more len by (simp add: unat_sub order_less_imp_le)
  have chunk: "unat ?chunk = min (length p - unat (tx_offset tx)) 7"
    using rem by (auto simp: isotp_consts word_less_nat_alt)
  let ?fr = "pad_to 8 (tx_padding tx) ((push_bit 4 ISOTP_PCI_CF OR (tx_sn tx AND ISOTP_SEQ_MASK)) #
                  take (unat ?chunk) (drop (unat (tx_offset tx)) p))"
  have fr: "?fr = segment (tx_padding tx) p ! k"
    using segment_nth_Suc [OF l sn(2) kl] chunk off
    by (simp add: cf_frame_def cf_header [OF sn(1)] min_def)
  let ?tx = "tx\<lparr>tx_offset := tx_offset tx + ?chunk, tx_sn := (tx_sn tx + 1) AND ISOTP_SEQ_MASK,
                   tx_sent_in_block := tx_sent_in_block tx + 1,
                   tx_has_sent_cf := True, tx_last_cf_ms := now\<rparr>"
  have "length p < 2 ^ 16" using st by (simp add: tx_static_def)
  then have offs: "unat (tx_offset tx + ?chunk) = min (6 + 7 * k) (length p)"
    using chunk off o sn(2) by (simp add: unat_word_ariths) (auto simp: min_def)
  have prog: "tx_progress (Suc k) p ?tx"
    using l offs kl sn_succ [OF sn(1)] by (simp add: tx_progress_def)
  have st': "tx_static p ?tx" "tx_channel ?tx = ch" using st by (simp_all add: tx_static_def)
  have sched: "isotp_tx_schedule_frame ?tx ?fr c = (ok, tx', c')"
    using eq len by (simp add: isotp_send_cf_def Let_def)
  have pos: "Suc k \<le> length (segment (tx_padding ?tx) p)" "?fr = segment (tx_padding ?tx) p ! (Suc k - 1)"
      "sent c = base @ on_bus ?tx p (Suc k - 1)"
    using kl fr snt by (simp_all add: on_bus_def)
  show ?thesis
    using schedule_running [OF st' prog pos sched] by simp
qed

lemma running_safe: "tx_running base p tx c \<Longrightarrow> tx_safe base p tx c"
  by (simp add: tx_safe_def running_prefix)

lemma safe_stopped: "tx_running base p tx c \<Longrightarrow> tx_safe base p (tx\<lparr>tx_ongoing := False\<rparr>) c"
  by (simp add: tx_safe_def running_prefix)

lemma running_update:
  "tx_running base p (tx\<lparr>tx_waiting_fc := a\<rparr>) c = tx_running base p tx c"
  "tx_running base p (tx\<lparr>tx_waiting_after_block := a\<rparr>) c = tx_running base p tx c"
  "tx_running base p (tx\<lparr>tx_deadline_ms := d\<rparr>) c = tx_running base p tx c"
  "tx_running base p (tx\<lparr>tx_frame_pending := a\<rparr>) c = tx_running base p tx c"
  "tx_running base p (tx\<lparr>tx_ongoing := a\<rparr>) c = tx_running base p tx c"
  "tx_running base p (tx\<lparr>tx_block_size := b\<rparr>) c = tx_running base p tx c"
  "tx_running base p (tx\<lparr>tx_stmin_ms := b\<rparr>) c = tx_running base p tx c"
  "tx_running base p (tx\<lparr>tx_sent_in_block := n\<rparr>) c = tx_running base p tx c"
  by (simp_all add: tx_running_def tx_static_def tx_progress_def on_bus_def cong: if_cong)

lemma poll_idle_safe:
  assumes run: "tx_running base p tx c" and nw: "\<not> tx_waiting_enqueue tx" and on: "tx_ongoing tx"
    and eq: "tx_poll_idle tx now c = (r, tx', c')"
  shows "tx_safe base p tx' c' \<and> tx_txid tx' = tx_txid tx \<and> tx_padding tx' = tx_padding tx"
proof (cases "tx_waiting_fc tx \<or> tx_block_full tx \<or> tx_length tx \<le> tx_offset tx \<or>
    (tx_has_sent_cf tx \<and> 0 < tx_stmin_ms tx \<and> now - tx_last_cf_ms tx < ucast (tx_stmin_ms tx))")
  case True
  with eq have "c' = c \<and> (tx' = tx \<or> tx' = tx\<lparr>tx_ongoing := False\<rparr> \<or>
      tx' = tx\<lparr>tx_waiting_fc := True, tx_waiting_after_block := True,
               tx_deadline_ms := now + ucast (tx_n_cr_ms tx)\<rparr>)"
    by (auto simp: tx_poll_idle_def split: if_splits)
  with run on show ?thesis
    by (auto intro: running_safe simp: tx_safe_def running_update running_prefix)
next
  case False
  then have more: "tx_offset tx < tx_length tx" by auto
  obtain ok tx1 c1 where cf: "isotp_send_cf tx now c = (ok, tx1, c1)" by (metis prod_cases3)
  from send_cf_running [OF run nw more cf] False eq cf show ?thesis
    by (auto simp: tx_poll_idle_def tx_safe_def running_prefix)
qed

lemma poll_safe:
  assumes safe: "tx_safe base p tx c" and eq: "IsotpTx_Poll tx c = (r, tx', c')"
  shows "tx_safe base p tx' c' \<and> tx_txid tx' = tx_txid tx \<and> tx_padding tx' = tx_padding tx"
proof (cases "tx_ongoing tx")
  case False
  with safe eq show ?thesis by (simp add: IsotpTx_Poll_def)
next
  case True
  with safe have run: "tx_running base p tx c" by (simp add: tx_safe_def)
  then have chn: "tx_channel tx = ch" by (simp add: tx_running_def)
  obtain now c1 where t: "isotp_tick ch c = (now, c1)" by fastforce
  obtain rs tx1 c2 where serv: "isotp_tx_service_enqueue tx now c1 = (rs, tx1, c2)"
    by (metis prod_cases3)
  have run1: "tx_running base p tx c1"
    using running_quiet [OF run] tick_quiet [OF t] by blast
  note s = service_running [OF run1 serv]
  show ?thesis
  proof (cases "rs = ISOTP_OK \<and> \<not> tx_waiting_enqueue tx1")
    case False
    with s eq True t serv chn show ?thesis
      by (auto simp: IsotpTx_Poll_def tx_safe_def running_prefix split: if_splits)
  next
    case ok: True
    with s True have run2: "tx_running base p tx1 c2" and on: "tx_ongoing tx1" by auto
    then have chn1: "tx_channel tx1 = ch" by (simp add: tx_running_def)
    obtain pb c3 where pend: "channel_pending ch c2 = (pb, c3)" by fastforce
    have run3: "tx_running base p tx1 c3"
      using running_quiet [OF run2] pending_quiet [OF pend] by blast
    have run4: "tx_running base p (tx1\<lparr>tx_frame_pending := False\<rparr>) c3"
      using run3 by (simp add: running_update)
    show ?thesis
    proof (cases "tx_frame_pending tx1")
      case True
      show ?thesis
      proof (cases pb)
        case True
        with \<open>tx_frame_pending tx1\<close> ok eq \<open>tx_ongoing tx\<close> t serv chn chn1 pend run3 on s(2) show ?thesis
          by (auto simp: IsotpTx_Poll_def isotp_tx_pending_def tx_safe_def running_prefix
              split: if_splits)
      next
        case False
        with \<open>tx_frame_pending tx1\<close> ok eq \<open>tx_ongoing tx\<close> t serv chn chn1 pend
        have "tx_poll_idle (tx1\<lparr>tx_frame_pending := False\<rparr>) now c3 = (r, tx', c')"
          by (simp add: IsotpTx_Poll_def isotp_tx_pending_def)
        from poll_idle_safe [OF run4 _ _ this] ok on s(2) show ?thesis by simp
      qed
    next
      case False
      with ok eq \<open>tx_ongoing tx\<close> t serv chn
      have "tx_poll_idle tx1 now c2 = (r, tx', c')"
        by (simp add: IsotpTx_Poll_def)
      from poll_idle_safe [OF run2 _ on this] ok s(2) show ?thesis by simp
    qed
  qed
qed

lemma on_frame_safe:
  assumes safe: "tx_safe base p tx c" and eq: "IsotpTx_OnFrame tx fp c = (r, tx', c')"
  shows "tx_safe base p tx' c' \<and> tx_txid tx' = tx_txid tx \<and> tx_padding tx' = tx_padding tx"
proof (cases "tx_ongoing tx")
  case False
  with safe eq show ?thesis by (auto simp: IsotpTx_OnFrame_def split: option.splits)
next
  case True
  with safe have run: "tx_running base p tx c" by (simp add: tx_safe_def)
  then have chn: "tx_channel tx = ch" by (simp add: tx_running_def)
  obtain t c1 where t: "isotp_tick ch c = (t, c1)" by fastforce
  have run1: "tx_running base p tx c1"
    using running_quiet [OF run] tick_quiet [OF t] by blast
  from eq True t chn have "(c' = c \<and> (tx' = tx \<or> tx' = tx\<lparr>tx_ongoing := False\<rparr>)) \<or>
      (c' = c1 \<and> (\<exists>d. tx' = tx\<lparr>tx_deadline_ms := d\<rparr>)) \<or>
      (c' = c1 \<and> (\<exists>b s d. tx' = tx\<lparr>tx_block_size := b, tx_stmin_ms := s, tx_waiting_fc := False,
         tx_waiting_after_block := False, tx_sent_in_block := 0, tx_deadline_ms := d\<rparr>))"
    by (auto simp: IsotpTx_OnFrame_def Let_def split: option.splits if_splits)
  with run run1 True show ?thesis
    by (elim disjE conjE exE) (auto intro: running_safe simp: tx_safe_def running_update running_prefix)
qed

lemma start_safe:
  assumes chn: "tx_channel tx = ch" and len: "unat len = length p"
    and eq: "IsotpTx_Start tx (Some p) len c = (ISOTP_OK, tx', c')"
  shows "tx_safe (sent c) p tx' c' \<and> tx_txid tx' = tx_txid tx \<and> tx_padding tx' = tx_padding tx"
proof -
  let ?tx = "tx_begin tx p len"
  have ok: "len \<noteq> 0" "\<not> tx_ongoing tx" "len \<le> 0xFFF"
    using eq by (auto simp: IsotpTx_Start_def ISOTP_MAX_TOTAL_LENGTH_def not_less split: if_splits)
  then have ne: "p \<noteq> []" using len by (auto simp: unat_eq_0)
  have l: "length p \<le> 0xFFF" using len ok(3) by (simp add: word_le_nat_alt)
  have chn': "tx_channel ?tx = ch" and same: "tx_txid ?tx = tx_txid tx" "tx_padding ?tx = tx_padding tx"
    "tx_ongoing ?tx" using chn by (simp_all add: tx_begin_def)
  have lenw: "(of_nat (length p) :: u16) = len" by (simp flip: len)
  show ?thesis
  proof (cases "length p \<le> 7")
    case True
    then have small: "len \<le> ISOTP_MAX_SINGLE_FRAME" using len by (simp add: isotp_consts word_le_nat_alt)
    let ?tx1 = "?tx\<lparr>tx_offset := len\<rparr>"
    let ?fr = "pad_to 8 (tx_padding ?tx) ((push_bit 4 ISOTP_PCI_SF OR ucast len) # take (unat len) p)"
    obtain r tx2 c1 where sched: "isotp_tx_schedule_frame ?tx1 ?fr c = (r, tx2, c1)" by (metis prod_cases3)
    have "ucast len = (of_nat (length p) :: u8)" by (simp flip: len)
    then have fr: "?fr = segment (tx_padding ?tx1) p ! (1 - 1)"
      using True len by (simp add: segment_def sf_frame_def isotp_consts)
    have st: "tx_static p ?tx1" "tx_channel ?tx1 = ch" "tx_progress 1 p ?tx1"
      "1 \<le> length (segment (tx_padding ?tx1) p)" "sent c = sent c @ on_bus ?tx1 p (1 - 1)"
      using len l ne chn' True by (simp_all add: tx_static_def tx_begin_def tx_progress_def segment_def on_bus_def)
    note sr = schedule_running [OF st(1-4) fr st(5) sched]
    have "tx' = (if \<not> tx_frame_pending tx2 \<and> \<not> tx_waiting_enqueue tx2 then tx2\<lparr>tx_ongoing := False\<rparr> else tx2)"
      "c' = c1"
      using eq ok small sr sched
      by (simp_all add: IsotpTx_Start_def isotp_send_sf_def Let_def ISOTP_MAX_TOTAL_LENGTH_def not_less
          split: if_splits) auto
    with sr same show ?thesis
      by (auto simp: tx_safe_def running_prefix)
  next
    case False
    then have big: "\<not> len \<le> ISOTP_MAX_SINGLE_FRAME" using len by (simp add: isotp_consts word_le_nat_alt)
    have six: "\<not> tx_length ?tx < ISOTP_FF_PAYLOAD_MAX"
      using False len by (simp add: tx_begin_def isotp_consts word_less_nat_alt)
    obtain t c1 where t: "isotp_tick ch c = (t, c1)" by fastforce
    let ?tx1 = "?tx\<lparr>tx_offset := 6, tx_ff_sent := True, tx_waiting_fc := True,
                   tx_waiting_after_block := False, tx_deadline_ms := t + ucast (tx_n_bs_ms ?tx)\<rparr>"
    let ?fr = "pad_to 8 (tx_padding ?tx)
                 ([push_bit 4 ISOTP_PCI_FF OR (hi8 (tx_total_length ?tx) AND 0x0F),
                   lo8 (tx_total_length ?tx)] @ take 6 p)"
    obtain r tx2 c2 where sched: "isotp_tx_schedule_frame ?tx1 ?fr c1 = (r, tx2, c2)" by (metis prod_cases3)
    have fr: "?fr = segment (tx_padding ?tx1) p ! (1 - 1)"
      using False lenw by (simp add: segment_def ff_frame_def isotp_consts tx_begin_def)
    have st: "tx_static p ?tx1" "tx_channel ?tx1 = ch" "tx_progress 1 p ?tx1"
      "1 \<le> length (segment (tx_padding ?tx1) p)" "sent c1 = sent c @ on_bus ?tx1 p (1 - 1)"
      using len l ne chn' False tick_quiet [OF t]
      by (simp_all add: tx_static_def tx_begin_def tx_progress_def segment_def on_bus_def)
    note sr = schedule_running [OF st(1-4) fr st(5) sched]
    have "isotp_send_ff ?tx c = (r, tx2, c2)"
      using six t chn' sched by (simp add: isotp_send_ff_def Let_def isotp_consts tx_begin_def)
    then have "tx' = tx2" "c' = c2"
      using eq ok big sr
      by (simp_all add: IsotpTx_Start_def Let_def ISOTP_MAX_TOTAL_LENGTH_def not_less split: if_splits)
    with sr same show ?thesis
      by (auto simp: tx_safe_def running_prefix)
  qed
qed

end

subsection \<open>Schedules of a transfer\<close>

text \<open>What can happen between the start and the end of a transfer: the main loop polls, a
  frame for this endpoint is routed to the sender, or time passes and the hardware makes
  progress (\<open>Elapse\<close>, which puts nothing on the bus on this sender's behalf).\<close>

inductive tx_step :: "('c \<Rightarrow> (u32 \<times> frame) list) \<Rightarrow> 'c IsotpTx_t \<times> 'c \<Rightarrow> 'c IsotpTx_t \<times> 'c \<Rightarrow> bool"
  for sent where
  Poll: "IsotpTx_Poll tx c = (r, tx', c') \<Longrightarrow> tx_step sent (tx, c) (tx', c')"
| Receive: "IsotpTx_OnFrame tx fp c = (r, tx', c') \<Longrightarrow> tx_step sent (tx, c) (tx', c')"
| Elapse: "sent c' = sent c \<Longrightarrow> tx_step sent (tx, c) (tx, c')"

inductive_cases tx_stepE: "tx_step sent (tx, c) (tx', c')"

inductive tx_reach :: "('c \<Rightarrow> (u32 \<times> frame) list) \<Rightarrow> 'c IsotpTx_t \<times> 'c \<Rightarrow> 'c IsotpTx_t \<times> 'c \<Rightarrow> bool"
  for sent s where
  reach_start: "tx_reach sent s s"
| reach_step: "tx_reach sent s s' \<Longrightarrow> tx_step sent s' s'' \<Longrightarrow> tx_reach sent s s''"

context isotp_channel
begin

lemma step_safe:
  assumes "tx_safe base p tx c" and "tx_step sent (tx, c) (tx', c')"
  shows "tx_safe base p tx' c' \<and> tx_txid tx' = tx_txid tx \<and> tx_padding tx' = tx_padding tx"
  by (rule tx_stepE [OF assms(2)])
    (use poll_safe [OF assms(1)] on_frame_safe [OF assms(1)] assms(1) running_quiet
      in \<open>auto simp: tx_safe_def\<close>)

lemma reach_safe:
  assumes "tx_reach sent (tx, c) s" and "tx_safe base p tx c"
  shows "tx_safe base p (fst s) (snd s) \<and> tx_txid (fst s) = tx_txid tx \<and>
    tx_padding (fst s) = tx_padding tx"
  using assms(1)
proof (induction rule: tx_reach.induct)
  case reach_start
  then show ?case using assms(2) by simp
next
  case (reach_step s' s'')
  then show ?case
    using step_safe [of base p "fst s'" "snd s'" "fst s''" "snd s''"] by auto
qed

text \<open>The main safety result of the sender.\<close>

lemma transfer_prefix:
  assumes "tx_channel tx = ch" "unat len = length p"
    and "IsotpTx_Start tx (Some p) len c = (ISOTP_OK, tx1, c1)"
    and "tx_reach sent (tx1, c1) (tx2, c2)"
  shows "\<exists>n. sent c2 = sent c @ map (Pair (tx_txid tx)) (take n (segment (tx_padding tx) p))"
proof -
  note st = start_safe [OF assms(1-3)]
  note sf = reach_safe [OF assms(4), of "sent c" p] st
  from sf have "\<exists>n. sent c2 = sent c @ on_bus tx2 p n" "tx_txid tx2 = tx_txid tx"
      "tx_padding tx2 = tx_padding tx"
    by (auto simp: tx_safe_def running_prefix split: if_splits)
  then show ?thesis by (simp add: on_bus_def)
qed

end

subsection \<open>Completion\<close>

text \<open>On a calm channel a freshly scheduled frame cannot hit its enqueue deadline at once, so a
  poll that reports success and ends the transfer has sent everything.\<close>

context calm_channel
begin

lemma schedule_calm:
  assumes "tx_channel tx = ch" and "2 \<le> tx_n_as_ms tx"
    and "isotp_tx_schedule_frame tx fr c = (ok, tx', c')"
  shows "tx_ongoing tx' = tx_ongoing tx"
proof -
  obtain t1 c1 where t1: "isotp_tick ch c = (t1, c1)" by fastforce
  obtain t2 c2 where t2: "isotp_tick ch c1 = (t2, c2)" by fastforce
  have "\<not> tick_reached t2 (t1 + ucast (tx_n_as_ms tx))"
    using not_reached tick_steady [OF t1 t2] assms(2) by blast
  with assms t1 t2 send_bound show ?thesis
    by (auto simp: isotp_tx_schedule_frame_def isotp_tx_service_enqueue_def isotp_note_frame_sent_def
        Let_def split: prod.splits if_splits)
qed

lemma poll_idle_done:
  assumes "tx_channel tx = ch" and "2 \<le> tx_n_as_ms tx" and "tx_ongoing tx"
    and eq: "tx_poll_idle tx now c = (ISOTP_OK, tx', c')" and "\<not> tx_ongoing tx'"
  shows "tx_length tx \<le> tx_offset tx \<and> c' = c"
proof (rule ccontr)
  assume not: "\<not> ?thesis"
  obtain ok tx1 c1 where cf: "isotp_send_cf tx now c = (ok, tx1, c1)" by (metis prod_cases3)
  have "tx_ongoing tx1 = tx_ongoing tx"
    using cf schedule_calm [of "tx\<lparr>tx_offset := a, tx_sn := b, tx_sent_in_block := d,
        tx_has_sent_cf := True, tx_last_cf_ms := now\<rparr>" for a b d] assms(1,2)
    by (fastforce simp: isotp_send_cf_def Let_def)
  with not eq assms(3,5) cf show False
    by (auto simp: tx_poll_idle_def split: if_splits)
qed

lemma poll_done:
  assumes run: "tx_safe base p tx c" and "2 \<le> tx_n_as_ms tx" and on: "tx_ongoing tx"
    and eq: "IsotpTx_Poll tx c = (ISOTP_OK, tx', c')" and off: "\<not> tx_ongoing tx'"
  shows "sent c' = base @ map (Pair (tx_txid tx)) (segment (tx_padding tx) p)"
proof -
  from run on have run: "tx_running base p tx c" by (simp add: tx_safe_def)
  then have chn: "tx_channel tx = ch" by (simp add: tx_running_def)
  obtain now c1 where t: "isotp_tick ch c = (now, c1)" by fastforce
  obtain rs tx1 c2 where serv: "isotp_tx_service_enqueue tx now c1 = (rs, tx1, c2)"
    by (metis prod_cases3)
  have run1: "tx_running base p tx c1"
    using running_quiet [OF run] tick_quiet [OF t] by blast
  note s = service_running [OF run1 serv]
  obtain pb c3 where pend: "channel_pending ch c2 = (pb, c3)" by fastforce
  have n_as: "tx_n_as_ms tx1 = tx_n_as_ms tx"
    using serv by (auto simp: isotp_tx_service_enqueue_def isotp_note_frame_sent_def
        split: prod.splits if_splits)
  have nt: "rs = ISOTP_OK" "\<not> tx_waiting_enqueue tx1" "tx_ongoing tx1" "tx_running base p tx1 c2"
    using eq on off t chn serv s by (auto simp: IsotpTx_Poll_def split: if_splits)
  then have chn1: "tx_channel tx1 = ch" by (simp add: tx_running_def)
  have idle: "tx_length tx1 \<le> tx_offset tx1 \<and> sent c' = sent c2"
  proof (cases "tx_frame_pending tx1")
    case True
    with eq on off t chn chn1 serv nt pend
    have "tx_poll_idle (tx1\<lparr>tx_frame_pending := False\<rparr>) now c3 = (ISOTP_OK, tx', c')"
      by (auto simp: IsotpTx_Poll_def isotp_tx_pending_def split: if_splits)
    from poll_idle_done [OF _ _ _ this off] chn1 assms(2) n_as nt pending_quiet [OF pend]
    show ?thesis by simp
  next
    case False
    with eq on off t chn serv nt have "tx_poll_idle tx1 now c2 = (ISOTP_OK, tx', c')"
      by (auto simp: IsotpTx_Poll_def split: if_splits)
    from poll_idle_done [OF _ _ _ this off] chn1 assms(2) n_as nt show ?thesis by simp
  qed
  from nt obtain k where k: "tx_progress k p tx1" "sent c2 = base @ on_bus tx1 p k" "tx_static p tx1"
    by (auto simp: tx_running_def)
  with idle have "length p \<le> unat (tx_offset tx1)"
    by (simp add: tx_static_def word_le_nat_alt)
  from tx_progress_complete [OF k(1) this] k(2) idle s(2) show ?thesis
    by (simp add: on_bus_def)
qed

lemma reach_n_as: "tx_reach sent (tx, c) s \<Longrightarrow> tx_n_as_ms (fst s) = tx_n_as_ms tx"
proof (induction rule: tx_reach.induct)
  case (reach_step s' s'')
  have cf: "isotp_send_cf t n d = (ok, t', d') \<Longrightarrow> tx_n_as_ms t' = tx_n_as_ms t" for t :: "'a IsotpTx_t" and n d ok t' d'
    by (auto simp: isotp_send_cf_def isotp_tx_schedule_frame_def isotp_tx_service_enqueue_def
        isotp_note_frame_sent_def Let_def split: prod.splits if_splits)
  have idle: "tx_poll_idle t n d = (r, t', d') \<Longrightarrow> tx_n_as_ms t' = tx_n_as_ms t" for t :: "'a IsotpTx_t" and n d r t' d'
    using cf by (fastforce simp: tx_poll_idle_def split: prod.splits if_splits)
  have serv: "isotp_tx_service_enqueue t n d = (r, t', d') \<Longrightarrow> tx_n_as_ms t' = tx_n_as_ms t" for t :: "'a IsotpTx_t" and n d r t' d'
    by (auto simp: isotp_tx_service_enqueue_def isotp_note_frame_sent_def split: prod.splits if_splits)
  from reach_step.hyps(2) have "tx_n_as_ms (fst s'') = tx_n_as_ms (fst s')"
  proof (cases rule: tx_step.cases)
    case (Poll t d r t' d')
    then show ?thesis
      by (auto simp: IsotpTx_Poll_def isotp_tx_pending_def dest!: serv idle split: prod.splits if_splits)
  next
    case (Receive t fp d r t' d')
    then show ?thesis
      by (auto simp: IsotpTx_OnFrame_def Let_def split: option.splits prod.splits if_splits)
  qed simp
  with reach_step.IH show ?case by simp
qed simp

end

lemma start_n_as: "IsotpTx_Start tx p len c = (r, tx', c') \<Longrightarrow> tx_n_as_ms tx' = tx_n_as_ms tx"
  by (auto simp: IsotpTx_Start_def tx_begin_def isotp_send_sf_def isotp_send_ff_def isotp_tx_schedule_frame_def
      isotp_tx_service_enqueue_def isotp_note_frame_sent_def Let_def split: prod.splits if_splits option.splits)

lemma start_lengths:
  "IsotpTx_Start tx p len c = (ISOTP_OK, tx', c') \<Longrightarrow> 0 < len \<and> len \<le> ISOTP_MAX_TOTAL_LENGTH"
  by (auto simp: IsotpTx_Start_def word_neq_0_conv not_less split: if_splits option.splits)

end
