(* ===== verification/IsotpRx.thy ===== *)
theory IsotpRx
  imports IsotpCore
begin

section \<open>The ISO-TP receiver\<close>

text \<open>
  The \<open>IsotpRx_t\<close> state machine of \<open>firmware/common/isotp.c\<close>.  The reassembly buffer is
  the list the pointer refers to (\<open>None\<close> for a null pointer); every store goes through
  \<open>buf_write\<close>, which grows the list when it runs past the end, so the invariant
  \<open>length b = buffer_size\<close> says that no store leaves the buffer.
\<close>

subsection \<open>State\<close>

record 'c IsotpRx_t =
  rx_channel :: "'c IsotpChannel_t"
  rx_txid :: u32
  rx_rxid :: u32
  rx_n_ar_ms :: u16
  rx_n_cr_ms :: u16
  rx_fc_frame :: frame
  rx_padding :: u8
  rx_block_size :: u8
  rx_stmin_ms :: u8
  rx_buffer :: "u8 list option"
  rx_buffer_size :: u16
  rx_declared_length :: u16
  rx_received :: u16
  rx_expected_sn :: u8
  rx_cf_in_block :: u8
  rx_deadline_ms :: u32
  rx_fc_deadline_ms :: u32
  rx_in_progress :: bool
  rx_timed_out :: bool
  rx_fc_waiting_enqueue :: bool
  rx_fc_pending :: bool
  rx_message_ready :: bool
  rx_message_length :: u16

text \<open>The module's two static variables.\<close>

record isotp_globals =
  g_rx_fallback_buffer :: "u8 list"
  g_rx_fallback_in_use :: bool

subsection \<open>Flow control\<close>

definition isotp_rx_service_fc_enqueue ::
  "'c IsotpRx_t \<Rightarrow> u32 \<Rightarrow> 'c \<Rightarrow> IsotpResult_t \<times> 'c IsotpRx_t \<times> 'c" where
  "isotp_rx_service_fc_enqueue rx now c =
     (if \<not> rx_fc_waiting_enqueue rx then (ISOTP_OK, rx, c)
      else let (ok, c1) = channel_send (rx_channel rx) (rx_txid rx) (rx_fc_frame rx) c in
        if ok then
          let (p, c2) = channel_pending (rx_channel rx) c1;
              rx1 = rx\<lparr>rx_fc_waiting_enqueue := False, rx_fc_pending := p,
                       rx_fc_deadline_ms := now + ucast (rx_n_ar_ms rx)\<rparr>;
              rx2 = (if \<not> p then rx1\<lparr>rx_deadline_ms := now + ucast (rx_n_cr_ms rx1)\<rparr> else rx1)
          in (ISOTP_OK, rx2, c2)
        else if tick_reached now (rx_fc_deadline_ms rx) then
          (ISOTP_ERR_TIMEOUT,
           rx\<lparr>rx_fc_waiting_enqueue := False, rx_in_progress := False, rx_timed_out := True\<rparr>, c1)
        else (ISOTP_OK, rx, c1))"

definition isotp_send_fc :: "'c IsotpRx_t \<Rightarrow> u8 \<Rightarrow> 'c \<Rightarrow> bool \<times> 'c IsotpRx_t \<times> 'c" where
  "isotp_send_fc rx status c =
     (let fr = pad_to 8 (rx_padding rx)
                 [push_bit 4 ISOTP_PCI_FC OR (status AND 0x0F), rx_block_size rx, rx_stmin_ms rx]
      in if ch_send (rx_channel rx) = None then (False, rx, c)
         else let (t1, c1) = isotp_tick (rx_channel rx) c;
                  rx1 = rx\<lparr>rx_fc_frame := fr, rx_fc_waiting_enqueue := True,
                           rx_fc_deadline_ms := t1 + ucast (rx_n_ar_ms rx)\<rparr>;
                  (t2, c2) = isotp_tick (rx_channel rx1) c1;
                  (r, rx2, c3) = isotp_rx_service_fc_enqueue rx1 t2 c2
              in (True, rx2, c3))"

subsection \<open>Operations\<close>

definition IsotpRx_Init ::
  "'c IsotpRx_t \<Rightarrow> 'c IsotpChannel_t option \<Rightarrow> IsotpConfig_t \<Rightarrow> isotp_globals \<Rightarrow>
    'c IsotpRx_t \<times> isotp_globals" where
  "IsotpRx_Init rx ch cfg g =
     (let rx1 = rx\<lparr>rx_channel := (case ch of Some k \<Rightarrow> k | None \<Rightarrow> null_channel),
            rx_txid := cfg_txid cfg, rx_rxid := cfg_rxid cfg,
            rx_n_ar_ms := (if cfg_n_ar_ms cfg \<noteq> 0 then cfg_n_ar_ms cfg else ISOTP_DEFAULT_N_AR_MS),
            rx_n_cr_ms := (if cfg_n_cr_ms cfg \<noteq> 0 then cfg_n_cr_ms cfg else ISOTP_DEFAULT_N_CR_MS),
            rx_padding := (if cfg_padding cfg \<noteq> 0 then cfg_padding cfg else ISOTP_DEFAULT_PADDING),
            rx_block_size := cfg_block_size cfg, rx_stmin_ms := cfg_stmin_ms cfg\<rparr>;
          (rx2, g1) =
            (if cfg_rx_buffer cfg \<noteq> None \<and> 0 < cfg_rx_buffer_size cfg then
               (rx1\<lparr>rx_buffer := cfg_rx_buffer cfg, rx_buffer_size := cfg_rx_buffer_size cfg\<rparr>, g)
             else if \<not> g_rx_fallback_in_use g then
               (rx1\<lparr>rx_buffer := Some (g_rx_fallback_buffer g), rx_buffer_size := ISOTP_MAX_TOTAL_LENGTH\<rparr>,
                g\<lparr>g_rx_fallback_in_use := True\<rparr>)
             else (rx1\<lparr>rx_buffer := None, rx_buffer_size := 0\<rparr>, g))
      in (rx2\<lparr>rx_declared_length := 0, rx_received := 0, rx_expected_sn := 1, rx_cf_in_block := 0,
             rx_deadline_ms := 0, rx_fc_deadline_ms := 0, rx_in_progress := False,
             rx_timed_out := False, rx_fc_waiting_enqueue := False, rx_fc_pending := False,
             rx_message_ready := False, rx_message_length := 0\<rparr>, g1))"

definition IsotpRx_Reset :: "'c IsotpRx_t \<Rightarrow> 'c IsotpRx_t" where
  "IsotpRx_Reset rx =
     rx\<lparr>rx_in_progress := False, rx_timed_out := False, rx_fc_waiting_enqueue := False,
        rx_fc_pending := False, rx_message_ready := False, rx_message_length := 0,
        rx_received := 0, rx_declared_length := 0\<rparr>"

text \<open>The three branches of \<open>IsotpRx_OnFrame\<close>, one per PCI type.\<close>

definition rx_on_single_frame ::
  "'c IsotpRx_t \<Rightarrow> frame \<Rightarrow> 'c \<Rightarrow> IsotpResult_t \<times> 'c IsotpRx_t \<times> 'c" where
  "rx_on_single_frame rx data c =
     (let sf_len = data ! 0 AND 0x0F in
      if sf_len = 0 then (ISOTP_ERR_INVALID, rx, c)
      else if rx_in_progress rx then (ISOTP_ERR_INVALID, rx, c)
      else if rx_message_ready rx then (ISOTP_ERR_BUSY, rx, c)
      else if ISOTP_SF_PAYLOAD_MAX < ucast sf_len then (ISOTP_ERR_INVALID, rx, c)
      else case rx_buffer rx of None \<Rightarrow> (ISOTP_ERR_OVERFLOW, rx, c)
      | Some b \<Rightarrow>
        (ISOTP_OK,
         rx\<lparr>rx_buffer := Some (buf_write b 0 (take (unat sf_len) (drop 1 data))),
            rx_message_length := ucast sf_len, rx_message_ready := True\<rparr>, c))"

definition rx_on_first_frame ::
  "'c IsotpRx_t \<Rightarrow> frame \<Rightarrow> 'c \<Rightarrow> IsotpResult_t \<times> 'c IsotpRx_t \<times> 'c" where
  "rx_on_first_frame rx data c =
     (if rx_in_progress rx then (ISOTP_ERR_INVALID, IsotpRx_Reset rx, c)
      else if rx_message_ready rx then (ISOTP_ERR_BUSY, rx, c)
      else let declared = be16 (data ! 0 AND 0x0F) (data ! 1) in
      if declared \<le> ISOTP_MAX_SINGLE_FRAME \<or> ISOTP_MAX_TOTAL_LENGTH < declared then
        (if ISOTP_MAX_TOTAL_LENGTH < declared then ISOTP_ERR_TOO_LONG else ISOTP_ERR_INVALID, rx, c)
      else case rx_buffer rx of
        None \<Rightarrow> let (ok, rx1, c1) = isotp_send_fc rx ISOTP_FC_OVERFLOW c in (ISOTP_ERR_OVERFLOW, rx1, c1)
      | Some b \<Rightarrow>
        if rx_buffer_size rx < declared then
          let (ok, rx1, c1) = isotp_send_fc rx ISOTP_FC_OVERFLOW c in
          (ISOTP_ERR_OVERFLOW, rx1\<lparr>rx_in_progress := False\<rparr>, c1)
        else
          let chunk = (if declared < ISOTP_FF_PAYLOAD_MAX then declared else ISOTP_FF_PAYLOAD_MAX);
              rx1 = rx\<lparr>rx_declared_length := declared,
                       rx_buffer := Some (buf_write b 0 (take (unat chunk) (drop 2 data))),
                       rx_received := chunk, rx_expected_sn := 1, rx_cf_in_block := 0,
                       rx_in_progress := True\<rparr>;
              (ok, rx2, c1) = isotp_send_fc rx1 ISOTP_FC_CTS c
          in if \<not> ok then (ISOTP_ERR_STATE, rx2\<lparr>rx_in_progress := False\<rparr>, c1)
             else if rx_declared_length rx2 \<le> rx_received rx2 then
               (ISOTP_OK, rx2\<lparr>rx_in_progress := False, rx_message_length := rx_declared_length rx2,
                              rx_message_ready := True\<rparr>, c1)
             else (ISOTP_OK, rx2, c1))"

text \<open>A consecutive frame: the copy into the buffer, then completion, a block's flow control
  or the wait for the next one.\<close>

definition rx_store_cf :: "'c IsotpRx_t \<Rightarrow> frame \<Rightarrow> 'c IsotpRx_t" where
  "rx_store_cf rx data =
     (let left = rx_declared_length rx - rx_received rx;
          chunk = (if left < ISOTP_CF_PAYLOAD_MAX then left else ISOTP_CF_PAYLOAD_MAX)
      in rx\<lparr>rx_buffer := map_option (\<lambda>b. buf_write b (unat (rx_received rx))
                                 (take (unat chunk) (drop 1 data))) (rx_buffer rx),
            rx_received := rx_received rx + chunk,
            rx_expected_sn := (rx_expected_sn rx + 1) AND ISOTP_SEQ_MASK,
            rx_cf_in_block := rx_cf_in_block rx + 1\<rparr>)"

definition rx_after_cf :: "'c IsotpRx_t \<Rightarrow> 'c \<Rightarrow> IsotpResult_t \<times> 'c IsotpRx_t \<times> 'c" where
  "rx_after_cf rx c =
     (if rx_declared_length rx \<le> rx_received rx then
        (ISOTP_OK, rx\<lparr>rx_in_progress := False, rx_message_length := rx_declared_length rx,
                       rx_message_ready := True\<rparr>, c)
      else if 0 < rx_block_size rx \<and> rx_block_size rx \<le> rx_cf_in_block rx then
        let (ok, rx1, c1) = isotp_send_fc (rx\<lparr>rx_cf_in_block := 0\<rparr>) ISOTP_FC_CTS c in
        if \<not> ok then (ISOTP_ERR_STATE, rx1\<lparr>rx_in_progress := False\<rparr>, c1)
        else (ISOTP_OK, rx1, c1)
      else (ISOTP_OK, rx, c))"

definition rx_on_consecutive_frame ::
  "'c IsotpRx_t \<Rightarrow> frame \<Rightarrow> 'c \<Rightarrow> IsotpResult_t \<times> 'c IsotpRx_t \<times> 'c" where
  "rx_on_consecutive_frame rx data c =
     (if \<not> rx_in_progress rx then (ISOTP_ERR_INVALID, rx, c)
      else let sn = data ! 0 AND 0x0F in
      if sn \<noteq> rx_expected_sn rx then (ISOTP_ERR_INVALID, IsotpRx_Reset rx, c)
      else let rx1 = rx_store_cf rx data;
               (t, c1) = isotp_tick (rx_channel rx1) c
           in rx_after_cf (rx1\<lparr>rx_deadline_ms := t + ucast (rx_n_cr_ms rx1)\<rparr>) c1)"

definition IsotpRx_OnFrame ::
  "'c IsotpRx_t \<Rightarrow> frame option \<Rightarrow> 'c \<Rightarrow> IsotpResult_t \<times> 'c IsotpRx_t \<times> 'c" where
  "IsotpRx_OnFrame rx fp c =
     (case fp of None \<Rightarrow> (ISOTP_ERR_INVALID, rx, c) | Some data \<Rightarrow>
      let pci = drop_bit 4 (data ! 0) in
      if pci = ISOTP_PCI_SF then rx_on_single_frame rx data c
      else if pci = ISOTP_PCI_FF then rx_on_first_frame rx data c
      else if pci = ISOTP_PCI_CF then rx_on_consecutive_frame rx data c
      else (ISOTP_ERR_INVALID, rx, c))"

definition IsotpRx_Poll :: "'c IsotpRx_t \<Rightarrow> 'c \<Rightarrow> IsotpResult_t \<times> 'c IsotpRx_t \<times> 'c" where
  "IsotpRx_Poll rx c =
     (if \<not> rx_in_progress rx \<and> \<not> rx_fc_waiting_enqueue rx \<and> \<not> rx_fc_pending rx
      then (ISOTP_OK, rx, c)
      else let (now, c1) = isotp_tick (rx_channel rx) c;
               (r, rx1, c2) = isotp_rx_service_fc_enqueue rx now c1 in
      if r = ISOTP_ERR_TIMEOUT then (ISOTP_ERR_TIMEOUT, rx1, c2)
      else if rx_fc_waiting_enqueue rx1 then (ISOTP_OK, rx1, c2)
      else if \<not> rx_in_progress rx1 then (ISOTP_OK, rx1, c2)
      else if rx_fc_pending rx1 then
        let (p, c3) = channel_pending (rx_channel rx1) c2 in
        if p then
          (if tick_reached now (rx_fc_deadline_ms rx1)
           then (ISOTP_ERR_TIMEOUT,
                 rx1\<lparr>rx_in_progress := False, rx_fc_pending := False, rx_timed_out := True\<rparr>, c3)
           else (ISOTP_OK, rx1, c3))
        else (ISOTP_OK,
              rx1\<lparr>rx_fc_pending := False, rx_deadline_ms := now + ucast (rx_n_cr_ms rx1)\<rparr>, c3)
      else if tick_reached now (rx_deadline_ms rx1) then
        (ISOTP_ERR_TIMEOUT, rx1\<lparr>rx_in_progress := False, rx_timed_out := True\<rparr>, c2)
      else (ISOTP_OK, rx1, c2))"

definition IsotpRx_MessageReady :: "'c IsotpRx_t option \<Rightarrow> bool" where
  "IsotpRx_MessageReady p = (case p of Some rx \<Rightarrow> rx_message_ready rx | None \<Rightarrow> False)"

text \<open>\<open>out\<close> is the destination buffer, \<open>None\<close> for a null \<open>out\<close> or \<open>out_len\<close>; the result
  carries the bytes copied out, whose number is \<open>*out_len\<close>.\<close>

definition IsotpRx_Read ::
  "'c IsotpRx_t \<Rightarrow> u16 option \<Rightarrow> IsotpResult_t \<times> u8 list \<times> 'c IsotpRx_t" where
  "IsotpRx_Read rx out_capacity =
     (case out_capacity of None \<Rightarrow> (ISOTP_ERR_INVALID, [], rx) | Some cap \<Rightarrow>
      if \<not> rx_message_ready rx then (ISOTP_ERR_STATE, [], rx)
      else let n = rx_message_length rx in
      if cap < n then (ISOTP_ERR_TOO_LONG, [], rx)
      else (ISOTP_OK, take (unat n) (the (rx_buffer rx)),
            rx\<lparr>rx_message_ready := False, rx_message_length := 0\<rparr>))"

definition IsotpRx_IsBusy :: "'c IsotpRx_t option \<Rightarrow> bool" where
  "IsotpRx_IsBusy p = (case p of Some rx \<Rightarrow> rx_in_progress rx | None \<Rightarrow> False)"

subsection \<open>No store leaves the buffer\<close>

definition rx_ok :: "'c IsotpRx_t \<Rightarrow> bool" where
  "rx_ok rx \<longleftrightarrow>
     (case rx_buffer rx of None \<Rightarrow> \<not> rx_in_progress rx \<and> \<not> rx_message_ready rx
      | Some b \<Rightarrow> length b = unat (rx_buffer_size rx) \<and> 7 \<le> length b) \<and>
     (rx_in_progress rx \<longrightarrow> \<not> rx_message_ready rx \<and>
        rx_received rx < rx_declared_length rx \<and> rx_declared_length rx \<le> rx_buffer_size rx) \<and>
     (rx_message_ready rx \<longrightarrow> rx_message_length rx \<le> rx_buffer_size rx)"

text \<open>The fields a reassembly depends on.\<close>

definition rx_core where
  "rx_core rx = (rx_channel rx, rx_buffer rx, rx_buffer_size rx, rx_declared_length rx,
     rx_received rx, rx_expected_sn rx, rx_message_ready rx, rx_message_length rx, rx_n_ar_ms rx)"

lemma rx_ok_core:
  "rx_core rx' = rx_core rx \<Longrightarrow> rx_in_progress rx' \<longrightarrow> rx_in_progress rx \<Longrightarrow> rx_ok rx \<Longrightarrow> rx_ok rx'"
  by (auto simp: rx_core_def rx_ok_def split: option.splits)

lemma service_core:
  "isotp_rx_service_fc_enqueue rx now c = (r, rx', c') \<Longrightarrow>
    rx_core rx' = rx_core rx \<and> (rx_in_progress rx' \<longrightarrow> rx_in_progress rx) \<and>
    (r \<noteq> ISOTP_ERR_TIMEOUT \<longrightarrow> rx_in_progress rx' = rx_in_progress rx)"
  by (auto simp: isotp_rx_service_fc_enqueue_def rx_core_def Let_def split: prod.splits if_splits)

lemma send_fc_core:
  "isotp_send_fc rx st c = (ok, rx', c') \<Longrightarrow>
    rx_core rx' = rx_core rx \<and> (rx_in_progress rx' \<longrightarrow> rx_in_progress rx)"
  by (auto simp: isotp_send_fc_def Let_def dest!: service_core split: prod.splits if_splits)
    (simp_all add: rx_core_def)

lemma poll_core:
  "IsotpRx_Poll rx c = (r, rx', c') \<Longrightarrow>
    rx_core rx' = rx_core rx \<and> (rx_in_progress rx' \<longrightarrow> rx_in_progress rx) \<and>
    (r \<noteq> ISOTP_ERR_TIMEOUT \<longrightarrow> rx_in_progress rx' = rx_in_progress rx)"
  by (auto simp: IsotpRx_Poll_def Let_def dest!: service_core split: prod.splits if_splits)
    (simp_all add: rx_core_def)

lemma rx_ok_reset: "rx_ok rx \<Longrightarrow> rx_ok (IsotpRx_Reset rx)"
  by (auto simp: rx_ok_def IsotpRx_Reset_def split: option.splits)

lemma sf_len_le: "\<not> ISOTP_SF_PAYLOAD_MAX < ucast (w AND 0x0F) \<Longrightarrow> unat (w AND 0x0F) \<le> 7" for w :: u8
  by (simp add: isotp_consts word_less_nat_alt)

lemma rx_ok_single: "rx_ok rx \<Longrightarrow> rx_on_single_frame rx data c = (r, rx', c') \<Longrightarrow> rx_ok rx'"
  using sf_len_le [of "data ! 0"]
  by (auto simp: rx_on_single_frame_def rx_ok_def Let_def word_le_nat_alt split: option.splits if_splits)

lemma rx_ok_first:
  assumes ok: "rx_ok rx" and eq: "rx_on_first_frame rx data c = (r, rx', c')"
  shows "rx_ok rx'"
proof -
  let ?d = "be16 (data ! 0 AND 0x0F) (data ! 1)"
  let ?chunk = "if ?d < ISOTP_FF_PAYLOAD_MAX then ?d else ISOTP_FF_PAYLOAD_MAX"
  let ?rx1 = "\<lambda>b. rx\<lparr>rx_declared_length := ?d,
                     rx_buffer := Some (buf_write b 0 (take (unat ?chunk) (drop 2 data))),
                     rx_received := ?chunk, rx_expected_sn := 1, rx_cf_in_block := 0,
                     rx_in_progress := True\<rparr>"
  show ?thesis
  proof (cases "rx_in_progress rx \<or> rx_message_ready rx \<or> ?d \<le> ISOTP_MAX_SINGLE_FRAME \<or>
      ISOTP_MAX_TOTAL_LENGTH < ?d")
    case True
    with eq ok show ?thesis by (auto simp: rx_on_first_frame_def Let_def rx_ok_reset split: if_splits)
  next
    case False
    then have chunk: "?chunk = 6" "6 < ?d" "\<not> rx_in_progress rx" "\<not> rx_message_ready rx"
      by (auto simp: isotp_consts word_le_nat_alt word_less_nat_alt)
    show ?thesis
    proof (cases "rx_buffer rx")
      case None
      with eq False show ?thesis
        using ok by (auto simp: rx_on_first_frame_def Let_def intro: rx_ok_core dest!: send_fc_core
            split: prod.splits)
    next
      case (Some b)
      show ?thesis
      proof (cases "rx_buffer_size rx < ?d")
        case True
        then obtain ok1 rx1 where "isotp_send_fc rx ISOTP_FC_OVERFLOW c = (ok1, rx1, c')"
          "rx' = rx1\<lparr>rx_in_progress := False\<rparr>"
          using eq False Some by (auto simp: rx_on_first_frame_def Let_def split: prod.splits)
        with ok show ?thesis
          by (auto dest!: send_fc_core intro: rx_ok_core simp: rx_core_def)
      next
        case fits: False
        then have one: "rx_ok (?rx1 b)"
          using ok chunk Some by (auto simp: rx_ok_def)
        obtain ok1 rx2 c1 where fc: "isotp_send_fc (?rx1 b) ISOTP_FC_CTS c = (ok1, rx2, c1)"
          by (metis prod_cases3)
        note core = send_fc_core [OF fc]
        then have two: "rx_ok rx2" using one rx_ok_core by blast
        have "rx_declared_length rx2 = ?d \<and> rx_received rx2 = 6"
          using core chunk by (simp add: rx_core_def)
        then have "rx' = rx2 \<or> rx' = rx2\<lparr>rx_in_progress := False\<rparr>"
          using eq False Some fits fc chunk(2)
          by (auto simp: rx_on_first_frame_def Let_def split: if_splits)
        with two show ?thesis
          by (auto intro: rx_ok_core simp: rx_core_def)
      qed
    qed
  qed
qed

lemma cf_chunk:
  assumes "r < d"
  shows "unat (if d - r < ISOTP_CF_PAYLOAD_MAX then d - r else ISOTP_CF_PAYLOAD_MAX :: u16) =
      min (unat d - unat r) 7"
    and "unat (r + (if d - r < ISOTP_CF_PAYLOAD_MAX then d - r else ISOTP_CF_PAYLOAD_MAX)) =
      min (unat r + 7) (unat d)"
proof -
  have s: "unat (d - r) = unat d - unat r" and l: "unat r < unat d"
    using assms by (simp_all add: unat_sub order_less_imp_le word_less_nat_alt)
  show c: "unat (if d - r < ISOTP_CF_PAYLOAD_MAX then d - r else ISOTP_CF_PAYLOAD_MAX :: u16) =
      min (unat d - unat r) 7"
    using s by (auto simp: isotp_consts word_less_nat_alt)
  have "unat r + min (unat d - unat r) 7 < 65536"
    using l unat_u16_le [of d] min.cobounded1 [of "unat d - unat r" 7] by linarith
  then show "unat (r + (if d - r < ISOTP_CF_PAYLOAD_MAX then d - r else ISOTP_CF_PAYLOAD_MAX)) =
      min (unat r + 7) (unat d)"
    using c l by (simp add: unat_word_ariths)
qed

text \<open>What a stored consecutive frame leaves behind.\<close>

lemma store_cf:
  assumes "rx_received rx < rx_declared_length rx" and "rx_buffer rx = Some b"
    and "unat (rx_declared_length rx) \<le> length b" and "length data = 8"
  defines "n \<equiv> min (unat (rx_declared_length rx) - unat (rx_received rx)) 7"
  shows "rx_buffer (rx_store_cf rx data) =
      Some (buf_write b (unat (rx_received rx)) (take n (drop 1 data)))"
    and "unat (rx_received (rx_store_cf rx data)) = unat (rx_received rx) + n"
    and "length (take n (drop 1 data)) = n"
    and "unat (rx_received rx) + n \<le> length b"
proof -
  note ch = cf_chunk [OF assms(1)]
  have l: "unat (rx_received rx) < unat (rx_declared_length rx)"
    using assms(1) by (simp add: word_less_nat_alt)
  show "rx_buffer (rx_store_cf rx data) =
      Some (buf_write b (unat (rx_received rx)) (take n (drop 1 data)))"
    using assms(2) ch(1) by (simp add: rx_store_cf_def Let_def n_def)
  show "unat (rx_received (rx_store_cf rx data)) = unat (rx_received rx) + n"
  proof -
    have "min (unat (rx_received rx) + 7) (unat (rx_declared_length rx)) = unat (rx_received rx) + n"
      unfolding n_def using l by arith
    then show ?thesis using ch(2) by (simp add: rx_store_cf_def Let_def)
  qed
  show "length (take n (drop 1 data)) = n" using assms(4) by (simp add: n_def)
  show "unat (rx_received rx) + n \<le> length b" using l assms(3) by (simp add: n_def)
qed

lemma store_cf_keeps:
  "rx_declared_length (rx_store_cf rx data) = rx_declared_length rx"
  "rx_buffer_size (rx_store_cf rx data) = rx_buffer_size rx"
  "rx_message_ready (rx_store_cf rx data) = rx_message_ready rx"
  "rx_in_progress (rx_store_cf rx data) = rx_in_progress rx"
  "rx_channel (rx_store_cf rx data) = rx_channel rx"
  "rx_n_ar_ms (rx_store_cf rx data) = rx_n_ar_ms rx"
  "rx_expected_sn (rx_store_cf rx data) = (rx_expected_sn rx + 1) AND ISOTP_SEQ_MASK"
  by (simp_all add: rx_store_cf_def Let_def)

lemma rx_ok_after_cf:
  assumes "rx_in_progress rx" and "rx_ok rx \<or> (\<not> rx_received rx < rx_declared_length rx \<and>
      rx_ok (rx\<lparr>rx_in_progress := False\<rparr>) \<and> rx_buffer rx \<noteq> None \<and>
      rx_declared_length rx \<le> rx_buffer_size rx)"
    and eq: "rx_after_cf rx c = (r, rx', c')"
  shows "rx_ok rx'"
proof (cases "rx_declared_length rx \<le> rx_received rx")
  case True
  with assms show ?thesis by (auto simp: rx_after_cf_def rx_ok_def)
next
  case False
  with assms have ok: "rx_ok rx" by auto
  then have ok0: "rx_ok (rx\<lparr>rx_cf_in_block := 0\<rparr>)" 
    by (rule rx_ok_core [rotated 2]) (simp_all add: rx_core_def)
  obtain b rx1 c1 where fc: "isotp_send_fc (rx\<lparr>rx_cf_in_block := 0\<rparr>) ISOTP_FC_CTS c = (b, rx1, c1)"
    by (metis prod_cases3)
  have one: "rx_ok rx1" using send_fc_core [OF fc] ok0 by (blast intro: rx_ok_core)
  then have two: "rx_ok (rx1\<lparr>rx_in_progress := False\<rparr>)"
    by (rule rx_ok_core [rotated 2]) (simp_all add: rx_core_def)
  show ?thesis
    using eq False ok one two fc by (auto simp: rx_after_cf_def split: if_splits)
qed

lemma rx_ok_consecutive:
  assumes ok: "rx_ok rx" and eq: "rx_on_consecutive_frame rx data c = (r, rx', c')"
    and len: "length data = 8"
  shows "rx_ok rx'"
proof (cases "rx_in_progress rx \<and> data ! 0 AND 0x0F = rx_expected_sn rx")
  case False
  with eq ok show ?thesis by (auto simp: rx_on_consecutive_frame_def Let_def rx_ok_reset split: if_splits)
next
  case True
  obtain b where b: "rx_buffer rx = Some b" "length b = unat (rx_buffer_size rx)" "7 \<le> length b"
    using ok True by (auto simp: rx_ok_def split: option.splits)
  have lt: "rx_received rx < rx_declared_length rx" "rx_declared_length rx \<le> rx_buffer_size rx"
    "\<not> rx_message_ready rx" using ok True by (auto simp: rx_ok_def)
  have lb: "unat (rx_declared_length rx) \<le> length b" using lt(2) b by (simp add: word_le_nat_alt)
  note st = store_cf [OF lt(1) b(1) lb len]
  obtain t c1 where t: "isotp_tick (rx_channel rx) c = (t, c1)" by fastforce
  define rx2 where "rx2 = (rx_store_cf rx data)\<lparr>rx_deadline_ms := t + ucast (rx_n_cr_ms (rx_store_cf rx data))\<rparr>"
  have after: "rx_after_cf rx2 c1 = (r, rx', c')"
    using eq True t by (simp add: rx_on_consecutive_frame_def Let_def store_cf_keeps rx2_def)
  have prog: "rx_in_progress rx2" using True by (simp add: rx2_def store_cf_keeps)
  have "rx_ok rx2 \<or> (\<not> rx_received rx2 < rx_declared_length rx2 \<and>
      rx_ok (rx2\<lparr>rx_in_progress := False\<rparr>) \<and> rx_buffer rx2 \<noteq> None \<and>
      rx_declared_length rx2 \<le> rx_buffer_size rx2)"
  proof -
    have "length (the (rx_buffer rx2)) = length b"
      using st(1,3,4) by (simp add: rx2_def)
    moreover obtain b2 where b2: "rx_buffer rx2 = Some b2" using st(1) by (simp add: rx2_def)
    moreover have keep: "\<not> rx_message_ready rx2" "rx_declared_length rx2 \<le> rx_buffer_size rx2"
        "rx_buffer_size rx2 = rx_buffer_size rx"
      using lt by (simp_all add: rx2_def store_cf_keeps)
    ultimately have l2: "length b2 = unat (rx_buffer_size rx2)" "7 \<le> length b2"
      using b(2,3) by simp_all
    have "rx_ok (rx2\<lparr>rx_in_progress := False\<rparr>)"
      unfolding rx_ok_def using keep b2 l2 by simp
    moreover have "rx_received rx2 < rx_declared_length rx2 \<Longrightarrow> rx_ok rx2"
      unfolding rx_ok_def using keep b2 l2 by simp
    ultimately show ?thesis using b2 keep(2)
      by (cases "rx_received rx2 < rx_declared_length rx2") simp_all
  qed
  then show ?thesis by (rule rx_ok_after_cf [OF prog _ after])
qed

text \<open>The calls the application makes on the receiver.\<close>

datatype rx_call = RxFrame "frame option" | RxPoll | RxRead "u16 option" | RxReset

definition rx_call_ok :: "rx_call \<Rightarrow> bool" where
  "rx_call_ok e = (case e of RxFrame (Some data) \<Rightarrow> length data = ISOTP_CAN_DLC | _ \<Rightarrow> True)"

definition rx_apply :: "rx_call \<Rightarrow> 'c IsotpRx_t \<times> 'c \<Rightarrow> 'c IsotpRx_t \<times> 'c" where
  "rx_apply e s = (case s of (rx, c) \<Rightarrow> case e of
      RxFrame fp \<Rightarrow> snd (IsotpRx_OnFrame rx fp c)
    | RxPoll \<Rightarrow> snd (IsotpRx_Poll rx c)
    | RxRead cap \<Rightarrow> (snd (snd (IsotpRx_Read rx cap)), c)
    | RxReset \<Rightarrow> (IsotpRx_Reset rx, c))"

lemma rx_ok_on_frame:
  "rx_ok rx \<Longrightarrow> IsotpRx_OnFrame rx fp c = (r, rx', c') \<Longrightarrow> (\<forall>data. fp = Some data \<longrightarrow> length data = 8) \<Longrightarrow>
    rx_ok rx'"
  by (auto simp: IsotpRx_OnFrame_def Let_def
      dest: rx_ok_single rx_ok_first rx_ok_consecutive split: option.splits if_splits)

lemma rx_ok_apply: "rx_ok (fst s) \<Longrightarrow> rx_call_ok e \<Longrightarrow> rx_ok (fst (rx_apply e s))"
proof (cases s; cases e)
  fix rx c fp assume "rx_ok (fst s)" "rx_call_ok e" "s = (rx, c)" "e = RxFrame fp"
  then show ?thesis
    using rx_ok_on_frame [of rx fp c] 
    by (cases "IsotpRx_OnFrame rx fp c")
      (auto simp: rx_apply_def rx_call_ok_def isotp_consts split: option.splits)
next
  fix rx c assume "rx_ok (fst s)" "s = (rx, c)" "e = RxPoll"
  then show ?thesis
    using poll_core [of rx c] by (cases "IsotpRx_Poll rx c") (auto simp: rx_apply_def intro: rx_ok_core)
next
  fix rx c cap assume "rx_ok (fst s)" "s = (rx, c)" "e = RxRead cap"
  then show ?thesis
    by (auto simp: rx_apply_def IsotpRx_Read_def Let_def rx_ok_def split: option.splits)
next
  fix rx c assume "rx_ok (fst s)" "s = (rx, c)" "e = RxReset"
  then show ?thesis by (simp add: rx_apply_def rx_ok_reset)
qed

lemma rx_ok_run: "rx_ok (fst s) \<Longrightarrow> list_all rx_call_ok es \<Longrightarrow> rx_ok (fst (fold rx_apply es s))"
  by (induction es arbitrary: s) (simp_all add: rx_ok_apply)

text \<open>No operation takes the buffer away.\<close>

lemma rx_buffer_on_frame:
  "IsotpRx_OnFrame rx fp c = (r, rx', c') \<Longrightarrow> rx_buffer rx \<noteq> None \<Longrightarrow> rx_buffer rx' \<noteq> None"
  by (auto simp: IsotpRx_OnFrame_def rx_on_single_frame_def rx_on_first_frame_def
      rx_on_consecutive_frame_def rx_after_cf_def rx_store_cf_def IsotpRx_Reset_def Let_def rx_core_def
      dest!: send_fc_core split: prod.splits if_splits option.splits)

lemma rx_buffer_run:
  "rx_buffer (fst s) \<noteq> None \<Longrightarrow> rx_buffer (fst (fold rx_apply es s)) \<noteq> None"
proof (induction es arbitrary: s)
  case (Cons e es)
  obtain rx c where s: "s = (rx, c)" by fastforce
  have "rx_buffer (fst (rx_apply e s)) \<noteq> None"
  proof (cases e)
    case (RxFrame fp)
    with Cons.prems s rx_buffer_on_frame [of rx fp c] show ?thesis
      by (cases "IsotpRx_OnFrame rx fp c") (simp add: rx_apply_def)
  next
    case RxPoll
    with Cons.prems s poll_core [of rx c] show ?thesis
      by (cases "IsotpRx_Poll rx c") (simp add: rx_apply_def rx_core_def)
  next
    case (RxRead cap)
    with Cons.prems s show ?thesis
      by (simp add: rx_apply_def IsotpRx_Read_def Let_def split: option.splits)
  next
    case RxReset
    with Cons.prems s show ?thesis by (simp add: rx_apply_def IsotpRx_Reset_def)
  qed
  then show ?case using Cons.IH by simp
qed simp

lemma rx_ok_init:
  "cfg_rx_buffer cfg = Some b \<Longrightarrow> length b = unat (cfg_rx_buffer_size cfg) \<Longrightarrow> 7 \<le> length b \<Longrightarrow>
    rx_ok (fst (IsotpRx_Init rx ch cfg g))"
  by (auto simp: rx_ok_def IsotpRx_Init_def Let_def word_less_nat_alt split: prod.splits)

subsection \<open>Reassembly\<close>

text \<open>\<open>rx_collecting p k rx\<close>: the first \<open>k\<close> frames of the segmentation of \<open>p\<close> are in.\<close>

definition rx_collecting :: "u8 list \<Rightarrow> nat \<Rightarrow> 'c IsotpRx_t \<Rightarrow> bool" where
  "rx_collecting p k rx \<longleftrightarrow> 0 < k \<and> rx_in_progress rx \<and> \<not> rx_message_ready rx \<and>
     unat (rx_declared_length rx) = length p \<and> unat (rx_received rx) = 6 + 7 * (k - 1) \<and>
     6 + 7 * (k - 1) < length p \<and> unat (rx_expected_sn rx) = k mod 16 \<and>
     (\<exists>b. rx_buffer rx = Some b \<and> length p \<le> length b \<and>
       take (6 + 7 * (k - 1)) b = take (6 + 7 * (k - 1)) p)"

definition rx_complete :: "u8 list \<Rightarrow> 'c IsotpRx_t \<Rightarrow> bool" where
  "rx_complete p rx \<longleftrightarrow> \<not> rx_in_progress rx \<and> rx_message_ready rx \<and>
     unat (rx_message_length rx) = length p \<and>
     (\<exists>b. rx_buffer rx = Some b \<and> take (length p) b = p)"

definition rx_idle :: "u8 list \<Rightarrow> 'c IsotpRx_t \<Rightarrow> bool" where
  "rx_idle p rx \<longleftrightarrow> \<not> rx_in_progress rx \<and> \<not> rx_message_ready rx \<and>
     (\<exists>b. rx_buffer rx = Some b \<and> length b = unat (rx_buffer_size rx) \<and> length p \<le> length b)"

lemma collecting_core:
  "rx_core rx' = rx_core rx \<Longrightarrow> rx_in_progress rx' = rx_in_progress rx \<Longrightarrow>
    rx_collecting p k rx \<Longrightarrow> rx_collecting p k rx'"
  by (simp add: rx_core_def rx_collecting_def)

lemma complete_core:
  "rx_core rx' = rx_core rx \<Longrightarrow> rx_in_progress rx' = rx_in_progress rx \<Longrightarrow>
    rx_complete p rx \<Longrightarrow> rx_complete p rx'"
  by (simp add: rx_core_def rx_complete_def)

lemma idle_core:
  "rx_core rx' = rx_core rx \<Longrightarrow> rx_in_progress rx' = rx_in_progress rx \<Longrightarrow>
    rx_idle p rx \<Longrightarrow> rx_idle p rx'"
  by (simp add: rx_core_def rx_idle_def)

lemma nibble_eq: "unat w < 16 \<Longrightarrow> drop_bit 4 (push_bit 4 h OR w) = take_bit 4 h \<and> (push_bit 4 h OR w) AND 0x0F = w"
  for w h :: u8
proof -
  assume "unat w < 16"
  then have "take_bit 4 w = w"
    by (metis and_0F unat_and_0F mod_less word_unat_eq_iff)
  then have hi: "\<not> bit w n" if "4 \<le> n" for n using that by (metis bit_take_bit_iff not_less)
  then show ?thesis
    by (auto intro!: bit_word_eqI simp: bit_simps and_0F not_le)
qed

lemma cf_pci: "drop_bit 4 (cf_frame pad sn xs ! 0) = ISOTP_PCI_CF"
  and cf_sn: "unat e = sn mod 16 \<Longrightarrow> cf_frame pad sn xs ! 0 AND 0x0F = e"
proof -
  have u: "unat (of_nat (sn mod 16) :: u8) = sn mod 16" by (simp add: unat_of_nat)
  have h: "cf_frame pad sn xs ! 0 = push_bit 4 2 OR of_nat (sn mod 16)"
    by (simp add: cf_frame_def pad_to_def)
  have n: "unat (of_nat (sn mod 16) :: u8) < 16" using u by simp
  show "drop_bit 4 (cf_frame pad sn xs ! 0) = ISOTP_PCI_CF"
    unfolding h using nibble_eq [OF n, of 2] by (simp add: isotp_consts)
  assume "unat e = sn mod 16"
  then have "e = of_nat (sn mod 16)" using u by (simp add: word_unat_eq_iff)
  then show "cf_frame pad sn xs ! 0 AND 0x0F = e"
    unfolding h using nibble_eq [OF n, of 2] by simp
qed

text \<open>\<open>rx_at p n rx\<close>: the first \<open>n\<close> frames of the segmentation of \<open>p\<close> have been taken in.\<close>

definition rx_at :: "u8 list \<Rightarrow> nat \<Rightarrow> 'c IsotpRx_t \<Rightarrow> bool" where
  "rx_at p n rx =
     (if n = 0 then rx_idle p rx
      else if n < length (segment 0 p) then rx_collecting p n rx else rx_complete p rx)"

lemma rx_at_core:
  "rx_core rx' = rx_core rx \<Longrightarrow> rx_in_progress rx' = rx_in_progress rx \<Longrightarrow> rx_at p n rx \<Longrightarrow> rx_at p n rx'"
  using idle_core collecting_core complete_core unfolding rx_at_def by metis

lemma sf_pci:
  assumes "length p \<le> 7"
  shows "drop_bit 4 (sf_frame pad p ! 0) = ISOTP_PCI_SF"
    and "unat (sf_frame pad p ! 0 AND 0x0F) = length p"
    and "take (length p) (drop 1 (sf_frame pad p)) = p"
proof -
  have h: "sf_frame pad p ! 0 = push_bit 4 0 OR of_nat (length p)"
    by (simp add: sf_frame_def pad_to_def)
  have u: "unat (of_nat (length p) :: u8) = length p" using assms by (simp add: unat_of_nat)
  then have n: "unat (of_nat (length p) :: u8) < 16" using assms by simp
  show "drop_bit 4 (sf_frame pad p ! 0) = ISOTP_PCI_SF"
    unfolding h using nibble_eq [OF n, of 0] by (simp add: isotp_consts)
  show "unat (sf_frame pad p ! 0 AND 0x0F) = length p"
    unfolding h using nibble_eq [OF n, of 0] u by simp
  show "take (length p) (drop 1 (sf_frame pad p)) = p"
    by (simp add: sf_frame_def pad_to_def)
qed

lemma ff_pci:
  assumes "7 < length p" and "length p \<le> 4095"
  shows "drop_bit 4 (ff_frame pad p ! 0) = ISOTP_PCI_FF"
    and "be16 (ff_frame pad p ! 0 AND 0x0F) (ff_frame pad p ! 1) = of_nat (length p)"
    and "take 6 (drop 2 (ff_frame pad p)) = take 6 p"
proof -
  let ?w = "of_nat (length p) :: u16"
  have h: "ff_frame pad p ! 0 = push_bit 4 1 OR (hi8 ?w AND 0x0F)" "ff_frame pad p ! 1 = lo8 ?w"
    by (simp_all add: ff_frame_def pad_to_def)
  have uw: "unat ?w = length p" using assms by (simp add: unat_of_nat)
  have "unat (hi8 ?w) = unat ?w div 256"
    using uw assms by (simp add: hi8_def unat_u16_u8 unat_drop_bit_eq drop_bit_eq_div unat_div)
  then have n: "unat (hi8 ?w) < 16" using uw assms by (simp add: less_mult_imp_div_less)
  then have k: "hi8 ?w AND 0x0F = hi8 ?w"
    by (simp add: word_unat_eq_iff unat_and_0F)
  show "drop_bit 4 (ff_frame pad p ! 0) = ISOTP_PCI_FF"
    unfolding h k using nibble_eq [OF n, of 1] by (simp add: isotp_consts)
  show "be16 (ff_frame pad p ! 0 AND 0x0F) (ff_frame pad p ! 1) = of_nat (length p)"
    unfolding h k using nibble_eq [OF n, of 1] by simp
  show "take 6 (drop 2 (ff_frame pad p)) = take 6 p"
    using assms by (simp add: ff_frame_def pad_to_def)
qed

lemma on_single:
  assumes "rx_idle p rx" and "0 < length p" and "length p \<le> 7"
  shows "\<exists>rx'. IsotpRx_OnFrame rx (Some (sf_frame pad p)) c = (ISOTP_OK, rx', c) \<and>
    rx_complete p rx' \<and> rx_channel rx' = rx_channel rx \<and> rx_n_ar_ms rx' = rx_n_ar_ms rx"
proof -
  note sf = sf_pci [OF assms(3), of pad]
  obtain b where b: "rx_buffer rx = Some b" "length p \<le> length b" "\<not> rx_in_progress rx"
      "\<not> rx_message_ready rx"
    using assms(1) by (auto simp: rx_idle_def)
  have "sf_frame pad p ! 0 AND 0x0F \<noteq> 0" using sf(2) assms(2) by (metis unat_0 less_irrefl)
  moreover have "\<not> ISOTP_SF_PAYLOAD_MAX < ucast (sf_frame pad p ! 0 AND 0x0F)"
    using sf(2) assms(3) by (simp add: isotp_consts word_less_nat_alt)
  ultimately show ?thesis
    using b sf
    by (simp add: IsotpRx_OnFrame_def rx_on_single_frame_def Let_def rx_complete_def buf_write_def)
qed

context calm_channel
begin

lemma send_fc_calm:
  assumes "rx_channel rx = ch" and "2 \<le> rx_n_ar_ms rx"
  shows "\<exists>rx' c'. isotp_send_fc rx st c = (True, rx', c') \<and> rx_core rx' = rx_core rx \<and>
    rx_in_progress rx' = rx_in_progress rx"
proof -
  define fr where "fr = pad_to 8 (rx_padding rx)
      [push_bit 4 ISOTP_PCI_FC OR (st AND 0x0F), rx_block_size rx, rx_stmin_ms rx]"
  obtain t1 c1 where t1: "isotp_tick ch c = (t1, c1)" by fastforce
  obtain t2 c2 where t2: "isotp_tick ch c1 = (t2, c2)" by fastforce
  define rx1 where "rx1 = rx\<lparr>rx_fc_frame := fr, rx_fc_waiting_enqueue := True,
    rx_fc_deadline_ms := t1 + ucast (rx_n_ar_ms rx)\<rparr>"
  obtain r rx2 c3 where s: "isotp_rx_service_fc_enqueue rx1 t2 c2 = (r, rx2, c3)"
    by (metis prod_cases3)
  have one: "rx_core rx1 = rx_core rx" "rx_in_progress rx1 = rx_in_progress rx"
      "rx_channel rx1 = ch" "rx_fc_deadline_ms rx1 = t1 + ucast (rx_n_ar_ms rx)"
    using assms by (simp_all add: rx1_def rx_core_def)
  have "\<not> tick_reached t2 (rx_fc_deadline_ms rx1)"
    unfolding one using not_reached [OF tick_steady [OF t1 t2] assms(2)] .
  then have "r \<noteq> ISOTP_ERR_TIMEOUT"
    using s by (auto simp: isotp_rx_service_fc_enqueue_def Let_def split: prod.splits if_splits)
  with service_core [OF s] one have "rx_core rx2 = rx_core rx" "rx_in_progress rx2 = rx_in_progress rx"
    by simp_all
  moreover have "isotp_send_fc rx st c = (True, rx2, c3)"
    using s t1 t2 assms(1) send_bound unfolding rx1_def fr_def
    by (auto simp: isotp_send_fc_def Let_def)
  ultimately show ?thesis by blast
qed

lemma on_first:
  assumes "rx_channel rx = ch" and "2 \<le> rx_n_ar_ms rx" and "rx_idle p rx"
    and "7 < length p" and "length p \<le> 4095"
  shows "\<exists>rx' c'. IsotpRx_OnFrame rx (Some (ff_frame pad p)) c = (ISOTP_OK, rx', c') \<and>
    rx_collecting p 1 rx' \<and> rx_channel rx' = ch \<and> rx_n_ar_ms rx' = rx_n_ar_ms rx"
proof -
  note ff = ff_pci [OF assms(4,5), of pad]
  have u: "unat (of_nat (length p) :: u16) = length p" using assms(5) by (simp add: unat_of_nat)
  obtain b where b: "rx_buffer rx = Some b" "length p \<le> length b" "\<not> rx_in_progress rx"
      "\<not> rx_message_ready rx" "length b = unat (rx_buffer_size rx)"
    using assms(3) by (auto simp: rx_idle_def)
  define rx1 where "rx1 = rx\<lparr>rx_declared_length := of_nat (length p),
      rx_buffer := Some (buf_write b 0 (take 6 p)), rx_received := ISOTP_FF_PAYLOAD_MAX,
      rx_expected_sn := 1, rx_cf_in_block := 0, rx_in_progress := True\<rparr>"
  obtain rx2 c2 where fc: "isotp_send_fc rx1 ISOTP_FC_CTS c = (True, rx2, c2)"
      "rx_core rx2 = rx_core rx1" "rx_in_progress rx2"
    using send_fc_calm [of rx1 ISOTP_FC_CTS c] assms(1,2) by (auto simp: rx1_def)
  have col: "rx_collecting p 1 rx1"
    using b assms(4) u
    by (simp add: rx_collecting_def rx1_def isotp_consts buf_write_def min_def)
  have bounds: "\<not> (of_nat (length p) :: u16) \<le> ISOTP_MAX_SINGLE_FRAME"
      "\<not> ISOTP_MAX_TOTAL_LENGTH < (of_nat (length p) :: u16)"
      "\<not> rx_buffer_size rx < (of_nat (length p) :: u16)"
      "\<not> (of_nat (length p) :: u16) < ISOTP_FF_PAYLOAD_MAX"
    using u b assms(4,5) by (simp_all add: isotp_consts word_less_nat_alt word_le_nat_alt)
  have chunk: "unat ISOTP_FF_PAYLOAD_MAX = 6" by (simp add: isotp_consts)
  have rec: "\<not> rx_declared_length rx2 \<le> rx_received rx2"
    using fc(2) u assms(4) by (simp add: rx_core_def rx1_def isotp_consts word_le_nat_alt)
  have pci: "ISOTP_PCI_FF \<noteq> ISOTP_PCI_SF" by (simp add: isotp_consts)
  have "IsotpRx_OnFrame rx (Some (ff_frame pad p)) c = rx_on_first_frame rx (ff_frame pad p) c"
    using ff(1) pci by (simp add: IsotpRx_OnFrame_def)
  also have "\<dots> = (ISOTP_OK, rx2, c2)"
    using b bounds ff(2,3) fc(1) rec chunk unfolding rx1_def
    by (simp add: rx_on_first_frame_def Let_def)
  finally show ?thesis
    using collecting_core [OF fc(2) _ col] fc(2,3) assms(1) by (auto simp: rx_core_def rx1_def)
qed

end

text \<open>One more consecutive frame.\<close>

lemma collecting_append:
  assumes "take n b = take n p" and "n + m \<le> length p" and "n + m \<le> length b"
  shows "take (n + m) (buf_write b n (take m (drop n p))) = take (n + m) p"
  using assms take_buf_write [of n "take m (drop n p)" b] by (simp add: take_add)

lemma cf_payload:
  "length xs \<le> 7 \<Longrightarrow> m \<le> length xs \<Longrightarrow> take m (drop 1 (cf_frame pad sn xs)) = take m xs"
  by (simp add: cf_frame_def pad_to_def)

lemma next_sn: "unat e = k mod 16 \<Longrightarrow> unat ((e + 1) AND ISOTP_SEQ_MASK) = Suc k mod 16" for e :: u8
proof -
  assume a: "unat e = k mod 16"
  then have "unat e < 16" by simp
  then have "unat (e + 1) = Suc (k mod 16)" using a by (simp add: unat_word_ariths)
  then show ?thesis by (simp add: ISOTP_SEQ_MASK_def unat_and_0F mod_Suc_eq)
qed

lemma store_collecting:
  fixes pad :: u8
  assumes col: "rx_collecting p k rx"
  defines "d \<equiv> cf_frame pad k (take 7 (drop (6 + 7 * (k - 1)) p))"
    and "rx2 \<equiv> rx_store_cf rx (cf_frame pad k (take 7 (drop (6 + 7 * (k - 1)) p)))"
  shows "unat (rx_received rx2) = min (6 + 7 * k) (length p)"
    and "\<exists>b. rx_buffer rx2 = Some b \<and> length p \<le> length b \<and>
      take (min (6 + 7 * k) (length p)) b = take (min (6 + 7 * k) (length p)) p"
    and "unat (rx_expected_sn rx2) = Suc k mod 16"
proof -
  let ?r = "6 + 7 * (k - 1)"
  obtain b where b: "rx_buffer rx = Some b" "length p \<le> length b" "take ?r b = take ?r p"
    and c: "unat (rx_declared_length rx) = length p" "unat (rx_received rx) = ?r" "?r < length p"
      "unat (rx_expected_sn rx) = k mod 16" "0 < k"
    using col by (auto simp: rx_collecting_def)
  have len: "length d = 8" by (simp add: d_def cf_frame_def min_def)
  have lt: "rx_received rx < rx_declared_length rx" using c by (simp add: word_less_nat_alt)
  have lb: "unat (rx_declared_length rx) \<le> length b" using b c by simp
  note st = store_cf [OF lt b(1) lb len, unfolded c]
  have m: "?r + min (length p - ?r) 7 = min (6 + 7 * k) (length p)"
  proof -
    obtain j where "k = Suc j" using c(5) by (cases k) auto
    with c(3) show ?thesis by simp
  qed
  show "unat (rx_received rx2) = min (6 + 7 * k) (length p)"
    using st(2) m unfolding d_def rx2_def by simp
  have pl: "take (min (length p - ?r) 7) (drop 1 d) = take (min (length p - ?r) 7) (drop ?r p)"
    unfolding d_def by (subst cf_payload) (simp_all add: min_def)
  have buf: "rx_buffer rx2 = Some (buf_write b ?r (take (min (length p - ?r) 7) (drop ?r p)))"
    using st(1) pl unfolding d_def rx2_def by simp
  have fits: "?r + min (length p - ?r) 7 \<le> length p" using c(3) by simp
  have "take (?r + min (length p - ?r) 7) (buf_write b ?r (take (min (length p - ?r) 7) (drop ?r p))) =
      take (?r + min (length p - ?r) 7) p"
    using collecting_append [OF b(3) fits] fits b(2) by simp
  moreover have "length (buf_write b ?r (take (min (length p - ?r) 7) (drop ?r p))) = length b"
    by (rule length_buf_write) (use fits b(2) in simp)
  ultimately show "\<exists>b. rx_buffer rx2 = Some b \<and> length p \<le> length b \<and>
      take (min (6 + 7 * k) (length p)) b = take (min (6 + 7 * k) (length p)) p"
    using buf b(2) unfolding m by auto
  show "unat (rx_expected_sn rx2) = Suc k mod 16"
    unfolding rx2_def store_cf_keeps by (rule next_sn [OF c(4)])
qed

context calm_channel
begin

lemma on_consecutive:
  assumes "rx_channel rx = ch" and "2 \<le> rx_n_ar_ms rx" and col: "rx_collecting p k rx"
  shows "\<exists>rx' c'. IsotpRx_OnFrame rx (Some (cf_frame pad k (take 7 (drop (6 + 7 * (k - 1)) p)))) c
      = (ISOTP_OK, rx', c') \<and>
    (if 6 + 7 * k < length p then rx_collecting p (Suc k) rx' else rx_complete p rx') \<and>
    rx_channel rx' = ch \<and> rx_n_ar_ms rx' = rx_n_ar_ms rx"
proof -
  let ?d = "cf_frame pad k (take 7 (drop (6 + 7 * (k - 1)) p))"
  obtain t c1 where t: "isotp_tick ch c = (t, c1)" by fastforce
  define rx2 where "rx2 = (rx_store_cf rx ?d)\<lparr>rx_deadline_ms := t + ucast (rx_n_cr_ms (rx_store_cf rx ?d))\<rparr>"
  have prog: "rx_in_progress rx" and sn: "unat (rx_expected_sn rx) = k mod 16" and k: "0 < k"
    and dl: "unat (rx_declared_length rx) = length p" and nr: "\<not> rx_message_ready rx"
    using col by (auto simp: rx_collecting_def)
  have "ISOTP_PCI_CF \<noteq> ISOTP_PCI_SF" "ISOTP_PCI_CF \<noteq> ISOTP_PCI_FF" by (simp_all add: isotp_consts)
  then have eq: "IsotpRx_OnFrame rx (Some ?d) c = rx_after_cf rx2 c1"
    using cf_pci [of pad k] cf_sn [OF sn, of pad] prog t assms(1)
    by (simp add: IsotpRx_OnFrame_def rx_on_consecutive_frame_def Let_def store_cf_keeps rx2_def)
  note st = store_collecting [OF col, where pad = pad]
  obtain b where two: "rx_buffer rx2 = Some b" "length p \<le> length b"
      "take (min (6 + 7 * k) (length p)) b = take (min (6 + 7 * k) (length p)) p"
      "unat (rx_received rx2) = min (6 + 7 * k) (length p)" "unat (rx_expected_sn rx2) = Suc k mod 16"
    using st by (auto simp: rx2_def)
  have keep: "rx_in_progress rx2" "\<not> rx_message_ready rx2" "unat (rx_declared_length rx2) = length p"
      "rx_channel rx2 = ch" "rx_n_ar_ms rx2 = rx_n_ar_ms rx"
    using prog nr dl assms(1) by (simp_all add: rx2_def store_cf_keeps)
  show ?thesis
  proof (cases "6 + 7 * k < length p")
    case False
    then have "rx_declared_length rx2 \<le> rx_received rx2" "take (length p) b = p"
      using two keep by (simp_all add: word_le_nat_alt min_absorb2)
    then show ?thesis
      using eq False two keep by (simp add: rx_after_cf_def rx_complete_def)
  next
    case True
    have col2: "rx_collecting p (Suc k) rx2"
      using two keep True k by (simp add: rx_collecting_def min_def)
    have more: "\<not> rx_declared_length rx2 \<le> rx_received rx2"
      using two keep True by (simp add: word_le_nat_alt min_def)
    obtain rx3 c3 where fc: "isotp_send_fc (rx2\<lparr>rx_cf_in_block := 0\<rparr>) ISOTP_FC_CTS c1 = (True, rx3, c3)"
        "rx_core rx3 = rx_core (rx2\<lparr>rx_cf_in_block := 0\<rparr>)" "rx_in_progress rx3"
      using send_fc_calm [of "rx2\<lparr>rx_cf_in_block := 0\<rparr>" ISOTP_FC_CTS c1] keep assms(2) by auto
    then have core: "rx_core rx3 = rx_core rx2" by (simp add: rx_core_def)
    have "rx_collecting p (Suc k) rx3" using collecting_core [OF core _ col2] fc(3) keep(1) by simp
    moreover have "rx_channel rx3 = ch" "rx_n_ar_ms rx3 = rx_n_ar_ms rx"
      using core keep by (simp_all add: rx_core_def)
    moreover have "IsotpRx_OnFrame rx (Some ?d) c = (ISOTP_OK, rx3, c3) \<or>
        IsotpRx_OnFrame rx (Some ?d) c = (ISOTP_OK, rx2, c1)"
      using eq more fc(1) by (simp add: rx_after_cf_def)
    ultimately show ?thesis using True col2 keep by auto
  qed
qed

lemma segment_next:
  assumes "rx_channel rx = ch" and "2 \<le> rx_n_ar_ms rx" and "rx_at p n rx"
    and "0 < length p" and "length p \<le> 4095" and "n < length (segment pad p)"
  shows "\<exists>rx' c'. IsotpRx_OnFrame rx (Some (segment pad p ! n)) c = (ISOTP_OK, rx', c') \<and>
    rx_at p (Suc n) rx' \<and> rx_channel rx' = ch \<and> rx_n_ar_ms rx' = rx_n_ar_ms rx"
proof (cases "length p \<le> 7")
  case True
  with assms have "n = 0" "rx_idle p rx" by (auto simp: rx_at_def length_segment)
  then show ?thesis
    using on_single [of p rx pad c] True assms by (auto simp: rx_at_def length_segment segment_def)
next
  case long: False
  show ?thesis
  proof (cases "n = 0")
    case True
    have "segment pad p ! 0 = ff_frame pad p" "Suc 0 < length (segment 0 p)" "rx_idle p rx"
      using long True assms(3) length_segment [of 0 p] by (simp_all add: segment_def rx_at_def)
    with assms long on_first [of rx p pad c] True show ?thesis by (auto simp: rx_at_def)
  next
    case False
    then have col: "rx_collecting p n rx" using assms by (simp add: rx_at_def length_segment)
    obtain m where n: "n = Suc m" using False by (cases n) simp_all
    have m: "m < length (cf_frames pad 1 (drop 6 p))"
      using assms(6) n long by (simp add: segment_def)
    have fr: "segment pad p ! n = cf_frame pad n (take 7 (drop (6 + 7 * (n - 1)) p))"
      using nth_cf_frames [OF m] n long by (simp add: segment_def add.commute)
    have more: "6 + 7 * n < length p \<longleftrightarrow> Suc n < length (segment 0 p)"
    proof -
      have "Suc n \<le> length p div 7 \<longleftrightarrow> Suc n * 7 \<le> length p"
        by (rule less_eq_div_iff_mult_less_eq) simp
      then show ?thesis using long by (auto simp: length_segment)
    qed
    obtain rx' c' where step: "IsotpRx_OnFrame rx (Some (segment pad p ! n)) c = (ISOTP_OK, rx', c')"
        "if 6 + 7 * n < length p then rx_collecting p (Suc n) rx' else rx_complete p rx'"
        "rx_channel rx' = ch" "rx_n_ar_ms rx' = rx_n_ar_ms rx"
      using on_consecutive [OF assms(1,2) col, of pad c] unfolding fr by blast
    have "rx_at p (Suc n) rx'" using step(2) more by (simp add: rx_at_def)
    with step show ?thesis by blast
  qed
qed

end

text \<open>
  The receiver at work while a message comes in: the frames arrive in order, the application
  polls between them at any times without running into a timeout, and the environment
  (clock, mailboxes) does as it likes.
\<close>

inductive rx_feed :: "'c IsotpRx_t \<times> 'c \<Rightarrow> frame list \<Rightarrow> 'c IsotpRx_t \<times> 'c \<Rightarrow> bool" for s where
  Feed_start: "rx_feed s [] s"
| Feed_frame: "rx_feed s fs (rx, c) \<Longrightarrow> IsotpRx_OnFrame rx (Some f) c = (r, rx', c') \<Longrightarrow>
    rx_feed s (fs @ [f]) (rx', c')"
| Feed_poll: "rx_feed s fs (rx, c) \<Longrightarrow> IsotpRx_Poll rx c = (r, rx', c') \<Longrightarrow>
    r \<noteq> ISOTP_ERR_TIMEOUT \<Longrightarrow> rx_feed s fs (rx', c')"
| Feed_elapse: "rx_feed s fs (rx, c) \<Longrightarrow> rx_feed s fs (rx, c')"

context calm_channel
begin

lemma feed_at:
  assumes "rx_feed s fs s'" and "fs = take n (segment pad p)" and "n \<le> length (segment pad p)"
    and "rx_channel (fst s) = ch" and "2 \<le> rx_n_ar_ms (fst s)" and "rx_idle p (fst s)"
    and "0 < length p" and "length p \<le> 4095"
  shows "rx_at p n (fst s') \<and> rx_channel (fst s') = ch \<and> rx_n_ar_ms (fst s') = rx_n_ar_ms (fst s)"
  using assms(1-3)
proof (induction arbitrary: n rule: rx_feed.induct)
  case Feed_start
  then have "n = 0" using length_segment [of pad p] by (cases "segment pad p") (auto split: if_splits)
  with assms show ?case by (simp add: rx_at_def)
next
  case (Feed_frame fs rx c f r rx' c')
  have len: "length (fs @ [f]) = n" using Feed_frame.prems by simp
  then have n: "n = Suc (length fs)" by simp
  then have fs: "fs = take (length fs) (segment pad p)" and f: "f = segment pad p ! length fs"
    using Feed_frame.prems by (simp_all add: take_Suc_conv_app_nth)
  have lt: "length fs < length (segment pad p)" using n Feed_frame.prems(2) by simp
  then have "rx_at p (length fs) rx" "rx_channel rx = ch" "rx_n_ar_ms rx = rx_n_ar_ms (fst s)"
    using Feed_frame.IH [OF fs] by simp_all
  then show ?case
    using segment_next [of rx p "length fs" pad c] lt n f Feed_frame.hyps(2) assms(5,7,8) by auto
next
  case (Feed_poll fs rx c r rx' c')
  then show ?case
    using poll_core [OF Feed_poll.hyps(2)] rx_at_core [of rx' rx p n]
    by (simp add: rx_core_def)
next
  case (Feed_elapse fs rx c c')
  then show ?case by simp
qed

end

lemma complete_read:
  "rx_complete p rx \<Longrightarrow> length p \<le> unat cap \<Longrightarrow>
    IsotpRx_Read rx (Some cap) = (ISOTP_OK, p, rx\<lparr>rx_message_ready := False, rx_message_length := 0\<rparr>)"
  by (auto simp: rx_complete_def IsotpRx_Read_def Let_def word_less_nat_alt)

subsection \<open>Claims\<close>

text \<open>C4: From \<open>IsotpRx_Init\<close> on, with a buffer of at least seven bytes whose size is the
  configured one, no sequence of received frames (valid or not), polls, reads and resets
  makes the receiver store a byte outside its buffer: the buffer keeps its length, and every
  message it reports fits in it.\<close>

theorem rx_never_overruns_buffer:
  assumes "cfg_rx_buffer cfg = Some b" and "length b = unat (cfg_rx_buffer_size cfg)"
    and "7 \<le> length b" and "list_all rx_call_ok es"
    and "fold rx_apply es (fst (IsotpRx_Init rx ch cfg g), c) = (rx', c')"
  shows "\<exists>b'. rx_buffer rx' = Some b' \<and> length b' = unat (rx_buffer_size rx') \<and>
    (rx_message_ready rx' \<longrightarrow> unat (rx_message_length rx') \<le> length b') \<and>
    (rx_in_progress rx' \<longrightarrow> unat (rx_received rx') < unat (rx_declared_length rx') \<and>
       unat (rx_declared_length rx') \<le> length b')"
proof -
  have ok: "rx_ok rx'"
    using rx_ok_run [OF _ assms(4), of "(fst (IsotpRx_Init rx ch cfg g), c)"]
      rx_ok_init [OF assms(1-3), of rx ch g] assms(5) by simp
  have "rx_buffer (fst (fold rx_apply es (fst (IsotpRx_Init rx ch cfg g), c))) \<noteq> None"
    by (rule rx_buffer_run) (use assms(1-3) in \<open>auto simp: IsotpRx_Init_def Let_def word_less_nat_alt\<close>)
  with ok assms(5) show ?thesis
    by (auto simp: rx_ok_def word_le_nat_alt word_less_nat_alt)
qed

theorem rx_never_overruns_buffer_witness:
  "\<forall>rx :: unit IsotpRx_t. \<exists>rx' c' b'. fold rx_apply [RxFrame (Some [0x10, 10, 1, 2, 3, 4, 5, 6]), RxPoll,
       RxFrame (Some [0x21, 7, 8, 9, 10, 0xCC, 0xCC, 0xCC])]
      (fst (IsotpRx_Init rx None (IsotpConfig_Init 1 2 (Some (replicate 16 0)) 16)
        \<lparr>g_rx_fallback_buffer = [], g_rx_fallback_in_use = False\<rparr>), ()) = (rx', c') \<and>
     rx_buffer rx' = Some b' \<and> length b' = unat (rx_buffer_size rx')"
proof
  fix rx :: "unit IsotpRx_t"
  let ?s = "(fst (IsotpRx_Init rx None (IsotpConfig_Init 1 2 (Some (replicate 16 0)) 16)
        \<lparr>g_rx_fallback_buffer = [], g_rx_fallback_in_use = False\<rparr>), ())"
  let ?es = "[RxFrame (Some [0x10, 10, 1, 2, 3, 4, 5, 6]), RxPoll,
       RxFrame (Some [0x21, 7, 8, 9, 10, 0xCC, 0xCC, 0xCC])] :: rx_call list"
  obtain rx' c' where eq: "fold rx_apply ?es ?s = (rx', c')" by (metis surj_pair)
  have "\<exists>b'. rx_buffer rx' = Some b' \<and> length b' = unat (rx_buffer_size rx') \<and>
    (rx_message_ready rx' \<longrightarrow> unat (rx_message_length rx') \<le> length b') \<and>
    (rx_in_progress rx' \<longrightarrow> unat (rx_received rx') < unat (rx_declared_length rx') \<and>
       unat (rx_declared_length rx') \<le> length b')"
    by (rule rx_never_overruns_buffer [OF _ _ _ _ eq, of "replicate 16 0"])
      (simp_all add: IsotpConfig_Init_def rx_call_ok_def isotp_consts)
  with eq show "\<exists>rx' c' b'. fold rx_apply ?es ?s = (rx', c') \<and>
     rx_buffer rx' = Some b' \<and> length b' = unat (rx_buffer_size rx')" by blast
qed

text \<open>The lower bound of seven bytes is needed: the single-frame branch copies up to seven
  bytes without comparing the length with \<open>buffer_size\<close>.  With a four-byte buffer a valid
  single frame of seven bytes writes past its end (the list in the model grows).\<close>

lemma sf_overruns_small_buffer:
  assumes "rx_buffer rx = Some [0, 0, 0, 0]" and "rx_buffer_size rx = 4"
    and "\<not> rx_in_progress rx" and "\<not> rx_message_ready rx"
  shows "\<exists>rx'. IsotpRx_OnFrame rx (Some [7, 1, 2, 3, 4, 5, 6, 7]) c = (ISOTP_OK, rx', c) \<and>
    rx_buffer rx' = Some [1, 2, 3, 4, 5, 6, 7] \<and> rx_buffer_size rx' = 4"
proof -
  have "drop_bit 4 (7 :: u8) = 0" "(7 :: u8) AND 0x0F = 7" by code_simp+
  then show ?thesis
    using assms
    by (simp add: IsotpRx_OnFrame_def rx_on_single_frame_def Let_def isotp_consts buf_write_def)
qed

end
