(* ===== verification/AppPort.thy ===== *)
theory AppPort
  imports CanDriver IsotpTx IsotpRx
begin

section \<open>The application's ISO-TP channel\<close>

text \<open>
  \<open>APP_IsotpSend\<close>, \<open>APP_IsotpTxPending\<close> and \<open>APP_IsotpTick\<close> of \<open>main.c\<close> (the same in
  \<open>ecu-f407\<close> and \<open>ecu-f103\<close>), the table \<open>main\<close> builds of them, and the proof that it
  satisfies the contract the protocol core relies on.  The state behind the channel is the
  driver \<open>g_can\<close> and the system tick.
\<close>

record app_port =
  port_can :: CanDriver_t
  port_clock :: systick

text \<open>The build without \<open>APP_ISOTP_FORCE_TX_BUSY\<close>, the default.\<close>

definition APP_IsotpSend :: "u32 \<Rightarrow> frame \<Rightarrow> app_port \<Rightarrow> bool \<times> app_port" where
  "APP_IsotpSend txid data p =
     (let (r, d) = CanDriver_SendStd (port_can p) txid (Some data) 8
      in (r = HAL_OK, p\<lparr>port_can := d\<rparr>))"

definition APP_IsotpTxPending :: "app_port \<Rightarrow> bool \<times> app_port" where
  "APP_IsotpTxPending p = (CanDriver_IsTxPending (port_can p), p)"

definition APP_IsotpTick :: "app_port \<Rightarrow> u32 \<times> app_port" where
  "APP_IsotpTick p = (let (t, k) = HAL_GetTick (port_clock p) in (t, p\<lparr>port_clock := k\<rparr>))"

definition app_channel :: "app_port IsotpChannel_t" where
  "app_channel = \<lparr>ch_send = Some APP_IsotpSend, ch_receive = None,
     ch_tick_ms = Some APP_IsotpTick, ch_tx_pending = Some APP_IsotpTxPending\<rparr>"

text \<open>The frames the driver has handed to the controller so far.\<close>

definition on_wire :: "app_port \<Rightarrow> (u32 \<times> frame) list" where
  "on_wire p = (case drv_handle (port_can p) of Some hw \<Rightarrow> hw_tx_log hw | None \<Rightarrow> [])"

lemma SendStd_wire:
  assumes "CanDriver_SendStd d i (Some fr) 8 = (r, d')"
  shows "(r = HAL_OK \<and> length fr = 8 \<longrightarrow>
      (\<exists>hw hw'. drv_handle d = Some hw \<and> drv_handle d' = Some hw' \<and> hw_tx_log hw' = hw_tx_log hw @ [(i, fr)])) \<and>
    (r \<noteq> HAL_OK \<longrightarrow> map_option hw_tx_log (drv_handle d') = map_option hw_tx_log (drv_handle d))"
  using assms AddTx_log
  by (auto simp: CanDriver_SendStd_def Let_def pad_to_def split: option.splits if_splits prod.splits)

interpretation app_port: calm_channel app_channel on_wire
proof unfold_locales
  show "ch_send app_channel \<noteq> None" by (simp add: app_channel_def)
next
  fix i fr c c' assume "channel_send app_channel i fr c = (True, c')" "length fr = 8"
  then show "on_wire c' = on_wire c @ [(i, fr)]"
    using SendStd_wire [of "port_can c" i fr]
    by (auto simp: channel_send_def app_channel_def APP_IsotpSend_def on_wire_def split: prod.splits)
next
  fix i fr c c' assume "channel_send app_channel i fr c = (False, c')"
  then show "on_wire c' = on_wire c"
    using SendStd_wire [of "port_can c" i fr]
    by (auto simp: channel_send_def app_channel_def APP_IsotpSend_def on_wire_def
        split: prod.splits option.splits)
next
  fix c t c' assume "isotp_tick app_channel c = (t, c')"
  then show "on_wire c' = on_wire c"
    by (auto simp: isotp_tick_def app_channel_def APP_IsotpTick_def on_wire_def split: prod.splits)
next
  fix c b c' assume "channel_pending app_channel c = (b, c')"
  then show "on_wire c' = on_wire c"
    by (auto simp: channel_pending_def app_channel_def APP_IsotpTxPending_def)
next
  fix c t1 c1 t2 c2
  assume "isotp_tick app_channel c = (t1, c1)" "isotp_tick app_channel c1 = (t2, c2)"
  then show "t2 - t1 \<le> 1"
    by (auto simp: isotp_tick_def app_channel_def APP_IsotpTick_def split: prod.splits
        intro: GetTick_steady)
qed

end
