(* ===== verification/IsotpTransfer.thy ===== *)
theory IsotpTransfer
  imports AppPort
begin

section \<open>ISO-TP transfers end to end\<close>

text \<open>
  \<open>Isotp_RouteFrame\<close> and the claims about the two state machines of \<open>isotp.c\<close> running on the
  application's channel (\<open>AppPort\<close>): what a transfer puts on the bus, what a receiver makes of
  it, and what a whole transfer delivers.
\<close>

definition Isotp_RouteFrame ::
  "'c IsotpTx_t option \<Rightarrow> 'c IsotpRx_t option \<Rightarrow> frame option \<Rightarrow> 'c \<Rightarrow>
    IsotpResult_t \<times> 'c IsotpTx_t option \<times> 'c IsotpRx_t option \<times> 'c" where
  "Isotp_RouteFrame tx rx fp c =
     (case fp of None \<Rightarrow> (ISOTP_ERR_INVALID, tx, rx, c) | Some data \<Rightarrow>
      if drop_bit 4 (data ! 0) = ISOTP_PCI_FC then
        (case tx of None \<Rightarrow> (ISOTP_ERR_STATE, tx, rx, c) | Some t \<Rightarrow>
         if \<not> IsotpTx_IsBusy tx then (ISOTP_ERR_STATE, tx, rx, c)
         else let (r, t1, c1) = IsotpTx_OnFrame t (Some data) c in (r, Some t1, rx, c1))
      else
        (case rx of None \<Rightarrow> (ISOTP_ERR_STATE, tx, rx, c) | Some x \<Rightarrow>
         let (r, x1, c1) = IsotpRx_OnFrame x (Some data) c in (r, tx, Some x1, c1)))"

text \<open>A transfer that a poll ends with success.\<close>

lemma transfer_complete:
  assumes "tx_channel tx = app_channel" and "unat len = length p" and "2 \<le> tx_n_as_ms tx"
    and "IsotpTx_Start tx (Some p) len c = (ISOTP_OK, tx1, c1)"
    and "tx_reach on_wire (tx1, c1) (tx2, c2)" and "tx_ongoing tx2"
    and "IsotpTx_Poll tx2 c2 = (ISOTP_OK, tx3, c3)" and "\<not> tx_ongoing tx3"
  shows "on_wire c3 = on_wire c @ map (Pair (tx_txid tx)) (segment (tx_padding tx) p)"
    and "0 < length p" and "length p \<le> 4095"
proof -
  note st = app_port.start_safe [OF assms(1,2,4)]
  have safe: "app_port.tx_safe (on_wire c) p tx2 c2" "tx_txid tx2 = tx_txid tx" "tx_padding tx2 = tx_padding tx"
    using app_port.reach_safe [OF assms(5), of "on_wire c" p] st by simp_all
  have "2 \<le> tx_n_as_ms tx2"
    using app_port.reach_n_as [OF assms(5)] start_n_as [OF assms(4)] assms(3) by simp
  from app_port.poll_done [OF safe(1) this assms(6-8)] safe(2,3)
  show "on_wire c3 = on_wire c @ map (Pair (tx_txid tx)) (segment (tx_padding tx) p)" by simp
  show "0 < length p" "length p \<le> 4095"
    using start_lengths [OF assms(4)] assms(2)
    by (simp_all add: word_le_nat_alt word_less_nat_alt ISOTP_MAX_TOTAL_LENGTH_def)
qed

subsection \<open>Concrete runs\<close>

text \<open>A schedule as data: poll the sender, hand it a frame, or let the mailboxes drain and
  \<open>n\<close> milliseconds pass.\<close>

datatype tx_action = ActPoll | ActFrame frame | ActDrain u32

definition drain_port :: "u32 \<Rightarrow> app_port \<Rightarrow> app_port" where
  "drain_port n p =
     p\<lparr>port_can := (port_can p)\<lparr>drv_handle :=
          map_option (\<lambda>hw. hw\<lparr>hw_mailboxes := replicate 3 None\<rparr>) (drv_handle (port_can p))\<rparr>,
       port_clock := (port_clock p)\<lparr>uwTick := uwTick (port_clock p) + n\<rparr>\<rparr>"

fun tx_act :: "tx_action \<Rightarrow> app_port IsotpTx_t \<times> app_port \<Rightarrow> app_port IsotpTx_t \<times> app_port" where
  "tx_act ActPoll (tx, c) = snd (IsotpTx_Poll tx c)"
| "tx_act (ActFrame f) (tx, c) = snd (IsotpTx_OnFrame tx (Some f) c)"
| "tx_act (ActDrain n) (tx, c) = (tx, drain_port n c)"

lemma drain_wire: "on_wire (drain_port n c) = on_wire c"
  by (simp add: on_wire_def drain_port_def split: option.split)

lemma act_reach: "tx_reach on_wire s (fold tx_act as s)"
proof (induction as rule: rev_induct)
  case Nil
  then show ?case by (simp add: reach_start)
next
  case (snoc a as)
  obtain tx c where s: "fold tx_act as s = (tx, c)" by fastforce
  have "tx_step on_wire (tx, c) (tx_act a (tx, c))"
  proof (cases a)
    case ActPoll
    obtain r tx' c' where "IsotpTx_Poll tx c = (r, tx', c')" by (metis prod_cases3)
    with ActPoll show ?thesis by (auto intro: tx_step.Poll)
  next
    case (ActFrame f)
    obtain r tx' c' where "IsotpTx_OnFrame tx (Some f) c = (r, tx', c')" by (metis prod_cases3)
    with ActFrame show ?thesis by (auto intro: tx_step.Receive)
  next
    case (ActDrain n)
    then show ?thesis by (auto intro: tx_step.Elapse simp: drain_wire)
  qed
  with snoc s show ?case by (auto intro: reach_step)
qed

definition sample_port :: app_port where
  "sample_port = \<lparr>port_can = sample_driver, port_clock = \<lparr>uwTick = 5, clk_systick = [False, True]\<rparr>\<rparr>"

definition blank_tx :: "app_port IsotpTx_t" where
  "blank_tx = \<lparr>tx_channel = null_channel, tx_txid = 0, tx_rxid = 0, tx_n_as_ms = 0, tx_n_bs_ms = 0,
     tx_n_cr_ms = 0, tx_block_size = 0, tx_stmin_ms = 0, tx_padding = 0, tx_data = None, tx_length = 0,
     tx_total_length = 0, tx_offset = 0, tx_sn = 0, tx_sent_in_block = 0, tx_deadline_ms = 0,
     tx_as_deadline_ms = 0, tx_enqueue_deadline_ms = 0, tx_last_cf_ms = 0, tx_pending_frame = [],
     tx_ff_sent = False, tx_has_sent_cf = False, tx_waiting_enqueue = False, tx_waiting_fc = False,
     tx_waiting_after_block = False, tx_frame_pending = False, tx_ongoing = False\<rparr>"

definition sample_tx :: "app_port IsotpTx_t" where
  "sample_tx = IsotpTx_Init blank_tx (Some app_channel) (IsotpConfig_Init 0x7E8 0x7E0 None 0)"

definition sample_start :: "u8 list \<Rightarrow> app_port IsotpTx_t \<times> app_port" where
  "sample_start p = snd (IsotpTx_Start sample_tx (Some p) (of_nat (length p)) sample_port)"

text \<open>A receiver that takes frames one after the other.\<close>

definition rx_take :: "frame \<Rightarrow> app_port IsotpRx_t \<times> app_port \<Rightarrow> app_port IsotpRx_t \<times> app_port" where
  "rx_take f s = snd (IsotpRx_OnFrame (fst s) (Some f) (snd s))"

lemma take_feed: "rx_feed s fs (fold rx_take fs s)"
proof (induction fs rule: rev_induct)
  case Nil
  then show ?case by (simp add: Feed_start)
next
  case (snoc f fs)
  obtain rx c where s: "fold rx_take fs s = (rx, c)" by fastforce
  obtain r rx' c' where f: "IsotpRx_OnFrame rx (Some f) c = (r, rx', c')" by (metis prod_cases3)
  then have "rx_take f (rx, c) = (rx', c')" by (simp add: rx_take_def)
  with snoc s f show ?case by (auto intro: Feed_frame)
qed

definition blank_rx :: "app_port IsotpRx_t" where
  "blank_rx = \<lparr>rx_channel = null_channel, rx_txid = 0, rx_rxid = 0, rx_n_ar_ms = 0, rx_n_cr_ms = 0,
     rx_fc_frame = [], rx_padding = 0, rx_block_size = 0, rx_stmin_ms = 0, rx_buffer = None,
     rx_buffer_size = 0, rx_declared_length = 0, rx_received = 0, rx_expected_sn = 0,
     rx_cf_in_block = 0, rx_deadline_ms = 0, rx_fc_deadline_ms = 0, rx_in_progress = False,
     rx_timed_out = False, rx_fc_waiting_enqueue = False, rx_fc_pending = False,
     rx_message_ready = False, rx_message_length = 0\<rparr>"

definition sample_rx :: "app_port IsotpRx_t" where
  "sample_rx = fst (IsotpRx_Init blank_rx (Some app_channel) (IsotpConfig_Init 0x7E8 0x7E0 (Some (replicate 64 0)) 64)
     \<lparr>g_rx_fallback_buffer = [], g_rx_fallback_in_use = False\<rparr>)"

lemma sample_rx_idle:
  "rx_channel sample_rx = app_channel" "2 \<le> rx_n_ar_ms sample_rx"
  "length p \<le> 64 \<Longrightarrow> rx_idle p sample_rx"
  by (simp_all add: sample_rx_def IsotpRx_Init_def IsotpConfig_Init_def Let_def rx_idle_def
      ISOTP_DEFAULT_N_AR_MS_def)

lemma sample_tx_fields:
  "tx_channel sample_tx = app_channel" "2 \<le> tx_n_as_ms sample_tx" "tx_txid sample_tx = 0x7E8"
  "tx_padding sample_tx = 0xCC"
  by (simp_all add: sample_tx_def IsotpTx_Init_def IsotpConfig_Init_def ISOTP_DEFAULT_N_AS_MS_def
      ISOTP_DEFAULT_PADDING_def)

subsection \<open>Claims\<close>

text \<open>C2: Whatever the schedule of polls, received frames and passing time, a transfer that
  \<open>IsotpTx_Start\<close> accepted puts nothing on the bus but a prefix of the ISO 15765-2 segmentation
  of its payload, under the sender's identifier and in order: no frame twice, none skipped,
  none with a wrong sequence number.\<close>

theorem transfer_sends_only_segmentation:
  assumes "tx_channel tx = app_channel" and "unat len = length p"
    and "IsotpTx_Start tx (Some p) len c = (ISOTP_OK, tx1, c1)"
    and "tx_reach on_wire (tx1, c1) (tx2, c2)"
  shows "\<exists>n. on_wire c2 = on_wire c @ map (Pair (tx_txid tx)) (take n (segment (tx_padding tx) p))"
  using assms by (rule app_port.transfer_prefix)

text \<open>When a poll reports success and the transfer is over, the whole segmentation of the
  payload is on the bus.\<close>

theorem transfer_done_means_sent:
  assumes "tx_channel tx = app_channel" and "unat len = length p" and "2 \<le> tx_n_as_ms tx"
    and "IsotpTx_Start tx (Some p) len c = (ISOTP_OK, tx1, c1)"
    and "tx_reach on_wire (tx1, c1) (tx2, c2)" and "tx_ongoing tx2"
    and "IsotpTx_Poll tx2 c2 = (ISOTP_OK, tx3, c3)" and "\<not> tx_ongoing tx3"
  shows "on_wire c3 = on_wire c @ map (Pair (tx_txid tx)) (segment (tx_padding tx) p)"
  using transfer_complete [OF assms] by simp

text \<open>C3: A receiver that is idle, has room for the payload and gets the frames of its
  segmentation in order, polled at any times without a timeout, reassembles exactly the
  payload: after the last frame \<open>IsotpRx_Read\<close> returns it, and not before.\<close>

theorem receiver_reassembles:
  assumes "rx_feed (rx, c) (take n (segment pad p)) (rx', c')" and "n \<le> length (segment pad p)"
    and "rx_channel rx = app_channel" and "2 \<le> rx_n_ar_ms rx" and "rx_idle p rx"
    and "0 < length p" and "length p \<le> 4095" and "length p \<le> unat cap"
  shows "if n = length (segment pad p)
    then \<exists>rx''. IsotpRx_Read rx' (Some cap) = (ISOTP_OK, p, rx'')
    else IsotpRx_Read rx' (Some cap) = (ISOTP_ERR_STATE, [], rx')"
proof -
  have at: "rx_at p n rx'"
    using app_port.feed_at [OF assms(1) refl assms(2)] assms(3-7) by simp
  have len: "length (segment pad p) \<noteq> 0" "length (segment 0 p) = length (segment pad p)"
    by (simp_all add: length_segment)
  show ?thesis
  proof (cases "n = length (segment pad p)")
    case True
    with at len have "rx_complete p rx'" by (simp add: rx_at_def)
    from complete_read [OF this assms(8)] True show ?thesis by simp
  next
    case False
    with at assms(2) len have "\<not> rx_message_ready rx'"
      by (auto simp: rx_at_def rx_idle_def rx_collecting_def split: if_splits)
    with False show ?thesis by (simp add: IsotpRx_Read_def)
  qed
qed

text \<open>C1: A transfer that the sending node reports as done, whose frames reach an idle
  receiver on another node in order, delivers exactly the payload to the receiving
  application, up to the protocol's 4095 bytes.\<close>

theorem transfer_delivers_payload:
  assumes "tx_channel tx = app_channel" and "unat len = length p" and "2 \<le> tx_n_as_ms tx"
    and "IsotpTx_Start tx (Some p) len c = (ISOTP_OK, tx1, c1)"
    and "tx_reach on_wire (tx1, c1) (tx2, c2)" and "tx_ongoing tx2"
    and "IsotpTx_Poll tx2 c2 = (ISOTP_OK, tx3, c3)" and "\<not> tx_ongoing tx3"
    and "rx_feed (rx, d) (map snd (drop (length (on_wire c)) (on_wire c3))) (rx', d')"
    and "rx_channel rx = app_channel" and "2 \<le> rx_n_ar_ms rx" and "rx_idle p rx"
    and "length p \<le> unat cap"
  shows "\<exists>rx''. IsotpRx_Read rx' (Some cap) = (ISOTP_OK, p, rx'')"
proof -
  note whole = transfer_complete [OF assms(1-8)]
  have frames: "map snd (drop (length (on_wire c)) (on_wire c3)) = segment (tx_padding tx) p"
    unfolding whole(1) by (simp add: comp_def)
  have "rx_at p (length (segment (tx_padding tx) p)) (fst (rx', d'))"
    using app_port.feed_at [OF assms(9) _ _ _ _ _ whole(2,3), of "length (segment (tx_padding tx) p)" "tx_padding tx"]
      assms(10-12) frames by simp
  then have "rx_complete p rx'"
    using length_segment [of 0 p] length_segment [of "tx_padding tx" p] by (simp add: rx_at_def split: if_splits)
  from complete_read [OF this assms(13)] show ?thesis by blast
qed

subsection \<open>Witnesses\<close>

definition ten_bytes :: "u8 list" where "ten_bytes = [1, 2, 3, 4, 5, 6, 7, 8, 9, 10]"

text \<open>First frame, its flow control (block size 8, no separation time), the consecutive frame,
  and the poll that ends the transfer.\<close>

definition ten_acts :: "tx_action list" where
  "ten_acts = [ActPoll, ActDrain 1, ActPoll, ActFrame [0x30, 8, 0, 0xCC, 0xCC, 0xCC, 0xCC, 0xCC], ActPoll, ActDrain 2]"

lemma ten_run:
  "fst (IsotpTx_Start sample_tx (Some ten_bytes) 10 sample_port) = ISOTP_OK"
  "tx_ongoing (fst (fold tx_act ten_acts (sample_start ten_bytes)))"
  "fst (case fold tx_act ten_acts (sample_start ten_bytes) of (t, c) \<Rightarrow> IsotpTx_Poll t c) = ISOTP_OK"
  "\<not> tx_ongoing (fst (snd (case fold tx_act ten_acts (sample_start ten_bytes) of (t, c) \<Rightarrow> IsotpTx_Poll t c)))"
  by code_simp+

lemma ten_start:
  "IsotpTx_Start sample_tx (Some ten_bytes) 10 sample_port =
    (ISOTP_OK, fst (sample_start ten_bytes), snd (sample_start ten_bytes))"
  using ten_run(1) by (simp add: sample_start_def ten_bytes_def prod_eq_iff)

theorem transfer_sends_only_segmentation_witness:
  "\<exists>n. on_wire (snd (fold tx_act [ActPoll, ActDrain 1, ActPoll] (sample_start ten_bytes))) =
    on_wire sample_port @ map (Pair 0x7E8) (take n (segment 0xCC ten_bytes))"
proof -
  have "tx_reach on_wire (fst (sample_start ten_bytes), snd (sample_start ten_bytes))
      (fst (fold tx_act [ActPoll, ActDrain 1, ActPoll] (sample_start ten_bytes)),
       snd (fold tx_act [ActPoll, ActDrain 1, ActPoll] (sample_start ten_bytes)))"
    using act_reach [of "sample_start ten_bytes" "[ActPoll, ActDrain 1, ActPoll]"] by (simp only: prod.collapse)
  from transfer_sends_only_segmentation [OF sample_tx_fields(1) _ ten_start this] show ?thesis
    by (simp add: ten_bytes_def sample_tx_fields)
qed

text \<open>The states before and after the poll that ends the ten-byte transfer.\<close>

definition ten_last :: "app_port IsotpTx_t \<times> app_port" where
  "ten_last = fold tx_act ten_acts (sample_start ten_bytes)"

lemma ten_end:
  "tx_reach on_wire (fst (sample_start ten_bytes), snd (sample_start ten_bytes)) (fst ten_last, snd ten_last)"
  "tx_ongoing (fst ten_last)"
  "IsotpTx_Poll (fst ten_last) (snd ten_last) =
     (ISOTP_OK, fst (snd (IsotpTx_Poll (fst ten_last) (snd ten_last))), snd (snd (IsotpTx_Poll (fst ten_last) (snd ten_last))))"
  "\<not> tx_ongoing (fst (snd (IsotpTx_Poll (fst ten_last) (snd ten_last))))"
  using act_reach [of "sample_start ten_bytes" ten_acts] ten_run
  by (simp_all add: ten_last_def prod_eq_iff split: prod.splits)

theorem transfer_done_means_sent_witness:
  "on_wire (snd (snd (IsotpTx_Poll (fst ten_last) (snd ten_last)))) =
    on_wire sample_port @ map (Pair 0x7E8) (segment 0xCC ten_bytes)"
  using transfer_done_means_sent [OF sample_tx_fields(1) _ sample_tx_fields(2) ten_start ten_end]
  by (simp add: ten_bytes_def sample_tx_fields)

theorem receiver_reassembles_witness:
  "\<exists>rx''. IsotpRx_Read (fst (fold rx_take (segment 0xCC ten_bytes) (sample_rx, sample_port))) (Some 64) =
    (ISOTP_OK, [1, 2, 3, 4, 5, 6, 7, 8, 9, 10], rx'')"
proof -
  let ?s = "fold rx_take (segment 0xCC ten_bytes) (sample_rx, sample_port)"
  have "rx_feed (sample_rx, sample_port) (take (length (segment 0xCC ten_bytes)) (segment 0xCC ten_bytes))
      (fst ?s, snd ?s)"
    using take_feed [of "(sample_rx, sample_port)" "segment 0xCC ten_bytes"] by simp
  from receiver_reassembles [OF this _ sample_rx_idle(1,2,3), of 64] show ?thesis
    by (simp add: ten_bytes_def)
qed

theorem transfer_delivers_payload_witness:
  "\<exists>rx''. IsotpRx_Read (fst (fold rx_take (map snd (drop (length (on_wire sample_port))
      (on_wire (snd (snd (IsotpTx_Poll (fst ten_last) (snd ten_last))))))) (sample_rx, sample_port))) (Some 64) =
    (ISOTP_OK, [1, 2, 3, 4, 5, 6, 7, 8, 9, 10], rx'')"
proof -
  let ?fs = "map snd (drop (length (on_wire sample_port))
      (on_wire (snd (snd (IsotpTx_Poll (fst ten_last) (snd ten_last))))))"
  let ?s = "fold rx_take ?fs (sample_rx, sample_port)"
  have "rx_feed (sample_rx, sample_port) ?fs (fst ?s, snd ?s)"
    using take_feed [of "(sample_rx, sample_port)" ?fs] by simp
  from transfer_delivers_payload [OF sample_tx_fields(1) _ sample_tx_fields(2) ten_start ten_end this
      sample_rx_idle(1,2,3), of 64]
  show ?thesis by (simp add: ten_bytes_def)
qed

end
