(* ===== verification/UdsAccess.thy ===== *)
theory UdsAccess
  imports UdsServer
begin

section \<open>Sessions and security access of the UDS server\<close>

text \<open>
  What the session and security fields of the server go through: the invariant they satisfy in
  every reachable state, the only way to unlock, the lockout after three wrong keys and its gap,
  and the session timeout.  Every other operation leaves \<open>sec_view\<close> alone, which one lemma
  per operation states.  The contract of the routine handlers and of the save callback is the
  locale \<open>uds_callbacks\<close>.
\<close>

subsection \<open>The security fields\<close>

definition sec_view :: "UdsServer_t \<Rightarrow> u8 \<times> bool \<times> bool \<times> bool \<times> u32 \<times> u8 \<times> u32 \<times> u32 \<times> u32" where
  "sec_view s = (srv_session s, srv_s3_active s, srv_security_unlocked s, srv_seed_pending s,
     srv_pending_seed s, srv_security_attempts s, srv_security_delay_until_ms s,
     srv_security_salt s, srv_seed_state s)"

text \<open>A locked default session, or one of the two others with its timer running; fewer than three
  failed attempts on record.\<close>

definition sec_ok :: "UdsServer_t \<Rightarrow> bool" where
  "sec_ok s \<longleftrightarrow> srv_session s \<in> {UDS_SESSION_DEFAULT, UDS_SESSION_PROGRAMMING, UDS_SESSION_EXTENDED} \<and>
     (srv_s3_active s \<longleftrightarrow> srv_session s \<noteq> UDS_SESSION_DEFAULT) \<and>
     (srv_session s = UDS_SESSION_DEFAULT \<longrightarrow> \<not> srv_security_unlocked s \<and> \<not> srv_seed_pending s) \<and>
     srv_security_attempts s < UDS_SECURITY_MAX_ATTEMPTS"

lemma sec_ok_view: "sec_view s' = sec_view s \<Longrightarrow> sec_ok s \<Longrightarrow> sec_ok s'"
  by (simp add: sec_view_def sec_ok_def)

lemma sec_view_keep [simp]: "sec_view (UdsServer_KeepSessionAlive s now) = sec_view s"
  by (simp add: sec_view_def UdsServer_KeepSessionAlive_def)

lemma sec_view_keep_after [simp]: "sec_view (keep_after r now s) = sec_view s"
  by (simp add: keep_after_def)

lemma sec_view_clear [simp]:
  "sec_view (UdsServer_ClearPendingDid s) = sec_view s"
  "sec_view (UdsServer_ClearPendingRoutine s) = sec_view s"
  "sec_view (record_routine i st r s) = sec_view s"
  "sec_view (UdsServer_ArmPendingRoutine s i f b d) = sec_view s"
  "sec_view (s\<lparr>srv_dids := ds\<rparr>) = sec_view s"
  by (simp_all add: sec_view_def UdsServer_ClearPendingDid_def UdsServer_ClearPendingRoutine_def
      record_routine_def UdsServer_StoreRoutineResult_def UdsServer_ArmPendingRoutine_def Let_def)

lemma sec_view_write: "UdsServer_WriteDid s req cap = (reply, s') \<Longrightarrow> sec_view s' = sec_view s"
  by (auto simp: UdsServer_WriteDid_def UdsServer_ClearPendingDid_def sec_view_def Let_def
      split: sum.splits if_splits)

lemma sec_view_tester: "UdsServer_TesterPresent s now req cap = (reply, s') \<Longrightarrow> sec_view s' = sec_view s"
  by (auto simp: UdsServer_TesterPresent_def Let_def split: if_splits)

text \<open>The callbacks: a routine may change the data identifiers of the server but not its security
  state, and writes at most the result buffer.\<close>

locale uds_callbacks =
  fixes calls :: "'e uds_calls"
  assumes routine_secure:
      "call_routine calls h subf data UDS_ROUTINE_RESULT_MAX (s, e) = (r, s', e') \<Longrightarrow> sec_view s' = sec_view s"
    and routine_result:
      "call_routine calls h subf data UDS_ROUTINE_RESULT_MAX (s, e) = ((status, result), s', e') \<Longrightarrow>
        length result \<le> UDS_ROUTINE_RESULT_MAX"
begin

lemma handler_secure: "call_handler calls i subf data (s, e) = (r, s', e') \<Longrightarrow> sec_view s' = sec_view s"
  unfolding call_handler_def by (rule routine_secure)

lemma run_secure: "run_routine calls i subf data (s, e) = (r, s', e') \<Longrightarrow> sec_view s' = sec_view s"
  by (auto simp: run_routine_def Let_def dest: handler_secure split: prod.splits)

lemma dispatch_secure:
  "routine_dispatch calls i rid subf sp data cap (s, e) = (reply, s', e') \<Longrightarrow> sec_view s' = sec_view s"
  by (auto simp: routine_dispatch_def Let_def dest: run_secure split: prod.splits if_splits)

lemma checked_secure:
  "routine_checked calls i req cap (s, e) = (reply, s', e') \<Longrightarrow> sec_view s' = sec_view s"
  by (auto simp: routine_checked_def Let_def dest: dispatch_secure split: if_splits)

lemma routine_control_secure:
  "UdsServer_RoutineControl calls req cap (s, e) = (reply, s', e') \<Longrightarrow> sec_view s' = sec_view s"
  by (auto simp: UdsServer_RoutineControl_def Let_def dest!: checked_secure split: if_splits)

lemma poll_secure:
  "UdsServer_PollPending calls cap (s, e) = (reply, s', e') \<Longrightarrow> sec_view s' = sec_view s"
  by (auto simp: UdsServer_PollPending_def poll_did_write_def poll_routine_def Let_def
      dest: handler_secure split: option.splits prod.splits if_splits)

end

subsection \<open>What the two services that touch the security fields do\<close>

lemma lock_ok: "sec_ok s \<Longrightarrow> sec_ok (UdsServer_LockSecurityState s)"
  by (auto simp: sec_ok_def UdsServer_LockSecurityState_def UDS_SECURITY_MAX_ATTEMPTS_def)

lemma set_session_ok:
  "sec_ok s \<Longrightarrow> session \<in> {UDS_SESSION_DEFAULT, UDS_SESSION_PROGRAMMING, UDS_SESSION_EXTENDED} \<Longrightarrow>
    sec_ok (UdsServer_SetSession s session now)"
  by (auto simp: sec_ok_def UdsServer_SetSession_def UdsServer_LockSecurityState_def Let_def
      UDS_SECURITY_MAX_ATTEMPTS_def)

lemma tick_ok: "sec_ok s \<Longrightarrow> sec_ok (UdsServer_Tick s now)"
  by (auto simp: sec_ok_def UdsServer_Tick_def UdsServer_LockSecurityState_def UDS_SECURITY_MAX_ATTEMPTS_def)

lemma requested_session:
  "\<not> (w < UDS_SESSION_DEFAULT \<or> UDS_SESSION_EXTENDED < w) \<Longrightarrow>
    w \<in> {UDS_SESSION_DEFAULT, UDS_SESSION_PROGRAMMING, UDS_SESSION_EXTENDED}"
proof -
  assume a: "\<not> (w < UDS_SESSION_DEFAULT \<or> UDS_SESSION_EXTENDED < w)"
  then have "unat w = 1 \<or> unat w = 2 \<or> unat w = 3"
    by (auto simp: uds_consts word_less_nat_alt)
  then show ?thesis by (auto simp: uds_consts word_unat_eq_iff)
qed

lemma session_control_cases:
  assumes "UdsServer_SessionControl s now req cap = (reply, s')"
  shows "s' = s \<or> (\<exists>session \<in> {UDS_SESSION_DEFAULT, UDS_SESSION_PROGRAMMING, UDS_SESSION_EXTENDED}.
    s' = UdsServer_SetSession s session now)"
  using assms requested_session [of "req ! 1 AND UDS_SUBFUNCTION_MASK"]
  by (auto simp: UdsServer_SessionControl_def Let_def split: if_splits)

lemma attempts_inc: "a < 3 \<Longrightarrow> \<not> 3 \<le> a + 1 \<Longrightarrow> a + 1 < (3 :: u8)"
  by simp

text \<open>The key a request carries.\<close>

definition request_key :: "u8 list \<Rightarrow> u32" where
  "request_key req = be32 (req ! 2) (req ! 3) (req ! 4) (req ! 5)"

text \<open>A delay is running at a tick.\<close>

definition delay_active :: "UdsServer_t \<Rightarrow> u32 \<Rightarrow> bool" where
  "delay_active s now \<longleftrightarrow> srv_security_delay_until_ms s \<noteq> 0 \<and>
     \<not> UdsServer_TimeReached now (srv_security_delay_until_ms s)"

text \<open>The request gives the right key for the seed that is out.\<close>

definition right_key :: "UdsServer_t \<Rightarrow> u32 \<Rightarrow> u8 list \<Rightarrow> bool" where
  "right_key s now req \<longleftrightarrow> length req = 6 \<and> req ! 0 = UDS_SID_SECURITY_ACCESS \<and>
     req ! 1 AND UDS_SUBFUNCTION_MASK = UDS_SECURITY_SEND_KEY \<and> srv_seed_pending s \<and>
     request_key req = UdsSecurity_ComputeKey (srv_pending_seed s) (srv_security_salt s) \<and>
     srv_session s \<in> {UDS_SESSION_PROGRAMMING, UDS_SESSION_EXTENDED} \<and> \<not> delay_active s now"

lemma delay_check:
  "UdsServer_SecurityDelayActive s now = (d, s1) \<Longrightarrow>
    d = delay_active s now \<and> srv_session s1 = srv_session s \<and> srv_s3_active s1 = srv_s3_active s \<and>
    srv_security_unlocked s1 = srv_security_unlocked s \<and> srv_seed_pending s1 = srv_seed_pending s \<and>
    srv_pending_seed s1 = srv_pending_seed s \<and> srv_security_salt s1 = srv_security_salt s \<and>
    (srv_security_attempts s1 = srv_security_attempts s \<or> srv_security_attempts s1 = 0) \<and>
    (d \<longrightarrow> s1 = s)"
  by (auto simp: UdsServer_SecurityDelayActive_def delay_active_def split: if_splits)

lemma security_access_cases:
  assumes "UdsServer_SecurityDelayActive s now = (d, s1)"
    and "UdsServer_SecurityAccess s now req cap = (reply, s')"
  shows "s' = s \<or> (srv_session s \<in> {UDS_SESSION_PROGRAMMING, UDS_SESSION_EXTENDED} \<and>
    ((d \<and> s' = s1) \<or>
     (\<not> d \<and> (\<exists>b. security_request_seed s1 b cap = (reply, s'))) \<or>
     (\<not> d \<and> req ! 1 AND UDS_SUBFUNCTION_MASK = UDS_SECURITY_SEND_KEY \<and>
      (\<exists>b. security_send_key s1 now req b cap = (reply, s')))))"
  using assms by (auto simp: UdsServer_SecurityAccess_def Let_def split: if_splits)

lemma request_seed_effect:
  "security_request_seed s b cap = (reply, s') \<Longrightarrow>
    srv_session s' = srv_session s \<and> srv_s3_active s' = srv_s3_active s \<and>
    srv_security_unlocked s' = srv_security_unlocked s \<and> srv_security_attempts s' = srv_security_attempts s \<and>
    srv_security_delay_until_ms s' = srv_security_delay_until_ms s"
  by (auto simp: security_request_seed_def Let_def split: prod.splits if_splits)

lemma send_key_effect:
  "security_send_key s now req b cap = (reply, s') \<Longrightarrow>
    srv_session s' = srv_session s \<and> srv_s3_active s' = srv_s3_active s \<and>
    (srv_seed_pending s' \<longrightarrow> srv_seed_pending s) \<and>
    (srv_security_attempts s < 3 \<longrightarrow> srv_security_attempts s' < 3) \<and>
    (srv_security_unlocked s' \<longrightarrow> srv_security_unlocked s \<or>
      length req = 6 \<and> srv_seed_pending s \<and>
      request_key req = UdsSecurity_ComputeKey (srv_pending_seed s) (srv_security_salt s))"
  using attempts_inc [of "srv_security_attempts s"]
  by (auto simp: security_send_key_def request_key_def Let_def UDS_SECURITY_MAX_ATTEMPTS_def split: if_splits)

lemma security_access_ok:
  assumes "UdsServer_SecurityAccess s now req cap = (reply, s')" and "sec_ok s"
  shows "sec_ok s'"
proof -
  obtain d s1 where d: "UdsServer_SecurityDelayActive s now = (d, s1)" by fastforce
  have one: "sec_ok s1"
    using delay_check [OF d] assms(2) by (auto simp: sec_ok_def UDS_SECURITY_MAX_ATTEMPTS_def)
  note dc = delay_check [OF d]
  show ?thesis
    using security_access_cases [OF d assms(1)]
  proof (elim disjE conjE exE)
    fix b assume "security_request_seed s1 b cap = (reply, s')"
      "srv_session s \<in> {UDS_SESSION_PROGRAMMING, UDS_SESSION_EXTENDED}"
    with request_seed_effect [of s1 b cap reply s'] one dc show ?thesis
      by (auto simp: sec_ok_def uds_consts)
  next
    fix b assume "security_send_key s1 now req b cap = (reply, s')"
      "srv_session s \<in> {UDS_SESSION_PROGRAMMING, UDS_SESSION_EXTENDED}"
    with send_key_effect [of s1 now req b cap reply s'] one dc show ?thesis
      by (auto simp: sec_ok_def uds_consts UDS_SECURITY_MAX_ATTEMPTS_def)
  qed (use assms(2) one in simp_all)
qed

lemma security_access_unlocks:
  assumes "UdsServer_SecurityAccess s now req cap = (reply, s')" and "\<not> srv_security_unlocked s"
    and "srv_security_unlocked s'" and "req ! 0 = UDS_SID_SECURITY_ACCESS"
  shows "right_key s now req"
proof -
  obtain d s1 where d: "UdsServer_SecurityDelayActive s now = (d, s1)" by fastforce
  note dc = delay_check [OF d]
  show ?thesis
    using security_access_cases [OF d assms(1)]
  proof (elim disjE conjE exE)
    fix b assume "security_request_seed s1 b cap = (reply, s')"
    with request_seed_effect [of s1 b cap reply s'] dc assms(2,3) show ?thesis by simp
  next
    fix b assume "security_send_key s1 now req b cap = (reply, s')" "\<not> d"
      "req ! 1 AND UDS_SUBFUNCTION_MASK = UDS_SECURITY_SEND_KEY"
      "srv_session s \<in> {UDS_SESSION_PROGRAMMING, UDS_SESSION_EXTENDED}"
    with send_key_effect [of s1 now req b cap reply s'] dc assms(2,3,4) show ?thesis
      by (auto simp: right_key_def)
  qed (use assms(2,3) dc in simp_all)
qed

text \<open>While a delay runs, security access changes nothing.\<close>

lemma security_access_delayed:
  "delay_active s now \<Longrightarrow> UdsServer_SecurityAccess s now req cap = (reply, s') \<Longrightarrow> s' = s"
  by (auto simp: UdsServer_SecurityAccess_def UdsServer_SecurityDelayActive_def delay_active_def Let_def
      split: if_splits)

subsection \<open>One request\<close>

context uds_callbacks
begin

lemma service_cases:
  assumes "uds_service calls now req cap (s, e) = (reply, s', e')"
  shows "(req ! 0 = UDS_SID_DIAGNOSTIC_SESSION_CONTROL \<and> s' = snd (UdsServer_SessionControl s now req cap)) \<or>
    (req ! 0 = UDS_SID_SECURITY_ACCESS \<and> sec_view s' = sec_view (snd (UdsServer_SecurityAccess s now req cap))) \<or>
    (req ! 0 \<noteq> UDS_SID_DIAGNOSTIC_SESSION_CONTROL \<and> req ! 0 \<noteq> UDS_SID_SECURITY_ACCESS \<and>
     sec_view s' = sec_view s)"
  using assms
  by (auto simp: uds_service_def Let_def uds_consts dest: sec_view_write sec_view_tester routine_control_secure
      split: prod.splits if_splits)

lemma process_cases:
  assumes "UdsServer_Process calls now req len cap (s, e) = (reply, s', e')"
  shows "s' = s \<or> s' = UdsServer_Tick s now \<or>
    (\<exists>c. req \<noteq> None \<and> uds_service calls now (take (unat len) (the req)) c (UdsServer_Tick s now, e) = (reply, s', e'))"
  using assms by (auto simp: UdsServer_Process_def Let_def word_neq_0_conv split: option.splits if_splits)

lemma service_ok:
  assumes "uds_service calls now req cap (s, e) = (reply, s', e')" and "sec_ok s"
  shows "sec_ok s'"
proof -
  obtain r1 s1 where one: "UdsServer_SessionControl s now req cap = (r1, s1)" by fastforce
  obtain r2 s2 where two: "UdsServer_SecurityAccess s now req cap = (r2, s2)" by fastforce
  have "sec_ok s1" using session_control_cases [OF one] set_session_ok [OF assms(2)] assms(2) by auto
  moreover have "sec_ok s2" using security_access_ok [OF two assms(2)] .
  ultimately show ?thesis
    using service_cases [OF assms(1)] one two assms(2) sec_ok_view by auto
qed

lemma process_ok:
  assumes "UdsServer_Process calls now req len cap (s, e) = (reply, s', e')" and "sec_ok s"
  shows "sec_ok s'"
  using process_cases [OF assms(1)] service_ok tick_ok assms(2) by blast

lemma service_unlocks:
  assumes "uds_service calls now req cap (s, e) = (reply, s', e')"
    and "\<not> srv_security_unlocked s" and "srv_security_unlocked s'"
  shows "right_key s now req"
proof -
  obtain r1 s1 where one: "UdsServer_SessionControl s now req cap = (r1, s1)" by fastforce
  obtain r2 s2 where two: "UdsServer_SecurityAccess s now req cap = (r2, s2)" by fastforce
  have "\<not> srv_security_unlocked s1"
    using session_control_cases [OF one] assms(2)
    by (auto simp: UdsServer_SetSession_def UdsServer_LockSecurityState_def Let_def split: if_splits)
  then have "req ! 0 = UDS_SID_SECURITY_ACCESS \<and> srv_security_unlocked s2"
    using service_cases [OF assms(1)] one two assms(2,3) by (auto simp: sec_view_def)
  with security_access_unlocks [OF two assms(2)] show ?thesis by blast
qed

end

subsection \<open>Runs of the server\<close>

datatype uds_event =
    UdsRequest u32 "u8 list option" u16 "u16 option" | UdsTick u32 | UdsPoll "u16 option" | UdsLock

fun uds_step :: "'e uds_calls \<Rightarrow> uds_event \<Rightarrow> UdsServer_t \<times> 'e \<Rightarrow> UdsServer_t \<times> 'e" where
  "uds_step calls (UdsRequest now req len cap) st = snd (UdsServer_Process calls now req len cap st)"
| "uds_step calls (UdsTick now) st = (UdsServer_Tick (fst st) now, snd st)"
| "uds_step calls (UdsPoll cap) st = snd (UdsServer_PollPending calls cap st)"
| "uds_step calls UdsLock st = (UdsServer_LockSecurityState (fst st), snd st)"

lemma start_secure: "sec_ok (server_start cfg s)"
  by (simp add: server_start_def sec_ok_def UdsServer_ClearPendingDid_def UdsServer_ClearPendingRoutine_def
      UDS_SECURITY_MAX_ATTEMPTS_def)

lemma start_locked: "\<not> srv_security_unlocked (server_start cfg s)"
  by (simp add: server_start_def UdsServer_ClearPendingDid_def UdsServer_ClearPendingRoutine_def)

lemma init_locked: "UdsServer_Init s0 config = (True, s) \<Longrightarrow> \<not> srv_security_unlocked s"
  by (auto simp: UdsServer_Init_def Let_def start_locked split: option.splits if_splits)

lemma init_secure: "UdsServer_Init s0 config = (True, s) \<Longrightarrow> sec_ok s"
  by (auto simp: UdsServer_Init_def Let_def start_secure split: option.splits if_splits)

context uds_callbacks
begin

lemma step_ok: "sec_ok (fst st) \<Longrightarrow> sec_ok (fst (uds_step calls ev st))"
proof (cases st)
  fix s e assume ok: "sec_ok (fst st)" and st: "st = (s, e)"
  show ?thesis
  proof (cases ev)
    case (UdsRequest now req len cap)
    obtain reply s' e' where "UdsServer_Process calls now req len cap (s, e) = (reply, s', e')"
      by (metis prod_cases3)
    with process_ok ok st UdsRequest show ?thesis by simp
  next
    case (UdsPoll cap)
    obtain reply s' e' where "UdsServer_PollPending calls cap (s, e) = (reply, s', e')"
      by (metis prod_cases3)
    with poll_secure sec_ok_view ok st UdsPoll show ?thesis by simp
  qed (use ok tick_ok lock_ok in auto)
qed

lemma run_ok: "sec_ok (fst st) \<Longrightarrow> sec_ok (fst (fold (uds_step calls) evs st))"
  by (induction evs arbitrary: st) (simp_all add: step_ok)

end

subsection \<open>Where the unlocked state comes from\<close>

text \<open>An event that gives the server the right key, in the session and before the deadline it
  must be in.\<close>

fun gives_key :: "UdsServer_t \<Rightarrow> uds_event \<Rightarrow> bool" where
  "gives_key s (UdsRequest now (Some r) len (Some cap)) =
     right_key (UdsServer_Tick s now) now (take (unat len) r)"
| "gives_key s _ = False"

text \<open>The states a run passes through, the first and the last included.\<close>

fun uds_states :: "'e uds_calls \<Rightarrow> uds_event list \<Rightarrow> UdsServer_t \<times> 'e \<Rightarrow> (UdsServer_t \<times> 'e) list" where
  "uds_states calls [] st = [st]"
| "uds_states calls (ev # evs) st = st # uds_states calls evs (uds_step calls ev st)"

lemma uds_states_snoc:
  "uds_states calls (evs @ [ev]) st = uds_states calls evs st @ [fold (uds_step calls) (evs @ [ev]) st]"
  by (induction evs arbitrary: st) simp_all

lemma tick_unlocked: "srv_security_unlocked (UdsServer_Tick s now) \<Longrightarrow> UdsServer_Tick s now = s"
  by (cases "srv_s3_active s \<and> UdsServer_TimeReached now (srv_s3_deadline_ms s)")
    (simp_all only: UdsServer_Tick_def UdsServer_LockSecurityState_def if_True if_False, simp_all)

context uds_callbacks
begin

lemma service_keeps_session:
  assumes "uds_service calls now req cap (s, e) = (reply, s', e')"
    and "srv_security_unlocked s" and "srv_security_unlocked s'"
  shows "srv_session s' = srv_session s"
proof -
  obtain r1 s1 where one: "UdsServer_SessionControl s now req cap = (r1, s1)" by fastforce
  obtain r2 s2 where two: "UdsServer_SecurityAccess s now req cap = (r2, s2)" by fastforce
  have a: "srv_security_unlocked s1 \<Longrightarrow> srv_session s1 = srv_session s"
    using session_control_cases [OF one]
    by (auto simp: UdsServer_SetSession_def UdsServer_LockSecurityState_def Let_def split: if_splits)
  obtain d sd where d: "UdsServer_SecurityDelayActive s now = (d, sd)" by fastforce
  have b: "srv_session s2 = srv_session s"
    using security_access_cases [OF d two] delay_check [OF d] request_seed_effect [of sd _ cap r2 s2]
      send_key_effect [of sd now req _ cap r2 s2] by auto
  show ?thesis
    using service_cases [OF assms(1)] one two a b assms(3) by (auto simp: sec_view_def)
qed

lemma step_unlocks:
  assumes "uds_step calls ev (s, e) = (s', e')" and "\<not> srv_security_unlocked s"
    and "srv_security_unlocked s'"
  shows "gives_key s ev"
proof (cases ev)
  case (UdsRequest now req len cap)
  obtain reply where p: "UdsServer_Process calls now req len cap (s, e) = (reply, s', e')"
    using assms(1) UdsRequest by (cases "UdsServer_Process calls now req len cap (s, e)") simp
  have cap: "cap \<noteq> None" using p assms(2,3) by (cases cap) (simp_all add: UdsServer_Process_def)
  have "\<not> srv_security_unlocked (UdsServer_Tick s now)" using assms(2) tick_unlocked by force
  with process_cases [OF p] service_unlocks assms(2,3) UdsRequest cap show ?thesis by fastforce
next
  case (UdsPoll cap)
  obtain reply where "UdsServer_PollPending calls cap (s, e) = (reply, s', e')"
    using assms(1) UdsPoll by (cases "UdsServer_PollPending calls cap (s, e)") simp
  with poll_secure assms(2,3) show ?thesis by (simp add: sec_view_def)
next
  case (UdsTick now)
  with assms tick_unlocked show ?thesis by force
qed (use assms in \<open>auto simp: UdsServer_LockSecurityState_def\<close>)

lemma step_keeps_session:
  assumes "uds_step calls ev (s, e) = (s', e')" and "srv_security_unlocked s"
    and "srv_security_unlocked s'"
  shows "srv_session s' = srv_session s"
proof (cases ev)
  case (UdsRequest now req len cap)
  obtain reply where p: "UdsServer_Process calls now req len cap (s, e) = (reply, s', e')"
    using assms(1) UdsRequest by (cases "UdsServer_Process calls now req len cap (s, e)") simp
  obtain sv: "\<not> srv_security_unlocked (UdsServer_Tick s now) \<or> UdsServer_Tick s now = s"
    using tick_unlocked by blast
  have "\<not> right_key (UdsServer_Tick s now) now r" if "\<not> srv_security_unlocked (UdsServer_Tick s now)" for r
    using that assms(2)
    by (auto simp: right_key_def UdsServer_Tick_def UdsServer_LockSecurityState_def split: if_splits)
  with process_cases [OF p] sv service_keeps_session service_unlocks assms(2,3) show ?thesis by metis
next
  case (UdsPoll cap)
  obtain reply where "UdsServer_PollPending calls cap (s, e) = (reply, s', e')"
    using assms(1) UdsPoll by (cases "UdsServer_PollPending calls cap (s, e)") simp
  with poll_secure show ?thesis by (simp add: sec_view_def)
next
  case (UdsTick now)
  with assms tick_unlocked show ?thesis by force
qed (use assms in \<open>auto simp: UdsServer_LockSecurityState_def\<close>)

lemma run_unlocks:
  assumes "\<not> srv_security_unlocked (fst st)"
    and "srv_security_unlocked (fst (fold (uds_step calls) evs st))"
  shows "\<exists>evs1 ev evs2. evs = evs1 @ ev # evs2 \<and> gives_key (fst (fold (uds_step calls) evs1 st)) ev \<and>
    (\<forall>x \<in> set (uds_states calls evs2 (fold (uds_step calls) (evs1 @ [ev]) st)).
       srv_security_unlocked (fst x) \<and> srv_session (fst x) = srv_session (fst (fold (uds_step calls) evs st)))"
  using assms(2)
proof (induction evs rule: rev_induct)
  case Nil
  with assms(1) show ?case by simp
next
  case (snoc ev evs)
  let ?s = "fold (uds_step calls) evs st"
  let ?s' = "fold (uds_step calls) (evs @ [ev]) st"
  have step: "uds_step calls ev (fst ?s, snd ?s) = (fst ?s', snd ?s')" by simp
  show ?case
  proof (cases "srv_security_unlocked (fst ?s)")
    case False
    with step_unlocks [OF step] snoc.prems have "gives_key (fst ?s) ev" by blast
    with snoc.prems show ?thesis by (intro exI [of _ evs] exI [of _ ev] exI [of _ "[]"]) simp
  next
    case True
    with snoc.IH obtain evs1 ev1 evs2 where ih: "evs = evs1 @ ev1 # evs2"
      "gives_key (fst (fold (uds_step calls) evs1 st)) ev1"
      "\<forall>x \<in> set (uds_states calls evs2 (fold (uds_step calls) (evs1 @ [ev1]) st)).
         srv_security_unlocked (fst x) \<and> srv_session (fst x) = srv_session (fst ?s)"
      by blast
    have same: "srv_session (fst ?s') = srv_session (fst ?s)"
      by (rule step_keeps_session [OF step True snoc.prems])
    have last: "fold (uds_step calls) (evs2 @ [ev]) (fold (uds_step calls) (evs1 @ [ev1]) st) = ?s'"
      by (simp add: ih(1))
    show ?thesis
      by (rule exI [of _ evs1], rule exI [of _ ev1], rule exI [of _ "evs2 @ [ev]"])
        (use ih same last snoc.prems in \<open>simp add: uds_states_snoc\<close>)
  qed
qed

end

subsection \<open>The lockout delay\<close>

lemma time_reached: "UdsServer_TimeReached = tick_reached"
  by (intro ext) (simp add: UdsServer_TimeReached_def tick_reached_def)

lemma time_reached_after:
  "unat d < 2 ^ 31 \<Longrightarrow> unat (t - t0) < 2 ^ 31 \<Longrightarrow> UdsServer_TimeReached t (t0 + d) \<longleftrightarrow> d \<le> t - t0"
  using tick_reached_after [of d "t - t0" t0] by (simp add: time_reached)

text \<open>The requests of a run are made less than \<open>d\<close> milliseconds after \<open>t0\<close>; the other events
  are free.\<close>

fun within :: "u32 \<Rightarrow> u32 \<Rightarrow> uds_event \<Rightarrow> bool" where
  "within t0 d (UdsRequest t req len cap) \<longleftrightarrow> t - t0 < d"
| "within t0 d _ \<longleftrightarrow> True"

definition locked_out :: "u32 \<Rightarrow> UdsServer_t \<Rightarrow> bool" where
  "locked_out t0 s \<longleftrightarrow> srv_security_delay_until_ms s = t0 + UDS_SECURITY_DELAY_MS \<and>
     t0 + UDS_SECURITY_DELAY_MS \<noteq> 0 \<and> \<not> srv_security_unlocked s"

lemma locked_out_delay:
  assumes "locked_out t0 s" and "t - t0 < UDS_SECURITY_DELAY_MS"
  shows "delay_active s t"
proof -
  have "unat (t - t0) < 2 ^ 31" "unat UDS_SECURITY_DELAY_MS < 2 ^ 31"
    using assms(2) by (simp_all add: UDS_SECURITY_DELAY_MS_def word_less_nat_alt)
  with time_reached_after assms show ?thesis by (auto simp: delay_active_def locked_out_def)
qed

lemma locked_out_view: "sec_view s' = sec_view s \<Longrightarrow> locked_out t0 s \<Longrightarrow> locked_out t0 s'"
  by (simp add: sec_view_def locked_out_def)

lemma locked_out_updates:
  assumes "locked_out t0 s"
  shows "locked_out t0 (UdsServer_Tick s now)" and "locked_out t0 (UdsServer_LockSecurityState s)"
    and "locked_out t0 (UdsServer_SetSession s session now)"
  using assms by (auto simp: locked_out_def UdsServer_Tick_def UdsServer_LockSecurityState_def
      UdsServer_SetSession_def Let_def)

context uds_callbacks
begin

lemma service_locked_out:
  assumes "uds_service calls now req cap (s, e) = (reply, s', e')" and "locked_out t0 s"
    and "now - t0 < UDS_SECURITY_DELAY_MS"
  shows "locked_out t0 s'"
proof -
  obtain r1 s1 where one: "UdsServer_SessionControl s now req cap = (r1, s1)" by fastforce
  obtain r2 s2 where two: "UdsServer_SecurityAccess s now req cap = (r2, s2)" by fastforce
  have "locked_out t0 s1" using session_control_cases [OF one] locked_out_updates assms(2) by blast
  moreover have "s2 = s" by (rule security_access_delayed [OF locked_out_delay [OF assms(2,3)] two])
  ultimately show ?thesis
    using service_cases [OF assms(1)] one two assms(2) locked_out_view by auto
qed

lemma step_locked_out:
  assumes "locked_out t0 (fst st)" and "within t0 UDS_SECURITY_DELAY_MS ev"
  shows "locked_out t0 (fst (uds_step calls ev st))"
proof (cases ev)
  case (UdsRequest now req len cap)
  obtain reply s' e' where p: "UdsServer_Process calls now req len cap (fst st, snd st) = (reply, s', e')"
    by (metis prod_cases3)
  with process_cases [OF p] service_locked_out locked_out_updates(1) [OF assms(1)] assms UdsRequest
  have "locked_out t0 s'" by (metis within.simps(1))
  with p UdsRequest show ?thesis by simp
next
  case (UdsPoll cap)
  obtain reply s' e' where p: "UdsServer_PollPending calls cap (fst st, snd st) = (reply, s', e')"
    by (metis prod_cases3)
  with locked_out_view [OF poll_secure [OF p] assms(1)] UdsPoll show ?thesis by simp
qed (use assms locked_out_updates in auto)

lemma run_locked_out:
  "locked_out t0 (fst st) \<Longrightarrow> list_all (within t0 UDS_SECURITY_DELAY_MS) evs \<Longrightarrow>
    locked_out t0 (fst (fold (uds_step calls) evs st))"
  by (induction evs arbitrary: st) (simp_all add: step_locked_out)

end

text \<open>The answer while the delay runs.\<close>

lemma locked_out_answer:
  assumes "locked_out t0 s" and "t - t0 < UDS_SECURITY_DELAY_MS" and "2 \<le> length req"
    and "req ! 1 AND UDS_SUBFUNCTION_MASK \<in> {UDS_SECURITY_REQUEST_SEED, UDS_SECURITY_SEND_KEY}"
    and "srv_session s \<in> {UDS_SESSION_PROGRAMMING, UDS_SESSION_EXTENDED}"
  shows "UdsServer_SecurityAccess s t req cap =
    (UdsServer_Negative cap UDS_SID_SECURITY_ACCESS UDS_NRC_REQUIRED_TIME_DELAY_NOT_EXPIRED, s)"
proof -
  have "UdsServer_SecurityDelayActive s t = (True, s)"
    using locked_out_delay [OF assms(1,2)] by (auto simp: UdsServer_SecurityDelayActive_def delay_active_def)
  with assms(3-5) show ?thesis by (auto simp: UdsServer_SecurityAccess_def Let_def)
qed

text \<open>The third wrong key.\<close>

lemma third_wrong_key:
  assumes "srv_session s \<in> {UDS_SESSION_PROGRAMMING, UDS_SESSION_EXTENDED}"
    and "srv_security_delay_until_ms s = 0" and "srv_seed_pending s" and "\<not> srv_security_unlocked s"
    and "srv_security_attempts s = UDS_SECURITY_MAX_ATTEMPTS - 1"
    and "length req = 6" and "req ! 1 AND UDS_SUBFUNCTION_MASK = UDS_SECURITY_SEND_KEY"
    and "request_key req \<noteq> UdsSecurity_ComputeKey (srv_pending_seed s) (srv_security_salt s)"
    and "UdsServer_SecurityAccess s now req cap = (reply, s')"
  shows "reply = UdsServer_Negative cap UDS_SID_SECURITY_ACCESS UDS_NRC_EXCEED_NUMBER_OF_ATTEMPTS \<and>
    srv_security_delay_until_ms s' = now + UDS_SECURITY_DELAY_MS \<and> \<not> srv_security_unlocked s' \<and>
    srv_security_attempts s' = 0 \<and> srv_session s' = srv_session s"
proof -
  have "UdsServer_SecurityDelayActive s now = (False, s)"
    using assms(2) by (simp add: UdsServer_SecurityDelayActive_def)
  then have "security_send_key s now req (req ! 1 AND UDS_SUPPRESS_POSITIVE_RESPONSE \<noteq> 0) cap = (reply, s')"
    using assms(1,6,7,9)
    by (auto simp: UdsServer_SecurityAccess_def UDS_SECURITY_REQUEST_SEED_def UDS_SECURITY_SEND_KEY_def Let_def)
  with assms show ?thesis
    by (auto simp: security_send_key_def request_key_def UDS_SECURITY_MAX_ATTEMPTS_def Let_def)
qed

lemma tick_keeps: "\<not> (srv_s3_active s \<and> UdsServer_TimeReached now (srv_s3_deadline_ms s)) \<Longrightarrow> UdsServer_Tick s now = s"
  by (auto simp: UdsServer_Tick_def)

end
