(* ===== verification/UdsAnswer.thy ===== *)
theory UdsAnswer
  imports UdsAccess
begin

section \<open>What the UDS server answers\<close>

text \<open>
  The shape and the size of every reply, the restart of the session timer by a positive answer,
  the value a read returns and the conditions of a write.  The reads need the arithmetic of the
  length the server adds up before it copies.
\<close>

subsection \<open>Well-formed replies\<close>

text \<open>A reply to service \<open>sid\<close> fits the buffer and is a positive response, a negative
  response or empty.\<close>

definition reply_ok :: "u8 \<Rightarrow> u16 \<Rightarrow> uds_reply \<Rightarrow> bool" where
  "reply_ok sid cap reply \<longleftrightarrow>
     length (snd reply) \<le> unat cap \<and>
     (if fst reply = UDS_PROCESS_RESPONSE
      then (\<exists>nrc. snd reply = [0x7F, sid, nrc]) \<or> (\<exists>bs. snd reply = (sid + 0x40) # bs)
      else if fst reply = UDS_PROCESS_RESPONSE_PENDING then snd reply = [0x7F, sid, 0x78]
      else snd reply = [])"

lemma negative_ok [simp]: "reply_ok sid cap (UdsServer_Negative cap sid nrc)"
  by (auto simp: reply_ok_def UdsServer_Negative_def UDS_SID_NEGATIVE_RESPONSE_def word_less_nat_alt)

lemma pending_ok [simp]: "reply_ok sid cap (UdsServer_ResponsePending cap sid)"
  by (auto simp: reply_ok_def UdsServer_ResponsePending_def UdsServer_Negative_def
      UDS_SID_NEGATIVE_RESPONSE_def UDS_NRC_RESPONSE_PENDING_def word_less_nat_alt)

lemma positive_ok [simp]: "reply_ok sid cap (positive_reply suppress cap ((sid + 0x40) # bs))"
  by (auto simp: reply_ok_def positive_reply_def)

lemma too_small_ok [simp]: "reply_ok sid cap (UDS_PROCESS_BUFFER_TOO_SMALL, [])"
  "reply_ok sid cap (UDS_PROCESS_NO_RESPONSE, [])"
  "reply_ok sid cap (UDS_PROCESS_INVALID_ARGUMENT, [])"
  by (simp_all add: reply_ok_def)

lemma response_ok: "Suc (length bs) \<le> unat cap \<Longrightarrow> reply_ok sid cap (UDS_PROCESS_RESPONSE, (sid + 0x40) # bs)"
  by (simp add: reply_ok_def)

lemma session_control_reply:
  "UdsServer_SessionControl s now req cap = (reply, s') \<Longrightarrow> reply_ok UDS_SID_DIAGNOSTIC_SESSION_CONTROL cap reply"
  by (auto simp: UdsServer_SessionControl_def Let_def split: if_splits)

lemma tester_reply:
  "UdsServer_TesterPresent s now req cap = (reply, s') \<Longrightarrow> reply_ok UDS_SID_TESTER_PRESENT cap reply"
  by (auto simp: UdsServer_TesterPresent_def Let_def split: if_splits)

lemma security_reply:
  "UdsServer_SecurityAccess s now req cap = (reply, s') \<Longrightarrow> reply_ok UDS_SID_SECURITY_ACCESS cap reply"
  by (auto simp: UdsServer_SecurityAccess_def security_request_seed_def security_send_key_def Let_def
      split: if_splits prod.splits)

lemma write_reply:
  "UdsServer_WriteDid s req cap = (reply, s') \<Longrightarrow> reply_ok UDS_SID_WRITE_DATA_BY_IDENTIFIER cap reply"
  by (auto simp: UdsServer_WriteDid_def Let_def split: if_splits sum.splits)

lemma routine_positive_ok [simp]:
  "reply_ok UDS_SID_ROUTINE_CONTROL cap (UdsServer_RoutinePositive subf rid result suppress cap)"
  by (simp add: UdsServer_RoutinePositive_def)

context uds_callbacks
begin

lemma dispatch_reply:
  "routine_dispatch calls i rid subf sp data cap st = (reply, st') \<Longrightarrow> reply_ok UDS_SID_ROUTINE_CONTROL cap reply"
  by (auto simp: routine_dispatch_def Let_def split: prod.splits if_splits)

lemma routine_reply:
  "UdsServer_RoutineControl calls req cap st = (reply, st') \<Longrightarrow> reply_ok UDS_SID_ROUTINE_CONTROL cap reply"
  by (auto simp: UdsServer_RoutineControl_def routine_checked_def Let_def dest: dispatch_reply split: if_splits)

lemma poll_reply:
  "UdsServer_PollPending calls (Some cap) st = (reply, st') \<Longrightarrow>
    reply_ok UDS_SID_WRITE_DATA_BY_IDENTIFIER cap reply \<or> reply_ok UDS_SID_ROUTINE_CONTROL cap reply"
  by (auto simp: UdsServer_PollPending_def poll_did_write_def poll_routine_def Let_def
      split: prod.splits if_splits)

end

subsection \<open>Reads\<close>

definition did_len :: "UdsServer_t \<Rightarrow> u16 \<Rightarrow> nat" where
  "did_len s did = (case UdsServer_FindDid s did of None \<Rightarrow> 0 | Some i \<Rightarrow> unat (did_length (srv_dids s ! i)))"

lemma length_request_dids: "length (request_dids bs) \<le> length bs div 2"
  by (induction bs rule: request_dids.induct) auto

lemma length_did_value: "length (did_value d) \<le> unat (did_length d)"
  by (simp add: did_value_def split: option.split)

lemma unat_add_small:
  "unat (a :: u32) + n < 2 ^ 32 \<Longrightarrow> unat w \<le> n \<Longrightarrow> unat (a + w) = unat a + unat w"
  by (simp add: unat_add_lem [THEN iffD1])

text \<open>The length the check adds up: three bytes too many per identifier minus the two written,
  that is one spare byte for each.\<close>

lemma read_check_required:
  "read_check s dids r0 = Inr required \<Longrightarrow> unat r0 + 65538 * length dids < 2 ^ 32 \<Longrightarrow>
    unat required = unat r0 + (\<Sum>d\<leftarrow>dids. 3 + did_len s d)"
proof (induction dids arbitrary: r0)
  case (Cons d ds)
  from Cons.prems(1) obtain i where i: "UdsServer_FindDid s d = Some i"
    and rest: "read_check s ds (r0 + (3 + ucast (did_length (srv_dids s ! i)))) = Inr required"
    by (auto split: option.splits if_splits)
  let ?l = "did_length (srv_dids s ! i)"
  have l: "unat (3 + ucast ?l :: u32) = 3 + unat ?l"
    using unat_u16_le [of ?l] unat_add_small [of 3 65535 "ucast ?l"] by simp
  have "unat (r0 + (3 + ucast ?l)) = unat r0 + (3 + unat ?l)"
    using unat_add_small [of r0 65538 "3 + ucast ?l"] l unat_u16_le [of ?l] Cons.prems(2) by simp
  with Cons.IH [OF rest] Cons.prems(2) i unat_u16_le [of ?l] show ?case
    by (simp add: did_len_def)
qed simp

lemma length_read_copy: "length (read_copy s dids) \<le> (\<Sum>d\<leftarrow>dids. 2 + did_len s d)"
proof (induction dids)
  case (Cons d ds)
  then show ?case
    using length_did_value [of "srv_dids s ! the (UdsServer_FindDid s d)"]
    by (auto simp: did_len_def split: option.split)
qed simp

lemma sum_spare: "(\<Sum>d\<leftarrow>dids. 3 + f d) = (\<Sum>d\<leftarrow>dids. 2 + f d) + (length dids :: nat)"
  by (induction dids) auto

lemma request_dids_small:
  "length req \<le> 65535 \<Longrightarrow> 65538 * length (request_dids (drop 1 req)) + 1 < 2 ^ 32"
  using length_request_dids [of "drop 1 req"] by simp

lemma read_reply:
  assumes "length req \<le> 65535"
  shows "reply_ok UDS_SID_READ_DATA_BY_IDENTIFIER cap (UdsServer_ReadDid s req cap)"
proof (cases "read_check s (request_dids (drop 1 req)) 1")
  case (Inr required)
  let ?dids = "request_dids (drop 1 req)"
  have "unat required = 1 + (\<Sum>d\<leftarrow>?dids. 2 + did_len s d) + length ?dids"
    using read_check_required [OF Inr] request_dids_small [OF assms] by (simp add: sum_spare)
  with length_read_copy [of s ?dids]
  have "Suc (length (read_copy s ?dids)) \<le> unat required" by simp
  then have "Suc (length (read_copy s ?dids)) \<le> unat cap" if "required \<le> ucast cap"
    using that by (simp add: word_le_nat_alt)
  with Inr show ?thesis
    by (auto simp: UdsServer_ReadDid_def Let_def not_less intro: response_ok)
qed (simp add: UdsServer_ReadDid_def Let_def)

context uds_callbacks
begin

lemma service_reply:
  assumes "uds_service calls now req cap st = (reply, st')" and "length req \<le> 65535"
  shows "reply_ok (req ! 0) cap reply"
  using assms read_reply [of req cap "fst st"]
  by (auto simp: uds_service_def Let_def
      dest: session_control_reply security_reply write_reply tester_reply routine_reply
      split: prod.splits if_splits)

lemma process_reply:
  assumes "UdsServer_Process calls now req len (Some cap) st = (reply, st')"
  shows "reply_ok (if len = 0 then 0 else the req ! 0) cap reply"
proof (cases "len = 0 \<or> req = None")
  case True
  with assms show ?thesis
    by (auto simp: UdsServer_Process_def Let_def word_neq_0_conv split: if_splits)
next
  case False
  then obtain r where r: "req = Some r" by blast
  with False assms have "uds_service calls now (take (unat len) r) cap (UdsServer_Tick (fst st) now, snd st) = (reply, st')"
    by (simp add: UdsServer_Process_def Let_def)
  moreover have "take (unat len) r ! 0 = r ! 0" using False by (simp add: unat_gt_0)
  ultimately show ?thesis using service_reply [of now "take (unat len) r" cap] False r unat_u16_le [of len] by simp
qed

end

subsection \<open>The session timer\<close>

definition positive_answer :: "uds_reply \<Rightarrow> bool" where
  "positive_answer reply \<longleftrightarrow> fst reply = UDS_PROCESS_RESPONSE_PENDING \<or>
     fst reply = UDS_PROCESS_RESPONSE \<and> snd reply ! 0 \<noteq> 0x7F"

definition timer_restarted :: "u32 \<Rightarrow> UdsServer_t \<Rightarrow> bool" where
  "timer_restarted now s \<longleftrightarrow> (srv_s3_active s \<longrightarrow> srv_s3_deadline_ms s = now + ucast (srv_s3_server_ms s))"

lemma restarted_keep: "timer_restarted now (UdsServer_KeepSessionAlive s now)"
  by (simp add: timer_restarted_def UdsServer_KeepSessionAlive_def)

lemma restarted_set: "timer_restarted now (UdsServer_SetSession s session now)"
  by (simp add: timer_restarted_def UdsServer_SetSession_def UdsServer_LockSecurityState_def Let_def)

lemma restarted_keep_after:
  "positive_answer reply \<Longrightarrow> reply_ok sid cap reply \<Longrightarrow> timer_restarted now (keep_after reply now s)"
  by (auto simp: keep_after_def positive_answer_def reply_ok_def UDS_SID_NEGATIVE_RESPONSE_def restarted_keep)

lemma negative_not_positive [simp]: "\<not> positive_answer (UdsServer_Negative cap sid nrc)"
  by (simp add: positive_answer_def UdsServer_Negative_def UDS_SID_NEGATIVE_RESPONSE_def)

lemma session_control_restarts:
  "UdsServer_SessionControl s now req cap = (reply, s') \<Longrightarrow> positive_answer reply \<Longrightarrow> timer_restarted now s'"
  by (auto simp: UdsServer_SessionControl_def Let_def restarted_set split: if_splits)

lemma tester_restarts:
  "UdsServer_TesterPresent s now req cap = (reply, s') \<Longrightarrow> positive_answer reply \<Longrightarrow> timer_restarted now s'"
  by (auto simp: UdsServer_TesterPresent_def Let_def restarted_keep split: if_splits)

text \<open>The timeout, \<open>t\<close> milliseconds after the restart.\<close>

lemma tick_restarted:
  assumes "timer_restarted now s" and "srv_s3_active s" and "unat t < 2 ^ 31"
  shows "UdsServer_Tick s (now + t) =
    (if ucast (srv_s3_server_ms s) \<le> t
     then UdsServer_LockSecurityState (s\<lparr>srv_session := UDS_SESSION_DEFAULT, srv_s3_active := False,
       srv_s3_deadline_ms := 0, srv_session_timeout_count := srv_session_timeout_count s + 1\<rparr>)
     else s)"
proof -
  have "unat (ucast (srv_s3_server_ms s) :: u32) < 2 ^ 31"
    using unat_u16_le [of "srv_s3_server_ms s"] by simp
  with time_reached_after [of "ucast (srv_s3_server_ms s)" "now + t" now] assms show ?thesis
    by (simp add: UdsServer_Tick_def timer_restarted_def)
qed

context uds_callbacks
begin

lemma service_restarts:
  assumes "uds_service calls now req cap st = (reply, s', e')" and "length req \<le> 65535"
    and "positive_answer reply"
  shows "timer_restarted now s'"
proof -
  note ok = service_reply [OF assms(1,2)]
  show ?thesis
    using assms(1,3) restarted_keep_after [OF assms(3) ok]
    by (auto simp: uds_service_def Let_def dest: session_control_restarts tester_restarts
        split: prod.splits if_splits)
qed

lemma process_restarts:
  assumes "UdsServer_Process calls now req len (Some cap) st = (reply, s', e')" and "positive_answer reply"
  shows "timer_restarted now s'"
proof (cases "len = 0 \<or> req = None")
  case True
  then have "reply = (UDS_PROCESS_INVALID_ARGUMENT, []) \<or>
      reply = UdsServer_Negative cap 0 UDS_NRC_INCORRECT_LENGTH"
    using assms(1) by (auto simp: UdsServer_Process_def Let_def word_neq_0_conv split: if_splits)
  with assms(2) show ?thesis by (auto simp: positive_answer_def) (simp_all add: UdsServer_Negative_def
        UDS_SID_NEGATIVE_RESPONSE_def split: if_splits)
next
  case False
  with assms(1) have "uds_service calls now (take (unat len) (the req)) cap (UdsServer_Tick (fst st) now, snd st) = (reply, s', e')"
    by (auto simp: UdsServer_Process_def Let_def)
  with service_restarts assms(2) unat_u16_le [of len] show ?thesis by simp
qed

end

subsection \<open>Writes\<close>

text \<open>The server may write data identifier \<open>i\<close> with the request: the entry is writable, the
  session and the lock allow it, and the value fits.\<close>

definition write_allowed :: "UdsServer_t \<Rightarrow> u8 list \<Rightarrow> nat \<Rightarrow> bool" where
  "write_allowed s req i \<longleftrightarrow>
     3 \<le> length req \<and> UdsServer_FindDid s (be16 (req ! 1) (req ! 2)) = Some i \<and>
     did_storage (srv_dids s ! i) \<noteq> None \<and> did_write_sessions_mask (srv_dids s ! i) \<noteq> 0 \<and>
     UdsServer_SessionAllowed (did_write_sessions_mask (srv_dids s ! i)) (srv_session s) \<and>
     (did_write_requires_unlock (srv_dids s ! i) \<longrightarrow> srv_security_unlocked s) \<and>
     (did_write_required_session (srv_dids s ! i) \<noteq> 0 \<longrightarrow>
        srv_session s = did_write_required_session (srv_dids s ! i)) \<and>
     length req - 3 \<le> unat (did_storage_capacity (srv_dids s ! i))"

definition pending_write :: "UdsServer_t \<Rightarrow> (u8 \<times> u8 list) option" where
  "pending_write s =
     (if srv_pending_did_write s
      then Some (srv_pending_did_index s, take (unat (srv_pending_did_length s)) (srv_pending_did_data s))
      else None)"

lemma write_check_allowed: "write_check s req = Inr i \<longleftrightarrow> write_allowed s req i"
  by (auto simp: write_check_def write_allowed_def Let_def split: option.split)

lemma write_did_allowed:
  assumes "write_allowed s req i" and "did_storage_save (srv_dids s ! i) = None"
  shows "UdsServer_WriteDid s req cap =
    (positive_reply False cap [0x6E, req ! 1, req ! 2],
     s\<lparr>srv_dids := (srv_dids s)[i := did_store (srv_dids s ! i) (drop 3 req)]\<rparr>)"
  using assms by (simp add: UdsServer_WriteDid_def write_check_allowed [symmetric] Let_def
      UDS_SID_WRITE_DATA_BY_IDENTIFIER_def)

lemma write_did_deferred:
  assumes "write_allowed s req i" and "did_storage_save (srv_dids s ! i) \<noteq> None"
    and "length req - 3 \<le> UDS_PENDING_DID_DATA_MAX"
  shows "UdsServer_WriteDid s req cap =
    (UdsServer_ResponsePending cap 0x2E,
     s\<lparr>srv_pending_did_write := True, srv_pending_did_index := of_nat i,
       srv_pending_did_length := of_nat (length req - 3),
       srv_pending_did_data := buf_write (srv_pending_did_data s) 0 (drop 3 req)\<rparr>)"
  using assms by (auto simp: UdsServer_WriteDid_def write_check_allowed [symmetric] Let_def
      UdsServer_ClearPendingDid_def UDS_SID_WRITE_DATA_BY_IDENTIFIER_def)

text \<open>What a write request may do to the server.\<close>

lemma write_did_cases:
  assumes "UdsServer_WriteDid s req cap = (reply, s')"
  obtains "s' = s"
  | i where "write_allowed s req i"
      "s' = s\<lparr>srv_dids := (srv_dids s)[i := did_store (srv_dids s ! i) (drop 3 req)]\<rparr>"
  | i where "write_allowed s req i" "srv_dids s' = srv_dids s"
proof (cases "write_check s req")
  case (Inl nrc)
  with assms that(1) show ?thesis by (simp add: UdsServer_WriteDid_def Let_def)
next
  case (Inr i)
  then have ok: "write_allowed s req i" by (simp add: write_check_allowed)
  show ?thesis
  proof (cases "did_storage_save (srv_dids s ! i) = None")
    case True
    with write_did_allowed [OF ok True, of cap] assms show ?thesis by (intro that(2) [OF ok]) simp
  next
    case False
    have "srv_dids s' = srv_dids s"
      using assms Inr False
      by (auto simp: UdsServer_WriteDid_def Let_def UdsServer_ClearPendingDid_def split: if_splits)
    then show ?thesis by (rule that(3) [OF ok])
  qed
qed

lemma dids_kept [simp]:
  "srv_dids (UdsServer_Tick s now) = srv_dids s"
  "srv_dids (UdsServer_LockSecurityState s) = srv_dids s"
  "srv_dids (UdsServer_SetSession s session now) = srv_dids s"
  "srv_dids (UdsServer_KeepSessionAlive s now) = srv_dids s"
  "srv_dids (keep_after r now s) = srv_dids s"
  "srv_pending_did_write (UdsServer_Tick s now) = srv_pending_did_write s"
  "srv_pending_did_write (UdsServer_SetSession s session now) = srv_pending_did_write s"
  "srv_pending_did_write (UdsServer_KeepSessionAlive s now) = srv_pending_did_write s"
  "srv_pending_did_write (keep_after r now s) = srv_pending_did_write s"
  by (auto simp: UdsServer_Tick_def UdsServer_LockSecurityState_def UdsServer_SetSession_def Let_def
      UdsServer_KeepSessionAlive_def keep_after_def)

lemma session_control_dids:
  "UdsServer_SessionControl s now req cap = (reply, s') \<Longrightarrow>
    srv_dids s' = srv_dids s \<and> srv_pending_did_write s' = srv_pending_did_write s"
  by (auto simp: UdsServer_SessionControl_def Let_def split: if_splits)

lemma tester_dids:
  "UdsServer_TesterPresent s now req cap = (reply, s') \<Longrightarrow>
    srv_dids s' = srv_dids s \<and> srv_pending_did_write s' = srv_pending_did_write s"
  by (auto simp: UdsServer_TesterPresent_def Let_def split: if_splits)

lemma security_dids:
  "UdsServer_SecurityAccess s now req cap = (reply, s') \<Longrightarrow>
    srv_dids s' = srv_dids s \<and> srv_pending_did_write s' = srv_pending_did_write s"
  by (auto simp: UdsServer_SecurityAccess_def UdsServer_SecurityDelayActive_def security_request_seed_def
      security_send_key_def Let_def split: if_splits prod.splits)

text \<open>Only a permitted write, or a routine, changes a data identifier or leaves a write pending.\<close>

lemma service_write:
  assumes "uds_service calls now req cap (s, e) = (reply, s', e')"
    and "srv_dids s' \<noteq> srv_dids s \<or> srv_pending_did_write s' \<and> \<not> srv_pending_did_write s"
    and "req ! 0 \<noteq> UDS_SID_ROUTINE_CONTROL"
  shows "req ! 0 = UDS_SID_WRITE_DATA_BY_IDENTIFIER \<and>
    (\<exists>i. write_allowed s req i \<and> (\<forall>j. j \<noteq> i \<longrightarrow> srv_dids s' ! j = srv_dids s ! j))"
proof -
  obtain r w where w: "UdsServer_WriteDid s req cap = (r, w)" by fastforce
  have a: "req ! 0 = UDS_SID_WRITE_DATA_BY_IDENTIFIER \<and> srv_dids s' = srv_dids w \<and>
      srv_pending_did_write s' = srv_pending_did_write w"
    using assms w by (auto simp: uds_service_def Let_def dest: session_control_dids tester_dids security_dids
        split: prod.splits if_splits)
  from w show ?thesis
  proof (cases rule: write_did_cases)
    case 1
    with a assms(2) show ?thesis by simp
  next
    case (2 i)
    with a show ?thesis by auto
  next
    case (3 i)
    with a show ?thesis by auto
  qed
qed

subsection \<open>Reading back what was written\<close>

text \<open>The lookup depends on the identifiers of the entries only.\<close>

lemma find_did_Some:
  "UdsServer_FindDid s did = Some i \<Longrightarrow> i < unat (srv_did_count s) \<and> did_id (srv_dids s ! i) = did"
  by (auto simp: UdsServer_FindDid_def find_Some_iff)

lemma find_did_cong:
  "srv_did_count s' = srv_did_count s \<Longrightarrow> map did_id (srv_dids s') = map did_id (srv_dids s) \<Longrightarrow>
    unat (srv_did_count s) \<le> length (srv_dids s) \<Longrightarrow> UdsServer_FindDid s' did = UdsServer_FindDid s did"
proof -
  assume c: "srv_did_count s' = srv_did_count s" and m: "map did_id (srv_dids s') = map did_id (srv_dids s)"
    and l: "unat (srv_did_count s) \<le> length (srv_dids s)"
  have "length (srv_dids s') = length (srv_dids s)" by (metis m length_map)
  then have "did_id (srv_dids s' ! i) = did_id (srv_dids s ! i)" if "i < unat (srv_did_count s)" for i
    using arg_cong [OF m, where f = "\<lambda>xs. xs ! i"] l that by simp
  then show ?thesis
    unfolding UdsServer_FindDid_def c by (intro find_cong) auto
qed

lemma did_store_id [simp]: "did_id (did_store d v) = did_id d"
  "did_read_sessions_mask (did_store d v) = did_read_sessions_mask d"
  by (simp_all add: did_store_def Let_def)

lemma did_store_value:
  "did_storage d = Some m \<Longrightarrow> length v \<le> length m \<Longrightarrow> length v < 65536 \<Longrightarrow>
    did_value (did_store d v) = v \<and> unat (did_length (did_store d v)) = length v"
  using take_buf_write [of 0 v m] by (simp add: did_value_def did_store_def Let_def unat_of_nat)

lemma map_id_store:
  "map did_id (ds[i := did_store (ds ! i) v]) = map did_id ds"
  by (cases "i < length ds") (simp_all add: map_update list_update_same_conv list_update_beyond)

text \<open>A single identifier is answered with its value.\<close>

lemma read_one:
  assumes "UdsServer_FindDid s (be16 a b) = Some i"
    and "UdsServer_SessionAllowed (did_read_sessions_mask (srv_dids s ! i)) (srv_session s)"
    and "4 + unat (did_length (srv_dids s ! i)) \<le> unat cap"
  shows "UdsServer_ReadDid s [0x22, a, b] cap =
    (UDS_PROCESS_RESPONSE, 0x62 # a # b # did_value (srv_dids s ! i))"
proof -
  let ?l = "did_length (srv_dids s ! i)"
  have c: "read_check s [be16 a b] 1 = Inr (1 + (3 + ucast ?l))" using assms(1,2) by simp
  have "unat (1 + (3 + ucast ?l) :: u32) = 4 + unat ?l"
    using unat_u16_le [of ?l] unat_add_small [of 4 65535 "ucast ?l"] by simp
  then have "\<not> (ucast cap :: u32) < 1 + (3 + ucast ?l)"
    using assms(3) by (simp add: word_less_nat_alt)
  with c assms(1) show ?thesis
    by (simp add: UdsServer_ReadDid_def UDS_SID_READ_DATA_BY_IDENTIFIER_def)
qed

text \<open>The server whose entry \<open>i\<close> holds the value.\<close>

definition holds_value :: "UdsServer_t \<Rightarrow> nat \<Rightarrow> u8 list \<Rightarrow> bool" where
  "holds_value s i v \<longleftrightarrow> did_value (srv_dids s ! i) = v \<and> unat (did_length (srv_dids s ! i)) = length v"

context uds_callbacks
begin

text \<open>The commit of a deferred write.\<close>

lemma poll_commits:
  assumes "srv_pending_did_write s" and "srv_pending_did_index s = of_nat i" and "i < 256"
    and "srv_pending_did_length s = of_nat (length v)" and "take (length v) (srv_pending_did_data s) = v"
    and "length v < 65536" and "i < unat (srv_did_count s)" and "did_storage (srv_dids s ! i) \<noteq> None"
    and "length v \<le> unat (did_storage_capacity (srv_dids s ! i))"
    and "did_storage_save (srv_dids s ! i) = Some f"
    and "call_save calls f (did_id (srv_dids s ! i)) v e = (True, e1)"
  shows "UdsServer_PollPending calls (Some cap) (s, e) =
    (positive_reply False cap [0x6E, hi8 (did_id (srv_dids s ! i)), lo8 (did_id (srv_dids s ! i))],
     UdsServer_ClearPendingDid (s\<lparr>srv_dids := (srv_dids s)[i := did_store (srv_dids s ! i) v]\<rparr>), e1)"
proof -
  have i: "unat (srv_pending_did_index s) = i" using assms(2,3) by (simp add: unat_of_nat)
  have l: "unat (srv_pending_did_length s) = length v" using assms(4,6) by (simp add: unat_of_nat)
  have "\<not> srv_did_count s \<le> ucast (srv_pending_did_index s)"
    using i assms(7) by (simp add: word_le_nat_alt)
  moreover have "\<not> did_storage_capacity (srv_dids s ! i) < srv_pending_did_length s"
    using l assms(9) by (simp add: word_less_nat_alt)
  ultimately show ?thesis
    using assms(1,5,8,10,11) i l
    by (auto simp: UdsServer_PollPending_def poll_did_write_def Let_def UDS_SID_WRITE_DATA_BY_IDENTIFIER_def)
qed

end

end
