(* ===== verification/UdsMemory.thy ===== *)
theory UdsMemory
  imports UdsAnswer
begin

section \<open>The arrays of the UDS server\<close>

text \<open>
  The invariant of the memory the server writes: every array keeps the size its declaration
  gives it, every index and length stays inside, and a data identifier never claims more bytes
  than it has.  \<open>uds_memory\<close> extends the contract of the callbacks by the same promise for the
  routines, which may replace the data identifiers.
\<close>

definition did_ok :: "UdsDid_t \<Rightarrow> bool" where
  "did_ok d \<longleftrightarrow>
     (case did_storage d of None \<Rightarrow> did_storage_capacity d = 0 | Some m \<Rightarrow> length m = unat (did_storage_capacity d)) \<and>
     (case did_data d of None \<Rightarrow> did_length d = 0 | Some bs \<Rightarrow> unat (did_length d) \<le> length bs)"

definition mem_ok :: "UdsServer_t \<Rightarrow> bool" where
  "mem_ok s \<longleftrightarrow>
     length (srv_dids s) = UDS_MAX_DIDS \<and> unat (srv_did_count s) \<le> UDS_MAX_DIDS \<and> list_all did_ok (srv_dids s) \<and>
     length (srv_routines s) = UDS_MAX_ROUTINES \<and> unat (srv_routine_count s) \<le> UDS_MAX_ROUTINES \<and>
     length (srv_routine_state s) = UDS_MAX_ROUTINES \<and>
     length (srv_routine_result s) = UDS_MAX_ROUTINES \<and>
     list_all (\<lambda>r. length r = UDS_ROUTINE_RESULT_MAX) (srv_routine_result s) \<and>
     length (srv_routine_result_length s) = UDS_MAX_ROUTINES \<and>
     list_all (\<lambda>n. unat n \<le> UDS_ROUTINE_RESULT_MAX) (srv_routine_result_length s) \<and>
     length (srv_pending_routine_data s) = UDS_PENDING_ROUTINE_DATA_MAX \<and>
     unat (srv_pending_routine_data_length s) \<le> UDS_PENDING_ROUTINE_DATA_MAX \<and>
     unat (srv_pending_routine_index s) < UDS_MAX_ROUTINES \<and>
     length (srv_pending_did_data s) = UDS_PENDING_DID_DATA_MAX \<and>
     unat (srv_pending_did_length s) \<le> UDS_PENDING_DID_DATA_MAX \<and>
     (srv_pending_did_write s \<longrightarrow> unat (srv_pending_did_index s) < UDS_MAX_DIDS)"

text \<open>The fields the invariant reads; operations on the session and the security fields leave
  them alone.\<close>

definition mem_view where
  "mem_view s = (srv_dids s, srv_did_count s, srv_routines s, srv_routine_count s, srv_routine_state s,
     srv_routine_result s, srv_routine_result_length s, srv_pending_routine_data s,
     srv_pending_routine_data_length s, srv_pending_routine_index s, srv_pending_did_data s, srv_pending_did_length s,
     srv_pending_did_write s, srv_pending_did_index s)"

lemma mem_ok_view: "mem_view s' = mem_view s \<Longrightarrow> mem_ok s' = mem_ok s"
  by (simp add: mem_view_def mem_ok_def)

lemma mem_view_updates [simp]:
  "mem_view (UdsServer_LockSecurityState s) = mem_view s"
  "mem_view (UdsServer_Tick s now) = mem_view s"
  "mem_view (UdsServer_SetSession s session now) = mem_view s"
  "mem_view (UdsServer_KeepSessionAlive s now) = mem_view s"
  "mem_view (keep_after r now s) = mem_view s"
  by (simp_all add: mem_view_def UdsServer_LockSecurityState_def UdsServer_Tick_def UdsServer_SetSession_def
      UdsServer_KeepSessionAlive_def keep_after_def Let_def)

lemma mem_view_session: "UdsServer_SessionControl s now req cap = (reply, s') \<Longrightarrow> mem_view s' = mem_view s"
  by (auto simp: UdsServer_SessionControl_def Let_def split: if_splits)

lemma mem_view_tester: "UdsServer_TesterPresent s now req cap = (reply, s') \<Longrightarrow> mem_view s' = mem_view s"
  by (auto simp: UdsServer_TesterPresent_def Let_def split: if_splits)

lemma mem_view_delay: "UdsServer_SecurityDelayActive s now = (d, s') \<Longrightarrow> mem_view s' = mem_view s"
  by (auto simp: UdsServer_SecurityDelayActive_def mem_view_def split: if_splits)

lemma mem_view_seed: "security_request_seed s b cap = (reply, s') \<Longrightarrow> mem_view s' = mem_view s"
  by (auto simp: security_request_seed_def mem_view_def Let_def split: if_splits prod.splits)

lemma mem_view_key: "security_send_key s now req b cap = (reply, s') \<Longrightarrow> mem_view s' = mem_view s"
  by (auto simp: security_send_key_def mem_view_def Let_def split: if_splits)

lemma mem_view_security:
  assumes "UdsServer_SecurityAccess s now req cap = (reply, s')"
  shows "mem_view s' = mem_view s"
proof -
  obtain d s1 where d: "UdsServer_SecurityDelayActive s now = (d, s1)" by fastforce
  from security_access_cases [OF d assms] mem_view_delay [OF d] mem_view_seed mem_view_key
  show ?thesis by metis
qed

subsection \<open>Updates that keep the invariant\<close>

lemma mem_ok_clear [simp]:
  "mem_ok s \<Longrightarrow> mem_ok (UdsServer_ClearPendingDid s)"
  "mem_ok s \<Longrightarrow> mem_ok (UdsServer_ClearPendingRoutine s)"
  by (simp_all add: mem_ok_def UdsServer_ClearPendingDid_def UdsServer_ClearPendingRoutine_def UDS_MAX_ROUTINES_def)

lemma did_store_ok:
  "did_ok d \<Longrightarrow> length v \<le> unat (did_storage_capacity d) \<Longrightarrow> did_ok (did_store d v)"
  using unat_u16_le [of "did_storage_capacity d"]
  by (auto simp: did_ok_def did_store_def Let_def unat_of_nat split: option.splits)

lemma list_all_update: "list_all P xs \<Longrightarrow> P x \<Longrightarrow> list_all P (xs[i := x])"
  by (auto simp: list_all_iff dest!: set_update_subset_insert [THEN subsetD])

lemma mem_ok_dids:
  "mem_ok s \<Longrightarrow> length ds = UDS_MAX_DIDS \<Longrightarrow> list_all did_ok ds \<Longrightarrow> mem_ok (s\<lparr>srv_dids := ds\<rparr>)"
  by (simp add: mem_ok_def)

lemma mem_ok_store:
  assumes "mem_ok s" and "i < UDS_MAX_DIDS" and "length v \<le> unat (did_storage_capacity (srv_dids s ! i))"
  shows "mem_ok (s\<lparr>srv_dids := (srv_dids s)[i := did_store (srv_dids s ! i) v]\<rparr>)"
proof (rule mem_ok_dids [OF assms(1)])
  have "did_ok (srv_dids s ! i)" using assms(1,2) by (simp add: mem_ok_def list_all_length)
  with assms show "list_all did_ok ((srv_dids s)[i := did_store (srv_dids s ! i) v])"
    by (intro list_all_update did_store_ok) (simp_all add: mem_ok_def)
qed (use assms(1) in \<open>simp add: mem_ok_def\<close>)

lemma mem_ok_record:
  assumes "mem_ok s" and "length result \<le> UDS_ROUTINE_RESULT_MAX" and "unat index < UDS_MAX_ROUTINES"
  shows "mem_ok (record_routine index status result s)"
proof -
  have "length (srv_routine_result s ! unat index) = UDS_ROUTINE_RESULT_MAX"
    using assms(1,3) by (simp add: mem_ok_def list_all_length)
  then have "length (buf_write (srv_routine_result s ! unat index) 0 result) = UDS_ROUTINE_RESULT_MAX"
    using assms(2) by simp
  moreover have "unat (of_nat (length result) :: u16) \<le> UDS_ROUTINE_RESULT_MAX"
    using assms(2) by (simp add: unat_of_nat UDS_ROUTINE_RESULT_MAX_def)
  ultimately show ?thesis
    using assms by (simp add: mem_ok_def record_routine_def UdsServer_StoreRoutineResult_def Let_def list_all_update)
qed

lemma mem_ok_arm: "mem_ok s \<Longrightarrow> unat i < UDS_MAX_ROUTINES \<Longrightarrow> mem_ok (UdsServer_ArmPendingRoutine s i f b data)"
  by (simp add: mem_ok_def UdsServer_ArmPendingRoutine_def Let_def unat_of_nat UDS_PENDING_ROUTINE_DATA_MAX_def)

lemma find_did_index: "mem_ok s \<Longrightarrow> UdsServer_FindDid s did = Some i \<Longrightarrow> i < UDS_MAX_DIDS"
  using find_did_Some [of s did i] by (simp add: mem_ok_def)

lemma mem_ok_write:
  assumes "UdsServer_WriteDid s req cap = (reply, s')" and "mem_ok s"
  shows "mem_ok s'"
proof (cases "write_check s req")
  case (Inl nrc)
  with assms show ?thesis by (simp add: UdsServer_WriteDid_def Let_def)
next
  case (Inr i)
  then have ok: "write_allowed s req i" by (simp add: write_check_allowed)
  then have i: "i < UDS_MAX_DIDS" using assms(2) find_did_index by (auto simp: write_allowed_def)
  show ?thesis
  proof (cases "did_storage_save (srv_dids s ! i) = None")
    case True
    with write_did_allowed [OF ok True, of cap] assms ok i show ?thesis
      by (auto simp: write_allowed_def intro!: mem_ok_store)
  next
    case save: False
    show ?thesis
    proof (cases "length req - 3 \<le> UDS_PENDING_DID_DATA_MAX")
      case True
      have "unat (of_nat i :: u8) < UDS_MAX_DIDS"
        using i by (simp add: unat_of_nat UDS_MAX_DIDS_def)
      with write_did_deferred [OF ok save True, of cap] assms True show ?thesis
        by (auto simp: mem_ok_def unat_of_nat UDS_PENDING_DID_DATA_MAX_def)
    next
      case False
      with assms Inr save show ?thesis by (auto simp: UdsServer_WriteDid_def Let_def)
    qed
  qed
qed

subsection \<open>The contract of the routines\<close>

locale uds_memory = uds_callbacks +
  assumes routine_memory:
    "call_routine calls h subf data UDS_ROUTINE_RESULT_MAX (s, e) = (r, s', e') \<Longrightarrow> mem_ok s \<Longrightarrow> mem_ok s'"
begin

lemma handler_memory: "call_handler calls i subf data (s, e) = (r, s', e') \<Longrightarrow> mem_ok s \<Longrightarrow> mem_ok s'"
  unfolding call_handler_def by (rule routine_memory)

lemma handler_result:
  "call_handler calls i subf data (s, e) = ((status, result), s', e') \<Longrightarrow> length result \<le> UDS_ROUTINE_RESULT_MAX"
  unfolding call_handler_def by (rule routine_result)

lemma run_memory:
  "run_routine calls i subf data (s, e) = (r, s', e') \<Longrightarrow> mem_ok s \<Longrightarrow> unat i < UDS_MAX_ROUTINES \<Longrightarrow> mem_ok s'"
  by (auto simp: run_routine_def Let_def intro!: mem_ok_record dest: handler_result handler_memory split: prod.splits)

lemma dispatch_memory:
  "routine_dispatch calls i rid subf sp data cap (s, e) = (reply, s', e') \<Longrightarrow> mem_ok s \<Longrightarrow>
    unat i < UDS_MAX_ROUTINES \<Longrightarrow> mem_ok s'"
  by (auto simp: routine_dispatch_def Let_def dest: run_memory intro!: mem_ok_arm split: prod.splits if_splits)

lemma routine_control_memory:
  "UdsServer_RoutineControl calls req cap (s, e) = (reply, s', e') \<Longrightarrow> mem_ok s \<Longrightarrow> mem_ok s'"
  by (auto simp: UdsServer_RoutineControl_def routine_checked_def Let_def not_le dest: dispatch_memory split: if_splits)

lemma service_memory:
  assumes "uds_service calls now req cap (s, e) = (reply, s', e')" and "mem_ok s"
  shows "mem_ok s'"
proof -
  obtain r1 s1 where 1: "UdsServer_SessionControl s now req cap = (r1, s1)" by fastforce
  obtain r2 s2 where 2: "UdsServer_SecurityAccess s now req cap = (r2, s2)" by fastforce
  obtain r3 s3 where 3: "UdsServer_WriteDid s req cap = (r3, s3)" by fastforce
  obtain r4 s4 where 4: "UdsServer_TesterPresent s now req cap = (r4, s4)" by fastforce
  obtain r5 s5 e5 where 5: "UdsServer_RoutineControl calls req cap (s, e) = (r5, s5, e5)" by (metis prod_cases3)
  have "mem_ok s1" "mem_ok s2" "mem_ok s3" "mem_ok s4" "mem_ok s5"
    using mem_ok_view [OF mem_view_session [OF 1]] mem_ok_view [OF mem_view_security [OF 2]]
      mem_ok_write [OF 3] mem_ok_view [OF mem_view_tester [OF 4]] routine_control_memory [OF 5] assms(2)
    by simp_all
  then have "mem_ok (keep_after (UdsServer_ReadDid s req cap) now s)" "mem_ok (keep_after r2 now s2)" "mem_ok (keep_after r3 now s3)"
    "mem_ok (keep_after r5 now s5)"
    using assms(2) by (simp_all add: mem_ok_view [OF mem_view_updates(5)])
  with \<open>mem_ok s1\<close> \<open>mem_ok s4\<close> assms 1 2 3 4 5 show ?thesis
    by (auto simp: uds_service_def Let_def split: if_split_asm)
qed

lemma process_memory:
  assumes "UdsServer_Process calls now req len cap (s, e) = (reply, s', e')" and "mem_ok s"
  shows "mem_ok s'"
proof -
  have "mem_ok (UdsServer_Tick s now)" using assms(2) mem_ok_view mem_view_updates(2) by blast
  with process_cases [OF assms(1)] service_memory assms(2) show ?thesis by blast
qed

lemma poll_write_memory:
  assumes "poll_did_write calls cap (s, e) = (reply, s', e')" and "mem_ok s" and "srv_pending_did_write s"
  shows "mem_ok s'"
proof -
  let ?i = "unat (srv_pending_did_index s)"
  let ?v = "take (unat (srv_pending_did_length s)) (srv_pending_did_data s)"
  have i: "?i < UDS_MAX_DIDS" using assms(2,3) by (simp add: mem_ok_def)
  have "s' = UdsServer_ClearPendingDid s \<or>
    \<not> did_storage_capacity (srv_dids s ! ?i) < srv_pending_did_length s \<and>
    s' = UdsServer_ClearPendingDid (s\<lparr>srv_dids := (srv_dids s)[?i := did_store (srv_dids s ! ?i) ?v]\<rparr>)"
    using assms(1) by (auto simp: poll_did_write_def Let_def split: if_splits prod.splits)
  moreover have "length ?v \<le> unat (did_storage_capacity (srv_dids s ! ?i))"
    if "\<not> did_storage_capacity (srv_dids s ! ?i) < srv_pending_did_length s"
    using that by (simp add: word_less_nat_alt not_less)
  ultimately show ?thesis using mem_ok_store [OF assms(2) i] assms(2) by auto
qed

lemma poll_memory:
  assumes "UdsServer_PollPending calls cap (s, e) = (reply, s', e')" and "mem_ok s"
  shows "mem_ok s'"
proof (cases cap)
  case None
  with assms show ?thesis by (simp add: UdsServer_PollPending_def)
next
  case (Some c)
  show ?thesis
  proof (cases "srv_pending_did_write s")
    case True
    with assms Some poll_write_memory show ?thesis by (simp add: UdsServer_PollPending_def)
  next
    case False
    have index: "unat (srv_pending_routine_index x) < UDS_MAX_ROUTINES" if "mem_ok x" for x
      using that by (simp add: mem_ok_def)
    from False assms Some show ?thesis
      by (auto simp: UdsServer_PollPending_def poll_routine_def Let_def dest: handler_result handler_memory
          intro!: mem_ok_record mem_ok_clear index split: if_splits prod.splits)
  qed
qed

lemma step_memory:
  assumes "mem_ok (fst st)"
  shows "mem_ok (fst (uds_step calls ev st))"
proof (cases ev)
  case (UdsRequest now req len cap)
  obtain reply s' e' where p: "UdsServer_Process calls now req len cap (fst st, snd st) = (reply, s', e')"
    by (metis prod_cases3)
  with process_memory [OF p assms] UdsRequest show ?thesis by simp
next
  case (UdsPoll cap)
  obtain reply s' e' where p: "UdsServer_PollPending calls cap (fst st, snd st) = (reply, s', e')"
    by (metis prod_cases3)
  with poll_memory [OF p assms] UdsPoll show ?thesis by simp
qed (use assms in \<open>simp_all add: mem_ok_view [OF mem_view_updates(1)] mem_ok_view [OF mem_view_updates(2)]\<close>)

lemma run_memory_ok: "mem_ok (fst st) \<Longrightarrow> mem_ok (fst (fold (uds_step calls) evs st))"
  by (induction evs arbitrary: st) (simp_all add: step_memory)

end

subsection \<open>Initialisation\<close>

lemma dids_copied_le: "dids_copied previous ds \<le> length ds"
  by (induction previous ds rule: dids_copied.induct) auto

lemma routines_copied_le: "routines_copied previous rs \<le> length rs"
  by (induction previous rs rule: routines_copied.induct) auto

lemma list_all_take: "list_all P xs \<Longrightarrow> list_all P (take n xs)"
  by (auto simp: list_all_iff dest: in_set_takeD)

lemma list_all_buf_write: "list_all P xs \<Longrightarrow> list_all P ys \<Longrightarrow> list_all P (buf_write xs off ys)"
  by (auto simp: buf_write_def list_all_iff dest: in_set_takeD in_set_dropD)

lemma mem_ok_start:
  assumes "mem_ok s" and "unat (ucfg_did_count cfg) \<le> UDS_MAX_DIDS" and "unat (ucfg_routine_count cfg) \<le> UDS_MAX_ROUTINES"
  shows "mem_ok (server_start cfg s)"
  using assms by (simp add: server_start_def mem_ok_def UdsServer_ClearPendingDid_def
      UdsServer_ClearPendingRoutine_def list_all_iff UDS_MAX_ROUTINES_def)

lemma mem_ok_routines:
  "mem_ok s \<Longrightarrow> length rs = UDS_MAX_ROUTINES \<Longrightarrow> mem_ok (s\<lparr>srv_routines := rs\<rparr>)"
  by (simp add: mem_ok_def)

lemma init_memory:
  assumes "UdsServer_Init s config = (ok, s')" and "mem_ok s"
    and "\<And>cfg ds. config = Some cfg \<Longrightarrow> ucfg_dids cfg = Some ds \<Longrightarrow> list_all did_ok ds"
  shows "mem_ok s'"
proof (cases config)
  case None
  with assms show ?thesis by (simp add: UdsServer_Init_def)
next
  case (Some cfg)
  let ?dids = "take (unat (ucfg_did_count cfg)) (case ucfg_dids cfg of Some ds \<Rightarrow> ds | None \<Rightarrow> [])"
  let ?rtns = "take (unat (ucfg_routine_count cfg)) (case ucfg_routines cfg of Some rs \<Rightarrow> rs | None \<Rightarrow> [])"
  let ?s1 = "s\<lparr>srv_dids := buf_write (srv_dids s) 0 (take (dids_copied [] ?dids) ?dids)\<rparr>"
  let ?s2 = "?s1\<lparr>srv_routines := buf_write (srv_routines ?s1) 0 (take (routines_copied [] ?rtns) ?rtns)\<rparr>"
  have good: "list_all did_ok ?dids"
    using assms(3) [OF Some] by (auto simp: list_all_iff dest: in_set_takeD split: option.split)
  have 1: "mem_ok ?s1" if "unat (ucfg_did_count cfg) \<le> UDS_MAX_DIDS"
  proof (rule mem_ok_dids [OF assms(2)])
    show "length (buf_write (srv_dids s) 0 (take (dids_copied [] ?dids) ?dids)) = UDS_MAX_DIDS"
      using assms(2) that by (simp add: mem_ok_def)
    show "list_all did_ok (buf_write (srv_dids s) 0 (take (dids_copied [] ?dids) ?dids))"
      using assms(2) list_all_take [OF good] by (intro list_all_buf_write) (simp_all add: mem_ok_def)
  qed
  have 2: "mem_ok ?s2" if "unat (ucfg_did_count cfg) \<le> UDS_MAX_DIDS" "unat (ucfg_routine_count cfg) \<le> UDS_MAX_ROUTINES"
    using 1 that assms(2) by (intro mem_ok_routines) (simp_all add: mem_ok_def)
  have "s' = s \<or> unat (ucfg_did_count cfg) \<le> UDS_MAX_DIDS \<and> unat (ucfg_routine_count cfg) \<le> UDS_MAX_ROUTINES \<and>
      (s' = ?s1 \<or> s' = ?s2 \<or> s' = server_start cfg ?s2)"
    using assms(1) Some unfolding UdsServer_Init_def Let_def by (simp add: not_less split: if_split_asm)
  with 1 2 mem_ok_start assms(2) show ?thesis by auto
qed

end
