(* ===== verification/UdsEcu.thy ===== *)
theory UdsEcu
  imports UdsDidDb UdsMemory
begin

section \<open>The ECU: server, data identifiers and routines\<close>

text \<open>
  \<open>firmware/common/uds_ecu.c\<close>.  \<open>UdsEcu_t\<close> is the server together with the rest of the record,
  \<open>ecu_rest\<close>, which also carries the application state \<open>'a\<close> behind the hooks and the storage.
  The two routines are named by their contexts: 0 is \<open>self_test_context\<close>, 1 is
  \<open>erase_context\<close>.  \<open>ecu_calls\<close> are the callbacks the server then meets, and they satisfy the
  server's contract.
\<close>

definition UDS_ROUTINE_ID_SELF_TEST :: u16 where "UDS_ROUTINE_ID_SELF_TEST = 0x0203"
definition UDS_ROUTINE_ID_ERASE :: u16 where "UDS_ROUTINE_ID_ERASE = 0xFF00"
definition UDS_ECU_ROUTINE_COUNT :: u16 where "UDS_ECU_ROUTINE_COUNT = 2"

record 'a UdsEcuHooks_t =
  hook_self_test :: "('a \<Rightarrow> u8 \<times> 'a) option"
  hook_erase_params :: "('a \<Rightarrow> bool \<times> 'a) option"

record UdsEcuRoutineContext_t =
  ctx_owner :: bool
  ctx_polls :: u8
  ctx_executed :: bool
  ctx_result :: u8

record 'a ecu_rest =
  ecu_did_db :: UdsDidDb_t
  ecu_variant :: UdsEcuVariant_t
  ecu_storage :: "'a UdsDidStorage_t"
  ecu_has_storage :: bool
  ecu_hooks :: "'a UdsEcuHooks_t"
  ecu_self_test_context :: UdsEcuRoutineContext_t
  ecu_erase_context :: UdsEcuRoutineContext_t
  ecu_routines :: "UdsRoutine_t list"
  ecu_app :: 'a

type_synonym 'a UdsEcu_t = "UdsServer_t \<times> 'a ecu_rest"

definition UdsEcu_CopyDidsToServer :: "'a UdsEcu_t \<Rightarrow> 'a UdsEcu_t" where
  "UdsEcu_CopyDidsToServer ecu =
     (let db = ecu_did_db (snd ecu);
          n = unat (db_did_count db)
      in ((fst ecu)\<lparr>srv_did_count := db_did_count db,
                   srv_dids := buf_write (srv_dids (fst ecu)) 0 (take n (db_dids db))\<rparr>, snd ecu))"

definition UdsEcu_ResetDids :: "'a UdsEcu_t \<Rightarrow> 'a UdsEcu_t" where
  "UdsEcu_ResetDids ecu =
     (let s = fst ecu; r = snd ecu;
          db = UdsDidDb_Init (ecu_variant r);
          (db1, a1) = (if ecu_has_storage r then UdsDidDb_AttachStorage db (Some (ecu_storage r)) (ecu_app r)
                       else (db, ecu_app r))
      in UdsEcu_CopyDidsToServer (s, r\<lparr>ecu_did_db := db1, ecu_app := a1\<rparr>))"

definition routine_context :: "nat \<Rightarrow> 'a ecu_rest \<Rightarrow> UdsEcuRoutineContext_t" where
  "routine_context h r = (if h = 0 then ecu_self_test_context r else ecu_erase_context r)"

definition set_routine_context :: "nat \<Rightarrow> UdsEcuRoutineContext_t \<Rightarrow> 'a ecu_rest \<Rightarrow> 'a ecu_rest" where
  "set_routine_context h c r =
     (if h = 0 then r\<lparr>ecu_self_test_context := c\<rparr> else r\<lparr>ecu_erase_context := c\<rparr>)"

text \<open>The work of a routine, done once.\<close>

definition execute_routine :: "nat \<Rightarrow> 'a UdsEcu_t \<Rightarrow> 'a UdsEcu_t" where
  "execute_routine h ecu =
     (let s = fst ecu; r = snd ecu; c = routine_context h r in
      if h = 0 then
        let (v, a1) = (case hook_self_test (ecu_hooks r) of None \<Rightarrow> (0, ecu_app r) | Some f \<Rightarrow> f (ecu_app r))
        in (s, set_routine_context h (c\<lparr>ctx_result := v, ctx_executed := True\<rparr>) (r\<lparr>ecu_app := a1\<rparr>))
      else
        let (erased, a1) = (case hook_erase_params (ecu_hooks r) of None \<Rightarrow> (True, ecu_app r)
                            | Some f \<Rightarrow> f (ecu_app r));
            r1 = set_routine_context h (c\<lparr>ctx_result := (if erased then 0 else 1), ctx_executed := True\<rparr>)
                   (r\<lparr>ecu_app := a1\<rparr>)
        in if erased then UdsEcu_ResetDids (s, r1) else (s, r1))"

definition UdsEcu_RoutineHandler ::
  "nat \<Rightarrow> u8 \<Rightarrow> nat \<Rightarrow> 'a UdsEcu_t \<Rightarrow> (UdsRoutineStatus_t \<times> u8 list) \<times> 'a UdsEcu_t" where
  "UdsEcu_RoutineHandler h subf capacity ecu =
     (let r = snd ecu; c = routine_context h r in
      if \<not> ctx_owner c then ((UDS_ROUTINE_FAILED, []), ecu)
      else if subf = UDS_ROUTINE_START then
        ((UDS_ROUTINE_RUNNING, []),
         fst ecu, set_routine_context h (c\<lparr>ctx_polls := 0, ctx_executed := False\<rparr>) r)
      else if subf = UDS_ROUTINE_STOP then
        ((UDS_ROUTINE_IDLE, []),
         fst ecu, set_routine_context h (c\<lparr>ctx_polls := 0, ctx_executed := False\<rparr>) r)
      else if subf \<noteq> UDS_ROUTINE_REQUEST_RESULTS then ((UDS_ROUTINE_FAILED, []), ecu)
      else if \<not> ctx_executed c \<and> ctx_polls c = 0 then
        ((UDS_ROUTINE_RUNNING, []), fst ecu, set_routine_context h (c\<lparr>ctx_polls := 1\<rparr>) r)
      else let ecu1 = (if ctx_executed c then ecu else execute_routine h ecu)
           in ((UDS_ROUTINE_COMPLETE,
                if 0 < capacity then [ctx_result (routine_context h (snd ecu1))] else []), ecu1))"

definition ecu_calls :: "('a ecu_rest) uds_calls" where
  "ecu_calls =
     \<lparr>call_routine = (\<lambda>h subf data capacity ecu. UdsEcu_RoutineHandler h subf capacity ecu),
      call_save = (\<lambda>_ did data r.
        case st_save (ecu_storage r) of None \<Rightarrow> (False, r)
        | Some f \<Rightarrow> let (ok, a1) = f did data (ecu_app r) in (ok, r\<lparr>ecu_app := a1\<rparr>))\<rparr>"

definition ecu_config :: "UdsDidDb_t \<Rightarrow> UdsRoutine_t list \<Rightarrow> UdsServerConfig_t" where
  "ecu_config db routines =
     \<lparr>ucfg_dids = Some (db_dids db), ucfg_did_count = db_did_count db,
      ucfg_routines = Some routines, ucfg_routine_count = UDS_ECU_ROUTINE_COUNT,
      ucfg_p2_server_ms = UDS_DEFAULT_P2_SERVER_MS,
      ucfg_p2_star_server_ms = UDS_DEFAULT_P2_STAR_SERVER_MS,
      ucfg_s3_server_ms = UDS_DEFAULT_S3_SERVER_MS,
      ucfg_supported_sessions_mask = UDS_DEFAULT_SESSION_MASK,
      ucfg_security_salt = UDS_DEFAULT_SECURITY_SALT\<rparr>"

definition UdsEcu_InitWithHooks ::
  "'a UdsEcu_t \<Rightarrow> UdsEcuVariant_t \<Rightarrow> 'a UdsDidStorage_t option \<Rightarrow> 'a UdsEcuHooks_t option \<Rightarrow> 'a UdsEcu_t" where
  "UdsEcu_InitWithHooks ecu variant storage hooks =
     (let r = snd ecu;
          r1 = r\<lparr>ecu_variant := variant, ecu_has_storage := (storage \<noteq> None),
                ecu_storage := (case storage of Some st \<Rightarrow> st | None \<Rightarrow> ecu_storage r),
                ecu_hooks := (case hooks of Some h \<Rightarrow> h
                              | None \<Rightarrow> \<lparr>hook_self_test = None, hook_erase_params = None\<rparr>)\<rparr>;
          (db, a1) = UdsDidDb_AttachStorage (UdsDidDb_Init variant) storage (ecu_app r1);
          blank = \<lparr>ctx_owner = True, ctx_polls = 0, ctx_executed = False, ctx_result = 0\<rparr>;
          self_test = \<lparr>rtn_id = UDS_ROUTINE_ID_SELF_TEST, rtn_sessions_mask = UDS_EXTENDED_PROGRAMMING_MASK,
                       rtn_requires_unlock = False, rtn_handler = Some 0\<rparr>;
          erase = \<lparr>rtn_id = UDS_ROUTINE_ID_ERASE, rtn_sessions_mask = UDS_EXTENDED_PROGRAMMING_MASK,
                   rtn_requires_unlock = True, rtn_handler = Some 1\<rparr>;
          r2 = r1\<lparr>ecu_did_db := db, ecu_app := a1, ecu_self_test_context := blank,
                 ecu_erase_context := blank, ecu_routines := [self_test, erase]\<rparr>
      in (snd (UdsServer_Init (fst ecu) (Some (ecu_config db (ecu_routines r2)))), r2))"

definition UdsEcu_InitWithStorage ::
  "'a UdsEcu_t \<Rightarrow> UdsEcuVariant_t \<Rightarrow> 'a UdsDidStorage_t option \<Rightarrow> 'a UdsEcu_t" where
  "UdsEcu_InitWithStorage ecu variant storage = UdsEcu_InitWithHooks ecu variant storage None"

definition UdsEcu_Init :: "'a UdsEcu_t \<Rightarrow> UdsEcuVariant_t \<Rightarrow> 'a UdsEcu_t" where
  "UdsEcu_Init ecu variant = UdsEcu_InitWithHooks ecu variant None None"

text \<open>The three entry points hand a null ECU back as \<open>UDS_PROCESS_INVALID_ARGUMENT\<close>.\<close>

definition UdsEcu_Tick :: "'a UdsEcu_t \<Rightarrow> u32 \<Rightarrow> 'a UdsEcu_t" where
  "UdsEcu_Tick ecu now = (UdsServer_Tick (fst ecu) now, snd ecu)"

definition UdsEcu_Process ::
  "'a UdsEcu_t \<Rightarrow> u32 \<Rightarrow> u8 list option \<Rightarrow> u16 \<Rightarrow> u16 option \<Rightarrow> uds_reply \<times> 'a UdsEcu_t" where
  "UdsEcu_Process ecu now request len capacity = UdsServer_Process ecu_calls now request len capacity ecu"

definition UdsEcu_PollPending :: "'a UdsEcu_t \<Rightarrow> u16 option \<Rightarrow> uds_reply \<times> 'a UdsEcu_t" where
  "UdsEcu_PollPending ecu capacity = UdsServer_PollPending ecu_calls capacity ecu"

subsection \<open>The ECU's callbacks satisfy the server's contract\<close>

lemma sec_view_copy [simp]: "sec_view (fst (UdsEcu_CopyDidsToServer ecu)) = sec_view (fst ecu)"
  by (simp add: UdsEcu_CopyDidsToServer_def sec_view_def Let_def)

lemma sec_view_execute [simp]: "sec_view (fst (execute_routine h ecu)) = sec_view (fst ecu)"
  by (simp add: execute_routine_def UdsEcu_ResetDids_def Let_def split: prod.split)

lemma handler_keeps_security:
  "UdsEcu_RoutineHandler h subf capacity ecu = (r, ecu') \<Longrightarrow> sec_view (fst ecu') = sec_view (fst ecu)"
  by (auto simp: UdsEcu_RoutineHandler_def Let_def split: if_splits)

text \<open>Resetting the identifiers: six entries whose storage has the declared size, whatever the
  storage backend loads.\<close>

lemma did_db_ok: "list_all did_ok (db_dids (UdsDidDb_Init variant)) \<and> length (db_dids (UdsDidDb_Init variant)) = 8 \<and>
    db_did_count (UdsDidDb_Init variant) = 6"
proof (cases variant)
  case UDS_ECU_F407
  then show ?thesis by (simp only:) code_simp
next
  case UDS_ECU_F103
  then show ?thesis by (simp only:) code_simp
qed

lemma attach_did_ok: "did_ok d \<Longrightarrow> attach_did st d a = (d', a') \<Longrightarrow> did_ok d'"
proof (cases "did_write_sessions_mask d = 0 \<or> did_storage d = None \<or> did_storage_capacity d = 0")
  case False
  assume ok: "did_ok d" and at: "attach_did st d a = (d', a')"
  let ?d1 = "d\<lparr>did_storage_load := map_option (\<lambda>_. 0) (st_load st),
      did_storage_save := map_option (\<lambda>_. 0) (st_save st)\<rparr>"
  have one: "did_ok ?d1" using ok by (auto simp: did_ok_def split: option.splits)
  have "d' = ?d1 \<or> (\<exists>bs. length bs \<le> unat (did_storage_capacity ?d1) \<and> d' = did_store ?d1 bs)"
    using at False by (auto simp: attach_did_def Let_def not_less split: option.splits prod.splits if_splits)
  with one did_store_ok show ?thesis by blast
qed (simp add: attach_did_def)

lemma attach_dids_ok:
  "list_all did_ok ds \<Longrightarrow> attach_dids st ds a = (ds', a') \<Longrightarrow> list_all did_ok ds' \<and> length ds' = length ds"
proof (induction ds arbitrary: a ds' a')
  case (Cons d ds)
  obtain d1 a1 where 1: "attach_did st d a = (d1, a1)" by fastforce
  obtain ds1 a2 where 2: "attach_dids st ds a1 = (ds1, a2)" by fastforce
  from Cons.IH [OF _ 2] attach_did_ok [OF _ 1] Cons.prems 1 2 show ?case by auto
qed simp

lemma attach_storage_ok:
  assumes "UdsDidDb_AttachStorage (UdsDidDb_Init variant) storage a = (db, a')"
  shows "list_all did_ok (db_dids db) \<and> length (db_dids db) = 8 \<and> db_did_count db = 6"
proof (cases storage)
  case None
  with assms did_db_ok show ?thesis by (auto simp: UdsDidDb_AttachStorage_def)
next
  case (Some st)
  obtain ds a1 where d: "attach_dids st (take 6 (db_dids (UdsDidDb_Init variant))) a = (ds, a1)" by fastforce
  have t: "list_all did_ok (take 6 (db_dids (UdsDidDb_Init variant)))"
    "list_all did_ok (drop 6 (db_dids (UdsDidDb_Init variant)))"
    using did_db_ok [of variant] by (auto simp: list_all_iff dest: in_set_takeD in_set_dropD)
  have "db = (UdsDidDb_Init variant)\<lparr>db_dids := ds @ drop 6 (db_dids (UdsDidDb_Init variant))\<rparr>"
    using assms Some d did_db_ok [of variant] by (simp add: UdsDidDb_AttachStorage_def)
  with attach_dids_ok [OF t(1) d] t(2) did_db_ok [of variant] show ?thesis by simp
qed

lemma copy_memory:
  assumes "mem_ok (fst ecu)" and "list_all did_ok (db_dids (ecu_did_db (snd ecu)))"
    and "db_did_count (ecu_did_db (snd ecu)) = 6" and "length (db_dids (ecu_did_db (snd ecu))) = 8"
  shows "mem_ok (fst (UdsEcu_CopyDidsToServer ecu))"
proof -
  let ?ds = "take 6 (db_dids (ecu_did_db (snd ecu)))"
  have "length (buf_write (srv_dids (fst ecu)) 0 ?ds) = UDS_MAX_DIDS"
    using assms(1,4) by (simp add: mem_ok_def UDS_MAX_DIDS_def)
  moreover have "list_all did_ok (buf_write (srv_dids (fst ecu)) 0 ?ds)"
    using assms(1,2) by (intro list_all_buf_write list_all_take) (simp_all add: mem_ok_def)
  ultimately show ?thesis
    using assms(1,3) by (simp add: UdsEcu_CopyDidsToServer_def mem_ok_def Let_def UDS_MAX_DIDS_def)
qed

lemma reset_memory:
  assumes "mem_ok (fst ecu)"
  shows "mem_ok (fst (UdsEcu_ResetDids ecu))"
proof -
  let ?r = "snd ecu"
  let ?storage = "if ecu_has_storage ?r then Some (ecu_storage ?r) else None"
  obtain db a where at: "UdsDidDb_AttachStorage (UdsDidDb_Init (ecu_variant ?r)) ?storage (ecu_app ?r) = (db, a)"
    by fastforce
  then have "UdsEcu_ResetDids ecu = UdsEcu_CopyDidsToServer (fst ecu, ?r\<lparr>ecu_did_db := db, ecu_app := a\<rparr>)"
    by (auto simp: UdsEcu_ResetDids_def UdsDidDb_AttachStorage_def Let_def split: if_splits)
  with copy_memory [of "(fst ecu, ?r\<lparr>ecu_did_db := db, ecu_app := a\<rparr>)"] assms attach_storage_ok [OF at]
  show ?thesis by simp
qed

lemma execute_memory: "mem_ok (fst ecu) \<Longrightarrow> mem_ok (fst (execute_routine h ecu))"
  by (simp add: execute_routine_def Let_def reset_memory split: prod.split)

lemma handler_keeps_memory:
  "UdsEcu_RoutineHandler h subf capacity ecu = (r, ecu') \<Longrightarrow> mem_ok (fst ecu) \<Longrightarrow> mem_ok (fst ecu')"
  by (auto simp: UdsEcu_RoutineHandler_def Let_def execute_memory split: if_splits)

lemma ecu_init_memory:
  assumes "mem_ok (fst ecu)"
  shows "mem_ok (fst (UdsEcu_InitWithHooks ecu variant storage hooks))"
proof -
  let ?r = "(snd ecu)\<lparr>ecu_variant := variant, ecu_has_storage := (storage \<noteq> None),
                ecu_storage := (case storage of Some st \<Rightarrow> st | None \<Rightarrow> ecu_storage (snd ecu)),
                ecu_hooks := (case hooks of Some h \<Rightarrow> h
                              | None \<Rightarrow> \<lparr>hook_self_test = None, hook_erase_params = None\<rparr>)\<rparr>"
  obtain db a where at: "UdsDidDb_AttachStorage (UdsDidDb_Init variant) storage (ecu_app ?r) = (db, a)"
    by fastforce
  then obtain routines where
    cfg: "fst (UdsEcu_InitWithHooks ecu variant storage hooks) = snd (UdsServer_Init (fst ecu) (Some (ecu_config db routines)))"
    by (simp add: UdsEcu_InitWithHooks_def Let_def)
  obtain ok s' where i: "UdsServer_Init (fst ecu) (Some (ecu_config db routines)) = (ok, s')" by fastforce
  have "mem_ok s'"
    by (rule init_memory [OF i assms]) (use attach_storage_ok [OF at] in \<open>auto simp: ecu_config_def\<close>)
  with i cfg show ?thesis by simp
qed

interpretation ecu: uds_memory ecu_calls
proof unfold_locales
  fix h subf data s r e' s' and e :: "'a ecu_rest"
  assume "call_routine ecu_calls h subf data UDS_ROUTINE_RESULT_MAX (s, e) = (r, s', e')"
  then show "sec_view s' = sec_view s"
    using handler_keeps_security [of h subf UDS_ROUTINE_RESULT_MAX "(s, e)" r "(s', e')"]
    by (simp add: ecu_calls_def)
next
  fix h subf data status result s s' e' and e :: "'a ecu_rest"
  assume "call_routine ecu_calls h subf data UDS_ROUTINE_RESULT_MAX (s, e) = ((status, result), s', e')"
  then show "length result \<le> UDS_ROUTINE_RESULT_MAX"
    by (auto simp: ecu_calls_def UdsEcu_RoutineHandler_def UDS_ROUTINE_RESULT_MAX_def Let_def split: if_splits)
next
  fix h subf data r s s' e' and e :: "'a ecu_rest"
  assume "call_routine ecu_calls h subf data UDS_ROUTINE_RESULT_MAX (s, e) = (r, s', e')" and "mem_ok s"
  then show "mem_ok s'"
    using handler_keeps_memory [of h subf UDS_ROUTINE_RESULT_MAX "(s, e)" r "(s', e')"]
    by (simp add: ecu_calls_def)
qed

subsection \<open>Starting with stored values\<close>

text \<open>A backend whose load function leaves the application state alone.\<close>

definition pure_load :: "'a UdsDidStorage_t \<Rightarrow> 'a \<Rightarrow> bool" where
  "pure_load st a \<longleftrightarrow> (case st_load st of None \<Rightarrow> True | Some load \<Rightarrow> \<forall>did cap. snd (load did cap a) = a)"

lemma snd_eqI: "p = (x, y) \<Longrightarrow> snd p = y"
  by simp

lemma attach_pure: "pure_load st a \<Longrightarrow> snd (attach_did st d a) = a"
  by (cases "st_load st") (auto simp: attach_did_def pure_load_def Let_def split: option.splits prod.splits dest: snd_eqI)

lemma attach_dids_pure:
  "pure_load st a \<Longrightarrow> attach_dids st ds a = (map (\<lambda>d. fst (attach_did st d a)) ds, a)"
proof (induction ds)
  case (Cons d ds)
  have "attach_did st d a = (fst (attach_did st d a), a)"
    using attach_pure [OF Cons.prems, of d] by (metis prod.collapse)
  with Cons show ?case by (metis (no_types, lifting) attach_dids.simps(2) case_prod_conv list.simps(9))
qed simp

text \<open>What attaching keeps of an entry.\<close>

definition same_entry :: "UdsDid_t \<Rightarrow> UdsDid_t \<Rightarrow> bool" where
  "same_entry d d' \<longleftrightarrow> did_id d' = did_id d \<and> (did_data d' = None \<longrightarrow> did_data d = None) \<and>
     (did_storage d' = None \<longrightarrow> did_storage d = None) \<and> did_storage_capacity d' = did_storage_capacity d \<and>
     did_read_sessions_mask d' = did_read_sessions_mask d"

lemma same_entry_trans: "same_entry a b \<Longrightarrow> same_entry b c \<Longrightarrow> same_entry a c"
  by (auto simp: same_entry_def)

lemma same_store: "did_storage d \<noteq> None \<Longrightarrow> same_entry d (did_store d v)"
  by (auto simp: same_entry_def did_store_def Let_def)

lemma attach_same: "same_entry d (fst (attach_did st d a))"
proof -
  let ?d1 = "d\<lparr>did_storage_load := map_option (\<lambda>_. 0) (st_load st),
      did_storage_save := map_option (\<lambda>_. 0) (st_save st)\<rparr>"
  have "fst (attach_did st d a) = d \<or> fst (attach_did st d a) = ?d1 \<or>
      (\<exists>bs. fst (attach_did st d a) = did_store ?d1 bs \<and> did_storage ?d1 \<noteq> None)"
    by (auto simp: attach_did_def Let_def split: option.splits prod.splits)
  moreover have d1: "same_entry d ?d1" by (simp add: same_entry_def)
  moreover have "same_entry d (did_store ?d1 bs)" if "did_storage ?d1 \<noteq> None" for bs
    using same_entry_trans [OF d1 same_store [OF that]] .
  moreover have "same_entry d d" by (simp add: same_entry_def)
  ultimately show ?thesis by metis
qed

lemma valid_same:
  "dids_valid prev ds \<Longrightarrow> list_all (\<lambda>d. did_data d \<noteq> None) ds \<Longrightarrow> list_all2 same_entry ds ds' \<Longrightarrow>
    map did_id prev' = map did_id prev \<Longrightarrow> dids_valid prev' ds'"
proof (induction ds arbitrary: ds' prev prev')
  case (Cons d ds)
  obtain d' es where d': "ds' = d' # es" "same_entry d d'" "list_all2 same_entry ds es"
    using Cons.prems(3) by (auto simp: list_all2_Cons1)
  have ids: "did_id ` set prev' = did_id ` set prev" using Cons.prems(4) by (metis set_map)
  have "map did_id (prev' @ [d']) = map did_id (prev @ [d])" using Cons.prems(4) d'(2) by (simp add: same_entry_def)
  with Cons d' ids show ?case by (auto simp: same_entry_def)
qed simp

lemma copied_valid: "dids_valid prev ds \<Longrightarrow> dids_copied prev ds = length ds"
  by (induction ds arbitrary: prev) auto

lemma db_valid: "dids_valid [] (take 6 (db_dids (UdsDidDb_Init variant))) \<and>
    list_all (\<lambda>d. did_data d \<noteq> None) (take 6 (db_dids (UdsDidDb_Init variant)))"
  by (cases variant; simp only:; code_simp)

lemma init_accepted:
  assumes "ucfg_dids cfg = Some ds" and "ucfg_routines cfg = Some rs"
    and "take (unat (ucfg_did_count cfg)) ds = es" and "dids_valid [] es"
    and "routines_valid [] (take (unat (ucfg_routine_count cfg)) rs)"
    and "unat (ucfg_did_count cfg) \<le> UDS_MAX_DIDS" and "unat (ucfg_routine_count cfg) \<le> UDS_MAX_ROUTINES"
  shows "\<exists>s0. snd (UdsServer_Init s (Some cfg)) = server_start cfg s0 \<and> srv_dids s0 = buf_write (srv_dids s) 0 es"
proof -
  let ?rs = "take (unat (ucfg_routine_count cfg)) rs"
  let ?s0 = "s\<lparr>srv_dids := buf_write (srv_dids s) 0 es,
      srv_routines := buf_write (srv_routines s) 0 (take (routines_copied [] ?rs) ?rs)\<rparr>"
  have "snd (UdsServer_Init s (Some cfg)) = server_start cfg ?s0"
    using assms copied_valid [OF assms(4)] by (simp add: UdsServer_Init_def Let_def)
  moreover have "srv_dids ?s0 = buf_write (srv_dids s) 0 es" by simp
  ultimately show ?thesis by blast
qed

lemma ecu_start:
  assumes "mem_ok (fst ecu)" and "pure_load st (ecu_app (snd ecu))"
    and "UdsEcu_InitWithHooks ecu variant (Some st) hooks = (s, r)"
  shows "srv_did_count s = 6 \<and> srv_session s = UDS_SESSION_DEFAULT \<and> ecu_app r = ecu_app (snd ecu) \<and> sec_ok s \<and>
    (\<forall>i < 6. srv_dids s ! i = fst (attach_did st (db_dids (UdsDidDb_Init variant) ! i) (ecu_app (snd ecu))))"
proof -
  let ?a = "ecu_app (snd ecu)" and ?ds = "take 6 (db_dids (UdsDidDb_Init variant))"
  let ?es = "map (\<lambda>d. fst (attach_did st d ?a)) ?ds"
  let ?db = "(UdsDidDb_Init variant)\<lparr>db_dids := ?es @ drop 6 (db_dids (UdsDidDb_Init variant))\<rparr>"
  have at: "UdsDidDb_AttachStorage (UdsDidDb_Init variant) (Some st) ?a = (?db, ?a)"
    using did_db_ok [of variant] attach_dids_pure [OF assms(2)] by (simp add: UdsDidDb_AttachStorage_def)
  obtain routines where
    r: "s = snd (UdsServer_Init (fst ecu) (Some (ecu_config ?db routines)))" "ecu_app r = ?a"
      "routines_valid [] routines" "length routines = 2"
    using assms(3) at by (auto simp: UdsEcu_InitWithHooks_def Let_def UDS_ROUTINE_ID_SELF_TEST_def
        UDS_ROUTINE_ID_ERASE_def)
  have len: "length ?es = 6" using did_db_ok [of variant] by simp
  have "list_all2 same_entry ?ds ?es" by (simp add: list_all2_conv_all_nth attach_same)
  then have valid: "dids_valid [] ?es" using db_valid [of variant] valid_same by blast
  have six: "take 6 (db_dids ?db) = ?es" using len by simp
  have cfg: "ucfg_did_count (ecu_config ?db routines) = 6" "ucfg_dids (ecu_config ?db routines) = Some (db_dids ?db)"
    "ucfg_routines (ecu_config ?db routines) = Some routines" "ucfg_routine_count (ecu_config ?db routines) = 2"
    using did_db_ok [of variant] by (simp_all add: ecu_config_def UDS_ECU_ROUTINE_COUNT_def)
  obtain s0 where s0: "s = server_start (ecu_config ?db routines) s0" "srv_dids s0 = buf_write (srv_dids (fst ecu)) 0 ?es"
    using init_accepted [OF cfg(2,3), of ?es "fst ecu"] r(1,3,4) valid len six cfg(1,4)
    by (auto simp: UDS_MAX_DIDS_def UDS_MAX_ROUTINES_def simp del: take_append)
  have sec: "sec_ok s" unfolding s0(1) by (rule start_secure)
  have dids: "srv_dids s = buf_write (srv_dids (fst ecu)) 0 ?es" "srv_did_count s = 6" "srv_session s = UDS_SESSION_DEFAULT"
    using s0 cfg by (auto simp: server_start_def UdsServer_ClearPendingDid_def UdsServer_ClearPendingRoutine_def)
  have "srv_dids s ! i = fst (attach_did st (db_dids (UdsDidDb_Init variant) ! i) ?a)" if "i < 6" for i
    using dids(1) that len did_db_ok [of variant] by (simp add: buf_write_def nth_append)
  with dids sec r show ?thesis by blast
qed

text \<open>A stored identifier whose value the backend has.\<close>

lemma db_stored:
  assumes "k < 6" and "did_storage_capacity (db_dids (UdsDidDb_Init variant) ! k) \<noteq> 0"
  shows "did_write_sessions_mask (db_dids (UdsDidDb_Init variant) ! k) \<noteq> 0 \<and>
    did_read_sessions_mask (db_dids (UdsDidDb_Init variant) ! k) = 0 \<and>
    did_storage (db_dids (UdsDidDb_Init variant) ! k) \<noteq> None"
proof -
  have "list_all (\<lambda>d. did_storage_capacity d \<noteq> 0 \<longrightarrow>
      did_write_sessions_mask d \<noteq> 0 \<and> did_read_sessions_mask d = 0 \<and> did_storage d \<noteq> None) (db_dids (UdsDidDb_Init variant))"
    by (cases variant; simp only:; code_simp)
  with assms did_db_ok [of variant] show ?thesis by (auto simp: list_all_length)
qed

lemma attach_stored:
  assumes "k < 6" and "length v \<le> unat (did_storage_capacity (db_dids (UdsDidDb_Init variant) ! k))" and "v \<noteq> []"
    and "st_load st = Some load" and "load (did_id (db_dids (UdsDidDb_Init variant) ! k)) UDS_DID_VIN_CAPACITY a = (Some v, a')"
  shows "fst (attach_did st (db_dids (UdsDidDb_Init variant) ! k) a) =
    did_store ((db_dids (UdsDidDb_Init variant) ! k)\<lparr>did_storage_load := Some 0,
      did_storage_save := map_option (\<lambda>_. 0) (st_save st)\<rparr>) v"
proof -
  have "did_storage_capacity (db_dids (UdsDidDb_Init variant) ! k) \<noteq> 0"
    using assms(2,3) by (cases v) auto
  with db_stored [OF assms(1) this] assms show ?thesis by (auto simp: attach_did_def Let_def)
qed

lemma db_find:
  assumes "k < 6" and "\<And>i. i < 6 \<Longrightarrow> did_id (srv_dids s ! i) = did_id (db_dids (UdsDidDb_Init variant) ! i)"
    and "srv_did_count s = 6"
  shows "UdsServer_FindDid s (did_id (db_dids (UdsDidDb_Init variant) ! k)) = Some k"
proof -
  have "distinct (map did_id (take 6 (db_dids (UdsDidDb_Init variant))))"
    by (cases variant; simp only:; code_simp)
  then have "did_id (db_dids (UdsDidDb_Init variant) ! j) \<noteq> did_id (db_dids (UdsDidDb_Init variant) ! k)" if "j < k" for j
    using assms(1) that did_db_ok [of variant] by (auto simp: distinct_conv_nth)
  with assms show ?thesis by (auto simp: UdsServer_FindDid_def find_Some_iff intro!: exI [of _ k])
qed

end
