(* ===== verification/UdsEnv.thy ===== *)
theory UdsEnv
  imports UdsAccess
begin

section \<open>What the callbacks keep, the server keeps\<close>

text \<open>The server reaches the state behind its callbacks through the callbacks only.  A property of
  that state that every callback keeps therefore holds after every run of the server.\<close>

locale uds_environment =
  fixes calls :: "'e uds_calls" and env :: "'e \<Rightarrow> bool"
  assumes routine_env: "call_routine calls h subf data n (s, e) = (r, s', e') \<Longrightarrow> env e \<Longrightarrow> env e'"
    and save_env: "call_save calls f did data e = (ok, e') \<Longrightarrow> env e \<Longrightarrow> env e'"
begin

lemma handler_env: "call_handler calls i subf data (s, e) = (r, s', e') \<Longrightarrow> env e \<Longrightarrow> env e'"
  unfolding call_handler_def by (rule routine_env)

lemma run_env: "run_routine calls i subf data (s, e) = (r, s', e') \<Longrightarrow> env e \<Longrightarrow> env e'"
  by (auto simp: run_routine_def Let_def dest: handler_env split: prod.splits)

lemma dispatch_env:
  "routine_dispatch calls i rid subf suppress data cap (s, e) = (r, s', e') \<Longrightarrow> env e \<Longrightarrow> env e'"
  by (auto simp: routine_dispatch_def Let_def dest: run_env split: prod.splits if_splits)

lemma control_env: "UdsServer_RoutineControl calls req cap (s, e) = (r, s', e') \<Longrightarrow> env e \<Longrightarrow> env e'"
  by (auto simp: UdsServer_RoutineControl_def routine_checked_def Let_def dest: dispatch_env split: if_splits)

lemma service_env: "uds_service calls now req cap (s, e) = (r, s', e') \<Longrightarrow> env e \<Longrightarrow> env e'"
  by (auto simp: uds_service_def Let_def dest: control_env split: if_splits prod.splits)

lemma process_env: "UdsServer_Process calls now req len cap (s, e) = (r, s', e') \<Longrightarrow> env e \<Longrightarrow> env e'"
  by (auto simp: UdsServer_Process_def Let_def dest: service_env split: if_splits prod.splits option.splits)

lemma poll_env: "UdsServer_PollPending calls cap (s, e) = (r, s', e') \<Longrightarrow> env e \<Longrightarrow> env e'"
  by (auto simp: UdsServer_PollPending_def poll_did_write_def poll_routine_def Let_def
      dest: save_env handler_env split: if_splits prod.splits option.splits)

lemma step_env: "env (snd st) \<Longrightarrow> env (snd (uds_step calls ev st))"
proof (cases ev)
  case (UdsRequest now req len cap)
  assume "env (snd st)"
  then show ?thesis using process_env [of now req len cap "fst st" "snd st"] UdsRequest
    by (cases "UdsServer_Process calls now req len cap st") auto
next
  case (UdsPoll cap)
  assume "env (snd st)"
  then show ?thesis using poll_env [of cap "fst st" "snd st"] UdsPoll
    by (cases "UdsServer_PollPending calls cap st") auto
qed auto

lemma run_keeps_env: "env (snd st) \<Longrightarrow> env (snd (fold (uds_step calls) evs st))"
proof (induction evs arbitrary: st)
  case (Cons ev evs)
  from Cons.IH [OF step_env [OF Cons.prems]] show ?case by simp
qed simp

end

end
