(* ===== verification/UdsBackend.thy ===== *)
theory UdsBackend
  imports UdsEcu UdsEnv
begin

section \<open>The ECU keeps what its storage and hooks keep\<close>

text \<open>The contract of a storage backend and a pair of hooks: a property of the application state
  that their functions keep holds after every run of the ECU that was initialised with them.\<close>

definition ecu_env :: "'a UdsDidStorage_t \<Rightarrow> 'a UdsEcuHooks_t \<Rightarrow> ('a \<Rightarrow> bool) \<Rightarrow> 'a ecu_rest \<Rightarrow> bool" where
  "ecu_env st hk app_ok e \<longleftrightarrow> ecu_storage e = st \<and> ecu_has_storage e \<and> ecu_hooks e = hk \<and> app_ok (ecu_app e)"

locale ecu_backend =
  fixes st :: "'a UdsDidStorage_t" and hk :: "'a UdsEcuHooks_t" and app_ok :: "'a \<Rightarrow> bool"
  assumes load_keeps: "st_load st = Some load \<Longrightarrow> load did cap a = (r, a') \<Longrightarrow> app_ok a \<Longrightarrow> app_ok a'"
    and save_keeps: "st_save st = Some save \<Longrightarrow> save did data a = (ok, a') \<Longrightarrow> app_ok a \<Longrightarrow> app_ok a'"
    and self_test_keeps: "hook_self_test hk = Some test \<Longrightarrow> test a = (v, a') \<Longrightarrow> app_ok a \<Longrightarrow> app_ok a'"
    and erase_keeps: "hook_erase_params hk = Some erase \<Longrightarrow> erase a = (ok, a') \<Longrightarrow> app_ok a \<Longrightarrow> app_ok a'"
begin

lemma attach_keeps: "attach_did st d a = (d', a') \<Longrightarrow> app_ok a \<Longrightarrow> app_ok a'"
  by (auto simp: attach_did_def Let_def dest: load_keeps split: if_splits option.splits prod.splits)

lemma attach_all_keeps: "attach_dids st ds a = (ds', a') \<Longrightarrow> app_ok a \<Longrightarrow> app_ok a'"
proof (induction ds arbitrary: a ds' a')
  case (Cons d ds)
  obtain d1 a1 where 1: "attach_did st d a = (d1, a1)" by fastforce
  obtain ds1 a2 where 2: "attach_dids st ds a1 = (ds1, a2)" by fastforce
  from Cons.IH [OF 2 attach_keeps [OF 1 Cons.prems(2)]] Cons.prems(1) 1 2 show ?case by simp
qed simp

lemma attach_storage_keeps: "UdsDidDb_AttachStorage db (Some st) a = (db', a') \<Longrightarrow> app_ok a \<Longrightarrow> app_ok a'"
  by (auto simp: UdsDidDb_AttachStorage_def Let_def dest: attach_all_keeps split: prod.splits)

lemma reset_env:
  assumes "ecu_env st hk app_ok (snd ecu)"
  shows "ecu_env st hk app_ok (snd (UdsEcu_ResetDids ecu))"
proof -
  obtain db a where "UdsDidDb_AttachStorage (UdsDidDb_Init (ecu_variant (snd ecu))) (Some st) (ecu_app (snd ecu)) = (db, a)"
    by fastforce
  with attach_storage_keeps [OF this] assms show ?thesis
    by (simp add: UdsEcu_ResetDids_def UdsEcu_CopyDidsToServer_def ecu_env_def Let_def)
qed

lemma execute_env:
  assumes "ecu_env st hk app_ok (snd ecu)"
  shows "ecu_env st hk app_ok (snd (execute_routine h ecu))"
proof (cases "h = 0")
  case True
  obtain v a1 where v: "(case hook_self_test hk of None \<Rightarrow> (0, ecu_app (snd ecu)) | Some f \<Rightarrow> f (ecu_app (snd ecu))) = (v, a1)"
    by fastforce
  then have "app_ok a1" using assms self_test_keeps by (auto simp: ecu_env_def split: option.splits)
  with True v assms show ?thesis by (simp add: execute_routine_def ecu_env_def set_routine_context_def Let_def)
next
  case False
  obtain b a1 where b: "(case hook_erase_params hk of None \<Rightarrow> (True, ecu_app (snd ecu)) | Some f \<Rightarrow> f (ecu_app (snd ecu))) = (b, a1)"
    by fastforce
  then have a1: "app_ok a1" using assms erase_keeps by (auto simp: ecu_env_def split: option.splits)
  let ?r = "set_routine_context h ((routine_context h (snd ecu))\<lparr>ctx_result := (if b then 0 else 1), ctx_executed := True\<rparr>)
      ((snd ecu)\<lparr>ecu_app := a1\<rparr>)"
  have r: "ecu_env st hk app_ok ?r" using a1 assms by (simp add: ecu_env_def set_routine_context_def)
  have "execute_routine h ecu = (if b then UdsEcu_ResetDids (fst ecu, ?r) else (fst ecu, ?r))"
    using False b assms by (simp add: execute_routine_def ecu_env_def Let_def)
  with r reset_env [of "(fst ecu, ?r)"] show ?thesis by (cases b) simp_all
qed

lemma handler_keeps_env:
  "UdsEcu_RoutineHandler h subf capacity ecu = (r, ecu') \<Longrightarrow> ecu_env st hk app_ok (snd ecu) \<Longrightarrow>
    ecu_env st hk app_ok (snd ecu')"
  by (auto simp: UdsEcu_RoutineHandler_def Let_def execute_env split: if_splits)
    (auto simp: ecu_env_def set_routine_context_def)

lemma init_env:
  assumes "app_ok (ecu_app (snd ecu))"
  shows "ecu_env st hk app_ok (snd (UdsEcu_InitWithHooks ecu variant (Some st) (Some hk)))"
proof -
  obtain db a where "UdsDidDb_AttachStorage (UdsDidDb_Init variant) (Some st) (ecu_app (snd ecu)) = (db, a)" by fastforce
  with attach_storage_keeps [OF this assms] show ?thesis
    by (simp add: UdsEcu_InitWithHooks_def ecu_env_def Let_def)
qed

end

sublocale ecu_backend \<subseteq> uds_environment ecu_calls "ecu_env st hk app_ok"
proof unfold_locales
  fix h subf data n s s' r and e e' :: "'a ecu_rest"
  assume "call_routine ecu_calls h subf data n (s, e) = (r, s', e')" and "ecu_env st hk app_ok e"
  then show "ecu_env st hk app_ok e'"
    using handler_keeps_env [of h subf n "(s, e)" r "(s', e')"] by (simp add: ecu_calls_def)
next
  fix f did data ok and e e' :: "'a ecu_rest"
  assume "call_save ecu_calls f did data e = (ok, e')" and "ecu_env st hk app_ok e"
  then have env: "ecu_storage e = st" "app_ok (ecu_app e)" "ecu_env st hk app_ok e"
    and call: "(case st_save st of None \<Rightarrow> (False, e)
        | Some save \<Rightarrow> let (ok, a1) = save did data (ecu_app e) in (ok, e\<lparr>ecu_app := a1\<rparr>)) = (ok, e')"
    by (simp_all add: ecu_calls_def ecu_env_def)
  show "ecu_env st hk app_ok e'"
  proof (cases "st_save st")
    case None
    with call env show ?thesis by simp
  next
    case (Some save)
    obtain b a1 where s: "save did data (ecu_app e) = (b, a1)" by fastforce
    with save_keeps [OF Some s env(2)] call Some env(3) show ?thesis by (auto simp: ecu_env_def)
  qed
qed

end
