(* ===== verification/AppMain.thy ===== *)
theory AppMain
  imports AppParam Watchdog IsotpTransfer UdsBackend
begin

section \<open>The application\<close>

text \<open>
  \<open>Core/Src/main.c\<close> of \<open>ecu-f407\<close>, which \<open>ecu-f103\<close> repeats with the board's own identifiers and
  polarity (record \<open>board\<close>): the start-up sequence, the main loop with its services, the receive
  callback and the interrupt callbacks, in the default build (no bench, stress, load or self-test
  option).  The program's globals are the record \<open>app_main\<close>; what the diagnostic hooks reach through
  their context (the storage, the driver with its health object, the watchdogs) is \<open>app_world\<close>, the
  application state inside \<open>g_uds\<close>.  \<open>m_reset\<close> is set by \<open>NVIC_SystemReset\<close>, which does not return.
\<close>

definition APP_CAN_ID :: u32 where "APP_CAN_ID = 0x123"
definition APP_ISOTP_TX_BUFFER_SIZE :: u16 where "APP_ISOTP_TX_BUFFER_SIZE = 300"
definition APP_ISOTP_RX_BUFFER_SIZE :: u16 where "APP_ISOTP_RX_BUFFER_SIZE = 300"
definition APP_CAN_TX_PERIOD_MS :: u32 where "APP_CAN_TX_PERIOD_MS = 500"
definition APP_CAN_RECOVERY_PERIOD_MS :: u32 where "APP_CAN_RECOVERY_PERIOD_MS = 1000"
definition APP_CAN_RECOVERY_SETTLE_MS :: u32 where "APP_CAN_RECOVERY_SETTLE_MS = 1500"
definition APP_HEALTH_LOG_SIZE :: u32 where "APP_HEALTH_LOG_SIZE = 24"
definition APP_LOG_ATTEMPT :: u8 where "APP_LOG_ATTEMPT = 1"
definition APP_LOG_SUCCESS :: u8 where "APP_LOG_SUCCESS = 2"
definition APP_LOG_FAILURE :: u8 where "APP_LOG_FAILURE = 3"
definition APP_LOG_RESET :: u8 where "APP_LOG_RESET = 4"
definition UDS_ECU_SELFTEST_PARAM_FAILURE :: u8 where "UDS_ECU_SELFTEST_PARAM_FAILURE = 0x01"
definition UDS_ECU_SELFTEST_CAN_FAILURE :: u8 where "UDS_ECU_SELFTEST_CAN_FAILURE = 0x02"
definition UDS_ECU_SELFTEST_WATCHDOG_FAILURE :: u8 where "UDS_ECU_SELFTEST_WATCHDOG_FAILURE = 0x04"

text \<open>What the two builds do not share.  \<open>bd_led\<close> is the pin level for data bit 1.\<close>

record board =
  bd_variant :: UdsEcuVariant_t
  bd_prescaler :: u32
  bd_time_seg1 :: u32
  bd_time_seg2 :: u32
  bd_isotp_rx_id :: u32
  bd_isotp_tx_id :: u32
  bd_led :: bool
  bd_flash_size :: u32
  bd_lsi_hz :: u32

definition board_f407 :: board where
  "board_f407 = \<lparr>bd_variant = UDS_ECU_F407, bd_prescaler = 6, bd_time_seg1 = 0xA0000, bd_time_seg2 = 0x100000,
     bd_isotp_rx_id = 0x7E0, bd_isotp_tx_id = 0x7E8, bd_led = True,
     bd_flash_size = APP_PARAM_FLASH_SIZE_F407, bd_lsi_hz = 32000\<rparr>"

definition board_f103 :: board where
  "board_f103 = \<lparr>bd_variant = UDS_ECU_F103, bd_prescaler = 4, bd_time_seg1 = 0xE0000, bd_time_seg2 = 0x100000,
     bd_isotp_rx_id = 0x7E1, bd_isotp_tx_id = 0x7E9, bd_led = False,
     bd_flash_size = APP_PARAM_FLASH_SIZE_F103, bd_lsi_hz = 40000\<rparr>"

subsection \<open>The globals\<close>

record app_world = param_state +
  w_port :: app_port
  w_watchdog :: watchdog

record IsotpTestStats_t =
  st_tx_errors :: u32
  st_rx_errors :: u32
  st_tx_timeouts :: u32
  st_rx_timeouts :: u32
  st_last_tx_result :: IsotpResult_t
  st_last_rx_result :: IsotpResult_t
  st_last_route_result :: IsotpResult_t

record AppHealthLogEntry_t =
  hl_tick :: u32
  hl_kind :: u8
  hl_arg :: u8
  hl_reserved :: u16

record AppHealthLog_t =
  hl_entries :: "AppHealthLogEntry_t list"
  hl_next_index :: u32
  hl_recorded :: u32

text \<open>The static variables of \<open>APP_ServiceCanHealth\<close>.\<close>

record recovery_statics =
  rv_last_recovery_tick :: u32
  rv_attempt_started_tick :: u32
  rv_bus_off_events_at_attempt :: u32
  rv_attempt_pending :: bool

record app_main =
  m_uds :: "app_world UdsEcu_t"
  m_can_tx_count :: u32
  m_can_rx_count :: u32
  m_led :: bool
  m_isotp_tx_buffer :: "u8 list"
  m_isotp_rx :: "app_port IsotpRx_t"
  m_isotp_tx :: "app_port IsotpTx_t"
  m_isotp_test_stats :: IsotpTestStats_t
  m_isotp_serving :: bool
  m_can_error_log :: CanDriverErrorLog_t
  m_can_health_full :: CanHealthSnapshot_t
  m_can_health_summary :: "u8 list"
  m_app_health_log :: AppHealthLog_t
  m_recovery :: recovery_statics
  m_last_tx_tick :: u32
  m_tx_value :: u8
  m_reset :: bool

abbreviation m_world :: "app_main \<Rightarrow> app_world" where
  "m_world m \<equiv> ecu_app (snd (m_uds m))"

definition set_world :: "app_world \<Rightarrow> app_main \<Rightarrow> app_main" where
  "set_world w m = m\<lparr>m_uds := (fst (m_uds m), (snd (m_uds m))\<lparr>ecu_app := w\<rparr>)\<rparr>"

abbreviation m_port :: "app_main \<Rightarrow> app_port" where
  "m_port m \<equiv> w_port (m_world m)"

definition set_port :: "app_port \<Rightarrow> app_main \<Rightarrow> app_main" where
  "set_port p m = set_world ((m_world m)\<lparr>w_port := p\<rparr>) m"

abbreviation m_can :: "app_main \<Rightarrow> CanDriver_t" where
  "m_can m \<equiv> port_can (m_port m)"

definition set_can :: "CanDriver_t \<Rightarrow> app_main \<Rightarrow> app_main" where
  "set_can d m = set_port ((m_port m)\<lparr>port_can := d\<rparr>) m"

definition set_clock :: "systick \<Rightarrow> app_main \<Rightarrow> app_main" where
  "set_clock k m = set_port ((m_port m)\<lparr>port_clock := k\<rparr>) m"

definition set_watchdog :: "watchdog \<Rightarrow> app_main \<Rightarrow> app_main" where
  "set_watchdog w m = set_world ((m_world m)\<lparr>w_watchdog := w\<rparr>) m"

text \<open>\<open>g_can_health\<close> is the object the driver points to once it is attached.\<close>

abbreviation m_health :: "app_main \<Rightarrow> CanHealth_t option" where
  "m_health m \<equiv> drv_health (m_can m)"

definition set_health :: "CanHealth_t \<Rightarrow> app_main \<Rightarrow> app_main" where
  "set_health h m = set_can ((m_can m)\<lparr>drv_health := Some h\<rparr>) m"

definition get_tick :: "app_main \<Rightarrow> u32 \<times> app_main" where
  "get_tick m = (let (t, k) = HAL_GetTick (port_clock (m_port m)) in (t, set_clock k m))"

lemma world_fields [simp]:
  "m_world (set_world w m) = w" "fst (m_uds (set_world w m)) = fst (m_uds m)"
  "m_isotp_tx (set_world w m) = m_isotp_tx m" "m_isotp_rx (set_world w m) = m_isotp_rx m"
  "m_isotp_tx_buffer (set_world w m) = m_isotp_tx_buffer m" "m_isotp_serving (set_world w m) = m_isotp_serving m"
  "m_recovery (set_world w m) = m_recovery m" "m_reset (set_world w m) = m_reset m"
  "m_app_health_log (set_world w m) = m_app_health_log m" "m_can_error_log (set_world w m) = m_can_error_log m"
  "m_isotp_test_stats (set_world w m) = m_isotp_test_stats m"
  by (simp_all add: set_world_def)

subsection \<open>The diagnostic hooks\<close>

definition APP_UdsSelfTest :: "app_world \<Rightarrow> u8 \<times> app_world" where
  "APP_UdsSelfTest w =
     (let r1 = (if \<not> AppParamStorage_IsValid (Some (st_params w)) then UDS_ECU_SELFTEST_PARAM_FAILURE else 0);
          r2 = (if CanHealth_GetState (drv_health (port_can (w_port w))) \<noteq> CAN_HEALTH_STATE_ERROR_ACTIVE
                then r1 OR UDS_ECU_SELFTEST_CAN_FAILURE else r1);
          ready = WATCHDOG_STATUS_IWDG_READY OR WATCHDOG_STATUS_WWDG_READY
      in (if Watchdog_GetStatus (w_watchdog w) AND ready \<noteq> ready
          then r2 OR UDS_ECU_SELFTEST_WATCHDOG_FAILURE else r2, w))"

definition APP_UdsEraseParams :: "u32 \<Rightarrow> app_world \<Rightarrow> bool \<times> app_world" where
  "APP_UdsEraseParams fsize w = AppParamStorage_Clear fsize w"

definition app_hooks :: "u32 \<Rightarrow> app_world UdsEcuHooks_t" where
  "app_hooks fsize = \<lparr>hook_self_test = Some APP_UdsSelfTest, hook_erase_params = Some (APP_UdsEraseParams fsize)\<rparr>"

subsection \<open>Frames\<close>

definition can_send :: "u32 \<Rightarrow> u8 list \<Rightarrow> u8 \<Rightarrow> app_main \<Rightarrow> bool \<times> app_main" where
  "can_send i data len m =
     (let (r, d) = CanDriver_SendStd (m_can m) i (Some data) len in (r = HAL_OK, set_can d m))"

definition APP_CAN_Send :: "u8 \<Rightarrow> app_main \<Rightarrow> app_main" where
  "APP_CAN_Send v m =
     (let (ok, m1) = can_send APP_CAN_ID [v AND 0x01] 1 m
      in if ok then m1\<lparr>m_can_tx_count := m_can_tx_count m1 + 1\<rparr> else m1)"

definition route_frame :: "u8 list \<Rightarrow> app_main \<Rightarrow> app_main" where
  "route_frame data m =
     (let (r, tx, rx, p) = Isotp_RouteFrame (Some (m_isotp_tx m)) (Some (m_isotp_rx m)) (Some data) (m_port m);
          m1 = set_port p (m\<lparr>m_isotp_tx := the tx, m_isotp_rx := the rx\<rparr>);
          st = (m_isotp_test_stats m1)\<lparr>st_last_route_result := r\<rparr>
      in m1\<lparr>m_isotp_test_stats := (if r \<noteq> ISOTP_OK then st\<lparr>st_rx_errors := st_rx_errors st + 1\<rparr> else st)\<rparr>)"

definition APP_OnCanRx :: "board \<Rightarrow> u32 \<Rightarrow> u8 list \<Rightarrow> u32 \<Rightarrow> app_main \<Rightarrow> app_main" where
  "APP_OnCanRx bd i data len m =
     (if i = APP_CAN_ID \<and> 1 \<le> len then
        m\<lparr>m_can_rx_count := m_can_rx_count m + 1,
          m_led := (if data ! 0 AND 0x01 \<noteq> 0 then bd_led bd else \<not> bd_led bd)\<rparr>
      else if i = bd_isotp_rx_id bd \<and> len = 8 then route_frame data m
      else m)"

definition app_callbacks :: "board \<Rightarrow> nat \<Rightarrow> app_main rx_callback" where
  "app_callbacks bd k i data len s =
     (let m = APP_OnCanRx bd i data len (set_can (fst s) (snd s)) in (m_can m, m))"

subsection \<open>The transport service\<close>

definition count_tx_result :: "IsotpResult_t \<Rightarrow> IsotpTestStats_t \<Rightarrow> IsotpTestStats_t" where
  "count_tx_result r st =
     (let st1 = st\<lparr>st_last_tx_result := r\<rparr> in
      if r = ISOTP_ERR_TIMEOUT
      then st1\<lparr>st_tx_timeouts := st_tx_timeouts st1 + 1, st_tx_errors := st_tx_errors st1 + 1\<rparr>
      else if r \<noteq> ISOTP_OK then st1\<lparr>st_tx_errors := st_tx_errors st1 + 1\<rparr> else st1)"

definition count_rx_result :: "IsotpResult_t \<Rightarrow> IsotpTestStats_t \<Rightarrow> IsotpTestStats_t" where
  "count_rx_result r st =
     (let st1 = st\<lparr>st_last_rx_result := r\<rparr> in
      if r = ISOTP_ERR_TIMEOUT
      then st1\<lparr>st_rx_timeouts := st_rx_timeouts st1 + 1, st_rx_errors := st_rx_errors st1 + 1\<rparr>
      else if r \<noteq> ISOTP_OK then st1\<lparr>st_rx_errors := st_rx_errors st1 + 1\<rparr> else st1)"

definition poll_endpoints :: "app_main \<Rightarrow> app_main" where
  "poll_endpoints m =
     (let (r, tx, p) = IsotpTx_Poll (m_isotp_tx m) (m_port m);
          m1 = set_port p (m\<lparr>m_isotp_tx := tx, m_isotp_test_stats := count_tx_result r (m_isotp_test_stats m)\<rparr>);
          (r2, rx, p2) = IsotpRx_Poll (m_isotp_rx m1) (m_port m1)
      in set_port p2 (m1\<lparr>m_isotp_rx := rx, m_isotp_test_stats := count_rx_result r2 (m_isotp_test_stats m1)\<rparr>))"

text \<open>The response of \<open>n\<close> bytes in the transmit buffer is handed to the sender.\<close>

definition start_response :: "u16 \<Rightarrow> app_main \<Rightarrow> app_main" where
  "start_response n m =
     (let (r, tx, p) = IsotpTx_Start (m_isotp_tx m) (Some (take (unat n) (m_isotp_tx_buffer m))) n (m_port m);
          m1 = set_port p (m\<lparr>m_isotp_tx := tx\<rparr>)
      in if r = ISOTP_OK then m1\<lparr>m_isotp_serving := True\<rparr> else m1)"

definition put_response :: "u8 list \<Rightarrow> app_world UdsEcu_t \<Rightarrow> app_main \<Rightarrow> app_main" where
  "put_response bs ecu m = m\<lparr>m_uds := ecu, m_isotp_tx_buffer := buf_write (m_isotp_tx_buffer m) 0 bs\<rparr>"

definition serve_request :: "u32 \<Rightarrow> app_main \<Rightarrow> app_main" where
  "serve_request now m =
     (if IsotpRx_MessageReady (Some (m_isotp_rx m)) \<and> \<not> m_isotp_serving m then
        let (r, request, rx) = IsotpRx_Read (m_isotp_rx m) (Some APP_ISOTP_RX_BUFFER_SIZE);
            m1 = m\<lparr>m_isotp_rx := rx\<rparr>
        in if r \<noteq> ISOTP_OK then m1 else
          let ((res, reply), ecu) = UdsEcu_Process (m_uds m1) now (Some request) (of_nat (length request))
                                      (Some APP_ISOTP_TX_BUFFER_SIZE);
              m2 = put_response reply ecu m1
          in if (res = UDS_PROCESS_RESPONSE \<or> res = UDS_PROCESS_RESPONSE_PENDING) \<and> 0 < length reply
             then start_response (of_nat (length reply)) m2 else m2
      else m)"

definition serve_pending :: "app_main \<Rightarrow> app_main" where
  "serve_pending m =
     (if \<not> m_isotp_serving m then
        let ((res, reply), ecu) = UdsEcu_PollPending (m_uds m) (Some APP_ISOTP_TX_BUFFER_SIZE);
            m1 = put_response reply ecu m
        in if res = UDS_PROCESS_RESPONSE \<and> 0 < length reply
           then start_response (of_nat (length reply)) m1 else m1
      else m)"

definition APP_ServiceIsotp :: "u32 \<Rightarrow> app_main \<Rightarrow> app_main" where
  "APP_ServiceIsotp now m =
     (let m1 = serve_pending (serve_request now (poll_endpoints m))
      in if m_isotp_serving m1 \<and> \<not> IsotpTx_IsBusy (Some (m_isotp_tx m1))
         then m1\<lparr>m_isotp_serving := False\<rparr> else m1)"

subsection \<open>The health service\<close>

definition APP_HealthLog :: "u8 \<Rightarrow> u8 \<Rightarrow> app_main \<Rightarrow> app_main" where
  "APP_HealthLog kind arg m =
     (let (t, m1) = get_tick m;
          lg = m_app_health_log m1;
          entry = \<lparr>hl_tick = t, hl_kind = kind, hl_arg = arg, hl_reserved = 0\<rparr>
      in m1\<lparr>m_app_health_log :=
             \<lparr>hl_entries = (hl_entries lg)[unat (hl_next_index lg) := entry],
              hl_next_index = (hl_next_index lg + 1) mod APP_HEALTH_LOG_SIZE,
              hl_recorded = hl_recorded lg + 1\<rparr>\<rparr>)"

definition consecutive_failures :: "app_main \<Rightarrow> u8" where
  "consecutive_failures m = (case m_health m of Some h \<Rightarrow> h_consecutive_recovery_failures h | None \<Rightarrow> 0)"

definition attempt_recovery :: "bool \<Rightarrow> app_main \<Rightarrow> bool \<times> app_main" where
  "attempt_recovery recovered m =
     (case m_health m of None \<Rightarrow> (False, m)
      | Some h \<Rightarrow> let (ok, h1) = CanHealth_AttemptRecovery h recovered in (ok, set_health h1 m))"

text \<open>The failure branch, written twice in the code.\<close>

definition recovery_failed :: "app_main \<Rightarrow> app_main" where
  "recovery_failed m =
     (let m1 = APP_HealthLog APP_LOG_FAILURE (consecutive_failures m) m
      in if CanHealth_ResetRequested (m_health m1)
         then (APP_HealthLog APP_LOG_RESET (consecutive_failures m1) m1)\<lparr>m_reset := True\<rparr> else m1)"

definition judge_attempt :: "app_main \<Rightarrow> app_main" where
  "judge_attempt m =
     (let m1 = m\<lparr>m_recovery := (m_recovery m)\<lparr>rv_attempt_pending := False\<rparr>\<rparr>;
          recovered = (case CanDriver_GetErrorCounters (m_can m1) of None \<Rightarrow> False
            | Some (tec, rc, bus_off) \<Rightarrow> \<not> bus_off \<and>
                (case m_health m1 of None \<Rightarrow> False
                 | Some h \<Rightarrow> h_bus_off_events h = rv_bus_off_events_at_attempt (m_recovery m1)));
          (ok, m2) = attempt_recovery recovered m1
      in if ok then APP_HealthLog APP_LOG_SUCCESS 0 m2 else recovery_failed m2)"

definition start_attempt :: "u32 \<Rightarrow> app_main \<Rightarrow> app_main" where
  "start_attempt now m =
     (let m1 = m\<lparr>m_recovery := (m_recovery m)\<lparr>rv_last_recovery_tick := now\<rparr>\<rparr>;
          (r, d) = CanDriver_Recover (m_can m1);
          m2 = set_can d m1
      in if r = HAL_OK then
           APP_HealthLog APP_LOG_ATTEMPT 0
             (m2\<lparr>m_recovery := (m_recovery m2)\<lparr>rv_attempt_pending := True, rv_attempt_started_tick := now,
                rv_bus_off_events_at_attempt := (case m_health m2 of Some h \<Rightarrow> h_bus_off_events h | None \<Rightarrow> 0)\<rparr>\<rparr>)
         else let (ok, m3) = attempt_recovery False m2 in if \<not> ok then recovery_failed m3 else m3)"

definition APP_ServiceCanHealth :: "u32 \<Rightarrow> app_main \<Rightarrow> app_main" where
  "APP_ServiceCanHealth now m =
     (if rv_attempt_pending (m_recovery m) then
        if now - rv_attempt_started_tick (m_recovery m) < APP_CAN_RECOVERY_SETTLE_MS then m else judge_attempt m
      else if CanHealth_GetState (m_health m) \<noteq> CAN_HEALTH_STATE_BUS_OFF then m
      else if now - rv_last_recovery_tick (m_recovery m) < APP_CAN_RECOVERY_PERIOD_MS then m
      else start_attempt now m)"

definition saturate8 :: "u32 \<Rightarrow> u8" where
  "saturate8 n = (if 255 < n then 255 else ucast n)"

fun state_code :: "CanHealthState_t \<Rightarrow> u8" where
  "state_code CAN_HEALTH_STATE_ERROR_ACTIVE = 0"
| "state_code CAN_HEALTH_STATE_ERROR_PASSIVE = 1"
| "state_code CAN_HEALTH_STATE_BUS_OFF = 2"

definition APP_UpdateHealthSummary :: "app_main \<Rightarrow> app_main" where
  "APP_UpdateHealthSummary m =
     (case m_health m of None \<Rightarrow> m | Some h \<Rightarrow>
      let h1 = (case CanDriver_GetErrorCounters (m_can m) of None \<Rightarrow> h
                | Some (tec, rc, bus_off) \<Rightarrow> CanHealth_SyncHardwareCounters h tec rc bus_off);
          full = CanHealth_GetSnapshot h1
      in (set_health h1 m)\<lparr>m_can_health_full := full,
           m_can_health_summary := [state_code (snap_state full), saturate8 (snap_bus_off_events full),
             saturate8 (snap_recovery_successes full), snap_consecutive_recovery_failures full]\<rparr>)"

subsection \<open>The main loop\<close>

definition service_cyclic :: "u32 \<Rightarrow> app_main \<Rightarrow> app_main" where
  "service_cyclic now m =
     (if APP_CAN_TX_PERIOD_MS \<le> now - m_last_tx_tick m then
        let m1 = APP_CAN_Send (m_tx_value m) (m\<lparr>m_last_tx_tick := now\<rparr>)
        in m1\<lparr>m_tx_value := m_tx_value m1 XOR 1\<rparr>
      else m)"

definition service_watchdogs :: "u32 \<Rightarrow> app_main \<Rightarrow> app_main" where
  "service_watchdogs now m =
     set_watchdog (Watchdog_WwdgService now (Watchdog_Kick (w_watchdog (m_world m)))) m"

text \<open>One iteration, up to the delay that ends it; \<open>None\<close> is an iteration that does not return.\<close>

definition main_loop :: "board \<Rightarrow> app_main \<Rightarrow> app_main option" where
  "main_loop bd m =
     (let (now, m0) = get_tick m in
      case CanDriver_ProcessRx (app_callbacks bd) (m_can m0, m0) of None \<Rightarrow> None
      | Some (d, m1) \<Rightarrow>
        let m2 = set_can d m1;
            m3 = m2\<lparr>m_uds := UdsEcu_Tick (m_uds m2) now\<rparr>;
            m4 = APP_ServiceCanHealth now (service_cyclic now (APP_ServiceIsotp now m3))
        in Some (if m_reset m4 then m4 else service_watchdogs now (APP_UpdateHealthSummary m4)))"

subsection \<open>Interrupts and start-up\<close>

definition HAL_CAN_RxFifoMsgPendingCallback :: "app_main \<Rightarrow> app_main" where
  "HAL_CAN_RxFifoMsgPendingCallback m = set_can (CanDriver_RxIrqHandler (m_can m)) m"

definition HAL_CAN_ErrorCallback :: "app_main \<Rightarrow> app_main" where
  "HAL_CAN_ErrorCallback m =
     (let (d, lg, k) = CanDriver_OnErrorIsr (m_can m) (m_can_error_log m) (port_clock (m_port m))
      in set_clock k (set_can d m)\<lparr>m_can_error_log := lg\<rparr>)"

text \<open>The steps of \<open>main\<close> before the loop, on the zeroed globals \<open>m\<close>, the CAN peripheral \<open>hcan1\<close>
  and the receive buffer; \<open>None\<close> is \<open>Error_Handler\<close>, which does not return.\<close>

definition init_can :: "board \<Rightarrow> can_hw \<Rightarrow> app_main \<Rightarrow> app_main option" where
  "init_can bd hcan1 m =
     (let (r, d) = CanDriver_Init (m_can m) (Some hcan1) (bd_prescaler bd) (bd_time_seg1 bd) (bd_time_seg2 bd) 0 (Some 0) in
      if r \<noteq> HAL_OK then None
      else let (r2, d2) = CanDriver_Start (CanDriver_AttachHealth d (Some (CanHealth_Init None)))
           in if r2 \<noteq> HAL_OK then None else Some (set_can d2 m))"

definition init_params :: "board \<Rightarrow> app_main \<Rightarrow> app_main" where
  "init_params bd m =
     (let (st, f) = AppParamStorage_Init (bd_flash_size bd) (st_flash (m_world m))
      in set_world ((m_world m)\<lparr>st_params := st, st_flash := f\<rparr>) m)"

definition init_uds :: "board \<Rightarrow> app_main \<Rightarrow> app_main" where
  "init_uds bd m =
     m\<lparr>m_uds := UdsEcu_InitWithHooks (m_uds m) (bd_variant bd)
         (Some (AppParamStorage_GetUdsStorage (bd_flash_size bd))) (Some (app_hooks (bd_flash_size bd)))\<rparr>"

definition init_isotp :: "board \<Rightarrow> u8 list \<Rightarrow> isotp_globals \<Rightarrow> app_main \<Rightarrow> app_main" where
  "init_isotp bd rxbuf g m =
     (let cfg = IsotpConfig_Init (bd_isotp_tx_id bd) (bd_isotp_rx_id bd) (Some rxbuf) APP_ISOTP_RX_BUFFER_SIZE
      in m\<lparr>m_isotp_tx := IsotpTx_Init (m_isotp_tx m) (Some app_channel) cfg,
           m_isotp_rx := fst (IsotpRx_Init (m_isotp_rx m) (Some app_channel) cfg g)\<rparr>)"

definition init_watchdogs :: "board \<Rightarrow> app_main \<Rightarrow> app_main option" where
  "init_watchdogs bd m =
     (let (ok, w) = Watchdog_Init (bd_lsi_hz bd) WATCHDOG_DEFAULT_TIMEOUT_MS (w_watchdog (m_world m)) in
      if \<not> ok then None
      else let (now, m1) = get_tick (set_watchdog w m);
               (ok2, w2) = Watchdog_WwdgInit now (w_watchdog (m_world m1))
           in if \<not> ok2 then None else Some (set_watchdog w2 m1))"

definition main_init :: "board \<Rightarrow> can_hw \<Rightarrow> u8 list \<Rightarrow> isotp_globals \<Rightarrow> app_main \<Rightarrow> app_main option" where
  "main_init bd hcan1 rxbuf g m =
     (case init_can bd hcan1 (init_params bd m) of None \<Rightarrow> None
      | Some m1 \<Rightarrow> init_watchdogs bd (init_isotp bd rxbuf g (init_uds bd m1)))"

end
