(* ===== verification/UdsClaims.thy ===== *)
theory UdsClaims
  imports UdsEcu
begin

section \<open>Claims about sessions and security access\<close>

text \<open>The claims are stated for the server with the ECU's callbacks.  \<open>sample_server\<close> is the
  server \<open>UdsEcu_Init\<close> sets up for the F407 variant.\<close>

definition blank_server :: UdsServer_t where
  "blank_server = \<lparr>srv_dids = replicate 16 zero_did, srv_did_count = 0,
     srv_routines = replicate 8 \<lparr>rtn_id = 0, rtn_sessions_mask = 0, rtn_requires_unlock = False, rtn_handler = None\<rparr>,
     srv_routine_count = 0, srv_p2_server_ms = 0, srv_p2_star_server_ms = 0, srv_s3_server_ms = 0,
     srv_supported_sessions_mask = 0, srv_security_salt = 0, srv_session = 0, srv_s3_active = False,
     srv_s3_deadline_ms = 0, srv_session_timeout_count = 0, srv_seed_state = 0, srv_pending_seed = 0,
     srv_seed_pending = False, srv_security_unlocked = False, srv_security_attempts = 0,
     srv_security_delay_until_ms = 0, srv_routine_state = replicate 8 UDS_ROUTINE_IDLE,
     srv_routine_result = replicate 8 (replicate 16 0), srv_routine_result_length = replicate 8 0,
     srv_pending_routine_response = False, srv_pending_routine_index = 0, srv_pending_routine_subfunction = 0,
     srv_pending_routine_suppress_positive = False, srv_pending_routine_data = replicate 16 0,
     srv_pending_routine_data_length = 0, srv_pending_did_write = False, srv_pending_did_index = 0,
     srv_pending_did_data = replicate 64 0, srv_pending_did_length = 0\<rparr>"

definition blank_rest :: "unit ecu_rest" where
  "blank_rest = \<lparr>ecu_did_db = \<lparr>db_dids = [], db_did_count = 0\<rparr>, ecu_variant = UDS_ECU_F407,
     ecu_storage = \<lparr>st_load = None, st_save = None\<rparr>, ecu_has_storage = False,
     ecu_hooks = \<lparr>hook_self_test = None, hook_erase_params = None\<rparr>,
     ecu_self_test_context = \<lparr>ctx_owner = False, ctx_polls = 0, ctx_executed = False, ctx_result = 0\<rparr>,
     ecu_erase_context = \<lparr>ctx_owner = False, ctx_polls = 0, ctx_executed = False, ctx_result = 0\<rparr>,
     ecu_routines = [], ecu_app = ()\<rparr>"

definition sample_ecu :: "unit UdsEcu_t" where
  "sample_ecu = UdsEcu_Init (blank_server, blank_rest) UDS_ECU_F407"

definition sample_config :: UdsServerConfig_t where
  "sample_config = \<lparr>ucfg_dids = Some (db_dids (UdsDidDb_Init UDS_ECU_F407)), ucfg_did_count = 6,
     ucfg_routines = None, ucfg_routine_count = 0, ucfg_p2_server_ms = 0, ucfg_p2_star_server_ms = 0,
     ucfg_s3_server_ms = 0, ucfg_supported_sessions_mask = 0, ucfg_security_salt = 0\<rparr>"

definition sample_server :: UdsServer_t where
  "sample_server = snd (UdsServer_Init blank_server (Some sample_config))"

lemma sample_init: "UdsServer_Init blank_server (Some sample_config) = (True, sample_server)"
proof -
  have "fst (UdsServer_Init blank_server (Some sample_config))" by code_simp
  then show ?thesis by (simp add: sample_server_def prod_eq_iff)
qed

text \<open>A run that enters the extended session and asks for a seed.\<close>

definition seed_run :: "uds_event list" where
  "seed_run = [UdsRequest 5 (Some [0x10, 3]) 2 (Some 8), UdsRequest 6 (Some [0x27, 1]) 2 (Some 8)]"

definition seeded :: "unit UdsEcu_t" where
  "seeded = fold (uds_step ecu_calls) seed_run (sample_server, blank_rest)"

lemma seeded_run: "fold (uds_step ecu_calls) seed_run (sample_server, blank_rest) = (fst seeded, snd seeded)"
  by (simp add: seeded_def)

text \<open>C18: In every state the server reaches from a successful initialisation by any sequence of
  requests (valid or not), ticks, polls and lock calls, the session is one of the three, the
  session timer runs exactly outside the default session, the default session is locked, and
  fewer than three failed attempts are on record.\<close>

theorem security_state_invariant:
  fixes e :: "'a ecu_rest"
  assumes "UdsServer_Init s0 config = (True, s)"
    and "fold (uds_step ecu_calls) evs (s, e) = (s', e')"
  shows "srv_session s' \<in> {1, 2, 3} \<and> (srv_s3_active s' \<longleftrightarrow> srv_session s' \<noteq> 1) \<and>
    (srv_session s' = 1 \<longrightarrow> \<not> srv_security_unlocked s' \<and> \<not> srv_seed_pending s') \<and>
    srv_security_attempts s' < 3"
  using ecu.run_ok [of "(s, e)" evs] init_secure [OF assms(1)] assms(2)
  by (simp add: sec_ok_def uds_consts UDS_SECURITY_MAX_ATTEMPTS_def)

theorem security_state_invariant_witness:
  "srv_session (fst seeded) = 3 \<and> srv_seed_pending (fst seeded) \<and> srv_s3_active (fst seeded)"
proof -
  have "srv_session (fst seeded) = 3 \<and> srv_seed_pending (fst seeded)" by code_simp
  with security_state_invariant [OF sample_init seeded_run] show ?thesis by simp
qed

text \<open>C14: When the server is unlocked after a run that starts locked, some request of the run gave
  the key that belongs to the seed then pending, in the programming or the extended session and
  outside a lockout delay; and from that request on the server has stayed unlocked in one and
  the same session.\<close>

theorem unlocked_only_by_right_key:
  fixes e :: "'a ecu_rest"
  assumes "UdsServer_Init s0 config = (True, s)"
    and "srv_security_unlocked (fst (fold (uds_step ecu_calls) evs (s, e)))"
  shows "\<exists>evs1 ev evs2. evs = evs1 @ ev # evs2 \<and>
    gives_key (fst (fold (uds_step ecu_calls) evs1 (s, e))) ev \<and>
    (\<forall>x \<in> set (uds_states ecu_calls evs2 (fold (uds_step ecu_calls) (evs1 @ [ev]) (s, e))).
       srv_security_unlocked (fst x) \<and>
       srv_session (fst x) = srv_session (fst (fold (uds_step ecu_calls) evs (s, e))))"
  using ecu.run_unlocks [of "(s, e)" evs] init_locked [OF assms(1)] assms(2) by simp

text \<open>The key of the sample's first seed.\<close>

definition sample_key :: "u8 list" where
  "sample_key = [0xE1, 0x74, 0xF5, 0xDA]"

definition unlock_run :: "uds_event list" where
  "unlock_run = seed_run @ [UdsRequest 9 (Some ([0x27, 2] @ sample_key)) 6 (Some 8)]"

definition unlocked :: "unit UdsEcu_t" where
  "unlocked = fold (uds_step ecu_calls) unlock_run (sample_server, blank_rest)"

theorem unlocked_only_by_right_key_witness:
  "\<exists>evs1 ev evs2. unlock_run = evs1 @ ev # evs2 \<and>
     gives_key (fst (fold (uds_step ecu_calls) evs1 (sample_server, blank_rest))) ev"
proof -
  have "srv_security_unlocked (fst unlocked)" by code_simp
  with unlocked_only_by_right_key [OF sample_init, of unlock_run blank_rest] show ?thesis
    unfolding unlocked_def by blast
qed

text \<open>A seed is given while no delay is set.\<close>

lemma seed_given:
  assumes "srv_session s \<in> {UDS_SESSION_PROGRAMMING, UDS_SESSION_EXTENDED}" and "srv_security_delay_until_ms s = 0"
  shows "\<exists>seed. length seed = 4 \<and> fst (UdsServer_SecurityAccess s u [0x27, 1] 8) = (UDS_PROCESS_RESPONSE, [0x67, 1] @ seed)"
  using assms by (auto simp: UdsServer_SecurityAccess_def UdsServer_SecurityDelayActive_def security_request_seed_def
      positive_reply_def uds_consts UDS_SUBFUNCTION_MASK_def UDS_SUPPRESS_POSITIVE_RESPONSE_def Let_def split: prod.splits)


text \<open>Two wrong keys and a new seed.\<close>

definition two_wrong_run :: "uds_event list" where
  "two_wrong_run = [UdsRequest 5 (Some [0x10, 3]) 2 (Some 8),
     UdsRequest 6 (Some [0x27, 1]) 2 (Some 8), UdsRequest 7 (Some [0x27, 2, 0, 0, 0, 0]) 6 (Some 8),
     UdsRequest 8 (Some [0x27, 1]) 2 (Some 8), UdsRequest 9 (Some [0x27, 2, 0, 0, 0, 0]) 6 (Some 8),
     UdsRequest 10 (Some [0x27, 1]) 2 (Some 8)]"

definition two_wrong :: "unit UdsEcu_t" where
  "two_wrong = fold (uds_step ecu_calls) two_wrong_run (sample_server, blank_rest)"

definition third_wrong :: "uds_reply \<times> unit UdsEcu_t" where
  "third_wrong = UdsServer_Process ecu_calls 11 (Some [0x27, 2, 0, 0, 0, 0]) 6 (Some 8) (fst two_wrong, snd two_wrong)"

lemma two_wrong_state:
  "(sec_view (fst two_wrong), srv_s3_deadline_ms (fst two_wrong)) =
     ((3, True, False, True, 1210119364, 2, 0, 0x50324341, 1210119364), 5010)"
  by code_simp


section \<open>Claims about answers and data\<close>

text \<open>C21: Every request gets a well-formed answer that fits the response buffer: a positive
  response starts with the service identifier plus 0x40, a negative one is \<open>7F sid nrc\<close>, a
  pending one \<open>7F sid 78\<close>, and every other result code comes with no bytes.\<close>

theorem replies_well_formed:
  fixes e :: "'a ecu_rest"
  assumes "UdsServer_Process ecu_calls now req len (Some cap) (s, e) = ((code, bs), s', e')"
  defines "sid \<equiv> if len = 0 then 0 else the req ! 0"
  shows "length bs \<le> unat cap \<and>
    (if code = UDS_PROCESS_RESPONSE then (\<exists>nrc. bs = [0x7F, sid, nrc]) \<or> (\<exists>tl. bs = (sid + 0x40) # tl)
     else if code = UDS_PROCESS_RESPONSE_PENDING then bs = [0x7F, sid, 0x78]
     else bs = [])"
  using ecu.process_reply [OF assms(1), folded sid_def] unfolding reply_ok_def fst_conv snd_conv .

theorem replies_well_formed_witness:
  "let reply = fst (UdsServer_Process ecu_calls 0 (Some [0x22, 0xF1, 0x9A]) 3 (Some 8) (sample_server, blank_rest))
   in fst reply = UDS_PROCESS_RESPONSE \<and> length (snd reply) \<le> 8"
proof -
  let ?p = "UdsServer_Process ecu_calls 0 (Some [0x22, 0xF1, 0x9A]) 3 (Some 8) (sample_server, blank_rest)"
  have "fst (fst ?p) = UDS_PROCESS_RESPONSE" by code_simp
  moreover have "?p = ((fst (fst ?p), snd (fst ?p)), fst (snd ?p), snd (snd ?p))" by simp
  from replies_well_formed [OF this] have "length (snd (fst ?p)) \<le> unat (8 :: u16)" by simp
  ultimately show ?thesis by (simp add: Let_def)
qed

text \<open>C20: A positive (or pending) answer in a non-default session starts the session timer again:
  a tick \<open>t\<close> ms later leaves the server as it is while \<open>t\<close> is below the S3 time, and from then
  on returns it to the locked default session and counts the timeout.  The clock may wrap.\<close>

theorem session_lasts_s3:
  fixes e :: "'a ecu_rest"
  assumes "UdsServer_Process ecu_calls now req len (Some cap) (s, e) = (reply, s', e')"
    and "fst reply = UDS_PROCESS_RESPONSE_PENDING \<or> fst reply = UDS_PROCESS_RESPONSE \<and> snd reply ! 0 \<noteq> 0x7F"
    and "srv_s3_active s'" and "unat t < 2 ^ 31"
  shows "if unat t < unat (srv_s3_server_ms s') then UdsServer_Tick s' (now + t) = s'
    else srv_session (UdsServer_Tick s' (now + t)) = 1 \<and> \<not> srv_security_unlocked (UdsServer_Tick s' (now + t)) \<and>
      \<not> srv_seed_pending (UdsServer_Tick s' (now + t)) \<and> \<not> srv_s3_active (UdsServer_Tick s' (now + t)) \<and>
      srv_session_timeout_count (UdsServer_Tick s' (now + t)) = srv_session_timeout_count s' + 1 \<and>
      srv_dids (UdsServer_Tick s' (now + t)) = srv_dids s'"
proof -
  have "timer_restarted now s'"
    using ecu.process_restarts [OF assms(1)] assms(2) by (simp add: positive_answer_def)
  from tick_restarted [OF this assms(3,4)] show ?thesis
    by (simp add: UdsServer_LockSecurityState_def word_le_nat_alt UDS_SESSION_DEFAULT_def not_less)
qed

definition extended_reply :: "uds_reply \<times> unit UdsEcu_t" where
  "extended_reply = UdsServer_Process ecu_calls 5 (Some [0x10, 3]) 2 (Some 8) (sample_server, blank_rest)"

theorem session_lasts_s3_witness:
  "srv_session (UdsServer_Tick (fst (snd extended_reply)) (5 + 5000)) = 1 \<and>
   UdsServer_Tick (fst (snd extended_reply)) (5 + 4999) = fst (snd extended_reply)"
proof -
  have a: "fst (fst extended_reply) = UDS_PROCESS_RESPONSE \<and> snd (fst extended_reply) ! 0 \<noteq> 0x7F \<and>
    srv_s3_active (fst (snd extended_reply)) \<and> srv_s3_server_ms (fst (snd extended_reply)) = 5000"
    by code_simp
  have p: "UdsServer_Process ecu_calls 5 (Some [0x10, 3]) 2 (Some 8) (sample_server, blank_rest) =
    (fst extended_reply, fst (snd extended_reply), snd (snd extended_reply))"
    by (simp add: extended_reply_def)
  show ?thesis
    using session_lasts_s3 [OF p, of 5000] session_lasts_s3 [OF p, of 4999] a by simp
qed

text \<open>C19: A request changes a data identifier, or leaves a write pending that was not, only if it
  is a routine request or a write to an identifier that exists, is writable, in a session its
  mask and its required session allow, unlocked where it demands it, and with a value that fits
  its storage; and then no other identifier changes.\<close>

theorem writes_are_guarded:
  fixes e :: "'a ecu_rest"
  assumes "UdsServer_Process ecu_calls now (Some r) len (Some cap) (s, e) = (reply, s', e')" and "0 < len"
    and "srv_dids s' \<noteq> srv_dids s \<or> srv_pending_did_write s' \<and> \<not> srv_pending_did_write s"
    and "r ! 0 \<noteq> 0x31"
  shows "r ! 0 = 0x2E \<and>
    (\<exists>i. write_allowed (UdsServer_Tick s now) (take (unat len) r) i \<and>
       (\<forall>j. j \<noteq> i \<longrightarrow> srv_dids s' ! j = srv_dids s ! j))"
proof -
  have len: "len \<noteq> 0" "take (unat len) r ! 0 = r ! 0"
    using assms(2) by (auto simp: word_neq_0_conv unat_gt_0)
  have "uds_service ecu_calls now (take (unat len) r) cap (UdsServer_Tick s now, e) = (reply, s', e')"
    using assms(1) len by (simp add: UdsServer_Process_def Let_def)
  from service_write [OF this] assms(3,4) len show ?thesis
    by (simp add: UDS_SID_ROUTINE_CONTROL_def UDS_SID_WRITE_DATA_BY_IDENTIFIER_def)
qed

text \<open>A write to the custom identifier in the unlocked extended session.\<close>

definition custom_write :: "uds_reply \<times> unit UdsEcu_t" where
  "custom_write = UdsServer_Process ecu_calls 20 (Some [0x2E, 1, 0, 7, 8, 9]) 6 (Some 8) (fst unlocked, snd unlocked)"

theorem writes_are_guarded_witness:
  "\<exists>i. write_allowed (UdsServer_Tick (fst unlocked) 20) [0x2E, 1, 0, 7, 8, 9] i \<and>
    (\<forall>j. j \<noteq> i \<longrightarrow> srv_dids (fst (snd custom_write)) ! j = srv_dids (fst unlocked) ! j)"
proof -
  have "map did_length (srv_dids (fst (snd custom_write))) \<noteq> map did_length (srv_dids (fst unlocked))"
    by code_simp
  then have a: "srv_dids (fst (snd custom_write)) \<noteq> srv_dids (fst unlocked)" by metis
  have p: "UdsServer_Process ecu_calls 20 (Some [0x2E, 1, 0, 7, 8, 9]) 6 (Some 8) (fst unlocked, snd unlocked) =
    (fst custom_write, fst (snd custom_write), snd (snd custom_write))"
    by (simp add: custom_write_def)
  from writes_are_guarded [OF p] a show ?thesis by simp
qed

end
