(* ===== verification/AppBackend.thy ===== *)
theory AppBackend
  imports AppMain UdsClaims
begin

section \<open>The storage and the hooks behind the diagnostic server\<close>

text \<open>
  The application's storage and hooks satisfy the contract of an ECU backend: whatever the server does,
  the storage stays in a state its functions are made for (running, or switched off by a start that
  failed), and the driver and the watchdogs are not touched.
\<close>

subsection \<open>A failed start\<close>

context param_flash
begin

lemma load_fails:
  assumes "valid f" and "0 < N" and "N \<le> 1638" and "80 * N \<le> length (cells f)"
    and "ParamLog_Load io (of_nat N) l0 f = (False, log, f')"
  shows "valid f' \<and> log = ParamLog_Init"
proof -
  let ?l = "ParamLog_Init\<lparr>log_slot_count := of_nat N\<rparr>"
  have n: "unat (of_nat N :: u16) = N" using assms(3) by (rule unat_slot)
  have pos: "of_nat N \<noteq> (0 :: u16)" "\<not> PARAM_LOG_MAX_SLOTS < of_nat N"
    using n assms(2,3) by (auto simp: PARAM_LOG_MAX_SLOTS_def word_less_nat_alt word_unat_eq_iff)
  have init: "scanned (cells f) 0 ?l None" by (simp add: scanned_def ParamLog_Init_def)
  obtain res log1 latest f1 where s: "scan_slots rd N (of_nat 0) ?l None f = (res, log1, latest, f1)"
    by (metis prod_cases4)
  from scan_result [OF assms(1,4,3) _ init s] obtain m where m: "f1 = f" "m \<le> N" "scanned (cells f) m log1 latest"
    "res = Some True \<or> res = None" by auto
  have "res = None" using m(4) s pos n assms(5) by (auto simp: ParamLog_Load_def io_ops)
  then have c: "compact rd er wr (of_nat N) log1 latest f = (False, log, f')"
    using s pos n m(1) assms(5) by (simp add: ParamLog_Load_def io_ops)
  obtain e f2 where e: "er f = (e, f2)" by fastforce
  note er = erase_all [OF assms(1) e]
  show ?thesis
  proof (cases "\<not> e \<or> latest = None")
    case True
    with c e er show ?thesis by (cases e) (auto simp: compact_def Let_def)
  next
    case False
    then obtain img where img: "latest = Some img" by auto
    then have "m \<noteq> 0" using m(3) by (auto simp: scanned_def split: if_splits)
    then have "img = slot_image (cells f) (m - 1)" using m(3) img by (simp add: scanned_def)
    then have len: "length img = 80" using length_slot [OF assms(4)] m(2) \<open>m \<noteq> 0\<close> by simp
    obtain w f3 where w: "write_verified rd wr 0 img f2 = (w, f3)" by fastforce
    have "valid f3" using write_verified_slot [OF _ _ _ len w, of 0] er assms(2,4) by simp
    with c e er img w False show ?thesis by (auto simp: compact_def Let_def split: if_splits)
  qed
qed

end

subsection \<open>Running or switched off\<close>

definition storage_any :: "u32 \<Rightarrow> 'x param_state_scheme \<Rightarrow> bool" where
  "storage_any fsize st \<longleftrightarrow> storage_ok fsize st \<or>
     flash_valid fsize (st_flash st) \<and> aps_log (st_params st) = ParamLog_Init"

lemma storage_init_any:
  assumes "ecu_flash fsize" and "flash_valid fsize f" and "tail_clean (fl_cells f) (unat (APP_PARAM_SLOT_COUNT fsize))"
    and "AppParamStorage_Init fsize f = (st, f')"
  shows "storage_any fsize (w\<lparr>st_params := st, st_flash := f'\<rparr>)"
proof (cases "aps_valid st")
  case True
  from storage_starts [OF assms True] show ?thesis
    by (simp add: storage_any_def storage_ok_def log_state_ok_def)
next
  case False
  note n = slot_counts [OF assms(1)]
  have load: "ParamLog_Load (app_io fsize) (of_nat (unat (APP_PARAM_SLOT_COUNT fsize))) ParamLog_Init f = (False, aps_log st, f')"
    using assms(4) False n(4) by (auto simp: AppParamStorage_Init_def split: prod.splits)
  have "80 * unat (APP_PARAM_SLOT_COUNT fsize) \<le> length (fl_cells f)"
    using n(3) assms(2) by (simp add: flash_valid_def)
  from app_flash.load_fails [OF assms(2) n(1,2) this load] show ?thesis by (simp add: storage_any_def)
qed

lemma off_set: "app_param_save fsize did data st = (ok, st') \<Longrightarrow> aps_log (st_params st) = ParamLog_Init \<Longrightarrow> st' = st"
  by (auto simp: app_param_save_def ParamLog_Set_def ParamLog_Init_def)

lemma off_clear: "AppParamStorage_Clear fsize st = (ok, st') \<Longrightarrow> aps_log (st_params st) = ParamLog_Init \<Longrightarrow> st' = st"
  by (auto simp: AppParamStorage_Clear_def ParamLog_Clear_def ParamLog_Init_def Let_def)

lemma save_any: "app_param_save fsize did data st = (ok, st') \<Longrightarrow> storage_any fsize st \<Longrightarrow> storage_any fsize st'"
  using save_step off_set by (metis storage_any_def)

lemma clear_any: "AppParamStorage_Clear fsize st = (ok, st') \<Longrightarrow> storage_any fsize st \<Longrightarrow> storage_any fsize st'"
  using clear_storage_step off_clear by (metis storage_any_def)

subsection \<open>The contract\<close>

definition world_ok :: "u32 \<Rightarrow> app_port \<Rightarrow> watchdog \<Rightarrow> app_world \<Rightarrow> bool" where
  "world_ok fsize p wd w \<longleftrightarrow> storage_any fsize w \<and> w_port w = p \<and> w_watchdog w = wd"

lemma save_port: "app_param_save fsize did data w = (ok, w') \<Longrightarrow> w_port w' = w_port w \<and> w_watchdog w' = w_watchdog w"
  for w :: app_world
  by (auto simp: app_param_save_def split: prod.splits)

lemma clear_port: "AppParamStorage_Clear fsize w = (ok, w') \<Longrightarrow> w_port w' = w_port w \<and> w_watchdog w' = w_watchdog w"
  for w :: app_world
  by (auto simp: AppParamStorage_Clear_def Let_def split: prod.splits)

interpretation app_backend: ecu_backend "AppParamStorage_GetUdsStorage fsize" "app_hooks fsize" "world_ok fsize p wd"
  for fsize p wd
proof unfold_locales
  fix load did cap r and a a' :: app_world
  assume "st_load (AppParamStorage_GetUdsStorage fsize) = Some load" "load did cap a = (r, a')" "world_ok fsize p wd a"
  then show "world_ok fsize p wd a'" by (auto simp: AppParamStorage_GetUdsStorage_def app_param_load_def)
next
  fix save did data ok and a a' :: app_world
  assume "st_save (AppParamStorage_GetUdsStorage fsize) = Some save" "save did data a = (ok, a')" "world_ok fsize p wd a"
  then show "world_ok fsize p wd a'"
    using save_any [of fsize did data a ok a'] save_port [of fsize did data a ok a']
    by (auto simp: AppParamStorage_GetUdsStorage_def world_ok_def)
next
  fix test v and a a' :: app_world
  assume "hook_self_test (app_hooks fsize) = Some test" "test a = (v, a')" "world_ok fsize p wd a"
  then show "world_ok fsize p wd a'" by (auto simp: app_hooks_def APP_UdsSelfTest_def Let_def)
next
  fix erase ok and a a' :: app_world
  assume "hook_erase_params (app_hooks fsize) = Some erase" "erase a = (ok, a')" "world_ok fsize p wd a"
  then show "world_ok fsize p wd a'"
    using clear_any [of fsize a ok a'] clear_port [of fsize a ok a']
    by (auto simp: app_hooks_def APP_UdsEraseParams_def world_ok_def)
qed

subsection \<open>The server of the application\<close>

definition uds_ok :: "u32 \<Rightarrow> app_world UdsEcu_t \<Rightarrow> bool" where
  "uds_ok fsize ecu \<longleftrightarrow> mem_ok (fst ecu) \<and> sec_ok (fst ecu) \<and>
     ecu_storage (snd ecu) = AppParamStorage_GetUdsStorage fsize \<and> ecu_has_storage (snd ecu) \<and>
     ecu_hooks (snd ecu) = app_hooks fsize \<and> storage_any fsize (ecu_app (snd ecu))"

lemma env_of: "uds_ok fsize ecu \<Longrightarrow> ecu_env (AppParamStorage_GetUdsStorage fsize) (app_hooks fsize)
    (world_ok fsize (w_port (ecu_app (snd ecu))) (w_watchdog (ecu_app (snd ecu)))) (snd ecu)"
  by (simp add: uds_ok_def ecu_env_def world_ok_def)

lemma ok_of_env: "ecu_env (AppParamStorage_GetUdsStorage fsize) (app_hooks fsize) (world_ok fsize p wd) (snd ecu) \<Longrightarrow>
    mem_ok (fst ecu) \<Longrightarrow> sec_ok (fst ecu) \<Longrightarrow>
    uds_ok fsize ecu \<and> w_port (ecu_app (snd ecu)) = p \<and> w_watchdog (ecu_app (snd ecu)) = wd"
  by (auto simp: uds_ok_def ecu_env_def world_ok_def)

lemma uds_process_ok:
  assumes "UdsEcu_Process ecu now req len cap = (reply, ecu')" and "uds_ok fsize ecu"
  shows "uds_ok fsize ecu' \<and> w_port (ecu_app (snd ecu')) = w_port (ecu_app (snd ecu)) \<and>
    w_watchdog (ecu_app (snd ecu')) = w_watchdog (ecu_app (snd ecu))"
proof -
  obtain s e s' e' where p: "ecu = (s, e)" "ecu' = (s', e')" by fastforce
  have eq: "UdsServer_Process ecu_calls now req len cap (s, e) = (reply, s', e')"
    using assms(1) p by (simp add: UdsEcu_Process_def)
  have ok: "mem_ok s" "sec_ok s" using assms(2) p by (simp_all add: uds_ok_def)
  from app_backend.process_env [OF eq env_of [OF assms(2), unfolded p snd_conv]]
    ecu.process_memory [OF eq ok(1)] ecu.process_ok [OF eq ok(2)]
  show ?thesis using ok_of_env [of fsize _ _ ecu'] p by simp
qed

lemma uds_poll_ok:
  assumes "UdsEcu_PollPending ecu cap = (reply, ecu')" and "uds_ok fsize ecu"
  shows "uds_ok fsize ecu' \<and> w_port (ecu_app (snd ecu')) = w_port (ecu_app (snd ecu)) \<and>
    w_watchdog (ecu_app (snd ecu')) = w_watchdog (ecu_app (snd ecu))"
proof -
  obtain s e s' e' where p: "ecu = (s, e)" "ecu' = (s', e')" by fastforce
  have eq: "UdsServer_PollPending ecu_calls cap (s, e) = (reply, s', e')"
    using assms(1) p by (simp add: UdsEcu_PollPending_def)
  have ok: "mem_ok s" "sec_ok s" using assms(2) p by (simp_all add: uds_ok_def)
  from app_backend.poll_env [OF eq env_of [OF assms(2), unfolded p snd_conv]]
    ecu.poll_memory [OF eq ok(1)] sec_ok_view [OF ecu.poll_secure [OF eq] ok(2)]
  show ?thesis using ok_of_env [of fsize _ _ ecu'] p by simp
qed

lemma uds_tick_ok: "uds_ok fsize ecu \<Longrightarrow> uds_ok fsize (UdsEcu_Tick ecu now)"
  using tick_ok [of "fst ecu" now] mem_ok_view [OF mem_view_updates(2) [of "fst ecu" now]]
  by (simp add: uds_ok_def UdsEcu_Tick_def)

end
