(* ===== verification/RxDispatch.thy ===== *)
theory RxDispatch
  imports CanDriver
begin

section \<open>Dispatching received frames\<close>

text \<open>
  What a client's receive callback must respect for \<open>CanDriver_ProcessRx\<close> to return: it may do
  anything to the rest of the driver and its own state, but it leaves the two queues alone.  Then the
  two loops end, with both queues empty, and keep every invariant the callback keeps.  The callback
  may count on eight data bytes: the slots of a ring are eight bytes long, pushed or not.
\<close>

definition slots_ok :: "CanRxQueue_t \<Rightarrow> bool" where
  "slots_ok q \<longleftrightarrow> queue_ok q \<and> (\<forall>f \<in> set (q_frames q). length (frame_data f) = 8)"

lemma slots_init: "length (q_frames q) = 17 \<Longrightarrow> (\<forall>f \<in> set (q_frames q). length (frame_data f) = 8) \<Longrightarrow>
    slots_ok (CanRxQueue_Init q)"
  using queue_ok_Init [of q] by (auto simp: slots_ok_def CanRxQueue_Init_def)

lemma slots_reinit: "slots_ok q \<Longrightarrow> slots_ok (CanRxQueue_Init q)"
  by (rule slots_init) (simp_all add: slots_ok_def queue_ok_def)

lemma slots_push:
  assumes "slots_ok q"
  shows "slots_ok (snd (push_event q e))"
proof -
  have "queue_ok (snd (push_event q e))" using assms queue_ok_push by (simp add: slots_ok_def)
  moreover have "\<forall>f \<in> set (q_frames (snd (push_event q e))). length (frame_data f) = 8"
    using assms
    by (auto simp: slots_ok_def push_event_def CanRxQueue_Push_def CAN_RX_QUEUE_MAX_DATA_def buf_write_def Let_def
        dest!: set_update_subset_insert [THEN subsetD] split: prod.splits if_splits)
  ultimately show ?thesis by (simp add: slots_ok_def)
qed

lemma slots_push_all: "slots_ok q \<Longrightarrow> slots_ok (rxq.push_all q es)"
  by (induction es arbitrary: q) (simp_all add: slots_push)

lemma slots_pop:
  assumes "slots_ok q"
  shows "slots_ok (snd (CanRxQueue_Pop q)) \<and>
    (\<forall>f. fst (CanRxQueue_Pop q) = Some f \<longrightarrow> length (frame_data f) = 8 \<and>
       ring_count (snd (CanRxQueue_Pop q)) < ring_count q) \<and>
    (fst (CanRxQueue_Pop q) = None \<longrightarrow> ring_contents q = [])"
proof -
  have q: "queue_ok q" using assms by (simp add: slots_ok_def)
  have "ring_contents (snd (CanRxQueue_Pop q)) = tl (ring_contents q)" by (rule rxq.pop_rest [OF q])
  then have len: "ring_count (snd (CanRxQueue_Pop q)) = ring_count q - 1" by (metis length_ring_contents length_tl)
  have ne: "fst (CanRxQueue_Pop q) = None \<longleftrightarrow> ring_contents q = []"
    using rxq.pop_contents [OF q] by (cases "ring_contents q") (simp_all, metis fst_conv option.distinct(1))
  have "ring_count q \<noteq> 0" if "fst (CanRxQueue_Pop q) = Some f" for f
    using that ne by (metis length_0_conv length_ring_contents option.distinct(1))
  moreover have "q_frames (snd (CanRxQueue_Pop q)) = q_frames q" by (simp add: CanRxQueue_Pop_def Let_def)
  moreover have "f \<in> set (q_frames q)" if "fst (CanRxQueue_Pop q) = Some f" for f
    using that q by (auto simp: CanRxQueue_Pop_def queue_ok_def Let_def split: if_splits)
  ultimately show ?thesis using assms len ne queue_ok_pop [OF q] by (fastforce simp: slots_ok_def)
qed

text \<open>The interrupt handler keeps the slots.\<close>

lemma drain_slots: "slots_ok q \<Longrightarrow> rx_irq_drain f hw q = (b, hw', q') \<Longrightarrow> slots_ok q'"
proof (induction f hw q arbitrary: b hw' q' rule: rx_irq_drain.induct)
  case (1 f hw q)
  have push: "slots_ok (snd (CanRxQueue_Push q i d n))" for i d n
    using slots_push [OF "1.prems"(1), of "(i, d, n)"] by (simp add: push_event_def)
  show ?case
    using 1 push by (subst (asm) rx_irq_drain.simps) (auto split: if_splits option.splits prod.splits)
qed

lemma irq_slots:
  "slots_ok (drv_priority_rx_queue d) \<Longrightarrow> slots_ok (drv_rx_queue d) \<Longrightarrow>
    slots_ok (drv_priority_rx_queue (CanDriver_RxIrqHandler d)) \<and> slots_ok (drv_rx_queue (CanDriver_RxIrqHandler d))"
  by (auto simp: CanDriver_RxIrqHandler_def Let_def dest: drain_slots split: option.splits prod.splits if_splits)

abbreviation driver_slots :: "CanDriver_t \<Rightarrow> bool" where
  "driver_slots d \<equiv> slots_ok (drv_priority_rx_queue d) \<and> slots_ok (drv_rx_queue d)"

locale rx_client =
  fixes cb :: "'e rx_callback" and inv :: "CanDriver_t \<times> 'e \<Rightarrow> bool"
  assumes callback_inv: "inv s \<Longrightarrow> length data = 8 \<Longrightarrow> inv (cb i data n s)"
    and callback_queues: "inv s \<Longrightarrow> length data = 8 \<Longrightarrow>
        drv_priority_rx_queue (fst (cb i data n s)) = drv_priority_rx_queue (fst s) \<and>
        drv_rx_queue (fst (cb i data n s)) = drv_rx_queue (fst s)"
    and queues_free: "inv (d, e) \<Longrightarrow> inv (d\<lparr>drv_priority_rx_queue := q1\<rparr>, e)"
      "inv (d, e) \<Longrightarrow> inv (d\<lparr>drv_rx_queue := q2\<rparr>, e)"
begin

lemma priority_returns:
  "driver_slots (fst s) \<Longrightarrow> inv s \<Longrightarrow>
    \<exists>s'. process_priority cb s = Some s' \<and> inv s' \<and> driver_slots (fst s') \<and>
      ring_contents (drv_priority_rx_queue (fst s')) = []"
proof (induction "ring_count (drv_priority_rx_queue (fst s))" arbitrary: s rule: less_induct)
  case less
  let ?q = "drv_priority_rx_queue (fst s)"
  obtain r q where pop: "CanRxQueue_Pop ?q = (r, q)" by fastforce
  note sl = slots_pop [OF conjunct1 [OF less.prems(1)], unfolded pop, simplified]
  have inv: "inv ((fst s)\<lparr>drv_priority_rx_queue := q\<rparr>, snd s)" using less.prems(2) by (simp add: queues_free)
  show ?case
  proof (cases r)
    case None
    then have "q = ?q" using pop by (simp add: CanRxQueue_Pop_def Let_def split: if_splits)
    with None pop sl inv less.prems show ?thesis by (subst process_priority.simps) simp
  next
    case (Some f)
    let ?s = "cb (frame_id f) (frame_data f) (ucast (frame_length f)) ((fst s)\<lparr>drv_priority_rx_queue := q\<rparr>, snd s)"
    have "inv ?s" using sl Some by (intro callback_inv [OF inv]) simp
    moreover note callback_queues [OF inv, of "frame_data f" "frame_id f" "ucast (frame_length f)"]
    ultimately have "\<exists>s'. process_priority cb ?s = Some s' \<and> inv s' \<and> driver_slots (fst s') \<and>
        ring_contents (drv_priority_rx_queue (fst s')) = []"
      using sl Some less.prems by (intro less.hyps) simp_all
    with Some pop show ?thesis by (subst process_priority.simps) simp
  qed
qed

lemma normal_returns:
  "driver_slots (fst s) \<Longrightarrow> inv s \<Longrightarrow> ring_contents (drv_priority_rx_queue (fst s)) = [] \<Longrightarrow>
    \<exists>s'. process_normal cb s = Some s' \<and> inv s' \<and> driver_slots (fst s') \<and>
      ring_contents (drv_priority_rx_queue (fst s')) = [] \<and> ring_contents (drv_rx_queue (fst s')) = []"
proof (induction "ring_count (drv_rx_queue (fst s))" arbitrary: s rule: less_induct)
  case less
  let ?q = "drv_rx_queue (fst s)"
  obtain r q where pop: "CanRxQueue_Pop ?q = (r, q)" by fastforce
  note sl = slots_pop [OF conjunct2 [OF less.prems(1)], unfolded pop, simplified]
  have inv: "inv ((fst s)\<lparr>drv_rx_queue := q\<rparr>, snd s)" using less.prems(2) by (simp add: queues_free)
  show ?case
  proof (cases r)
    case None
    then have "q = ?q" using pop by (simp add: CanRxQueue_Pop_def Let_def split: if_splits)
    with None pop sl inv less.prems show ?thesis by (subst process_normal.simps) simp
  next
    case (Some f)
    let ?s = "cb (frame_id f) (frame_data f) (ucast (frame_length f)) ((fst s)\<lparr>drv_rx_queue := q\<rparr>, snd s)"
    have "inv ?s" using sl Some by (intro callback_inv [OF inv]) simp
    moreover note callback_queues [OF inv, of "frame_data f" "frame_id f" "ucast (frame_length f)"]
    ultimately have "\<exists>s'. process_normal cb ?s = Some s' \<and> inv s' \<and> driver_slots (fst s') \<and>
        ring_contents (drv_priority_rx_queue (fst s')) = [] \<and> ring_contents (drv_rx_queue (fst s')) = []"
      using sl Some less.prems by (intro less.hyps) simp_all
    with Some pop show ?thesis by (subst process_normal.simps) simp
  qed
qed

lemma process_returns:
  assumes "driver_slots (fst s)" and "inv s" and "\<And>k. cbs k = cb"
    and "drv_rx_callback (fst s) \<noteq> None"
  shows "\<exists>s'. CanDriver_ProcessRx cbs s = Some s' \<and> inv s' \<and> driver_slots (fst s') \<and>
    ring_contents (drv_priority_rx_queue (fst s')) = [] \<and> ring_contents (drv_rx_queue (fst s')) = []"
proof -
  obtain s1 where 1: "process_priority cb s = Some s1" "inv s1" "driver_slots (fst s1)"
      "ring_contents (drv_priority_rx_queue (fst s1)) = []"
    using priority_returns [OF assms(1,2)] by blast
  from normal_returns [OF this(3,2,4)] 1(1) assms(3,4) show ?thesis
    by (auto simp: CanDriver_ProcessRx_def)
qed

end

end
