(* ===== verification/IsotpKeeps.thy ===== *)
theory IsotpKeeps
  imports IsotpTransfer
begin

section \<open>What the transport does to the driver\<close>

text \<open>
  The transport reaches the driver through its channel only: a property of the channel's context that
  sending, reading the tick and asking for a pending frame keep is kept by every operation of both
  endpoints.
\<close>

locale channel_keeps =
  fixes ch :: "'c IsotpChannel_t" and P :: "'c \<Rightarrow> bool"
  assumes send_keeps [simp]: "P c \<Longrightarrow> P (snd (channel_send ch i fr c))"
    and tick_keeps [simp]: "P c \<Longrightarrow> P (snd (isotp_tick ch c))"
    and pending_keeps [simp]: "P c \<Longrightarrow> P (snd (channel_pending ch c))"
begin

lemma enqueue_keeps [simp]:
  "P c \<Longrightarrow> tx_channel tx = ch \<Longrightarrow> P (snd (snd (isotp_tx_service_enqueue tx now c)))"
  by (simp add: isotp_tx_service_enqueue_def isotp_note_frame_sent_def isotp_tx_pending_def Let_def case_prod_beta)

lemma schedule_keeps [simp]:
  "P c \<Longrightarrow> tx_channel tx = ch \<Longrightarrow> P (snd (snd (isotp_tx_schedule_frame tx fr c)))"
  by (simp add: isotp_tx_schedule_frame_def Let_def case_prod_beta)

lemma send_frames_keep [simp]:
  assumes "P c" and "tx_channel tx = ch"
  shows "P (snd (snd (isotp_send_sf tx data len c)))" "P (snd (snd (isotp_send_ff tx c)))"
    "P (snd (snd (isotp_send_cf tx now c)))"
  using assms by (simp_all add: isotp_send_sf_def isotp_send_ff_def isotp_send_cf_def Let_def case_prod_beta)

lemma start_keeps: "P c \<Longrightarrow> tx_channel tx = ch \<Longrightarrow> P (snd (snd (IsotpTx_Start tx p len c)))"
  by (simp add: IsotpTx_Start_def tx_begin_def Let_def case_prod_beta)

lemma tx_frame_keeps: "P c \<Longrightarrow> tx_channel tx = ch \<Longrightarrow> P (snd (snd (IsotpTx_OnFrame tx fp c)))"
  by (simp add: IsotpTx_OnFrame_def Let_def case_prod_beta split: option.split)

lemma idle_keeps [simp]: "P c \<Longrightarrow> tx_channel tx = ch \<Longrightarrow> P (snd (snd (tx_poll_idle tx now c)))"
  by (simp add: tx_poll_idle_def Let_def case_prod_beta)

lemma enqueue_channel [simp]: "tx_channel (fst (snd (isotp_tx_service_enqueue tx now c))) = tx_channel tx"
  by (simp add: isotp_tx_service_enqueue_def isotp_note_frame_sent_def Let_def case_prod_beta)

lemma tx_poll_keeps: "P c \<Longrightarrow> tx_channel tx = ch \<Longrightarrow> P (snd (snd (IsotpTx_Poll tx c)))"
  by (simp add: IsotpTx_Poll_def isotp_tx_pending_def Let_def case_prod_beta)

lemma fc_enqueue_keeps [simp]:
  "P c \<Longrightarrow> rx_channel rx = ch \<Longrightarrow> P (snd (snd (isotp_rx_service_fc_enqueue rx now c)))"
  by (simp add: isotp_rx_service_fc_enqueue_def Let_def case_prod_beta)

lemma fc_enqueue_channel [simp]: "rx_channel (fst (snd (isotp_rx_service_fc_enqueue rx now c))) = rx_channel rx"
  by (simp add: isotp_rx_service_fc_enqueue_def Let_def case_prod_beta)

lemma send_fc_keeps [simp]: "P c \<Longrightarrow> rx_channel rx = ch \<Longrightarrow> P (snd (snd (isotp_send_fc rx status c)))"
  by (simp add: isotp_send_fc_def Let_def case_prod_beta)

lemma send_fc_channel [simp]: "rx_channel (fst (snd (isotp_send_fc rx status c))) = rx_channel rx"
  by (simp add: isotp_send_fc_def Let_def case_prod_beta)

lemma store_cf_channel [simp]: "rx_channel (rx_store_cf rx data) = rx_channel rx"
  by (simp add: rx_store_cf_def Let_def)

lemma single_keeps [simp]: "P c \<Longrightarrow> rx_channel rx = ch \<Longrightarrow> P (snd (snd (rx_on_single_frame rx data c)))"
  by (cases "rx_buffer rx") (simp_all add: rx_on_single_frame_def Let_def)

lemma first_keeps [simp]: "P c \<Longrightarrow> rx_channel rx = ch \<Longrightarrow> P (snd (snd (rx_on_first_frame rx data c)))"
  by (cases "rx_buffer rx")
    (simp_all add: rx_on_first_frame_def Let_def case_prod_beta if_distrib [of "\<lambda>x. P (snd (snd x))"]
      cong: if_cong split del: if_split)

lemma after_cf_keeps [simp]: "P c \<Longrightarrow> rx_channel rx = ch \<Longrightarrow> P (snd (snd (rx_after_cf rx c)))"
  by (simp add: rx_after_cf_def Let_def case_prod_beta)

lemma consecutive_keeps [simp]:
  "P c \<Longrightarrow> rx_channel rx = ch \<Longrightarrow> P (snd (snd (rx_on_consecutive_frame rx data c)))"
  by (simp add: rx_on_consecutive_frame_def Let_def case_prod_beta)

lemma rx_frame_keeps: "P c \<Longrightarrow> rx_channel rx = ch \<Longrightarrow> P (snd (snd (IsotpRx_OnFrame rx fp c)))"
  by (simp add: IsotpRx_OnFrame_def Let_def split: option.split)

lemma rx_poll_keeps: "P c \<Longrightarrow> rx_channel rx = ch \<Longrightarrow> P (snd (snd (IsotpRx_Poll rx c)))"
  by (simp add: IsotpRx_Poll_def Let_def case_prod_beta)

end

subsection \<open>On the application's channel\<close>

text \<open>The part of the driver the transport leaves alone.\<close>

definition driver_view :: "CanDriver_t \<Rightarrow> CanRxQueue_t \<times> CanRxQueue_t \<times> nat option \<times> CanHealth_t option \<times> bool" where
  "driver_view d = (drv_priority_rx_queue d, drv_rx_queue d, drv_rx_callback d, drv_health d, drv_handle d \<noteq> None)"

lemma send_view [simp]: "driver_view (snd (CanDriver_SendStd d i data n)) = driver_view d"
  by (simp add: CanDriver_SendStd_def driver_view_def Let_def case_prod_beta split: option.split)

interpretation app_view: channel_keeps app_channel "\<lambda>p. driver_view (port_can p) = v" for v
  by unfold_locales
    (simp_all add: channel_send_def isotp_tick_def channel_pending_def app_channel_def APP_IsotpSend_def
      APP_IsotpTick_def APP_IsotpTxPending_def Let_def case_prod_beta)

subsection \<open>What the endpoints keep of themselves\<close>

text \<open>Nothing but a start gives the sender data or makes it busy.\<close>

definition tx_calmer :: "'c IsotpTx_t \<Rightarrow> 'c IsotpTx_t \<Rightarrow> bool" where
  "tx_calmer tx tx' \<longleftrightarrow> tx_channel tx' = tx_channel tx \<and> tx_data tx' = tx_data tx \<and> tx_length tx' = tx_length tx \<and>
     tx_txid tx' = tx_txid tx \<and> tx_n_as_ms tx' = tx_n_as_ms tx \<and> (tx_ongoing tx' \<longrightarrow> tx_ongoing tx)"

lemma schedule_calmer: "tx_calmer tx (fst (snd (isotp_tx_schedule_frame tx fr c)))"
  by (simp add: tx_calmer_def isotp_tx_schedule_frame_def isotp_tx_service_enqueue_def isotp_note_frame_sent_def
      Let_def case_prod_beta)

lemma enqueue_calmer: "tx_calmer tx (fst (snd (isotp_tx_service_enqueue tx now c)))"
  by (simp add: tx_calmer_def isotp_tx_service_enqueue_def isotp_note_frame_sent_def Let_def case_prod_beta)

lemma calmer_trans: "tx_calmer t1 t2 \<Longrightarrow> tx_calmer t2 t3 \<Longrightarrow> tx_calmer t1 t3"
  by (simp add: tx_calmer_def)

lemma idle_calmer: "tx_calmer tx (fst (snd (tx_poll_idle tx now c)))"
proof -
  have cf: "tx_calmer tx (fst (snd (isotp_send_cf tx now c)))"
    unfolding isotp_send_cf_def Let_def
    by (rule calmer_trans [OF _ schedule_calmer]) (simp add: tx_calmer_def)
  then show ?thesis by (simp add: tx_poll_idle_def tx_calmer_def Let_def case_prod_beta)
qed

lemma poll_calmer: "tx_calmer tx (fst (snd (IsotpTx_Poll tx c)))"
proof -
  have idle: "tx_calmer tx (fst (snd (tx_poll_idle t now c2)))" if "tx_calmer tx t" for t now c2
    using that idle_calmer by (rule calmer_trans)
  have upd: "tx_calmer tx (t\<lparr>tx_frame_pending := False\<rparr>)"
    "tx_calmer tx (t\<lparr>tx_ongoing := False, tx_frame_pending := False\<rparr>)" if "tx_calmer tx t" for t
    using that by (simp_all add: tx_calmer_def)
  have refl: "tx_calmer tx tx" by (simp add: tx_calmer_def)
  show ?thesis
    unfolding IsotpTx_Poll_def Let_def case_prod_beta
    by (simp add: idle upd refl enqueue_calmer)
qed

lemma frame_calmer: "tx_calmer tx (fst (snd (IsotpTx_OnFrame tx fp c)))"
  by (simp add: IsotpTx_OnFrame_def tx_calmer_def Let_def case_prod_beta split: option.split)

text \<open>A start that is accepted gives it exactly the data; one that is refused leaves it idle or as it was.\<close>

lemma start_result:
  assumes "IsotpTx_Start tx (Some p) len c = (r, tx', c')"
  shows "tx_channel tx' = tx_channel tx \<and> tx_txid tx' = tx_txid tx \<and> tx_n_as_ms tx' = tx_n_as_ms tx \<and>
    (r = ISOTP_OK \<longrightarrow> tx_data tx' = Some p \<and> tx_length tx' = len) \<and> (r \<noteq> ISOTP_OK \<and> tx_ongoing tx' \<longrightarrow> tx' = tx)"
proof -
  have sf: "tx_calmer (tx_begin tx p len) (fst (snd (isotp_send_sf (tx_begin tx p len) p len c)))"
    unfolding isotp_send_sf_def Let_def by (rule calmer_trans [OF _ schedule_calmer]) (simp add: tx_calmer_def)
  have ff: "tx_calmer (tx_begin tx p len) (fst (snd (isotp_send_ff (tx_begin tx p len) c)))"
    unfolding isotp_send_ff_def Let_def case_prod_beta
    by (rule calmer_trans [OF _ schedule_calmer]) (simp add: tx_calmer_def)
  show ?thesis
    using assms sf ff
    by (auto simp: IsotpTx_Start_def tx_calmer_def tx_begin_def Let_def split: if_splits prod.splits)
qed

lemma rx_frame_place:
  "IsotpRx_OnFrame rx fp c = (r, rx', c') \<Longrightarrow>
    rx_channel rx' = rx_channel rx \<and> rx_buffer_size rx' = rx_buffer_size rx"
  by (auto simp: IsotpRx_OnFrame_def rx_on_single_frame_def rx_on_first_frame_def
      rx_on_consecutive_frame_def rx_after_cf_def rx_store_cf_def IsotpRx_Reset_def Let_def rx_core_def
      dest!: send_fc_core split: prod.splits if_splits option.splits)

end
