(* ===== verification/AppInvariant.thy ===== *)
theory AppInvariant
  imports AppBackend RxDispatch IsotpKeeps
begin

section \<open>What every service of the main loop keeps\<close>

text \<open>
  The invariant of the application in four parts: the driver with its queues and health object, the
  transport endpoints with the response buffer they send from, the diagnostic server with its storage,
  and the log.  Every service and both interrupts keep it.
\<close>

subsection \<open>The four parts\<close>

text \<open>The health object and the recovery service: while an attempt is being judged the node is in
  Bus-Off and has counted no new event; no reset has been requested unless the node was reset.\<close>

definition health_fine :: "recovery_statics \<Rightarrow> bool \<Rightarrow> CanHealth_t \<Rightarrow> bool" where
  "health_fine rv reset h \<longleftrightarrow> health_ok h \<and> h_config h = CanHealth_DefaultConfig \<and>
     (rv_attempt_pending rv \<longrightarrow> h_state h = CAN_HEALTH_STATE_BUS_OFF \<and> h_bus_off_events h = rv_bus_off_events_at_attempt rv) \<and>
     (if reset then 3 \<le> h_consecutive_recovery_failures h
      else h_reset_requests h = 0 \<and> h_consecutive_recovery_failures h < 3)"

definition node_core :: "CanDriver_t \<Rightarrow> app_main \<Rightarrow> bool" where
  "node_core d m \<longleftrightarrow> drv_rx_callback d \<noteq> None \<and> drv_handle d \<noteq> None \<and>
     (\<exists>h. drv_health d = Some h \<and> health_fine (m_recovery m) (m_reset m) h)"

text \<open>The sender is busy only while a response is being served, with exactly the bytes that are in the
  response buffer.\<close>

definition endpoints_ok :: "app_main \<Rightarrow> bool" where
  "endpoints_ok m \<longleftrightarrow> rx_ok (m_isotp_rx m) \<and> rx_channel (m_isotp_rx m) = app_channel \<and>
     rx_buffer_size (m_isotp_rx m) = APP_ISOTP_RX_BUFFER_SIZE \<and> tx_channel (m_isotp_tx m) = app_channel \<and>
     tx_n_as_ms (m_isotp_tx m) = ISOTP_DEFAULT_N_AS_MS \<and> length (m_isotp_tx_buffer m) = unat APP_ISOTP_TX_BUFFER_SIZE \<and>
     (tx_ongoing (m_isotp_tx m) \<longrightarrow> m_isotp_serving m \<and>
        unat (tx_length (m_isotp_tx m)) \<le> unat APP_ISOTP_TX_BUFFER_SIZE \<and>
        tx_data (m_isotp_tx m) = Some (take (unat (tx_length (m_isotp_tx m))) (m_isotp_tx_buffer m)))"

definition logs_ok :: "app_main \<Rightarrow> bool" where
  "logs_ok m \<longleftrightarrow> length (hl_entries (m_app_health_log m)) = 24 \<and> hl_next_index (m_app_health_log m) < 24 \<and>
     length (log_entries (m_can_error_log m)) = 32 \<and> log_next_index (m_can_error_log m) < 32"

definition app_core :: "board \<Rightarrow> CanDriver_t \<Rightarrow> app_main \<Rightarrow> bool" where
  "app_core bd d m \<longleftrightarrow> node_core d m \<and> endpoints_ok m \<and> uds_ok (bd_flash_size bd) (m_uds m) \<and> logs_ok m"

definition app_ok :: "board \<Rightarrow> app_main \<Rightarrow> bool" where
  "app_ok bd m \<longleftrightarrow> driver_slots (m_can m) \<and> app_core bd (m_can m) m"

subsection \<open>Changing the world\<close>

lemmas set_defs = set_port_def set_can_def set_clock_def set_watchdog_def set_health_def

lemma uds_set_world [simp]:
  "st_params w = st_params (m_world m) \<Longrightarrow> st_flash w = st_flash (m_world m) \<Longrightarrow>
    uds_ok fsize (m_uds (set_world w m)) = uds_ok fsize (m_uds m)"
  by (simp add: set_world_def uds_ok_def storage_any_def storage_ok_def)

lemma core_cong:
  "app_core bd d m \<Longrightarrow> drv_rx_callback d' = drv_rx_callback d \<Longrightarrow> drv_health d' = drv_health d \<Longrightarrow>
    (drv_handle d \<noteq> None \<longrightarrow> drv_handle d' \<noteq> None) \<Longrightarrow> app_core bd d' m"
  by (auto simp: app_core_def node_core_def)

lemma core_world [simp]:
  "st_params w = st_params (m_world m) \<Longrightarrow> st_flash w = st_flash (m_world m) \<Longrightarrow>
    app_core bd d (set_world w m) = app_core bd d m"
  by (simp add: app_core_def node_core_def endpoints_ok_def logs_ok_def)

abbreviation core_ok :: "board \<Rightarrow> app_main \<Rightarrow> bool" where
  "core_ok bd m \<equiv> app_core bd (m_can m) m"

lemma view_core:
  assumes "core_ok bd m" and "driver_view (port_can p) = driver_view (m_can m)"
  shows "core_ok bd (set_port p m)"
proof -
  have "app_core bd (port_can p) m"
    by (rule core_cong [of bd "m_can m"]) (use assms in \<open>auto simp: driver_view_def\<close>)
  then have "app_core bd (port_can p) (set_port p m)" by (simp add: set_port_def)
  then show ?thesis by (simp add: set_port_def)
qed

lemma view_ok:
  assumes "app_ok bd m" and "driver_view (port_can p) = driver_view (m_can m)"
  shows "app_ok bd (set_port p m)"
  using view_core [of bd m p] assms by (auto simp: app_ok_def driver_view_def set_port_def)

lemma view_send: "app_ok bd m \<Longrightarrow> driver_view d = driver_view (m_can m) \<Longrightarrow> app_ok bd (set_can d m)"
  unfolding set_can_def by (rule view_ok) simp_all

lemma clock_ok: "app_ok bd m \<Longrightarrow> app_ok bd (set_clock k m)"
  unfolding set_clock_def by (rule view_ok) simp_all

lemma watchdog_ok: "app_ok bd m \<Longrightarrow> app_ok bd (set_watchdog w m)"
  by (simp add: app_ok_def set_watchdog_def)

text \<open>Fields no part of the invariant reads.\<close>

lemma free_fields [simp]:
  "app_ok bd (m\<lparr>m_can_tx_count := a\<rparr>) = app_ok bd m" "app_ok bd (m\<lparr>m_can_rx_count := a\<rparr>) = app_ok bd m"
  "app_ok bd (m\<lparr>m_led := b\<rparr>) = app_ok bd m" "app_ok bd (m\<lparr>m_isotp_test_stats := s\<rparr>) = app_ok bd m"
  "app_ok bd (m\<lparr>m_can_health_full := f\<rparr>) = app_ok bd m" "app_ok bd (m\<lparr>m_can_health_summary := l\<rparr>) = app_ok bd m"
  "app_ok bd (m\<lparr>m_last_tx_tick := a\<rparr>) = app_ok bd m" "app_ok bd (m\<lparr>m_tx_value := v\<rparr>) = app_ok bd m"
  by (simp_all add: app_ok_def app_core_def node_core_def endpoints_ok_def logs_ok_def)

lemma get_tick_ok: "app_ok bd m \<Longrightarrow> app_ok bd (snd (get_tick m))"
  by (simp add: get_tick_def clock_ok Let_def case_prod_beta)

lemma can_send_ok: "app_ok bd m \<Longrightarrow> app_ok bd (snd (can_send i data n m))"
  by (simp add: can_send_def view_send Let_def case_prod_beta)

lemma cyclic_ok: "app_ok bd m \<Longrightarrow> app_ok bd (service_cyclic now m)"
  using can_send_ok [of bd "m\<lparr>m_last_tx_tick := now\<rparr>" APP_CAN_ID "[m_tx_value m AND 0x01]" 1]
  by (auto simp: service_cyclic_def APP_CAN_Send_def Let_def split: prod.splits)

lemma watchdogs_ok: "app_ok bd m \<Longrightarrow> app_ok bd (service_watchdogs now m)"
  by (simp add: service_watchdogs_def watchdog_ok)

subsection \<open>Received frames\<close>

lemma core_fields [simp]:
  "app_core bd d (m\<lparr>m_can_tx_count := a\<rparr>) = app_core bd d m" "app_core bd d (m\<lparr>m_can_rx_count := a\<rparr>) = app_core bd d m"
  "app_core bd d (m\<lparr>m_led := b\<rparr>) = app_core bd d m" "app_core bd d (m\<lparr>m_isotp_test_stats := s\<rparr>) = app_core bd d m"
  by (simp_all add: app_core_def node_core_def endpoints_ok_def logs_ok_def)

lemma tx_calmer_core:
  assumes "app_core bd d m" and "tx_calmer (m_isotp_tx m) tx"
  shows "app_core bd d (m\<lparr>m_isotp_tx := tx\<rparr>)"
  using assms by (simp add: app_core_def node_core_def endpoints_ok_def logs_ok_def tx_calmer_def)

lemma rx_place_core:
  assumes "app_core bd d m" and "rx_ok rx" and "rx_channel rx = rx_channel (m_isotp_rx m)"
    and "rx_buffer_size rx = rx_buffer_size (m_isotp_rx m)"
  shows "app_core bd d (m\<lparr>m_isotp_rx := rx\<rparr>)"
  using assms by (simp add: app_core_def node_core_def endpoints_ok_def logs_ok_def)

lemma route_core:
  assumes "core_ok bd m" and "length data = 8"
  shows "core_ok bd (route_frame data m) \<and> driver_view (m_can (route_frame data m)) = driver_view (m_can m)"
proof -
  let ?tx = "m_isotp_tx m" and ?rx = "m_isotp_rx m" and ?p = "m_port m"
  have ch: "tx_channel ?tx = app_channel" "rx_channel ?rx = app_channel" "rx_ok ?rx"
    using assms(1) by (simp_all add: app_core_def endpoints_ok_def)
  obtain r tx rx p where r: "Isotp_RouteFrame (Some ?tx) (Some ?rx) (Some data) ?p = (r, Some tx, Some rx, p)"
    and tx: "tx_calmer ?tx tx" and rx: "rx_ok rx" "rx_channel rx = app_channel" "rx_buffer_size rx = rx_buffer_size ?rx"
    and p: "driver_view (port_can p) = driver_view (m_can m)"
  proof (cases "drop_bit 4 (data ! 0) = ISOTP_PCI_FC \<and> tx_ongoing ?tx")
    case True
    obtain r tx p where f: "IsotpTx_OnFrame ?tx (Some data) ?p = (r, tx, p)" by (metis prod_cases3)
    show ?thesis
      using app_view.tx_frame_keeps [OF refl ch(1), where c = ?p and fp = "Some data"] frame_calmer [of ?tx "Some data" ?p] f True ch(2,3)
      by (intro that [of r tx ?rx p]) (simp_all add: Isotp_RouteFrame_def IsotpTx_IsBusy_def)
  next
    case False
    show ?thesis
    proof (cases "drop_bit 4 (data ! 0) = ISOTP_PCI_FC")
      case True
      with False ch show ?thesis
        by (intro that [of ISOTP_ERR_STATE ?tx ?rx ?p]) (simp_all add: Isotp_RouteFrame_def IsotpTx_IsBusy_def tx_calmer_def)
    next
      case False
      obtain r rx p where f: "IsotpRx_OnFrame ?rx (Some data) ?p = (r, rx, p)" by (metis prod_cases3)
      show ?thesis
        using app_view.rx_frame_keeps [OF refl ch(2), where c = ?p and fp = "Some data"] rx_frame_place [OF f] rx_ok_on_frame [OF ch(3) f]
          f False assms(2) ch(2)
        by (intro that [of r ?tx rx p]) (simp_all add: Isotp_RouteFrame_def tx_calmer_def)
    qed
  qed
  let ?m = "m\<lparr>m_isotp_tx := tx\<rparr>\<lparr>m_isotp_rx := rx\<rparr>"
  have "core_ok bd ?m"
    using rx_place_core [OF tx_calmer_core [OF assms(1) tx] rx(1)] rx(2,3) ch(2) by simp
  from view_core [OF this] p have "core_ok bd (set_port p ?m)" by simp
  with p r show ?thesis by (simp add: route_frame_def Let_def set_port_def)
qed

lemma rx_callback_core:
  assumes "core_ok bd m" and "length data = 8"
  shows "core_ok bd (APP_OnCanRx bd i data n m) \<and>
    driver_view (m_can (APP_OnCanRx bd i data n m)) = driver_view (m_can m)"
  using assms route_core [OF assms] by (simp add: APP_OnCanRx_def)

lemma set_can_simps [simp]:
  "m_can (set_can d m) = d" "set_can (m_can m) m = m" "set_can d (set_can d' m) = set_can d m"
  "m_reset (set_can d m) = m_reset m"
  by (simp_all add: set_can_def set_port_def set_world_def)

lemma rx_callback_reset: "m_reset (APP_OnCanRx bd i data n m) = m_reset m"
  by (simp add: APP_OnCanRx_def route_frame_def set_port_def Let_def case_prod_beta)

interpretation app_rx: rx_client "app_callbacks bd k" "\<lambda>s. core_ok bd (set_can (fst s) (snd s)) \<and> m_reset (snd s) = b" for bd k b
proof unfold_locales
  fix s :: "CanDriver_t \<times> app_main" and data :: "u8 list" and i n
  assume s: "core_ok bd (set_can (fst s) (snd s)) \<and> m_reset (snd s) = b" "length data = 8"
  note r = rx_callback_core [OF conjunct1 [OF s(1)] s(2), of i n]
  show "core_ok bd (set_can (fst (app_callbacks bd k i data n s)) (snd (app_callbacks bd k i data n s))) \<and>
      m_reset (snd (app_callbacks bd k i data n s)) = b"
    using r s(1) by (simp add: app_callbacks_def rx_callback_reset Let_def)
  show "drv_priority_rx_queue (fst (app_callbacks bd k i data n s)) = drv_priority_rx_queue (fst s) \<and>
      drv_rx_queue (fst (app_callbacks bd k i data n s)) = drv_rx_queue (fst s)"
    using r by (simp add: app_callbacks_def driver_view_def Let_def)
next
  fix d e q1 assume "core_ok bd (set_can (fst (d, e)) (snd (d, e))) \<and> m_reset (snd (d, e)) = b"
  then have d: "app_core bd d e" "m_reset e = b" by (simp_all add: set_can_def set_port_def)
  have "app_core bd (d\<lparr>drv_priority_rx_queue := q1\<rparr>) e" "app_core bd (d\<lparr>drv_rx_queue := q1\<rparr>) e"
    by (rule core_cong [OF d(1)], simp_all)+
  then show "core_ok bd (set_can (fst (d\<lparr>drv_priority_rx_queue := q1\<rparr>, e)) (snd (d\<lparr>drv_priority_rx_queue := q1\<rparr>, e))) \<and>
      m_reset (snd (d\<lparr>drv_priority_rx_queue := q1\<rparr>, e)) = b"
    "core_ok bd (set_can (fst (d\<lparr>drv_rx_queue := q1\<rparr>, e)) (snd (d\<lparr>drv_rx_queue := q1\<rparr>, e))) \<and>
      m_reset (snd (d\<lparr>drv_rx_queue := q1\<rparr>, e)) = b"
    using d(2) by (simp_all add: set_can_def set_port_def)
qed

lemma process_rx_ok:
  assumes "app_ok bd m"
  obtains d m1 where "CanDriver_ProcessRx (app_callbacks bd) (m_can m, m) = Some (d, m1)" "app_ok bd (set_can d m1)"
    "m_reset m1 = m_reset m" "ring_contents (drv_priority_rx_queue d) = []" "ring_contents (drv_rx_queue d) = []"
proof -
  have "driver_slots (fst (m_can m, m))"
    "core_ok bd (set_can (fst (m_can m, m)) (snd (m_can m, m))) \<and> m_reset (snd (m_can m, m)) = m_reset m"
    "drv_rx_callback (fst (m_can m, m)) \<noteq> None"
    using assms by (simp_all add: app_ok_def app_core_def node_core_def)
  moreover have "app_callbacks bd k = app_callbacks bd 0" for k by (simp add: app_callbacks_def fun_eq_iff)
  ultimately obtain s' where "CanDriver_ProcessRx (app_callbacks bd) (m_can m, m) = Some s'"
    "core_ok bd (set_can (fst s') (snd s')) \<and> m_reset (snd s') = m_reset m" "driver_slots (fst s')"
    "ring_contents (drv_priority_rx_queue (fst s')) = []" "ring_contents (drv_rx_queue (fst s')) = []"
    using app_rx.process_returns by blast
  then show ?thesis by (intro that [of "fst s'" "snd s'"]) (simp_all add: app_ok_def)
qed

subsection \<open>The transport service\<close>

lemma poll_endpoints_ok:
  assumes "app_ok bd m"
  shows "app_ok bd (poll_endpoints m)"
proof -
  let ?p = "m_port m"
  have ch: "tx_channel (m_isotp_tx m) = app_channel" "rx_channel (m_isotp_rx m) = app_channel" "rx_ok (m_isotp_rx m)"
    using assms by (simp_all add: app_ok_def app_core_def endpoints_ok_def)
  obtain r tx p where 1: "IsotpTx_Poll (m_isotp_tx m) ?p = (r, tx, p)" by (metis prod_cases3)
  obtain r2 rx p2 where 2: "IsotpRx_Poll (m_isotp_rx m) p = (r2, rx, p2)" by (metis prod_cases3)
  have tx: "tx_calmer (m_isotp_tx m) tx" using poll_calmer [of "m_isotp_tx m" ?p] 1 by simp
  have rx: "rx_ok rx" "rx_channel rx = app_channel" "rx_buffer_size rx = rx_buffer_size (m_isotp_rx m)"
    using poll_core [OF 2] rx_ok_core [of rx "m_isotp_rx m"] ch by (simp_all add: rx_core_def)
  have p: "driver_view (port_can p2) = driver_view (m_can m)"
    using app_view.tx_poll_keeps [OF refl ch(1), where c = ?p] app_view.rx_poll_keeps [OF refl ch(2), where c = p] 1 2 by simp
  let ?m = "m\<lparr>m_isotp_tx := tx\<rparr>\<lparr>m_isotp_rx := rx\<rparr>"
  have "app_ok bd ?m"
    using rx_place_core [OF tx_calmer_core [of bd "m_can m" m tx, OF _ tx] rx(1)] rx(2,3) ch(2) assms by (simp add: app_ok_def)
  then have "app_ok bd (?m\<lparr>m_isotp_test_stats := st\<rparr>)" for st by simp
  from view_ok [OF this] p have "app_ok bd (set_port p2 (?m\<lparr>m_isotp_test_stats := st\<rparr>))" for st by simp
  with 1 2 show ?thesis by (simp add: poll_endpoints_def set_port_def set_world_def)
qed

text \<open>A response is started while the sender is idle, as the flag says.\<close>

lemma start_response_ok:
  assumes "app_ok bd m" and "\<not> m_isotp_serving m" and "unat n \<le> unat APP_ISOTP_TX_BUFFER_SIZE"
  shows "app_ok bd (start_response n m)"
proof -
  let ?p = "m_port m" and ?d = "take (unat n) (m_isotp_tx_buffer m)"
  have ch: "tx_channel (m_isotp_tx m) = app_channel" "\<not> tx_ongoing (m_isotp_tx m)"
    using assms(1,2) by (auto simp: app_ok_def app_core_def endpoints_ok_def)
  obtain r tx p where 1: "IsotpTx_Start (m_isotp_tx m) (Some ?d) n ?p = (r, tx, p)" by (metis prod_cases3)
  note st = start_result [OF 1]
  have p: "driver_view (port_can p) = driver_view (m_can m)"
    using app_view.start_keeps [OF refl ch(1), where c = ?p and p = "Some ?d" and len = n] 1 by simp
  let ?m = "m\<lparr>m_isotp_tx := tx, m_isotp_serving := r = ISOTP_OK\<rparr>"
  have "app_ok bd ?m"
    using assms st ch by (auto simp: app_ok_def app_core_def node_core_def endpoints_ok_def logs_ok_def)
  from view_ok [OF this] p have ok: "app_ok bd (set_port p ?m)" by simp
  have "m\<lparr>m_isotp_tx := tx\<rparr> = m\<lparr>m_isotp_tx := tx, m_isotp_serving := False\<rparr>" using assms(2) by (cases m) simp
  have "(set_port p (m\<lparr>m_isotp_tx := tx\<rparr>))\<lparr>m_isotp_serving := True\<rparr> =
      set_port p (m\<lparr>m_isotp_tx := tx, m_isotp_serving := True\<rparr>)"
    by (cases m) (simp add: set_port_def set_world_def)
  with 1 ok \<open>m\<lparr>m_isotp_tx := tx\<rparr> = m\<lparr>m_isotp_tx := tx, m_isotp_serving := False\<rparr>\<close> show ?thesis
    by (cases "r = ISOTP_OK") (simp_all add: start_response_def Let_def)
qed

lemma put_response_ok:
  assumes "app_ok bd m" and "\<not> m_isotp_serving m" and "uds_ok (bd_flash_size bd) ecu"
    and "w_port (ecu_app (snd ecu)) = m_port m" and "length bs \<le> unat APP_ISOTP_TX_BUFFER_SIZE"
  shows "app_ok bd (put_response bs ecu m)"
  using assms by (auto simp: put_response_def app_ok_def app_core_def node_core_def endpoints_ok_def logs_ok_def)

lemma rx_read_place:
  assumes "IsotpRx_Read rx cap = (r, bs, rx')" and "rx_ok rx"
  shows "rx_ok rx' \<and> rx_channel rx' = rx_channel rx \<and> rx_buffer_size rx' = rx_buffer_size rx"
  using assms by (auto simp: IsotpRx_Read_def rx_ok_def Let_def split: option.splits if_splits)

lemma reply_fits: "reply_ok sid cap reply \<Longrightarrow> length (snd reply) \<le> unat cap"
  by (simp add: reply_ok_def)

lemma unat_reply_length:
  "length bs \<le> unat APP_ISOTP_TX_BUFFER_SIZE \<Longrightarrow> unat (of_nat (length bs) :: u16) = length bs"
  by (simp add: APP_ISOTP_TX_BUFFER_SIZE_def unat_of_nat)

text \<open>An answer of the server in the buffer, started or not.\<close>

lemma answer_ok:
  assumes "app_ok bd m" and "\<not> m_isotp_serving m" and "uds_ok (bd_flash_size bd) ecu"
    and "w_port (ecu_app (snd ecu)) = m_port m" and "length bs \<le> unat APP_ISOTP_TX_BUFFER_SIZE"
  shows "app_ok bd (if go then start_response (of_nat (length bs)) (put_response bs ecu m) else put_response bs ecu m)"
proof -
  have p: "app_ok bd (put_response bs ecu m)" by (rule put_response_ok [OF assms])
  have "app_ok bd (start_response (of_nat (length bs)) (put_response bs ecu m))"
    by (rule start_response_ok [OF p]) (use assms in \<open>simp_all add: put_response_def unat_reply_length\<close>)
  with p show ?thesis by simp
qed

lemma serve_request_ok:
  assumes "app_ok bd m"
  shows "app_ok bd (serve_request now m)"
proof (cases "IsotpRx_MessageReady (Some (m_isotp_rx m)) \<and> \<not> m_isotp_serving m")
  case False
  show ?thesis unfolding serve_request_def if_not_P [OF False] by (rule assms)
next
  case True
  obtain r req rx where rd: "IsotpRx_Read (m_isotp_rx m) (Some APP_ISOTP_RX_BUFFER_SIZE) = (r, req, rx)" by (metis prod_cases3)
  let ?m1 = "m\<lparr>m_isotp_rx := rx\<rparr>"
  have "rx_ok (m_isotp_rx m)" using assms by (simp add: app_ok_def app_core_def endpoints_ok_def)
  note place = rx_read_place [OF rd this]
  have m1: "app_ok bd ?m1"
    using rx_place_core [of bd "m_can m" m rx] place assms by (simp add: app_ok_def)
  obtain res bs ecu where p: "UdsEcu_Process (m_uds ?m1) now (Some req) (of_nat (length req)) (Some APP_ISOTP_TX_BUFFER_SIZE) = ((res, bs), ecu)"
    by (metis prod.collapse)
  have ok: "uds_ok (bd_flash_size bd) (m_uds ?m1)" using m1 by (simp add: app_ok_def app_core_def)
  note ecu = uds_process_ok [OF p ok]
  have "length bs \<le> unat APP_ISOTP_TX_BUFFER_SIZE"
    using reply_fits [OF ecu.process_reply [OF p [unfolded UdsEcu_Process_def]]] by simp
  from answer_ok [OF m1 _ conjunct1 [OF ecu] _ this] ecu True rd p m1 show ?thesis
    by (simp add: serve_request_def Let_def)
qed

lemma serve_pending_ok:
  assumes "app_ok bd m"
  shows "app_ok bd (serve_pending m)"
proof (cases "m_isotp_serving m")
  case True
  with assms show ?thesis by (simp add: serve_pending_def)
next
  case False
  obtain res bs ecu where p: "UdsEcu_PollPending (m_uds m) (Some APP_ISOTP_TX_BUFFER_SIZE) = ((res, bs), ecu)"
    by (metis prod.collapse)
  have ok: "uds_ok (bd_flash_size bd) (m_uds m)" using assms by (simp add: app_ok_def app_core_def)
  note ecu = uds_poll_ok [OF p ok]
  have "length bs \<le> unat APP_ISOTP_TX_BUFFER_SIZE"
    using ecu.poll_reply [OF p [unfolded UdsEcu_PollPending_def]] by (auto dest: reply_fits)
  from answer_ok [OF assms False conjunct1 [OF ecu] _ this] ecu False p show ?thesis
    by (simp add: serve_pending_def Let_def)
qed

lemma service_isotp_ok:
  assumes "app_ok bd m"
  shows "app_ok bd (APP_ServiceIsotp now m)"
proof -
  let ?m = "serve_pending (serve_request now (poll_endpoints m))"
  have m: "app_ok bd ?m" by (intro serve_pending_ok serve_request_ok poll_endpoints_ok assms)
  then have "\<not> tx_ongoing (m_isotp_tx ?m) \<Longrightarrow> app_ok bd (?m\<lparr>m_isotp_serving := False\<rparr>)"
    by (simp add: app_ok_def app_core_def node_core_def endpoints_ok_def logs_ok_def)
  with m show ?thesis by (simp add: APP_ServiceIsotp_def IsotpTx_IsBusy_def Let_def)
qed

lemma tick_service_ok: "app_ok bd m \<Longrightarrow> app_ok bd (m\<lparr>m_uds := UdsEcu_Tick (m_uds m) now\<rparr>)"
  using uds_tick_ok [of "bd_flash_size bd" "m_uds m" now]
  by (simp add: app_ok_def app_core_def node_core_def endpoints_ok_def logs_ok_def UdsEcu_Tick_def)

end
