(* ===== verification/AppHealth.thy ===== *)
theory AppHealth
  imports AppInvariant
begin

section \<open>The health service and the interrupts\<close>

text \<open>
  The invariant of \<open>AppInvariant\<close> through \<open>APP_ServiceCanHealth\<close>, the health summary, the two
  interrupts and a whole iteration of the main loop.
\<close>

subsection \<open>The health object\<close>

lemma policy_fields [simp]:
  "h_config (CanHealth_EnterBusOff h) = h_config h" "h_reset_requests (CanHealth_EnterBusOff h) = h_reset_requests h"
  "h_consecutive_recovery_failures (CanHealth_EnterBusOff h) = h_consecutive_recovery_failures h"
  "h_config (CanHealth_UpdateErrorState h) = h_config h" "h_reset_requests (CanHealth_UpdateErrorState h) = h_reset_requests h"
  "h_consecutive_recovery_failures (CanHealth_UpdateErrorState h) = h_consecutive_recovery_failures h"
  by (simp_all add: CanHealth_EnterBusOff_def CanHealth_UpdateErrorState_def Let_def)

text \<open>Every event but a recovery leaves the recovery bookkeeping alone.\<close>

fun quiet_event :: "health_event \<Rightarrow> bool" where
  "quiet_event (Attempt ok) = False"
| "quiet_event Recovered = False"
| "quiet_event _ = True"

lemma quiet_keeps:
  "quiet_event e \<Longrightarrow> h_config (health_step e h) = h_config h \<and> h_reset_requests (health_step e h) = h_reset_requests h \<and>
    h_consecutive_recovery_failures (health_step e h) = h_consecutive_recovery_failures h"
  by (cases e) (simp_all add: CanHealth_RecordError_def CanHealth_RecordSuccess_def CanHealth_SyncHardwareCounters_def Let_def)

lemma fine_quiet: "quiet_event e \<Longrightarrow> health_fine rv reset h \<Longrightarrow> health_fine rv reset (health_step e h)"
  using quiet_keeps [of e h] health_ok_step [of h e] bus_off_step [of h e]
  by (cases e) (auto simp: health_fine_def)

lemma fine_classify:
  assumes "health_fine rv reset h"
  shows "health_fine rv reset (classify_error h code counters)"
proof -
  have sync: "health_fine rv reset (CanHealth_SyncHardwareCounters g t r b)" if "health_fine rv reset g" for g t r b
    using fine_quiet [of "Sync t r b", OF _ that] by simp
  have "health_fine rv reset (CanHealth_EnterBusOff g)" if "health_fine rv reset g" for g
    using fine_quiet [of BusOff, OF _ that] by simp
  moreover have "health_fine rv reset (CanHealth_RecordError g k tx)" if "health_fine rv reset g" for g k tx
    using fine_quiet [of "Error k tx", OF _ that] by simp
  ultimately show ?thesis
    using sync assms by (cases counters) (simp add: classify_error_def Let_def)
qed

text \<open>An attempt that is judged ends, and a reset is requested by the third failure in a row.\<close>

lemma fine_attempt:
  assumes "health_fine rv False h" and "CanHealth_AttemptRecovery h recovered = (ok, h')"
    and "\<not> rv_attempt_pending rv'"
  shows "health_fine rv' (0 < h_reset_requests h') h' \<and> ok = recovered \<and> (ok \<longrightarrow> h_reset_requests h' = 0)"
proof -
  have h: "health_ok h" "max_recovery_failures (h_config h) = 3" "h_config h = CanHealth_DefaultConfig"
    "h_reset_requests h = 0" "h_consecutive_recovery_failures h < 3"
    using assms(1) by (simp_all add: health_fine_def CanHealth_DefaultConfig_def CAN_HEALTH_MAX_RECOVERY_FAILURES_def)
  let ?c = "h_consecutive_recovery_failures h"
  have c: "?c < 0xFF" using h(5) by (rule less_trans) simp
  have "?c = 0 \<or> ?c = 1 \<or> ?c = 2"
    using h(5) by (auto simp: word_less_nat_alt word_unat_eq_iff)
  then have "?c + 1 = 3 \<or> ?c + 1 < 3 \<and> \<not> 3 \<le> ?c + 1" by (elim disjE) (simp_all add: word_le_nat_alt word_less_nat_alt)
  moreover have "health_ok h'" using health_ok_step [OF h(1), of "Attempt recovered"] assms(2) by simp
  ultimately show ?thesis
    using assms(2,3) h c
    by (auto simp: health_fine_def CanHealth_AttemptRecovery_def CanHealth_MarkRecovered_def Let_def split: if_splits)
qed

subsection \<open>The log\<close>

lemma log_commutes:
  "(APP_HealthLog k a m)\<lparr>m_reset := b\<rparr> = APP_HealthLog k a (m\<lparr>m_reset := b\<rparr>)"
  by (cases m) (simp add: APP_HealthLog_def get_tick_def set_clock_def set_port_def set_world_def Let_def case_prod_beta)

lemma log_keeps [simp]:
  "m_health (APP_HealthLog k a m) = m_health m" "m_recovery (APP_HealthLog k a m) = m_recovery m"
  "m_reset (APP_HealthLog k a m) = m_reset m" "consecutive_failures (APP_HealthLog k a m) = consecutive_failures m"
  "drv_handle (m_can (APP_HealthLog k a m)) = drv_handle (m_can m)"
  by (simp_all add: APP_HealthLog_def get_tick_def set_clock_def set_port_def consecutive_failures_def Let_def case_prod_beta)

lemma health_log_ok:
  assumes "app_ok bd m"
  shows "app_ok bd (APP_HealthLog k a m)"
proof -
  have "app_ok bd (snd (get_tick m))" using assms by (rule get_tick_ok)
  moreover have "(hl_next_index l + 1) mod 24 < 24" for l by (simp add: word_less_nat_alt unat_mod)
  ultimately show ?thesis
    by (simp add: APP_HealthLog_def APP_HEALTH_LOG_SIZE_def app_ok_def app_core_def node_core_def endpoints_ok_def
        logs_ok_def Let_def case_prod_beta)
qed

subsection \<open>Recovery\<close>

lemma recover_keeps:
  assumes "driver_slots d" and "CanDriver_Recover d = (r, d')" and "drv_handle d \<noteq> None"
  shows "driver_slots d' \<and> drv_rx_callback d' = drv_rx_callback d \<and> drv_health d' = drv_health d \<and> drv_handle d' \<noteq> None"
proof -
  have init: "driver_slots (snd (CanDriver_Init e (Some hw) p s1 s2 b cb)) \<and>
      drv_rx_callback (snd (CanDriver_Init e (Some hw) p s1 s2 b cb)) = cb \<and>
      drv_health (snd (CanDriver_Init e (Some hw) p s1 s2 b cb)) = drv_health e \<and>
      drv_handle (snd (CanDriver_Init e (Some hw) p s1 s2 b cb)) \<noteq> None" if "driver_slots e" for e hw p s1 s2 b cb
    using that by (simp add: CanDriver_Init_def slots_reinit Let_def case_prod_beta)
  have start: "driver_slots (snd (CanDriver_Start e)) = driver_slots e \<and>
      drv_rx_callback (snd (CanDriver_Start e)) = drv_rx_callback e \<and>
      drv_health (snd (CanDriver_Start e)) = drv_health e \<and> (drv_handle e \<noteq> None \<longrightarrow> drv_handle (snd (CanDriver_Start e)) \<noteq> None)" for e
    by (simp add: CanDriver_Start_def Let_def case_prod_beta split: option.split)
  obtain hw where hw: "drv_handle d = Some hw" using assms(3) by blast
  let ?hw = "snd (HAL_CAN_DeInit hw)"
  let ?i = "CanDriver_Init (d\<lparr>drv_handle := Some ?hw\<rparr>) (Some ?hw) (drv_prescaler d) (drv_time_seg1 d) (drv_time_seg2 d)
      (drv_filter_bank d) (drv_rx_callback d)"
  have "d' = (if fst ?i \<noteq> HAL_OK then snd ?i else snd (CanDriver_Start (snd ?i)))"
    using assms(2) hw by (simp add: CanDriver_Recover_def Let_def case_prod_beta split: if_splits)
  with init [of "d\<lparr>drv_handle := Some ?hw\<rparr>" ?hw] start [of "snd ?i"] assms(1) show ?thesis by simp
qed

text \<open>Replacing the health object, the statics of the service and the reset flag together.\<close>

lemma set_health_ok:
  assumes "app_ok bd m" and "health_fine rv b h"
  shows "app_ok bd ((set_health h m)\<lparr>m_recovery := rv, m_reset := b\<rparr>)"
  using assms
  by (simp add: app_ok_def app_core_def node_core_def endpoints_ok_def logs_ok_def set_health_def set_can_def set_port_def)

lemma recovery_failed_ok:
  assumes "app_ok bd (m\<lparr>m_reset := CanHealth_ResetRequested (m_health m)\<rparr>)" and "\<not> m_reset m"
  shows "app_ok bd (recovery_failed m)"
proof (cases "CanHealth_ResetRequested (m_health m)")
  case True
  let ?m = "m\<lparr>m_reset := True\<rparr>"
  have "app_ok bd (APP_HealthLog APP_LOG_RESET (consecutive_failures m) (APP_HealthLog APP_LOG_FAILURE (consecutive_failures m) ?m))"
    using assms(1) True by (intro health_log_ok) simp
  with True show ?thesis by (simp add: recovery_failed_def Let_def log_commutes)
next
  case False
  then have "m\<lparr>m_reset := CanHealth_ResetRequested (m_health m)\<rparr> = m" using assms(2) by (cases m) simp
  then have "app_ok bd (APP_HealthLog APP_LOG_FAILURE (consecutive_failures m) m)"
    using assms(1) by (intro health_log_ok) simp
  with False show ?thesis by (simp add: recovery_failed_def Let_def)
qed

text \<open>The verdict on an attempt, with the statics already updated to \<open>rv\<close>.\<close>

lemma verdict_ok:
  assumes "app_ok bd m" and "\<not> m_reset m" and "\<not> rv_attempt_pending rv"
    and "attempt_recovery recovered (m\<lparr>m_recovery := rv\<rparr>) = (ok, m')"
  shows "ok = recovered \<and> \<not> m_reset m' \<and> (if ok then app_ok bd m' else app_ok bd (recovery_failed m'))"
proof -
  obtain h where h: "m_health m = Some h" "health_fine (m_recovery m) False h"
    using assms(1,2) by (auto simp: app_ok_def app_core_def node_core_def)
  obtain h' where a: "CanHealth_AttemptRecovery h recovered = (ok, h')" and m': "m' = set_health h' (m\<lparr>m_recovery := rv\<rparr>)"
    using assms(4) h(1) by (auto simp: attempt_recovery_def Let_def split: prod.splits)
  note f = fine_attempt [OF h(2) a assms(3)]
  have comm: "(set_health h' m)\<lparr>m_recovery := rv, m_reset := b\<rparr> = (set_health h' (m\<lparr>m_recovery := rv\<rparr>))\<lparr>m_reset := b\<rparr>" for b
    by (cases m) (simp add: set_health_def set_can_def set_port_def set_world_def)
  have reset: "\<not> m_reset m'" "m_health m' = Some h'"
    using m' assms(2) by (simp_all add: set_health_def set_can_def set_port_def)
  have ok: "app_ok bd (m'\<lparr>m_reset := CanHealth_ResetRequested (m_health m')\<rparr>)"
    using set_health_ok [OF assms(1) conjunct1 [OF f]] m' comm reset(2) by (simp add: CanHealth_ResetRequested_def)
  have "app_ok bd m'" if ok
  proof -
    have "m'\<lparr>m_reset := False\<rparr> = m'" using reset(1) by (cases m') simp
    moreover have "app_ok bd (m'\<lparr>m_reset := False\<rparr>)" using ok f that reset(2) by (simp add: CanHealth_ResetRequested_def)
    ultimately show ?thesis by simp
  qed
  then show ?thesis using f reset(1) recovery_failed_ok [OF ok reset(1)] by simp
qed

lemma judge_ok:
  assumes "app_ok bd m" and "\<not> m_reset m"
  shows "app_ok bd (judge_attempt m)"
proof -
  let ?rv = "(m_recovery m)\<lparr>rv_attempt_pending := False\<rparr>"
  have "app_ok bd (let (ok, m2) = attempt_recovery r (m\<lparr>m_recovery := ?rv\<rparr>)
      in if ok then APP_HealthLog APP_LOG_SUCCESS 0 m2 else recovery_failed m2)" for r
    using verdict_ok [OF assms, of ?rv r] health_log_ok by (auto split: prod.split)
  then show ?thesis unfolding judge_attempt_def Let_def .
qed

lemma statics_ok:
  assumes "app_ok bd m" and "\<And>h. m_health m = Some h \<Longrightarrow> health_fine (m_recovery m) (m_reset m) h \<Longrightarrow> health_fine rv (m_reset m) h"
  shows "app_ok bd (m\<lparr>m_recovery := rv\<rparr>)"
  using assms by (auto simp: app_ok_def app_core_def node_core_def endpoints_ok_def logs_ok_def)

lemma new_can_ok:
  assumes "app_ok bd m" and "driver_slots d" and "drv_rx_callback d = drv_rx_callback (m_can m)"
    and "drv_health d = drv_health (m_can m)" and "drv_handle d \<noteq> None"
  shows "app_ok bd (set_can d m)"
proof -
  have "app_core bd d m" by (rule core_cong [of bd "m_can m"]) (use assms in \<open>auto simp: app_ok_def\<close>)
  then have "app_core bd d (set_can d m)" by (simp add: set_can_def set_port_def)
  with assms(2) show ?thesis by (simp add: app_ok_def)
qed

lemma start_attempt_ok:
  assumes "app_ok bd m" and "\<not> m_reset m" and "CanHealth_GetState (m_health m) = CAN_HEALTH_STATE_BUS_OFF"
    and "\<not> rv_attempt_pending (m_recovery m)"
  shows "app_ok bd (start_attempt now m)"
proof -
  let ?rv = "(m_recovery m)\<lparr>rv_last_recovery_tick := now\<rparr>" let ?m1 = "m\<lparr>m_recovery := ?rv\<rparr>"
  obtain r d where rec: "CanDriver_Recover (m_can ?m1) = (r, d)" by fastforce
  have m1: "app_ok bd ?m1" by (rule statics_ok [OF assms(1)]) (simp add: health_fine_def)
  then have "driver_slots (m_can ?m1)" "drv_handle (m_can ?m1) \<noteq> None"
    by (simp_all add: app_ok_def app_core_def node_core_def)
  note keep = recover_keeps [OF this(1) rec this(2)]
  have m2: "app_ok bd (set_can d ?m1)" by (rule new_can_ok [OF m1]) (use keep in auto)
  obtain h where h: "m_health m = Some h" "h_state h = CAN_HEALTH_STATE_BUS_OFF"
    using assms(1,3) by (auto simp: app_ok_def app_core_def node_core_def CanHealth_GetState_def)
  have same: "m_recovery (set_can d ?m1) = ?rv" "m_health (set_can d ?m1) = Some h" "\<not> m_reset (set_can d ?m1)"
    using h keep assms(2) by (simp_all add: set_can_def set_port_def)
  show ?thesis
  proof (cases "r = HAL_OK")
    case True
    have "app_ok bd ((set_can d ?m1)\<lparr>m_recovery := ?rv\<lparr>rv_attempt_pending := True, rv_attempt_started_tick := now,
        rv_bus_off_events_at_attempt := h_bus_off_events h\<rparr>\<rparr>)"
      by (rule statics_ok [OF m2]) (use same h in \<open>auto simp: health_fine_def\<close>)
    from health_log_ok [OF this] True rec same show ?thesis by (simp add: start_attempt_def Let_def)
  next
    case False
    obtain ok m3 where at: "attempt_recovery False (set_can d ?m1) = (ok, m3)" by fastforce
    have "(set_can d ?m1)\<lparr>m_recovery := ?rv\<rparr> = set_can d ?m1" using same(1) by (cases "set_can d ?m1") simp
    with at have "attempt_recovery False ((set_can d ?m1)\<lparr>m_recovery := ?rv\<rparr>) = (ok, m3)" by simp
    from verdict_ok [OF m2 same(3) _ this] assms(4) rec False at show ?thesis by (simp add: start_attempt_def Let_def)
  qed
qed

lemma service_health_ok:
  assumes "app_ok bd m" and "\<not> m_reset m"
  shows "app_ok bd (APP_ServiceCanHealth now m)"
  using assms judge_ok [OF assms] start_attempt_ok [OF assms] by (simp add: APP_ServiceCanHealth_def)

lemma summary_ok:
  assumes "app_ok bd m"
  shows "app_ok bd (APP_UpdateHealthSummary m)"
proof -
  obtain h where h: "m_health m = Some h" "health_fine (m_recovery m) (m_reset m) h"
    using assms by (auto simp: app_ok_def app_core_def node_core_def)
  let ?h = "case CanDriver_GetErrorCounters (m_can m) of None \<Rightarrow> h
      | Some (tec, rc, b) \<Rightarrow> CanHealth_SyncHardwareCounters h tec rc b"
  have "health_fine (m_recovery m) (m_reset m) (CanHealth_SyncHardwareCounters h t r b)" for t r b
    using fine_quiet [of "Sync t r b", OF _ h(2)] by simp
  then have "health_fine (m_recovery m) (m_reset m) ?h" using h(2) by (auto split: option.split)
  moreover have "(set_health ?h m)\<lparr>m_recovery := m_recovery m, m_reset := m_reset m\<rparr> = set_health ?h m"
    by (cases m) (simp add: set_health_def set_can_def set_port_def set_world_def)
  ultimately have "app_ok bd (set_health ?h m)" using set_health_ok [OF assms] by metis
  then have "app_ok bd (set_health ?h m\<lparr>m_can_health_full := f, m_can_health_summary := l\<rparr>)" for f l by simp
  with h(1) show ?thesis by (simp add: APP_UpdateHealthSummary_def Let_def)
qed

subsection \<open>The main loop\<close>

lemma services_keep_reset [simp]:
  "m_reset (snd (get_tick m)) = m_reset m" "m_reset (service_cyclic now m) = m_reset m"
  "m_reset (APP_ServiceIsotp now m) = m_reset m"
proof -
  show "m_reset (snd (get_tick m)) = m_reset m"
    by (simp add: get_tick_def set_clock_def set_port_def Let_def case_prod_beta)
  show "m_reset (service_cyclic now m) = m_reset m"
    by (simp add: service_cyclic_def APP_CAN_Send_def can_send_def Let_def case_prod_beta)
  have start: "m_reset (start_response n x) = m_reset x" for n x
    by (simp add: start_response_def set_port_def Let_def case_prod_beta)
  have "m_reset (poll_endpoints x) = m_reset x" "m_reset (serve_pending x) = m_reset x"
    "m_reset (serve_request now x) = m_reset x" for x
    by (simp_all add: poll_endpoints_def serve_pending_def serve_request_def put_response_def start set_port_def
        Let_def case_prod_beta)
  then show "m_reset (APP_ServiceIsotp now m) = m_reset m" by (simp add: APP_ServiceIsotp_def Let_def)
qed

text \<open>An iteration returns, keeps the invariant and leaves both receive queues empty.\<close>

lemma main_loop_ok:
  assumes "app_ok bd m" and "\<not> m_reset m"
  shows "\<exists>m'. main_loop bd m = Some m' \<and> app_ok bd m'"
proof -
  obtain now m0 where t: "get_tick m = (now, m0)" by fastforce
  have m0: "app_ok bd m0" "\<not> m_reset m0"
    using get_tick_ok [OF assms(1)] services_keep_reset(1) [of m] assms(2) t by simp_all
  obtain d m1 where rx: "CanDriver_ProcessRx (app_callbacks bd) (m_can m0, m0) = Some (d, m1)" "app_ok bd (set_can d m1)"
    "\<not> m_reset m1"
    using process_rx_ok [OF m0(1)] m0(2) by metis
  let ?m3 = "(set_can d m1)\<lparr>m_uds := UdsEcu_Tick (m_uds (set_can d m1)) now\<rparr>"
  let ?m4 = "service_cyclic now (APP_ServiceIsotp now ?m3)"
  have m4: "app_ok bd ?m4" by (intro cyclic_ok service_isotp_ok tick_service_ok rx(2))
  have "\<not> m_reset ?m4" using rx(3) by simp
  from service_health_ok [OF m4 this] have m5: "app_ok bd (APP_ServiceCanHealth now ?m4)" .
  then have "app_ok bd (service_watchdogs now (APP_UpdateHealthSummary (APP_ServiceCanHealth now ?m4)))"
    by (intro watchdogs_ok summary_ok)
  with m5 t rx(1) show ?thesis by (simp add: main_loop_def Let_def)
qed

subsection \<open>The interrupts\<close>

lemma rx_irq_ok: "app_ok bd m \<Longrightarrow> app_ok bd (HAL_CAN_RxFifoMsgPendingCallback m)"
proof -
  assume m: "app_ok bd m"
  then have d: "driver_slots (m_can m)" "drv_handle (m_can m) \<noteq> None"
    by (simp_all add: app_ok_def app_core_def node_core_def)
  have "drv_rx_callback (CanDriver_RxIrqHandler e) = drv_rx_callback e \<and>
      drv_health (CanDriver_RxIrqHandler e) = drv_health e \<and>
      (drv_handle e \<noteq> None \<longrightarrow> drv_handle (CanDriver_RxIrqHandler e) \<noteq> None)" for e
    by (simp add: CanDriver_RxIrqHandler_def Let_def case_prod_beta split: option.split)
  with irq_slots d show ?thesis
    unfolding HAL_CAN_RxFifoMsgPendingCallback_def by (intro new_can_ok [OF m]) simp_all
qed

lemma error_irq_ok:
  assumes "app_ok bd m"
  shows "app_ok bd (HAL_CAN_ErrorCallback m)"
proof -
  obtain h hw where h: "m_health m = Some h" "health_fine (m_recovery m) (m_reset m) h" "drv_handle (m_can m) = Some hw"
    using assms by (auto simp: app_ok_def app_core_def node_core_def)
  obtain d lg k where irq: "CanDriver_OnErrorIsr (m_can m) (m_can_error_log m) (port_clock (m_port m)) = (d, lg, k)"
    by (metis prod_cases3)
  let ?hw = "hw\<lparr>hcan_error_code := HAL_CAN_ERROR_NONE\<rparr>"
  have d: "driver_slots d \<and> drv_rx_callback d = drv_rx_callback (m_can m) \<and> drv_handle d \<noteq> None \<and>
      (\<exists>h'. drv_health d = Some h' \<and> health_fine (m_recovery m) (m_reset m) h')"
    using irq h assms fine_classify [OF h(2)]
    by (auto simp: CanDriver_OnErrorIsr_def CanDriver_GetErrorCounters_def app_ok_def Let_def split: prod.splits if_splits)
  have lg: "length (log_entries lg) = 32" "log_next_index lg < 32"
    using irq h assms
    by (auto simp: CanDriver_OnErrorIsr_def CanDriver_LogErrorIsr_def CAN_DRIVER_ERROR_LOG_SIZE_def app_ok_def app_core_def
        logs_ok_def word_less_nat_alt unat_mod Let_def split: prod.splits if_splits option.splits)
  have "app_ok bd (set_clock k (set_can d m)\<lparr>m_can_error_log := lg\<rparr>)"
    using assms d lg
    by (auto simp: app_ok_def app_core_def node_core_def endpoints_ok_def logs_ok_def set_clock_def set_can_def set_port_def)
  with irq show ?thesis by (simp add: HAL_CAN_ErrorCallback_def)
qed

end
