(* ===== verification/AppSystem.thy ===== *)
theory AppSystem
  imports AppHealth
begin

section \<open>The running application\<close>

text \<open>
  Start-up establishes the invariant; iterations of the main loop, the two interrupts, the bus and
  time keep it.  The interrupts and the outside world act between iterations; within one, the tick
  advances as the tick's schedule says.
\<close>

subsection \<open>Start-up\<close>

text \<open>The globals before \<open>main\<close>: arrays of their declared sizes, statics zero, and a flash in a state
  the firmware can have left (its erased slots last).\<close>

definition zeroed :: "board \<Rightarrow> app_main \<Rightarrow> bool" where
  "zeroed bd m \<longleftrightarrow> ecu_flash (bd_flash_size bd) \<and> flash_valid (bd_flash_size bd) (st_flash (m_world m)) \<and>
     tail_clean (fl_cells (st_flash (m_world m))) (unat (APP_PARAM_SLOT_COUNT (bd_flash_size bd))) \<and>
     driver_slots (m_can m) \<and> mem_ok (fst (m_uds m)) \<and> logs_ok m \<and>
     length (m_isotp_tx_buffer m) = unat APP_ISOTP_TX_BUFFER_SIZE \<and>
     \<not> rv_attempt_pending (m_recovery m) \<and> \<not> m_isotp_serving m \<and> \<not> m_reset m"

lemma init_params_any:
  assumes "zeroed bd m"
  shows "storage_any (bd_flash_size bd) (m_world (init_params bd m)) \<and> w_port (m_world (init_params bd m)) = m_port m"
proof -
  obtain st f where i: "AppParamStorage_Init (bd_flash_size bd) (st_flash (m_world m)) = (st, f)" by fastforce
  have z: "ecu_flash (bd_flash_size bd)" "flash_valid (bd_flash_size bd) (st_flash (m_world m))"
    "tail_clean (fl_cells (st_flash (m_world m))) (unat (APP_PARAM_SLOT_COUNT (bd_flash_size bd)))"
    using assms by (simp_all add: zeroed_def)
  from storage_init_any [OF z i] i show ?thesis by (simp add: init_params_def)
qed

lemma init_can_slots:
  assumes "init_can bd hw m = Some m'" and "driver_slots (m_can m)"
  shows "\<exists>d. m' = set_can d m \<and> driver_slots d \<and> drv_rx_callback d = Some 0 \<and> drv_handle d \<noteq> None \<and>
    drv_health d = Some (CanHealth_Init None)"
proof -
  obtain d where d: "CanDriver_Init (m_can m) (Some hw) (bd_prescaler bd) (bd_time_seg1 bd) (bd_time_seg2 bd) 0 (Some 0) = (HAL_OK, d)"
    using assms(1) by (auto simp: init_can_def split: prod.splits if_splits)
  obtain d2 where d2: "CanDriver_Start (CanDriver_AttachHealth d (Some (CanHealth_Init None))) = (HAL_OK, d2)" "m' = set_can d2 m"
    using assms(1) d by (auto simp: init_can_def split: prod.splits if_splits)
  from init_ok [OF d] obtain hw' where hw: "drv_handle d = Some hw'" "drv_rx_callback d = Some 0"
    "drv_priority_rx_queue d = CanRxQueue_Init (drv_priority_rx_queue (m_can m))"
    "drv_rx_queue d = CanRxQueue_Init (drv_rx_queue (m_can m))" by blast
  then have "drv_handle (CanDriver_AttachHealth d (Some (CanHealth_Init None))) = Some hw'"
    by (simp add: CanDriver_AttachHealth_def)
  from start_ok [OF d2(1) this] hw assms(2) d2(2) show ?thesis
    by (auto simp: CanDriver_AttachHealth_def slots_reinit)
qed

lemma init_uds_ok:
  assumes "mem_ok (fst (m_uds m))" and "storage_any (bd_flash_size bd) (m_world m)"
  shows "uds_ok (bd_flash_size bd) (m_uds (init_uds bd m)) \<and> m_port (init_uds bd m) = m_port m \<and>
    w_watchdog (m_world (init_uds bd m)) = w_watchdog (m_world m)"
proof -
  let ?st = "AppParamStorage_GetUdsStorage (bd_flash_size bd) :: app_world UdsDidStorage_t"
  obtain s r where i: "UdsEcu_InitWithHooks (m_uds m) (bd_variant bd) (Some ?st) (Some (app_hooks (bd_flash_size bd))) = (s, r)"
    by fastforce
  have pure: "pure_load ?st (ecu_app (snd (m_uds m)))"
    by (simp add: pure_load_def AppParamStorage_GetUdsStorage_def app_param_load_def)
  note start = ecu_start [OF assms(1) pure i]
  have "mem_ok s" using ecu_init_memory [OF assms(1), of "bd_variant bd" "Some ?st" "Some (app_hooks (bd_flash_size bd))"] i by simp
  moreover have "ecu_env ?st (app_hooks (bd_flash_size bd)) (world_ok (bd_flash_size bd) (m_port m) (w_watchdog (m_world m))) r"
    using app_backend.init_env [of "bd_flash_size bd" "m_port m" "w_watchdog (m_world m)" "m_uds m" "bd_variant bd"] assms(2) i
    by (simp add: world_ok_def)
  ultimately show ?thesis
    using ok_of_env [of "bd_flash_size bd" "m_port m" "w_watchdog (m_world m)" "(s, r)"] start i by (simp add: init_uds_def)
qed

lemma init_isotp_core:
  assumes "node_core d m" and "uds_ok (bd_flash_size bd) (m_uds m)" and "logs_ok m" and "length rxbuf = 300"
    and "length (m_isotp_tx_buffer m) = unat APP_ISOTP_TX_BUFFER_SIZE"
  shows "app_core bd d (init_isotp bd rxbuf g m)"
proof -
  let ?cfg = "IsotpConfig_Init (bd_isotp_tx_id bd) (bd_isotp_rx_id bd) (Some rxbuf) APP_ISOTP_RX_BUFFER_SIZE"
  have "rx_ok (fst (IsotpRx_Init (m_isotp_rx m) (Some app_channel) ?cfg g))"
    using rx_ok_init [of ?cfg rxbuf] assms(4) by (simp add: IsotpConfig_Init_def APP_ISOTP_RX_BUFFER_SIZE_def)
  moreover have "rx_buffer_size (fst (IsotpRx_Init (m_isotp_rx m) (Some app_channel) ?cfg g)) = APP_ISOTP_RX_BUFFER_SIZE"
    "rx_channel (fst (IsotpRx_Init (m_isotp_rx m) (Some app_channel) ?cfg g)) = app_channel"
    by (simp_all add: IsotpRx_Init_def IsotpConfig_Init_def APP_ISOTP_RX_BUFFER_SIZE_def Let_def)
  moreover have "cfg_n_as_ms ?cfg = ISOTP_DEFAULT_N_AS_MS" by (simp add: IsotpConfig_Init_def)
  ultimately show ?thesis
    using assms by (simp add: init_isotp_def app_core_def node_core_def endpoints_ok_def logs_ok_def IsotpTx_Init_def Let_def)
qed

lemma init_watchdogs_ok:
  assumes "init_watchdogs bd m = Some m'" and "app_ok bd m"
  shows "app_ok bd m'"
  using assms watchdog_ok clock_ok
  by (auto simp: init_watchdogs_def get_tick_def Let_def split: prod.splits if_splits)

lemma main_init_ok:
  assumes "zeroed bd m" and "length rxbuf = 300" and "main_init bd hcan1 rxbuf g m = Some m'"
  shows "app_ok bd m' \<and> \<not> m_reset m' \<and> \<not> rv_attempt_pending (m_recovery m')"
proof -
  let ?m0 = "init_params bd m"
  obtain m1 where m1: "init_can bd hcan1 ?m0 = Some m1"
    and w: "init_watchdogs bd (init_isotp bd rxbuf g (init_uds bd m1)) = Some m'"
    using assms(3) by (auto simp: main_init_def split: option.splits)
  have keep: "fst (m_uds ?m0) = fst (m_uds m)" "logs_ok ?m0" "m_isotp_tx_buffer ?m0 = m_isotp_tx_buffer m"
    "m_recovery ?m0 = m_recovery m" "\<not> m_reset ?m0" "\<not> m_isotp_serving ?m0"
    using assms(1) by (simp_all add: init_params_def zeroed_def logs_ok_def case_prod_beta)
  note any = init_params_any [OF assms(1)]
  have "driver_slots (m_can ?m0)" using any assms(1) by (simp add: zeroed_def)
  from init_can_slots [OF m1 this] obtain d where d: "m1 = set_can d ?m0" "driver_slots d" "drv_rx_callback d = Some 0"
    "drv_handle d \<noteq> None" "drv_health d = Some (CanHealth_Init None)" by blast
  have "health_fine (m_recovery m) False (CanHealth_Init None)"
    using assms(1) health_ok_Init [of None] by (simp add: health_fine_def zeroed_def CanHealth_Init_def)
  then have node: "node_core d m1" using d keep by (simp add: node_core_def set_can_def set_port_def)
  have u: "mem_ok (fst (m_uds m1))" "storage_any (bd_flash_size bd) (m_world m1)"
    using any assms(1) keep(1) d(1) by (simp_all add: zeroed_def set_can_def set_port_def storage_any_def storage_ok_def)
  note uds = init_uds_ok [OF u]
  have node2: "node_core d (init_uds bd m1)" using node by (simp add: node_core_def init_uds_def)
  have rest: "logs_ok (init_uds bd m1)" "length (m_isotp_tx_buffer (init_uds bd m1)) = unat APP_ISOTP_TX_BUFFER_SIZE"
    using keep assms(1) d(1) by (simp_all add: logs_ok_def init_uds_def set_can_def set_port_def zeroed_def)
  have "app_core bd d (init_isotp bd rxbuf g (init_uds bd m1))"
    by (rule init_isotp_core [OF node2 _ rest(1) assms(2) rest(2)]) (use uds in simp)
  moreover have "m_can (init_isotp bd rxbuf g (init_uds bd m1)) = d"
    using uds d(1) by (simp add: init_isotp_def Let_def)
  ultimately have "app_ok bd (init_isotp bd rxbuf g (init_uds bd m1))" using d(2) by (simp add: app_ok_def)
  from init_watchdogs_ok [OF w this] have "app_ok bd m'" .
  moreover have "m_reset m' = m_reset m1" "m_recovery m' = m_recovery m1"
    using w by (auto simp: init_watchdogs_def get_tick_def set_watchdog_def set_clock_def set_port_def init_isotp_def
        init_uds_def Let_def split: prod.splits if_splits)
  moreover have "m_recovery m1 = m_recovery m" using keep(4) d(1) by (simp add: set_can_def set_port_def)
  ultimately show ?thesis using assms(1) keep(5) d(1) by (simp add: zeroed_def)
qed

subsection \<open>Reachable states\<close>

text \<open>Each service of the loop is a step of its own, given any tick, so that the interrupts, the bus and
  time act between any two of them; \<open>other_step\<close> is every step but the recovery service.  Every order of
  the services is allowed, the loop's own among them (\<open>main_loop_reaches\<close>).\<close>

inductive other_step :: "board \<Rightarrow> app_main \<Rightarrow> app_main \<Rightarrow> bool" for bd where
  step_rx: "\<not> m_reset m \<Longrightarrow> CanDriver_ProcessRx (app_callbacks bd) (m_can m, m) = Some (d, m') \<Longrightarrow>
    other_step bd m (set_can d m')"
| step_uds: "\<not> m_reset m \<Longrightarrow> other_step bd m (m\<lparr>m_uds := UdsEcu_Tick (m_uds m) now\<rparr>)"
| step_isotp: "\<not> m_reset m \<Longrightarrow> other_step bd m (APP_ServiceIsotp now m)"
| step_cyclic: "\<not> m_reset m \<Longrightarrow> other_step bd m (service_cyclic now m)"
| step_summary: "\<not> m_reset m \<Longrightarrow> other_step bd m (APP_UpdateHealthSummary m)"
| step_watchdogs: "\<not> m_reset m \<Longrightarrow> other_step bd m (service_watchdogs now m)"
| step_rx_irq: "\<not> m_reset m \<Longrightarrow> other_step bd m (HAL_CAN_RxFifoMsgPendingCallback m)"
| step_error_irq: "\<not> m_reset m \<Longrightarrow> other_step bd m (HAL_CAN_ErrorCallback m)"
| step_bus: "\<not> m_reset m \<Longrightarrow> other_step bd m (set_can ((m_can m)\<lparr>drv_handle := Some hw\<rparr>) m)"
| step_clock: "\<not> m_reset m \<Longrightarrow> other_step bd m (set_clock k m)"
| step_counter: "\<not> m_reset m \<Longrightarrow> other_step bd m (set_watchdog w m)"

inductive app_step :: "board \<Rightarrow> app_main \<Rightarrow> app_main \<Rightarrow> bool" for bd where
  step_other: "other_step bd m m' \<Longrightarrow> app_step bd m m'"
| step_health: "\<not> m_reset m \<Longrightarrow> app_step bd m (APP_ServiceCanHealth now m)"

inductive app_reachable :: "board \<Rightarrow> app_main \<Rightarrow> bool" for bd where
  reach_init: "zeroed bd m \<Longrightarrow> length rxbuf = 300 \<Longrightarrow> main_init bd hcan1 rxbuf g m = Some m' \<Longrightarrow> app_reachable bd m'"
| reach_next: "app_reachable bd m \<Longrightarrow> app_step bd m m' \<Longrightarrow> app_reachable bd m'"

inductive_cases other_stepE: "other_step bd m m'"
inductive_cases app_stepE: "app_step bd m m'"

lemma reach_other: "app_reachable bd m \<Longrightarrow> other_step bd m m' \<Longrightarrow> app_reachable bd m'"
  by (rule reach_next [OF _ step_other])

lemma process_rx_step:
  assumes "CanDriver_ProcessRx (app_callbacks bd) (m_can m, m) = Some (d, m')" and "app_ok bd m"
  shows "app_ok bd (set_can d m') \<and> m_reset m' = m_reset m"
  using process_rx_ok [OF assms(2)] assms(1) by (metis option.inject prod.inject)

lemma other_step_ok: "other_step bd m m' \<Longrightarrow> app_ok bd m \<Longrightarrow> app_ok bd m'"
proof (erule other_stepE)
  fix hw assume m: "app_ok bd m" "m' = set_can ((m_can m)\<lparr>drv_handle := Some hw\<rparr>) m"
  show "app_ok bd m'" unfolding m(2) by (rule new_can_ok [OF m(1)]) (use m(1) in \<open>auto simp: app_ok_def\<close>)
qed (simp_all add: rx_irq_ok error_irq_ok clock_ok watchdog_ok cyclic_ok watchdogs_ok summary_ok service_isotp_ok
    tick_service_ok process_rx_step)

lemma step_ok_app: "app_step bd m m' \<Longrightarrow> app_ok bd m \<Longrightarrow> app_ok bd m'"
  by (erule app_stepE) (simp_all add: other_step_ok service_health_ok)

lemma reachable_ok: "app_reachable bd m \<Longrightarrow> app_ok bd m"
  by (induction rule: app_reachable.induct) (auto dest: main_init_ok step_ok_app)

lemma summary_reset [simp]: "m_reset (APP_UpdateHealthSummary x) = m_reset x"
  by (simp add: APP_UpdateHealthSummary_def set_health_def Let_def split: option.split)

lemma main_loop_reaches:
  assumes "app_reachable bd m" and "\<not> m_reset m" and "main_loop bd m = Some m'"
  shows "app_reachable bd m'"
proof -
  obtain now m0 where t: "get_tick m = (now, m0)" by fastforce
  then obtain k where k: "m0 = set_clock k m" by (auto simp: get_tick_def Let_def split: prod.splits)
  have m0: "app_reachable bd m0" unfolding k by (rule reach_other [OF assms(1) step_clock [OF assms(2)]])
  have nr0: "\<not> m_reset m0" unfolding k using assms(2) by (simp add: set_clock_def set_port_def)
  obtain d m1 where rx: "CanDriver_ProcessRx (app_callbacks bd) (m_can m0, m0) = Some (d, m1)"
    using assms(3) t by (auto simp: main_loop_def split: option.splits)
  let ?m2 = "set_can d m1"
  let ?m3 = "?m2\<lparr>m_uds := UdsEcu_Tick (m_uds ?m2) now\<rparr>"
  let ?m4 = "APP_ServiceIsotp now ?m3" let ?m5 = "service_cyclic now ?m4" let ?m6 = "APP_ServiceCanHealth now ?m5"
  have m2: "app_reachable bd ?m2" by (rule reach_other [OF m0 step_rx [OF nr0 rx]])
  have nr: "\<not> m_reset ?m2" using process_rx_step [OF rx reachable_ok [OF m0]] nr0 by simp
  have m3: "app_reachable bd ?m3" by (rule reach_other [OF m2 step_uds [OF nr]])
  have m4: "app_reachable bd ?m4" by (rule reach_other [OF m3 step_isotp]) (use nr in simp)
  have m5: "app_reachable bd ?m5" by (rule reach_other [OF m4 step_cyclic]) (use nr in simp)
  have m6: "app_reachable bd ?m6" by (rule reach_next [OF m5 step_health]) (use nr in simp)
  have m': "m' = (if m_reset ?m6 then ?m6 else service_watchdogs now (APP_UpdateHealthSummary ?m6))"
    using assms(3) t rx by (simp add: main_loop_def Let_def)
  show ?thesis
  proof (cases "m_reset ?m6")
    case False
    have m7: "app_reachable bd (APP_UpdateHealthSummary ?m6)" by (rule reach_other [OF m6 step_summary [OF False]])
    have "\<not> m_reset (APP_UpdateHealthSummary ?m6)" using False by simp
    from reach_other [OF m7 step_watchdogs [OF this]] False m' show ?thesis by simp
  qed (use m6 m' in simp)
qed

end
