(* ===== verification/UdsRoutines.thy ===== *)
theory UdsRoutines
  imports UdsClaims
begin

section \<open>Running a routine of the ECU\<close>

text \<open>
  A routine of the ECU is started, asked for its result (which the server answers as pending)
  and finished by a poll.  The lemmas follow one routine \<open>h\<close> through the three steps; the work
  is \<open>execute_routine\<close>, done once, in the poll.
\<close>

text \<open>Routine \<open>h\<close> of the ECU is entry \<open>h\<close> of the table, may run in the session, and its context
  belongs to the ECU.\<close>

definition routine_ready :: "nat \<Rightarrow> u16 \<Rightarrow> UdsServer_t \<Rightarrow> 'a ecu_rest \<Rightarrow> bool" where
  "routine_ready h rid s r \<longleftrightarrow> h < 2 \<and> mem_ok s \<and>
     UdsServer_FindRoutineIndex s rid = of_nat h \<and> h < unat (srv_routine_count s) \<and>
     rtn_id (srv_routines s ! h) = rid \<and> rtn_handler (srv_routines s ! h) = Some h \<and>
     UdsServer_SessionAllowed (rtn_sessions_mask (srv_routines s ! h)) (srv_session s) \<and>
     (rtn_requires_unlock (srv_routines s ! h) \<longrightarrow> srv_security_unlocked s) \<and>
     \<not> srv_pending_did_write s \<and> ctx_owner (routine_context h r)"

lemma context_set [simp]: "routine_context h (set_routine_context h c r) = c"
  by (simp add: routine_context_def set_routine_context_def)

lemma record_routine_fields [simp]:
  "srv_routines (record_routine i st res s) = srv_routines s"
  "srv_routine_count (record_routine i st res s) = srv_routine_count s"
  "srv_session (record_routine i st res s) = srv_session s"
  "srv_security_unlocked (record_routine i st res s) = srv_security_unlocked s"
  "srv_pending_did_write (record_routine i st res s) = srv_pending_did_write s"
  "srv_routine_state (record_routine i st res s) = arr_set (srv_routine_state s) (unat i) st"
  "srv_dids (record_routine i st res s) = srv_dids s"
  "srv_pending_routine_index (record_routine i st res s) = srv_pending_routine_index s"
  "srv_pending_routine_subfunction (record_routine i st res s) = srv_pending_routine_subfunction s"
  "srv_pending_routine_suppress_positive (record_routine i st res s) = srv_pending_routine_suppress_positive s"
  by (simp_all add: record_routine_def UdsServer_StoreRoutineResult_def Let_def)

lemma find_routine_same [simp]:
  "UdsServer_FindRoutineIndex (UdsServer_ClearPendingRoutine s) rid = UdsServer_FindRoutineIndex s rid"
  "UdsServer_FindRoutineIndex (record_routine i st res s) rid = UdsServer_FindRoutineIndex s rid"
  "UdsServer_FindRoutineIndex (UdsServer_ArmPendingRoutine s i f b data) rid = UdsServer_FindRoutineIndex s rid"
  by (simp_all add: UdsServer_FindRoutineIndex_def UdsServer_ClearPendingRoutine_def
      UdsServer_ArmPendingRoutine_def Let_def)

lemma pending_routine_fields [simp]:
  "srv_routines (UdsServer_ClearPendingRoutine s) = srv_routines s"
  "srv_routine_count (UdsServer_ClearPendingRoutine s) = srv_routine_count s"
  "srv_session (UdsServer_ClearPendingRoutine s) = srv_session s"
  "srv_security_unlocked (UdsServer_ClearPendingRoutine s) = srv_security_unlocked s"
  "srv_pending_did_write (UdsServer_ClearPendingRoutine s) = srv_pending_did_write s"
  "srv_routine_state (UdsServer_ClearPendingRoutine s) = srv_routine_state s"
  "srv_dids (UdsServer_ClearPendingRoutine s) = srv_dids s"
  "\<not> srv_pending_routine_response (UdsServer_ClearPendingRoutine s)"
  by (simp_all add: UdsServer_ClearPendingRoutine_def)

lemma arm_fields [simp]:
  "srv_routines (UdsServer_ArmPendingRoutine s i f b data) = srv_routines s"
  "srv_routine_count (UdsServer_ArmPendingRoutine s i f b data) = srv_routine_count s"
  "srv_session (UdsServer_ArmPendingRoutine s i f b data) = srv_session s"
  "srv_security_unlocked (UdsServer_ArmPendingRoutine s i f b data) = srv_security_unlocked s"
  "srv_pending_did_write (UdsServer_ArmPendingRoutine s i f b data) = srv_pending_did_write s"
  "srv_dids (UdsServer_ArmPendingRoutine s i f b data) = srv_dids s"
  "srv_pending_routine_response (UdsServer_ArmPendingRoutine s i f b data)"
  "srv_pending_routine_index (UdsServer_ArmPendingRoutine s i f b data) = i"
  "srv_pending_routine_subfunction (UdsServer_ArmPendingRoutine s i f b data) = f"
  "srv_pending_routine_suppress_positive (UdsServer_ArmPendingRoutine s i f b data) = b"
  by (simp_all add: UdsServer_ArmPendingRoutine_def Let_def)

lemma unat_routine: "h < 2 \<Longrightarrow> unat (of_nat h :: u8) = h"
  by (simp add: unat_of_nat)

text \<open>The handler in its three uses.\<close>

lemma call_start:
  "rtn_handler (srv_routines s ! unat i) = Some h \<Longrightarrow> ctx_owner (routine_context h r) \<Longrightarrow>
    call_handler ecu_calls i UDS_ROUTINE_START data (s, r) =
      ((UDS_ROUTINE_RUNNING, []), s,
       set_routine_context h ((routine_context h r)\<lparr>ctx_polls := 0, ctx_executed := False\<rparr>) r)"
  by (simp add: call_handler_def ecu_calls_def UdsEcu_RoutineHandler_def Let_def)

lemma call_first_poll:
  "rtn_handler (srv_routines s ! unat i) = Some h \<Longrightarrow> ctx_owner (routine_context h r) \<Longrightarrow>
    \<not> ctx_executed (routine_context h r) \<Longrightarrow> ctx_polls (routine_context h r) = 0 \<Longrightarrow>
    call_handler ecu_calls i UDS_ROUTINE_REQUEST_RESULTS data (s, r) =
      ((UDS_ROUTINE_RUNNING, []), s, set_routine_context h ((routine_context h r)\<lparr>ctx_polls := 1\<rparr>) r)"
  by (simp add: call_handler_def ecu_calls_def UdsEcu_RoutineHandler_def Let_def uds_consts)

lemma call_second_poll:
  "rtn_handler (srv_routines s ! unat i) = Some h \<Longrightarrow> ctx_owner (routine_context h r) \<Longrightarrow>
    \<not> ctx_executed (routine_context h r) \<Longrightarrow> ctx_polls (routine_context h r) = 1 \<Longrightarrow>
    call_handler ecu_calls i UDS_ROUTINE_REQUEST_RESULTS data (s, r) =
      ((UDS_ROUTINE_COMPLETE, [ctx_result (routine_context h (snd (execute_routine h (s, r))))]),
       execute_routine h (s, r))"
  by (simp add: call_handler_def ecu_calls_def UdsEcu_RoutineHandler_def Let_def uds_consts UDS_ROUTINE_RESULT_MAX_def)

text \<open>The three steps.  \<open>started\<close>: the routine runs and its context is fresh; \<open>asked\<close>: the
  result is owed.\<close>

definition started :: "nat \<Rightarrow> u16 \<Rightarrow> UdsServer_t \<Rightarrow> 'a ecu_rest \<Rightarrow> bool" where
  "started h rid s r \<longleftrightarrow> routine_ready h rid s r \<and> srv_routine_state s ! h = UDS_ROUTINE_RUNNING \<and>
     ctx_polls (routine_context h r) = 0 \<and> \<not> ctx_executed (routine_context h r)"

definition asked :: "nat \<Rightarrow> u16 \<Rightarrow> UdsServer_t \<Rightarrow> 'a ecu_rest \<Rightarrow> bool" where
  "asked h rid s r \<longleftrightarrow> routine_ready h rid s r \<and> srv_pending_routine_response s \<and>
     srv_pending_routine_index s = of_nat h \<and> srv_pending_routine_subfunction s = UDS_ROUTINE_REQUEST_RESULTS \<and>
     \<not> srv_pending_routine_suppress_positive s \<and>
     ctx_polls (routine_context h r) = 1 \<and> \<not> ctx_executed (routine_context h r)"

text \<open>The request reaches the dispatch with at most its own pending response cleared.\<close>

lemma routine_reaches_dispatch:
  assumes "routine_ready h rid s r" and "rid = be16 a b" and "subf \<in> {UDS_ROUTINE_START, UDS_ROUTINE_REQUEST_RESULTS}"
  obtains s0 where "s0 = s \<or> s0 = UdsServer_ClearPendingRoutine s"
    and "UdsServer_RoutineControl ecu_calls [0x31, subf, a, b] cap (s, r) =
      routine_dispatch ecu_calls (of_nat h) rid subf False [] cap (s0, r)"
proof -
  let ?s0 = "if srv_pending_routine_response s \<and> srv_pending_routine_index s = of_nat h
    then UdsServer_ClearPendingRoutine s else s"
  have sub: "subf AND UDS_SUBFUNCTION_MASK = subf" "subf AND UDS_SUPPRESS_POSITIVE_RESPONSE = 0"
    using assms(3) by (auto simp: uds_consts UDS_SUBFUNCTION_MASK_def UDS_SUPPRESS_POSITIVE_RESPONSE_def)
  have h: "h < 2" "unat (of_nat h :: u8) = h" using assms(1) unat_routine by (auto simp: routine_ready_def)
  have "UdsServer_RoutineControl ecu_calls [0x31, subf, a, b] cap (s, r) =
      routine_checked ecu_calls (of_nat h) [0x31, subf, a, b] cap (?s0, r)"
    using assms(1,2) h by (simp add: UdsServer_RoutineControl_def routine_ready_def Let_def UDS_MAX_ROUTINES_def)
  moreover have "routine_checked ecu_calls (of_nat h) [0x31, subf, a, b] cap (?s0, r) =
      routine_dispatch ecu_calls (of_nat h) rid subf False [] cap (?s0, r)"
    using assms h sub
    by (auto simp: routine_checked_def routine_ready_def Let_def UdsServer_ClearPendingRoutine_def)
  ultimately show ?thesis by (intro that [of ?s0]) simp_all
qed

lemma ready_clear: "routine_ready h rid s r \<Longrightarrow> routine_ready h rid (UdsServer_ClearPendingRoutine s) r"
  by (simp add: routine_ready_def)

lemma ready_record:
  "routine_ready h rid s r \<Longrightarrow> length res \<le> UDS_ROUTINE_RESULT_MAX \<Longrightarrow> ctx_owner (routine_context h r') \<Longrightarrow>
    routine_ready h rid (record_routine (of_nat h) st res s) r'"
  by (auto simp: routine_ready_def unat_routine UDS_MAX_ROUTINES_def intro!: mem_ok_record)

lemma ready_arm:
  "routine_ready h rid s r \<Longrightarrow> routine_ready h rid (UdsServer_ArmPendingRoutine s (of_nat h) f b data) r"
  by (auto simp: routine_ready_def unat_routine UDS_MAX_ROUTINES_def intro!: mem_ok_arm)

lemma ready_index: "routine_ready h rid s r \<Longrightarrow> unat (of_nat h :: u8) = h \<and> h < length (srv_routine_state s) \<and>
    rtn_handler (srv_routines s ! h) = Some h \<and> ctx_owner (routine_context h r)"
  using unat_routine [of h] by (simp add: routine_ready_def mem_ok_def UDS_MAX_ROUTINES_def)

text \<open>Only the context of the routine changes on the way to the poll.\<close>

definition same_but_context :: "nat \<Rightarrow> UdsServer_t \<Rightarrow> 'a ecu_rest \<Rightarrow> UdsServer_t \<Rightarrow> 'a ecu_rest \<Rightarrow> bool" where
  "same_but_context h s r s' r' \<longleftrightarrow> srv_dids s' = srv_dids s \<and> (\<exists>c. r' = set_routine_context h c r)"

lemma set_context_twice [simp]:
  "set_routine_context h c' (set_routine_context h c r) = set_routine_context h c' r"
  by (simp add: set_routine_context_def)

lemma same_trans:
  "same_but_context h s r s1 r1 \<Longrightarrow> same_but_context h s1 r1 s2 r2 \<Longrightarrow> same_but_context h s r s2 r2"
  by (auto simp: same_but_context_def)

lemma start_step:
  assumes "routine_ready h rid s r" and "rid = be16 a b" and "srv_routine_state s ! h \<noteq> UDS_ROUTINE_RUNNING"
    and "UdsServer_RoutineControl ecu_calls [0x31, 1, a, b] cap (s, r) = (reply, s', r')"
  shows "reply = positive_reply False cap [0x71, 1, a, b] \<and> started h rid s' r' \<and> same_but_context h s r s' r'"
proof -
  note idx = ready_index [OF assms(1)]
  obtain s0 where s0: "s0 = s \<or> s0 = UdsServer_ClearPendingRoutine s"
    and d: "routine_dispatch ecu_calls (of_nat h) rid UDS_ROUTINE_START False [] cap (s0, r) = (reply, s', r')"
    using routine_reaches_dispatch [OF assms(1,2), of UDS_ROUTINE_START cap] assms(4)
    by (metis UDS_ROUTINE_START_def insertI1)
  have r0: "routine_ready h rid s0 r" using s0 ready_clear assms(1) by blast
  have same: "srv_routine_state s0 = srv_routine_state s" "srv_routines s0 = srv_routines s" "srv_dids s0 = srv_dids s"
    using s0 by (auto simp: UdsServer_ClearPendingRoutine_def)
  let ?c = "(routine_context h r)\<lparr>ctx_polls := 0, ctx_executed := False\<rparr>"
  have call: "call_handler ecu_calls (of_nat h) UDS_ROUTINE_START [] (s0, r) =
      ((UDS_ROUTINE_RUNNING, []), s0, set_routine_context h ?c r)"
    using idx same by (intro call_start) simp_all
  have st: "srv_routine_state s0 ! unat (of_nat h :: u8) \<noteq> UDS_ROUTINE_RUNNING" using idx same assms(3) by simp
  have "reply = UdsServer_RoutinePositive UDS_ROUTINE_START rid [] False cap"
    "s' = record_routine (of_nat h) UDS_ROUTINE_RUNNING [] s0" "r' = set_routine_context h ?c r"
    using d call st by (simp_all add: routine_dispatch_def run_routine_def)
  then show ?thesis
    using ready_record [OF r0, of "[]" r' UDS_ROUTINE_RUNNING] idx same assms(2)
    by (auto simp: started_def same_but_context_def UdsServer_RoutinePositive_def uds_consts)
qed

lemma ask_step:
  assumes "started h rid s r" and "rid = be16 a b"
    and "UdsServer_RoutineControl ecu_calls [0x31, 3, a, b] cap (s, r) = (reply, s', r')"
  shows "reply = UdsServer_ResponsePending cap 0x31 \<and> asked h rid s' r' \<and> same_but_context h s r s' r'"
proof -
  have rd: "routine_ready h rid s r" using assms(1) by (simp add: started_def)
  note idx = ready_index [OF rd]
  obtain s0 where s0: "s0 = s \<or> s0 = UdsServer_ClearPendingRoutine s"
    and d: "routine_dispatch ecu_calls (of_nat h) rid UDS_ROUTINE_REQUEST_RESULTS False [] cap (s0, r) = (reply, s', r')"
    using routine_reaches_dispatch [OF rd assms(2), of UDS_ROUTINE_REQUEST_RESULTS cap] assms(3)
    by (metis UDS_ROUTINE_REQUEST_RESULTS_def insertI1 insertI2)
  have r0: "routine_ready h rid s0 r" using s0 ready_clear rd by blast
  have same: "srv_routine_state s0 = srv_routine_state s" "srv_routines s0 = srv_routines s" "srv_dids s0 = srv_dids s"
    using s0 by (auto simp: UdsServer_ClearPendingRoutine_def)
  let ?c = "(routine_context h r)\<lparr>ctx_polls := 1\<rparr>"
  let ?s1 = "record_routine (of_nat h) UDS_ROUTINE_RUNNING [] s0"
  have call: "call_handler ecu_calls (of_nat h) UDS_ROUTINE_REQUEST_RESULTS [] (s0, r) =
      ((UDS_ROUTINE_RUNNING, []), s0, set_routine_context h ?c r)"
    using idx same assms(1) by (intro call_first_poll) (simp_all add: started_def)
  have st: "srv_routine_state s0 ! unat (of_nat h :: u8) = UDS_ROUTINE_RUNNING"
    using idx same assms(1) by (simp add: started_def)
  have "reply = UdsServer_ResponsePending cap UDS_SID_ROUTINE_CONTROL"
    "s' = UdsServer_ArmPendingRoutine ?s1 (of_nat h) UDS_ROUTINE_REQUEST_RESULTS False []"
    "r' = set_routine_context h ?c r"
    using d call st by (simp_all add: routine_dispatch_def run_routine_def uds_consts)
  moreover from this have "routine_ready h rid s' r'"
    using ready_arm [OF ready_record [OF r0, of "[]" r']] idx by simp
  ultimately show ?thesis
    using same assms(1) by (auto simp: asked_def started_def same_but_context_def uds_consts)
qed

lemma poll_step:
  assumes "asked h rid s r" and "UdsServer_PollPending ecu_calls (Some cap) (s, r) = (reply, s', r')"
  shows "reply = positive_reply False cap
      [0x71, 3, hi8 rid, lo8 rid, ctx_result (routine_context h (snd (execute_routine h (s, r))))] \<and>
    srv_dids s' = srv_dids (fst (execute_routine h (s, r))) \<and> r' = snd (execute_routine h (s, r)) \<and>
    \<not> srv_pending_routine_response s'"
proof -
  have rd: "routine_ready h rid s r" using assms(1) by (simp add: asked_def)
  note idx = ready_index [OF rd]
  obtain s1 r1 where ex: "execute_routine h (s, r) = (s1, r1)" by fastforce
  have pend: "srv_pending_routine_subfunction s1 = srv_pending_routine_subfunction s"
    "srv_pending_routine_suppress_positive s1 = srv_pending_routine_suppress_positive s"
    using arg_cong [OF ex, of fst]
    by (auto simp: execute_routine_def UdsEcu_ResetDids_def UdsEcu_CopyDidsToServer_def Let_def split: prod.splits if_splits)
  have call: "call_handler ecu_calls (of_nat h) UDS_ROUTINE_REQUEST_RESULTS data (s, r) =
      ((UDS_ROUTINE_COMPLETE, [ctx_result (routine_context h r1)]), s1, r1)" for data
    using call_second_poll [of s "of_nat h" h r data] idx assms(1) ex by (simp add: asked_def)
  have "\<not> srv_routine_count s \<le> ucast (srv_pending_routine_index s)"
    using assms(1) idx by (simp add: asked_def routine_ready_def word_le_nat_alt)
  then show ?thesis
    using assms call ex idx pend
    by (auto simp: UdsServer_PollPending_def poll_routine_def asked_def routine_ready_def Let_def
        UdsServer_ClearPendingRoutine_def UdsServer_RoutinePositive_def uds_consts)
qed

subsection \<open>What erasing leaves\<close>

text \<open>A storage backend with nothing to load in the state \<open>a\<close> leaves the default values.  (Identifier 0
  is no identifier: no table has it.)\<close>

definition loads_nothing :: "'a UdsDidStorage_t \<Rightarrow> 'a \<Rightarrow> bool" where
  "loads_nothing st a \<longleftrightarrow> (\<forall>load did n. st_load st = Some load \<and> did \<noteq> 0 \<longrightarrow> load did n a = (None, a))"

definition did_value_of :: "UdsDid_t \<Rightarrow> u16 \<times> u8 list" where
  "did_value_of d = (did_id d, did_value d)"

lemma attach_empty:
  assumes "loads_nothing st a" and "did_id d \<noteq> 0"
  shows "did_value_of (fst (attach_did st d a)) = did_value_of d \<and> snd (attach_did st d a) = a"
proof -
  have "attach_did st d a = (d, a) \<or> attach_did st d a =
      (d\<lparr>did_storage_load := map_option (\<lambda>_. 0) (st_load st), did_storage_save := map_option (\<lambda>_. 0) (st_save st)\<rparr>, a)"
    using assms by (auto simp: attach_did_def loads_nothing_def Let_def split: option.split)
  then show ?thesis by (auto simp: did_value_of_def did_value_def split: option.splits)
qed

lemma attach_all_empty:
  "loads_nothing st a \<Longrightarrow> list_all (\<lambda>d. did_id d \<noteq> 0) ds \<Longrightarrow> map did_value_of (fst (attach_dids st ds a)) = map did_value_of ds \<and> snd (attach_dids st ds a) = a"
proof (induction ds)
  case (Cons d ds)
  have nz: "did_id d \<noteq> 0" "list_all (\<lambda>d. did_id d \<noteq> 0) ds" using Cons.prems(2) by simp_all
  obtain d1 where 1: "attach_did st d a = (d1, a)" using attach_empty [OF Cons.prems(1) nz(1)] by (metis prod.collapse)
  obtain ds1 a2 where 2: "attach_dids st ds a = (ds1, a2)" by fastforce
  from Cons.IH [OF Cons.prems(1) nz(2)] attach_empty [OF Cons.prems(1) nz(1)] 1 2 show ?case by simp
qed simp

lemma db_ids: "list_all (\<lambda>d. did_id d \<noteq> 0) (take 6 (db_dids (UdsDidDb_Init variant)))"
  by (cases variant; simp only:; code_simp)

text \<open>The values a reset leaves are those of the variant's table.\<close>

lemma reset_values:
  assumes "ecu_has_storage (snd ecu) \<longrightarrow> loads_nothing (ecu_storage (snd ecu)) (ecu_app (snd ecu))"
  shows "map did_value_of (take 6 (srv_dids (fst (UdsEcu_ResetDids ecu)))) =
    map did_value_of (take 6 (db_dids (UdsDidDb_Init (ecu_variant (snd ecu))))) \<and>
    ecu_app (snd (UdsEcu_ResetDids ecu)) = ecu_app (snd ecu)"
proof -
  let ?r = "snd ecu"
  let ?storage = "if ecu_has_storage ?r then Some (ecu_storage ?r) else None"
  let ?db0 = "UdsDidDb_Init (ecu_variant ?r)"
  obtain db a where at: "UdsDidDb_AttachStorage ?db0 ?storage (ecu_app ?r) = (db, a)" by fastforce
  have reset: "UdsEcu_ResetDids ecu = UdsEcu_CopyDidsToServer (fst ecu, ?r\<lparr>ecu_did_db := db, ecu_app := a\<rparr>)"
    using at by (auto simp: UdsEcu_ResetDids_def UdsDidDb_AttachStorage_def Let_def split: if_splits)
  then have d: "take 6 (srv_dids (fst (UdsEcu_ResetDids ecu))) = take 6 (db_dids db)"
    using attach_storage_ok [OF at] by (simp add: UdsEcu_CopyDidsToServer_def buf_write_def)
  have app: "ecu_app (snd (UdsEcu_ResetDids ecu)) = a"
    using reset by (simp add: UdsEcu_CopyDidsToServer_def Let_def)
  show ?thesis
  proof (cases "ecu_has_storage ?r")
    case False
    with at d app show ?thesis by (simp add: UdsDidDb_AttachStorage_def)
  next
    case True
    obtain ds a1 where ds: "attach_dids (ecu_storage ?r) (take 6 (db_dids ?db0)) (ecu_app ?r) = (ds, a1)" by fastforce
    then have db: "db_dids db = ds @ drop 6 (db_dids ?db0)" "a = a1"
      using at True did_db_ok [of "ecu_variant ?r"] by (auto simp: UdsDidDb_AttachStorage_def)
    moreover have vs: "map did_value_of ds = map did_value_of (take 6 (db_dids ?db0))" "a1 = ecu_app ?r"
      using attach_all_empty [of "ecu_storage ?r" "ecu_app ?r" "take 6 (db_dids ?db0)"] ds True assms db_ids by simp_all
    moreover from this have "length ds = 6"
      using did_db_ok [of "ecu_variant ?r"] by (auto dest: arg_cong [where f = length])
    ultimately show ?thesis using d app by simp
  qed
qed

section \<open>Claims about routines\<close>

text \<open>C22: The self-test runs over three exchanges: the start is confirmed, the request for
  results is answered with 0x78, and the next poll gives the final response with the hook's
  verdict.  The hook runs exactly once, in the poll, and no data identifier changes.\<close>

theorem self_test_is_deferred:
  assumes "routine_ready 0 0x0203 s r" and "srv_routine_state s ! 0 \<noteq> UDS_ROUTINE_RUNNING" and "5 \<le> cap"
    and "UdsServer_RoutineControl ecu_calls [0x31, 1, 2, 3] cap (s, r) = (reply1, s1, r1)"
    and "UdsServer_RoutineControl ecu_calls [0x31, 3, 2, 3] cap (s1, r1) = (reply2, s2, r2)"
    and "UdsServer_PollPending ecu_calls (Some cap) (s2, r2) = (reply3, s3, r3)"
  shows "reply1 = (UDS_PROCESS_RESPONSE, [0x71, 1, 2, 3]) \<and>
    reply2 = (UDS_PROCESS_RESPONSE_PENDING, [0x7F, 0x31, 0x78]) \<and>
    (case hook_self_test (ecu_hooks r) of
       None \<Rightarrow> reply3 = (UDS_PROCESS_RESPONSE, [0x71, 3, 2, 3, 0]) \<and> ecu_app r3 = ecu_app r
     | Some f \<Rightarrow> reply3 = (UDS_PROCESS_RESPONSE, [0x71, 3, 2, 3, fst (f (ecu_app r))]) \<and>
                ecu_app r3 = snd (f (ecu_app r))) \<and>
    srv_dids s3 = srv_dids s"
proof -
  have rid: "(0x0203 :: u16) = be16 2 3" by code_simp
  have cap: "5 \<le> unat cap" using assms(3) by (simp add: word_le_nat_alt)
  note one = start_step [OF assms(1) rid assms(2,4)]
  note two = ask_step [OF one [THEN conjunct2, THEN conjunct1] rid assms(5)]
  note three = poll_step [OF two [THEN conjunct2, THEN conjunct1] assms(6)]
  have same: "same_but_context 0 s r s2 r2" using one two same_trans by blast
  then obtain c where c: "r2 = r\<lparr>ecu_self_test_context := c\<rparr>" and dids: "srv_dids s2 = srv_dids s"
    by (auto simp: same_but_context_def set_routine_context_def)
  have b: "hi8 0x0203 = 2" "lo8 0x0203 = 3" by code_simp+
  show ?thesis
    using one two three cap b dids c
    by (auto simp: positive_reply_def UdsServer_ResponsePending_def UdsServer_Negative_def word_less_nat_alt
        uds_consts UDS_NRC_RESPONSE_PENDING_def execute_routine_def routine_context_def set_routine_context_def
        Let_def split: option.split prod.split)
qed

text \<open>An unlocked ECU in the extended session whose hooks count their calls.\<close>

definition hooked_rest :: "nat ecu_rest" where
  "hooked_rest = \<lparr>ecu_did_db = \<lparr>db_dids = [], db_did_count = 0\<rparr>, ecu_variant = UDS_ECU_F407,
     ecu_storage = \<lparr>st_load = None, st_save = None\<rparr>, ecu_has_storage = False,
     ecu_hooks = \<lparr>hook_self_test = None, hook_erase_params = None\<rparr>,
     ecu_self_test_context = \<lparr>ctx_owner = False, ctx_polls = 0, ctx_executed = False, ctx_result = 0\<rparr>,
     ecu_erase_context = \<lparr>ctx_owner = False, ctx_polls = 0, ctx_executed = False, ctx_result = 0\<rparr>,
     ecu_routines = [], ecu_app = 0\<rparr>"

definition counting_hooks :: "nat UdsEcuHooks_t" where
  "counting_hooks = \<lparr>hook_self_test = Some (\<lambda>n. (7, n + 1)), hook_erase_params = Some (\<lambda>n. (True, n + 1))\<rparr>"

definition hooked :: "nat UdsEcu_t" where
  "hooked = fold (uds_step ecu_calls) unlock_run
     (UdsEcu_InitWithHooks (blank_server, hooked_rest) UDS_ECU_F103 None (Some counting_hooks))"

lemma hooked_ready:
  "case hooked of (s, r) \<Rightarrow>
     routine_ready 0 0x0203 s r \<and> srv_routine_state s ! 0 \<noteq> UDS_ROUTINE_RUNNING \<and>
     routine_ready 1 0xFF00 s r \<and> srv_routine_state s ! 1 \<noteq> UDS_ROUTINE_RUNNING \<and>
     ecu_variant r = UDS_ECU_F103 \<and> \<not> ecu_has_storage r \<and> ecu_app r = 0 \<and>
     map_option (\<lambda>f. f 0) (hook_self_test (ecu_hooks r)) = Some (7, 1) \<and>
     map_option (\<lambda>f. f 0) (hook_erase_params (ecu_hooks r)) = Some (True, 1)"
  by code_simp

text \<open>The three exchanges.\<close>

definition run_three :: "u8 \<Rightarrow> u8 \<Rightarrow> 'a UdsEcu_t \<Rightarrow> uds_reply \<times> 'a UdsEcu_t" where
  "run_three a b ecu =
     (let (p1, ecu1) = UdsServer_RoutineControl ecu_calls [0x31, 1, a, b] 8 ecu;
          (p2, ecu2) = UdsServer_RoutineControl ecu_calls [0x31, 3, a, b] 8 ecu1
      in UdsServer_PollPending ecu_calls (Some 8) ecu2)"

lemma run_three:
  obtains p1 s1 r1 p2 s2 r2 s3 r3 p3
  where "UdsServer_RoutineControl ecu_calls [0x31, 1, a, b] 8 (fst ecu, snd ecu) = (p1, s1, r1)"
    and "UdsServer_RoutineControl ecu_calls [0x31, 3, a, b] 8 (s1, r1) = (p2, s2, r2)"
    and "UdsServer_PollPending ecu_calls (Some 8) (s2, r2) = (p3, s3, r3)"
    and "run_three a b ecu = (p3, s3, r3)"
proof -
  obtain p1 s1 r1 where 1: "UdsServer_RoutineControl ecu_calls [0x31, 1, a, b] 8 (fst ecu, snd ecu) = (p1, s1, r1)"
    by (metis prod_cases3)
  obtain p2 s2 r2 where 2: "UdsServer_RoutineControl ecu_calls [0x31, 3, a, b] 8 (s1, r1) = (p2, s2, r2)"
    by (metis prod_cases3)
  obtain p3 s3 r3 where 3: "UdsServer_PollPending ecu_calls (Some 8) (s2, r2) = (p3, s3, r3)"
    by (metis prod_cases3)
  show ?thesis by (rule that [OF 1 2 3]) (use 1 2 3 in \<open>simp add: run_three_def\<close>)
qed

theorem self_test_is_deferred_witness:
  "fst (run_three 2 3 hooked) = (UDS_PROCESS_RESPONSE, [0x71, 3, 2, 3, 7]) \<and>
   ecu_app (snd (snd (run_three 2 3 hooked))) = 1"
proof (rule run_three [where a = 2 and b = 3 and ecu = hooked])
  fix p1 s1 r1 p2 s2 r2 s3 r3 p3
  assume e: "UdsServer_RoutineControl ecu_calls [0x31, 1, 2, 3] 8 (fst hooked, snd hooked) = (p1, s1, r1)"
    "UdsServer_RoutineControl ecu_calls [0x31, 3, 2, 3] 8 (s1, r1) = (p2, s2, r2)"
    "UdsServer_PollPending ecu_calls (Some 8) (s2, r2) = (p3, s3, r3)" and r: "run_three 2 3 hooked = (p3, s3, r3)"
  from self_test_is_deferred [OF _ _ _ e] r hooked_ready show ?thesis
    by (auto simp: case_prod_unfold split: option.splits)
qed

text \<open>Erasing the parameters ends with the verdict of the erase hook.  When the hook says the store
  is erased, and the storage has nothing to load in the state the hook leaves, the six data
  identifiers hold the defaults of the ECU variant again; when the hook fails, the result is 1 and
  no data identifier has changed.\<close>

lemma erase_outcome:
  assumes "routine_ready 1 0xFF00 s r" and "srv_routine_state s ! 1 \<noteq> UDS_ROUTINE_RUNNING" and "5 \<le> cap"
    and "UdsServer_RoutineControl ecu_calls [0x31, 1, 0xFF, 0] cap (s, r) = (reply1, s1, r1)"
    and "UdsServer_RoutineControl ecu_calls [0x31, 3, 0xFF, 0] cap (s1, r1) = (reply2, s2, r2)"
    and "UdsServer_PollPending ecu_calls (Some cap) (s2, r2) = (reply3, s3, r3)"
    and "hook_erase_params (ecu_hooks r) = Some f"
    and "ecu_has_storage r \<and> fst (f (ecu_app r)) \<longrightarrow> loads_nothing (ecu_storage r) (snd (f (ecu_app r)))"
  shows "reply1 = (UDS_PROCESS_RESPONSE, [0x71, 1, 0xFF, 0]) \<and>
    reply2 = (UDS_PROCESS_RESPONSE_PENDING, [0x7F, 0x31, 0x78]) \<and> ecu_app r3 = snd (f (ecu_app r)) \<and>
    (if fst (f (ecu_app r))
    then reply3 = (UDS_PROCESS_RESPONSE, [0x71, 3, 0xFF, 0, 0]) \<and>
      map did_value_of (take 6 (srv_dids s3)) = map did_value_of (take 6 (db_dids (UdsDidDb_Init (ecu_variant r))))
    else reply3 = (UDS_PROCESS_RESPONSE, [0x71, 3, 0xFF, 0, 1]) \<and> srv_dids s3 = srv_dids s)"
proof -
  have rid: "(0xFF00 :: u16) = be16 0xFF 0" by code_simp
  have cap: "5 \<le> unat cap" using assms(3) by (simp add: word_le_nat_alt)
  note one = start_step [OF assms(1) rid assms(2,4)]
  note two = ask_step [OF one [THEN conjunct2, THEN conjunct1] rid assms(5)]
  note three = poll_step [OF two [THEN conjunct2, THEN conjunct1] assms(6)]
  have same: "same_but_context 1 s r s2 r2" using one two same_trans by blast
  then obtain c where c: "r2 = r\<lparr>ecu_erase_context := c\<rparr>" and dids: "srv_dids s2 = srv_dids s"
    by (auto simp: same_but_context_def set_routine_context_def)
  have b: "hi8 0xFF00 = 0xFF" "lo8 0xFF00 = 0" by code_simp+
  obtain ok a where f: "f (ecu_app r) = (ok, a)" by fastforce
  let ?r2 = "r2\<lparr>ecu_app := a, ecu_erase_context := c\<lparr>ctx_result := (if ok then 0 else 1), ctx_executed := True\<rparr>\<rparr>"
  have ex: "execute_routine 1 (s2, r2) = (if ok then UdsEcu_ResetDids (s2, ?r2) else (s2, ?r2))"
    using f c assms(7) by (simp add: execute_routine_def routine_context_def set_routine_context_def)
  have ctx: "ctx_result (routine_context 1 (snd (execute_routine 1 (s2, r2)))) = (if ok then 0 else 1)"
    unfolding ex by (cases ok)
      (simp_all add: routine_context_def UdsEcu_ResetDids_def UdsEcu_CopyDidsToServer_def Let_def split: prod.split)
  have reset: "map did_value_of (take 6 (srv_dids (fst (UdsEcu_ResetDids (s2, ?r2))))) =
      map did_value_of (take 6 (db_dids (UdsDidDb_Init (ecu_variant r))))"
    "ecu_app (snd (UdsEcu_ResetDids (s2, ?r2))) = a" if ok
    using reset_values [of "(s2, ?r2)"] assms(8) c f that by simp_all
  have pend: "UdsServer_ResponsePending cap 0x31 = (UDS_PROCESS_RESPONSE_PENDING, [0x7F, 0x31, 0x78])"
    using cap by (auto simp: UdsServer_ResponsePending_def UdsServer_Negative_def UDS_SID_NEGATIVE_RESPONSE_def
        UDS_NRC_RESPONSE_PENDING_def word_less_nat_alt)
  show ?thesis
    using one two three cap b f dids ctx reset ex pend by (cases ok) (simp_all add: positive_reply_def)
qed

end
