(* ===== verification/UdsData.thy ===== *)
theory UdsData
  imports UdsRoutines
begin

section \<open>Claims about the data of the ECU\<close>

text \<open>The memory invariant of a whole run, the round trip of a stored value, and the two places
  where the server does less than its documentation says.\<close>

text \<open>C16: Started from static (zeroed) memory and initialised for any variant, storage backend
  and hooks, the server keeps every array at its declared size and every index and length inside
  it, through every sequence of requests, ticks, polls and lock calls: no operation reads or
  writes outside an array, whatever the storage backend loads.\<close>

theorem server_memory_is_bounded:
  assumes "mem_ok (fst ecu)"
    and "fold (uds_step ecu_calls) evs (UdsEcu_InitWithHooks ecu variant storage hooks) = (s', e')"
  shows "mem_ok s'"
  using ecu.run_memory_ok [OF ecu_init_memory [OF assms(1)], of evs variant storage hooks] assms(2) by simp

theorem server_memory_is_bounded_witness: "mem_ok (fst hooked)"
proof -
  have "mem_ok (fst (blank_server, hooked_rest))" by code_simp
  from server_memory_is_bounded [OF this, of unlock_run UDS_ECU_F103 None "Some counting_hooks" "fst hooked" "snd hooked"]
  show ?thesis by (simp add: hooked_def)
qed

text \<open>A permitted write leaves the value pending and the identifiers alone.\<close>

definition write_pending :: "UdsServer_t \<Rightarrow> UdsServer_t \<Rightarrow> nat \<Rightarrow> u8 list \<Rightarrow> bool" where
  "write_pending s s1 i v \<longleftrightarrow> srv_pending_did_write s1 \<and> srv_pending_did_index s1 = of_nat i \<and>
     srv_pending_did_length s1 = of_nat (length v) \<and> take (length v) (srv_pending_did_data s1) = v \<and>
     srv_dids s1 = srv_dids s \<and> srv_did_count s1 = srv_did_count s \<and> srv_session s1 = srv_session s"

lemma write_is_deferred:
  fixes e :: "'a ecu_rest"
  assumes "mem_ok s" and "\<not> (srv_s3_active s \<and> UdsServer_TimeReached now (srv_s3_deadline_ms s))"
    and "write_allowed s (0x2E # a # b # v) i" and "length v \<le> 64" and "did_storage_save (srv_dids s ! i) = Some f"
    and "UdsServer_Process ecu_calls now (Some (0x2E # a # b # v)) (of_nat (3 + length v)) (Some cap) (s, e) = (reply1, s1, e1)"
    and "3 \<le> cap"
  shows "reply1 = (UDS_PROCESS_RESPONSE_PENDING, [0x7F, 0x2E, 0x78]) \<and> e1 = e \<and> write_pending s s1 i v"
proof -
  let ?req = "0x2E # a # b # v"
  let ?w = "s\<lparr>srv_pending_did_write := True, srv_pending_did_index := of_nat i,
       srv_pending_did_length := of_nat (length v), srv_pending_did_data := buf_write (srv_pending_did_data s) 0 v\<rparr>"
  have n1: "unat (of_nat (3 + length v) :: u16) = 3 + length v" using assms(4) unfolding unat_of_nat by simp
  then have "of_nat (3 + length v) \<noteq> (0 :: u16)" by (metis add_is_0 unsigned_0 zero_neq_numeral)
  note n = n1 this
  have "UdsServer_WriteDid s ?req cap = (UdsServer_ResponsePending cap 0x2E, ?w)"
    using write_did_deferred [OF assms(3), of cap] assms(4,5) by (simp add: UDS_PENDING_DID_DATA_MAX_def)
  moreover have "reply1 = fst (UdsServer_WriteDid s ?req cap) \<and>
      s1 = keep_after reply1 now (snd (UdsServer_WriteDid s ?req cap)) \<and> e1 = e"
    using assms(6) tick_keeps [OF assms(2)] n
    by (auto simp: UdsServer_Process_def uds_service_def uds_consts Let_def split: prod.splits)
  moreover have "UdsServer_ResponsePending cap 0x2E = (UDS_PROCESS_RESPONSE_PENDING, [0x7F, 0x2E, 0x78])"
    using assms(7) by (auto simp: UdsServer_ResponsePending_def UdsServer_Negative_def
        UDS_SID_NEGATIVE_RESPONSE_def UDS_NRC_RESPONSE_PENDING_def word_less_nat_alt word_le_nat_alt)
  ultimately have one: "reply1 = (UDS_PROCESS_RESPONSE_PENDING, [0x7F, 0x2E, 0x78])"
      "s1 = UdsServer_KeepSessionAlive ?w now" "e1 = e"
    by (simp_all add: keep_after_def)
  show ?thesis
    using one take_buf_write [of 0 v "srv_pending_did_data s"] assms(1,4)
    by (simp add: write_pending_def UdsServer_KeepSessionAlive_def mem_ok_def UDS_PENDING_DID_DATA_MAX_def)
qed

text \<open>A poll that answers a pending write positively has saved the value.\<close>

lemma poll_saved:
  fixes e :: "'a ecu_rest"
  assumes "write_pending s s1 i v" and "did_storage_save (srv_dids s ! i) = Some g" and "i < UDS_MAX_DIDS" and "length v \<le> 64"
    and "UdsServer_PollPending ecu_calls (Some cap) (s1, e) = ((UDS_PROCESS_RESPONSE, [0x6E, a, b]), s2, e2)"
  shows "call_save ecu_calls g (did_id (srv_dids s ! i)) v e = (True, e2)"
proof -
  have w: "srv_pending_did_write s1" "srv_dids s1 = srv_dids s" "unat (srv_pending_did_index s1) = i"
    "take (unat (srv_pending_did_length s1)) (srv_pending_did_data s1) = v"
    using assms(1,3,4) by (simp_all add: write_pending_def unat_of_nat UDS_MAX_DIDS_def)
  have neg: "UdsServer_Negative cap sid nrc \<noteq> (UDS_PROCESS_RESPONSE, [0x6E, a, b])" for sid nrc
    by (simp add: UdsServer_Negative_def UDS_SID_NEGATIVE_RESPONSE_def)
  obtain saved e1 where "call_save ecu_calls g (did_id (srv_dids s ! i)) v e = (saved, e1)" by fastforce
  with assms(2,5) w neg show ?thesis
    by (auto simp: UdsServer_PollPending_def poll_did_write_def Let_def split: if_splits)
qed

text \<open>C17: A permitted write to an identifier with a storage backend is answered as pending without
  changing any value; the next poll hands exactly the written bytes to the backend and, when it
  confirms, answers positively; from then on a read of that identifier returns exactly those
  bytes, and every other identifier is untouched.\<close>

theorem write_poll_read:
  fixes e :: "'a ecu_rest"
  assumes "mem_ok s" and "\<not> (srv_s3_active s \<and> UdsServer_TimeReached now (srv_s3_deadline_ms s))"
    and "write_allowed s (0x2E # a # b # v) i" and "length v \<le> 64" and "did_storage_save (srv_dids s ! i) = Some f"
    and "UdsServer_SessionAllowed (did_read_sessions_mask (srv_dids s ! i)) (srv_session s)"
    and "UdsServer_Process ecu_calls now (Some (0x2E # a # b # v)) (of_nat (3 + length v)) (Some cap) (s, e) = (reply1, s1, e1)"
    and "st_save (ecu_storage e) = Some save" and "save (be16 a b) v (ecu_app e) = (True, app)"
    and "UdsServer_PollPending ecu_calls (Some cap) (s1, e1) = (reply2, s2, e2)"
    and "3 \<le> cap" and "4 + length v \<le> unat cap'"
  shows "reply1 = (UDS_PROCESS_RESPONSE_PENDING, [0x7F, 0x2E, 0x78]) \<and> srv_dids s1 = srv_dids s \<and>
    reply2 = (UDS_PROCESS_RESPONSE, [0x6E, a, b]) \<and> ecu_app e2 = app \<and>
    UdsServer_ReadDid s2 [0x22, a, b] cap' = (UDS_PROCESS_RESPONSE, 0x62 # a # b # v) \<and>
    (\<forall>j. j \<noteq> i \<longrightarrow> srv_dids s2 ! j = srv_dids s ! j)"
proof -
  let ?d = "srv_dids s ! i"
  have find: "UdsServer_FindDid s (be16 a b) = Some i" using assms(3) by (simp add: write_allowed_def)
  have i: "i < UDS_MAX_DIDS" "i < unat (srv_did_count s)" "did_id ?d = be16 a b"
    using find_did_index [OF assms(1) find] find_did_Some [OF find] by simp_all
  obtain m where m: "did_storage ?d = Some m" using assms(3) by (auto simp: write_allowed_def)
  have fits: "length v \<le> unat (did_storage_capacity ?d)" using assms(3) by (simp add: write_allowed_def)
  have len_m: "length m = unat (did_storage_capacity ?d)"
    using assms(1) i(1) m by (auto simp: mem_ok_def list_all_length did_ok_def)
  have one: "reply1 = (UDS_PROCESS_RESPONSE_PENDING, [0x7F, 0x2E, 0x78])" "e1 = e"
    and s1: "srv_pending_did_write s1" "srv_pending_did_index s1 = of_nat i" "srv_pending_did_length s1 = of_nat (length v)"
    "take (length v) (srv_pending_did_data s1) = v" "srv_dids s1 = srv_dids s" "srv_did_count s1 = srv_did_count s"
    "srv_session s1 = srv_session s"
    using write_is_deferred [OF assms(1-5,7,11)] by (simp_all add: write_pending_def)
  let ?s2 = "UdsServer_ClearPendingDid (s1\<lparr>srv_dids := (srv_dids s)[i := did_store ?d v]\<rparr>)"
  have call: "call_save ecu_calls f (did_id (srv_dids s1 ! i)) v e = (True, e\<lparr>ecu_app := app\<rparr>)"
    using assms(8,9) i(3) s1(5) by (simp add: ecu_calls_def)
  have "UdsServer_PollPending ecu_calls (Some cap) (s1, e1) = (positive_reply False cap [0x6E, a, b], ?s2, e\<lparr>ecu_app := app\<rparr>)"
    using ecu.poll_commits [of s1 i v f e "e\<lparr>ecu_app := app\<rparr>" cap] s1 i m fits assms(4,5) call one(2)
    by (simp add: UDS_MAX_DIDS_def)
  then have two: "reply2 = (UDS_PROCESS_RESPONSE, [0x6E, a, b])" "s2 = ?s2" "e2 = e\<lparr>ecu_app := app\<rparr>"
    using assms(10,11) by (auto simp: positive_reply_def word_le_nat_alt)
  have entry: "srv_dids s2 ! i = did_store ?d v"
    using two(2) i(1) assms(1) by (simp add: UdsServer_ClearPendingDid_def mem_ok_def)
  have same: "UdsServer_FindDid s2 (be16 a b) = Some i" "srv_session s2 = srv_session s"
    using find_did_cong [of s2 s "be16 a b"] two(2) find s1 assms(1)
    by (simp_all add: UdsServer_ClearPendingDid_def map_id_store mem_ok_def)
  have "did_value (did_store ?d v) = v" "unat (did_length (did_store ?d v)) = length v"
    using did_store_value [OF m] fits len_m assms(4) by simp_all
  then have "UdsServer_ReadDid s2 [0x22, a, b] cap' = (UDS_PROCESS_RESPONSE, 0x62 # a # b # v)"
    using read_one [OF same(1), of cap'] assms(6,12) entry same(2) by simp
  with one two s1 show ?thesis by (simp add: UdsServer_ClearPendingDid_def)
qed

text \<open>An unlocked ECU with a storage backend that logs what it saves.\<close>

definition logging_storage :: "(u16 \<times> u8 list) list UdsDidStorage_t" where
  "logging_storage = \<lparr>st_load = None, st_save = Some (\<lambda>did bs log. (True, (did, bs) # log))\<rparr>"

definition logging_rest :: "(u16 \<times> u8 list) list ecu_rest" where
  "logging_rest = \<lparr>ecu_did_db = \<lparr>db_dids = [], db_did_count = 0\<rparr>, ecu_variant = UDS_ECU_F407,
     ecu_storage = \<lparr>st_load = None, st_save = None\<rparr>, ecu_has_storage = False,
     ecu_hooks = \<lparr>hook_self_test = None, hook_erase_params = None\<rparr>,
     ecu_self_test_context = \<lparr>ctx_owner = False, ctx_polls = 0, ctx_executed = False, ctx_result = 0\<rparr>,
     ecu_erase_context = \<lparr>ctx_owner = False, ctx_polls = 0, ctx_executed = False, ctx_result = 0\<rparr>,
     ecu_routines = [], ecu_app = []\<rparr>"

definition logging :: "(u16 \<times> u8 list) list UdsEcu_t" where
  "logging = fold (uds_step ecu_calls) unlock_run
     (UdsEcu_InitWithStorage (blank_server, logging_rest) UDS_ECU_F407 (Some logging_storage))"

lemma logging_state:
  "case logging of (s, r) \<Rightarrow> mem_ok s \<and> \<not> (srv_s3_active s \<and> UdsServer_TimeReached 20 (srv_s3_deadline_ms s)) \<and>
     write_check s [0x2E, 1, 0, 7, 8, 9] = Inr 2 \<and> did_storage_save (srv_dids s ! 2) = Some 0 \<and>
     UdsServer_SessionAllowed (did_read_sessions_mask (srv_dids s ! 2)) (srv_session s) \<and> ecu_app r = [] \<and>
     map_option (\<lambda>save. save 256 [7, 8, 9] []) (st_save (ecu_storage r)) = Some (True, [(256, [7, 8, 9])])"
  by code_simp

definition stored :: "uds_reply \<times> (u16 \<times> u8 list) list UdsEcu_t" where
  "stored = UdsServer_PollPending ecu_calls (Some 8)
     (snd (UdsServer_Process ecu_calls 20 (Some [0x2E, 1, 0, 7, 8, 9]) 6 (Some 8) (fst logging, snd logging)))"

theorem write_poll_read_witness:
  "fst stored = (UDS_PROCESS_RESPONSE, [0x6E, 1, 0]) \<and> ecu_app (snd (snd stored)) = [(256, [7, 8, 9])] \<and>
   UdsServer_ReadDid (fst (snd stored)) [0x22, 1, 0] 8 = (UDS_PROCESS_RESPONSE, [0x62, 1, 0, 7, 8, 9])"
proof -
  let ?s = "fst logging" and ?r = "snd logging"
  have st: "mem_ok ?s" "\<not> (srv_s3_active ?s \<and> UdsServer_TimeReached 20 (srv_s3_deadline_ms ?s))"
    "write_allowed ?s (0x2E # 1 # 0 # [7, 8, 9]) 2" "length [7, 8, 9 :: u8] \<le> 64"
    "did_storage_save (srv_dids ?s ! 2) = Some 0"
    "UdsServer_SessionAllowed (did_read_sessions_mask (srv_dids ?s ! 2)) (srv_session ?s)"
    using logging_state by (simp_all add: case_prod_unfold write_check_allowed)
  obtain save where save: "st_save (ecu_storage ?r) = Some save" "save 256 [7, 8, 9] [] = (True, [(256, [7, 8, 9])])"
    using logging_state by (auto simp: case_prod_unfold)
  obtain p1 s1 r1 where 1: "UdsServer_Process ecu_calls 20 (Some [0x2E, 1, 0, 7, 8, 9]) 6 (Some 8) (?s, ?r) = (p1, s1, r1)"
    by (metis prod_cases3)
  obtain p2 s2 r2 where 2: "UdsServer_PollPending ecu_calls (Some 8) (s1, r1) = (p2, s2, r2)"
    by (metis prod_cases3)
  have id: "be16 1 0 = 256" by code_simp
  have res: "p2 = (UDS_PROCESS_RESPONSE, [0x6E, 1, 0]) \<and> ecu_app r2 = [(256, [7, 8, 9])] \<and>
      UdsServer_ReadDid s2 [0x22, 1, 0] 8 = (UDS_PROCESS_RESPONSE, [0x62, 1, 0, 7, 8, 9])"
    using write_poll_read [OF st, of 8 ?r p1 s1 r1 save "[(256, [7, 8, 9])]" p2 s2 r2 8] 1 2 save id logging_state
    by (simp add: case_prod_unfold)
  have eq: "stored = (p2, s2, r2)" using 1 2 by (simp add: stored_def)
  show ?thesis unfolding eq using res by simp
qed

text \<open>A read of one identifier whose response fits the buffer exactly is refused: the length
  the server requires counts one byte more per identifier than it writes.  With one more byte
  of capacity the same request is answered.\<close>

theorem exact_fit_read_refused:
  "UdsServer_ReadDid (fst sample_ecu) [0x22, 0xF1, 0x9A] 7 = (UDS_PROCESS_BUFFER_TOO_SMALL, []) \<and>
   UdsServer_ReadDid (fst sample_ecu) [0x22, 0xF1, 0x9A] 8 =
     (UDS_PROCESS_RESPONSE, [0x62, 0xF1, 0x9A] @ g_name_f407) \<and>
   length ([0x62, 0xF1, 0x9A] @ g_name_f407) = 7"
  by code_simp

text \<open>A round of guessing at tick \<open>t\<close>: two seeds, each with a key, and a change to the session
  \<open>to\<close>.  The rounds alternate between the programming (2) and the extended (3) session.\<close>

type_synonym guess = "u32 \<times> u8 list \<times> u8 list"

fun guess_round :: "u8 \<Rightarrow> guess \<Rightarrow> uds_event list" where
  "guess_round to (t, k, k') =
     [UdsRequest t (Some [0x27, 1]) 2 (Some 8), UdsRequest t (Some (0x27 # 2 # k)) 6 (Some 8),
      UdsRequest t (Some [0x27, 1]) 2 (Some 8), UdsRequest t (Some (0x27 # 2 # k')) 6 (Some 8),
      UdsRequest t (Some [0x10, to]) 2 (Some 8)]"

fun guess_rounds :: "u8 \<Rightarrow> guess list \<Rightarrow> uds_event list" where
  "guess_rounds x [] = []"
| "guess_rounds x (g # gs) = guess_round (5 - x) g @ guess_rounds (5 - x) gs"

text \<open>Each round falls within the session time \<open>d\<close> of the one before, and its keys have four
  bytes.\<close>

fun in_time :: "u32 \<Rightarrow> u32 \<Rightarrow> guess list \<Rightarrow> bool" where
  "in_time d t0 [] = True"
| "in_time d t0 ((t, k, k') # gs) \<longleftrightarrow> t - t0 < d \<and> length k = 4 \<and> length k' = 4 \<and> in_time d t gs"

text \<open>How many requests of a run are answered as a wrong key (NRC 0x35).\<close>

fun wrong_key_answer :: "uds_event \<Rightarrow> UdsServer_t \<times> 'a ecu_rest \<Rightarrow> nat" where
  "wrong_key_answer (UdsRequest t req len cap) st =
     (if fst (UdsServer_Process ecu_calls t req len cap st) = (UDS_PROCESS_RESPONSE, [0x7F, 0x27, 0x35]) then 1 else 0)"
| "wrong_key_answer _ st = 0"

fun wrong_key_answers :: "uds_event list \<Rightarrow> UdsServer_t \<times> 'a ecu_rest \<Rightarrow> nat" where
  "wrong_key_answers [] st = 0"
| "wrong_key_answers (ev # evs) st = wrong_key_answer ev st + wrong_key_answers evs (uds_step ecu_calls ev st)"

lemma wrong_key_answers_append:
  "wrong_key_answers (evs @ evs') st =
    wrong_key_answers evs st + wrong_key_answers evs' (fold (uds_step ecu_calls) evs st)"
  by (induction evs arbitrary: st) auto

text \<open>The server in session \<open>x\<close>, locked, without delay, \<open>n\<close> attempts on record and the session
  timer (of \<open>d\<close> ms) last started at \<open>t0\<close>.\<close>

definition guessing :: "u8 \<Rightarrow> u16 \<Rightarrow> u32 \<Rightarrow> u8 \<Rightarrow> UdsServer_t \<Rightarrow> bool" where
  "guessing x d t0 n s \<longleftrightarrow> x \<in> {2, 3} \<and> srv_session s = x \<and> srv_s3_active s \<and> srv_s3_server_ms s = d \<and>
     srv_s3_deadline_ms s = t0 + ucast d \<and> srv_security_delay_until_ms s = 0 \<and> srv_security_attempts s = n \<and>
     \<not> srv_security_unlocked s \<and> UdsServer_SessionAllowed (srv_supported_sessions_mask s) 2 \<and>
     UdsServer_SessionAllowed (srv_supported_sessions_mask s) 3"

lemma guessing_in_session: "guessing x d t0 n s \<Longrightarrow> t - t0 < ucast d \<Longrightarrow> UdsServer_Tick s t = s"
proof (rule tick_keeps)
  assume g: "guessing x d t0 n s" and t: "t - t0 < ucast d"
  have "unat (ucast d :: u32) < 2 ^ 16" using unat_u16_le [of d] by simp
  moreover from this have "unat (t - t0) < 2 ^ 16" using t by (simp add: word_less_nat_alt)
  ultimately have "UdsServer_TimeReached t (t0 + ucast d) \<longleftrightarrow> ucast d \<le> t - t0"
    by (intro time_reached_after) simp_all
  with g t show "\<not> (srv_s3_active s \<and> UdsServer_TimeReached t (srv_s3_deadline_ms s))"
    by (simp add: guessing_def)
qed

lemma guess_seed:
  fixes e :: "'a ecu_rest"
  assumes "guessing x d t0 n s" and "t - t0 < ucast d"
    and "UdsServer_Process ecu_calls t (Some [0x27, 1]) 2 (Some 8) (s, e) = (reply, s', e')"
  shows "guessing x d t n s' \<and> srv_seed_pending s' \<and> e' = e \<and> snd reply ! 0 = 0x67"
  using assms(1,3) guessing_in_session [OF assms(1,2)]
  by (auto simp: guessing_def UdsServer_Process_def uds_service_def UdsServer_SecurityAccess_def
      UdsServer_SecurityDelayActive_def security_request_seed_def positive_reply_def keep_after_def
      UdsServer_KeepSessionAlive_def UDS_SID_NEGATIVE_RESPONSE_def uds_consts UDS_SUBFUNCTION_MASK_def UDS_SUPPRESS_POSITIVE_RESPONSE_def Let_def
      split: prod.splits)

lemma guess_key:
  fixes e :: "'a ecu_rest"
  assumes "guessing x d t0 n s" and "t - t0 < ucast d" and "srv_seed_pending s" and "length k = 4" and "n < 2"
    and "UdsServer_Process ecu_calls t (Some (0x27 # 2 # k)) 6 (Some 8) (s, e) = (reply, s', e')"
    and "\<not> srv_security_unlocked s'"
  shows "guessing x d t0 (n + 1) s' \<and> e' = e \<and> reply = (UDS_PROCESS_RESPONSE, [0x7F, 0x27, 0x35])"
proof -
  obtain a b c f where k: "k = [a, b, c, f]"
    using assms(4) by (auto simp: eval_nat_numeral length_Suc_conv)
  have n: "\<not> 3 \<le> n + 1" using assms(5) by unat_arith
  show ?thesis
    using assms(1,3,6,7) guessing_in_session [OF assms(1,2)] k n
    by (auto simp: guessing_def UdsServer_Process_def uds_service_def UdsServer_SecurityAccess_def
        UdsServer_SecurityDelayActive_def security_send_key_def keep_after_def UdsServer_Negative_def uds_nrcs
        UdsServer_KeepSessionAlive_def positive_reply_def UDS_SID_NEGATIVE_RESPONSE_def uds_consts UDS_SUBFUNCTION_MASK_def
        UDS_SUPPRESS_POSITIVE_RESPONSE_def UDS_SECURITY_MAX_ATTEMPTS_def Let_def split: if_splits prod.splits)
qed

lemma guess_change:
  fixes e :: "'a ecu_rest"
  assumes "guessing x d t0 n s" and "t - t0 < ucast d"
    and "UdsServer_Process ecu_calls t (Some [0x10, 5 - x]) 2 (Some 8) (s, e) = (reply, s', e')"
  shows "guessing (5 - x) d t 0 s' \<and> e' = e \<and> snd reply ! 0 = 0x50"
  using assms(1,3) guessing_in_session [OF assms(1,2)]
  by (auto simp: guessing_def UdsServer_Process_def uds_service_def UdsServer_SessionControl_def UdsServer_SetSession_def
      UdsServer_LockSecurityState_def positive_reply_def uds_consts UDS_SUBFUNCTION_MASK_def
      UDS_SUPPRESS_POSITIVE_RESPONSE_def Let_def)

text \<open>C32: A tester can go on guessing the key for ever.  From a locked server in the programming
  or the extended session, with no attempt on record and no delay, any number of rounds of two
  keys each (any keys, at any ticks within the session time), with a change to the other of the
  two sessions after every second key, leave the delay at zero throughout, and as long as no key
  was the right one every single key was judged and answered as wrong.\<close>

theorem session_change_dodges_lockout:
  fixes e :: "'a ecu_rest"
  assumes "guessing x d t0 0 s" and "in_time (ucast d) t0 gs"
    and "\<forall>st \<in> set (uds_states ecu_calls (guess_rounds x gs) (s, e)). \<not> srv_security_unlocked (fst st)"
  shows "(\<forall>st \<in> set (uds_states ecu_calls (guess_rounds x gs) (s, e)). srv_security_delay_until_ms (fst st) = 0) \<and>
    wrong_key_answers (guess_rounds x gs) (s, e) = 2 * length gs \<and>
    srv_security_attempts (fst (fold (uds_step ecu_calls) (guess_rounds x gs) (s, e))) = 0"
  using assms
proof (induction gs arbitrary: x t0 s e)
  case Nil
  then show ?case by (simp add: guessing_def)
next
  case (Cons g gs)
  obtain t k k' where g: "g = (t, k, k')" by (rule prod_cases3)
  have t: "t - t0 < ucast d" "length k = 4" "length k' = 4" "in_time (ucast d) t gs" using Cons.prems(2) g by simp_all
  then have t0: "t - t < ucast d" by (simp add: word_neq_0_conv [symmetric]) auto
  obtain r1 s1 e1 where 1: "UdsServer_Process ecu_calls t (Some [0x27, 1]) 2 (Some 8) (s, e) = (r1, s1, e1)"
    by (rule prod_cases3)
  obtain r2 s2 e2 where 2: "UdsServer_Process ecu_calls t (Some (0x27 # 2 # k)) 6 (Some 8) (s1, e1) = (r2, s2, e2)"
    by (rule prod_cases3)
  obtain r3 s3 e3 where 3: "UdsServer_Process ecu_calls t (Some [0x27, 1]) 2 (Some 8) (s2, e2) = (r3, s3, e3)"
    by (rule prod_cases3)
  obtain r4 s4 e4 where 4: "UdsServer_Process ecu_calls t (Some (0x27 # 2 # k')) 6 (Some 8) (s3, e3) = (r4, s4, e4)"
    by (rule prod_cases3)
  obtain r5 s5 e5 where 5: "UdsServer_Process ecu_calls t (Some [0x10, 5 - x]) 2 (Some 8) (s4, e4) = (r5, s5, e5)"
    by (rule prod_cases3)
  have locked: "\<not> srv_security_unlocked s2" "\<not> srv_security_unlocked s4"
    "\<forall>st \<in> set (uds_states ecu_calls (guess_rounds (5 - x) gs) (s5, e5)). \<not> srv_security_unlocked (fst st)"
    using Cons.prems(3) g 1 2 3 4 5 by simp_all
  note a = guess_seed [OF Cons.prems(1) t(1) 1]
  note b = guess_key [OF a [THEN conjunct1] t0 _ t(2) _ 2 locked(1)]
  have b: "guessing x d t 1 s2" "e2 = e1" "r2 = (UDS_PROCESS_RESPONSE, [0x7F, 0x27, 0x35])"
    using b a by simp_all
  note c = guess_seed [OF b(1) t0 3]
  have f: "guessing x d t 2 s4" "e4 = e3" "r4 = (UDS_PROCESS_RESPONSE, [0x7F, 0x27, 0x35])"
    using guess_key [OF c [THEN conjunct1] t0 _ t(3) _ 4 locked(2)] c by simp_all
  note h = guess_change [OF f(1) t0 5]
  have rep: "r1 \<noteq> (UDS_PROCESS_RESPONSE, [0x7F, 0x27, 0x35])" "r3 \<noteq> (UDS_PROCESS_RESPONSE, [0x7F, 0x27, 0x35])"
    "r5 \<noteq> (UDS_PROCESS_RESPONSE, [0x7F, 0x27, 0x35])"
    using a c h by auto
  have delay: "srv_security_delay_until_ms s = 0" "srv_security_delay_until_ms s1 = 0" "srv_security_delay_until_ms s2 = 0"
    "srv_security_delay_until_ms s3 = 0" "srv_security_delay_until_ms s4 = 0"
    using Cons.prems(1) a b c f by (simp_all add: guessing_def)
  from Cons.IH [OF h [THEN conjunct1] t(4) locked(3)] g 1 2 3 4 5 rep b(3) f(3) delay
  show ?case by simp
qed

text \<open>Two rounds on the sample server, and the session they start in.\<close>

definition guesses :: "guess list" where
  "guesses = [(6, [0, 0, 0, 0], [1, 2, 3, 4]), (1000, [5, 6, 7, 8], [0, 0, 0, 0])]"

definition extended :: "unit UdsEcu_t" where
  "extended = fold (uds_step ecu_calls) [UdsRequest 5 (Some [0x10, 3]) 2 (Some 8)] (sample_server, blank_rest)"

theorem session_change_dodges_lockout_witness:
  "wrong_key_answers (guess_rounds 3 guesses) (fst extended, snd extended) = 4"
proof -
  have "guessing 3 5000 5 0 (fst extended)" by code_simp
  moreover have "in_time (ucast (5000 :: u16)) 5 guesses" by code_simp
  moreover have "\<forall>st \<in> set (uds_states ecu_calls (guess_rounds 3 guesses) (fst extended, snd extended)). \<not> srv_security_unlocked (fst st)"
    by code_simp
  ultimately show ?thesis
    using session_change_dodges_lockout [of 3 5000 5 "fst extended" guesses "snd extended"] by (simp add: guesses_def)
qed

end
