(* ===== verification/AppClaims.thy ===== *)
theory AppClaims
  imports AppParam UdsData UdsBackend
begin

section \<open>Claims about the stored parameters\<close>

text \<open>What the log, its flash and the server's storage functions guarantee together: values
  survive writes, clears and restarts, up to the answer to a diagnostic read after a reboot, and
  the one window in which they do not.\<close>


text \<open>An erased F103 page: a start, a write, and the next start.\<close>

definition erased_page :: flash_hw where
  "erased_page = \<lparr>fl_cells = replicate 1024 0xFF, fl_locked = True, fl_faults = []\<rparr>"

definition started :: "AppParamStorage_t \<times> flash_hw" where
  "started = AppParamStorage_Init APP_PARAM_FLASH_SIZE_F103 erased_page"

definition one_saved :: "bool \<times> ParamLog_t \<times> flash_hw" where
  "one_saved = ParamLog_Set (app_io APP_PARAM_FLASH_SIZE_F103) (aps_log (fst started)) 0x0100 [7, 8] (snd started)"

lemma f103: "ecu_flash APP_PARAM_FLASH_SIZE_F103" "unat APP_PARAM_FLASH_SIZE_F103 = 1024"
  "APP_PARAM_SLOT_COUNT APP_PARAM_FLASH_SIZE_F103 = 12"
  by (simp_all add: ecu_flash_def APP_PARAM_FLASH_SIZE_F103_def APP_PARAM_SLOT_COUNT_def PARAM_STORE_IMAGE_SIZE_def)

lemma page_clean: "flash_valid APP_PARAM_FLASH_SIZE_F103 erased_page \<and> tail_clean (fl_cells erased_page) 12"
  by (simp add: flash_valid_def f103 erased_page_def tail_clean_def erased_cells)

lemma page_started:
  "snd started = erased_page \<and> aps_valid (fst started) \<and> log_next_slot (aps_log (fst started)) = 0 \<and>
   log_slot_count (aps_log (fst started)) = 12 \<and> next_erased (fl_cells erased_page) (aps_log (fst started)) \<and>
   log_state_ok fl_cells (flash_valid APP_PARAM_FLASH_SIZE_F103) (aps_log (fst started), erased_page, Map.empty)"
  using erased_start [OF f103(1), of erased_page] by (simp add: erased_page_def started_def f103) (metis fst_conv snd_conv)

definition page_state :: param_state where
  "page_state = \<lparr>st_params = fst started, st_flash = erased_page\<rparr>"

lemma page_storage: "storage_ok APP_PARAM_FLASH_SIZE_F103 page_state"
  using page_started by (simp add: storage_ok_def page_state_def f103 log_state_ok_def)

text \<open>C33: On a fault-free flash with an erased slot left, saving a value of a known identifier
  succeeds, uses the next slot, leaves the stored parameters with exactly that value changed and the
  slot after it erased; and while a slot is left the next start succeeds without touching the flash.\<close>

theorem saves_succeed:
  assumes "ecu_flash fsize" and "storage_ok fsize st"
    and "log_next_slot (aps_log (st_params st)) < log_slot_count (aps_log (st_params st))"
    and "next_erased (fl_cells (st_flash st)) (aps_log (st_params st))" and "no_fault 21 (st_flash st)"
    and "known_did did" and "data \<noteq> []" and "length data \<le> PARAM_STORE_VALUE_MAX"
    and "app_param_save fsize did data st = (ok, st')"
  shows "ok \<and> storage_ok fsize st' \<and> params_of st' = (params_of st)(did \<mapsto> data) \<and>
    log_next_slot (aps_log (st_params st')) = log_next_slot (aps_log (st_params st)) + 1 \<and>
    next_erased (fl_cells (st_flash st')) (aps_log (st_params st')) \<and>
    (log_next_slot (aps_log (st_params st')) < log_slot_count (aps_log (st_params st')) \<longrightarrow>
      (\<exists>p. AppParamStorage_Init fsize (st_flash st') = (p, st_flash st') \<and> aps_valid p))"
proof -
  have log: "log_agrees (fl_cells (st_flash st)) (aps_log (st_params st))" "flash_valid fsize (st_flash st)"
    "log_slot_count (aps_log (st_params st)) = APP_PARAM_SLOT_COUNT fsize"
    using assms(2) by (simp_all add: storage_ok_def)
  obtain log' f' where set: "ParamLog_Set (app_io fsize) (aps_log (st_params st)) did data (st_flash st) = (True, log', f')"
    and again: "log_next_slot log' < log_slot_count log' \<longrightarrow> (\<exists>p. AppParamStorage_Init fsize f' = (p, f') \<and> aps_valid p)"
    using save_carried_out [OF log assms(3-8)] .
  have eq: "ok" "st' = st\<lparr>st_params := (st_params st)\<lparr>aps_log := log'\<rparr>, st_flash := f'\<rparr>"
    using assms(9) set by (simp_all add: app_param_save_def)
  with save_step [OF assms(2,9)] set_next [OF set] again show ?thesis by simp
qed

theorem saves_succeed_witness:
  "\<exists>st' p. app_param_save APP_PARAM_FLASH_SIZE_F103 0x0100 [7, 8] page_state = (True, st') \<and>
     log_next_slot (aps_log (st_params st')) = 1 \<and>
     AppParamStorage_Init APP_PARAM_FLASH_SIZE_F103 (st_flash st') = (p, st_flash st') \<and> aps_valid p"
proof -
  have "no_fault 21 (st_flash page_state)" by (simp add: no_fault_def erased_page_def page_state_def)
  moreover have "known_did 0x0100" by code_simp
  moreover obtain ok st' where s: "app_param_save APP_PARAM_FLASH_SIZE_F103 0x0100 [7, 8] page_state = (ok, st')"
    by fastforce
  ultimately show ?thesis
    using saves_succeed [OF f103(1) _ _ _ _ _ _ _ s] page_storage page_started save_step [OF page_storage s]
    by (auto simp: f103 PARAM_STORE_VALUE_MAX_def page_state_def storage_ok_def)
qed


end
