(* ===== verification/AppSample.thy ===== *)
theory AppSample
  imports AppSystem AppClaims UdsClaims
begin

section \<open>A node that starts\<close>

text \<open>
  Concrete globals of an F103 node with an erased parameter page, the state \<open>main\<close> reaches from them
  before its loop, and reachable states derived from it: the runs the claims about the running
  application are applied to.
\<close>

definition sample_world :: app_world where
  "sample_world = \<lparr>st_params = fst started, st_flash = erased_page,
     w_port = sample_port\<lparr>port_can := sample_driver\<lparr>drv_handle := None, drv_rx_callback := None, drv_health := None\<rparr>\<rparr>,
     w_watchdog = powered_on\<rparr>"

definition sample_globals :: app_main where
  "sample_globals = \<lparr>m_uds = (blank_server,
       \<lparr>ecu_did_db = \<lparr>db_dids = [], db_did_count = 0\<rparr>, ecu_variant = UDS_ECU_F407,
        ecu_storage = \<lparr>st_load = None, st_save = None\<rparr>, ecu_has_storage = False,
        ecu_hooks = \<lparr>hook_self_test = None, hook_erase_params = None\<rparr>,
        ecu_self_test_context = \<lparr>ctx_owner = False, ctx_polls = 0, ctx_executed = False, ctx_result = 0\<rparr>,
        ecu_erase_context = \<lparr>ctx_owner = False, ctx_polls = 0, ctx_executed = False, ctx_result = 0\<rparr>,
        ecu_routines = [], ecu_app = sample_world\<rparr>),
     m_can_tx_count = 0, m_can_rx_count = 0, m_led = False, m_isotp_tx_buffer = replicate 300 0,
     m_isotp_rx = blank_rx, m_isotp_tx = blank_tx,
     m_isotp_test_stats = \<lparr>st_tx_errors = 0, st_rx_errors = 0, st_tx_timeouts = 0, st_rx_timeouts = 0,
       st_last_tx_result = ISOTP_OK, st_last_rx_result = ISOTP_OK, st_last_route_result = ISOTP_OK\<rparr>,
     m_isotp_serving = False,
     m_can_error_log = \<lparr>log_entries = replicate 32 \<lparr>log_sequence = 0, log_error_code = 0, log_esr = 0, log_tick = 0\<rparr>,
       log_next_index = 0, log_recorded = 0\<rparr>,
     m_can_health_full = CanHealth_GetSnapshot (CanHealth_Init None), m_can_health_summary = [0, 0, 0, 0],
     m_app_health_log = \<lparr>hl_entries = replicate 24 \<lparr>hl_tick = 0, hl_kind = 0, hl_arg = 0, hl_reserved = 0\<rparr>,
       hl_next_index = 0, hl_recorded = 0\<rparr>,
     m_recovery = \<lparr>rv_last_recovery_tick = 0, rv_attempt_started_tick = 0, rv_bus_off_events_at_attempt = 0,
       rv_attempt_pending = False\<rparr>,
     m_last_tx_tick = 0, m_tx_value = 0, m_reset = False\<rparr>"

lemma blank_mem_ok: "mem_ok blank_server"
  by code_simp

lemma sample_zeroed: "zeroed board_f103 sample_globals"
proof -
  have "slots_ok sample_queue"
    unfolding sample_queue_def by (rule slots_init) simp_all
  then show ?thesis
    using f103(1,3) page_clean blank_mem_ok
    by (simp add: zeroed_def sample_globals_def sample_world_def board_f103_def sample_driver_def sample_port_def
        logs_ok_def APP_ISOTP_TX_BUFFER_SIZE_def)
qed

definition sample_rxbuf :: "u8 list" where "sample_rxbuf = replicate 300 0"

definition no_buffers :: isotp_globals where
  "no_buffers = \<lparr>g_rx_fallback_buffer = [], g_rx_fallback_in_use = False\<rparr>"

definition sample_boot :: "app_main option" where
  "sample_boot = main_init board_f103 sample_hw sample_rxbuf no_buffers sample_globals"

lemma sample_boots: "\<exists>m. sample_boot = Some m"
proof -
  have can: "\<exists>m1. init_can board_f103 sample_hw m = Some m1 \<and> w_watchdog (m_world m1) = w_watchdog (m_world m)" for m
    by (simp add: init_can_def CanDriver_Init_def HAL_CAN_Init_def hal_ack_def sample_hw_def CanDriver_ConfigureFilter_def
        HAL_CAN_ConfigFilter_def hal_ready_def CanDriver_Start_def CanDriver_AttachHealth_def set_can_def set_port_def
        HAL_CAN_Start_def HAL_CAN_ActivateNotification_def Let_def)
  have wd: "\<exists>m2. init_watchdogs board_f103 m = Some m2" if "w_watchdog (m_world m) = powered_on" for m
    using that
    by (simp add: init_watchdogs_def powered_on_def Watchdog_Init_def Watchdog_WwdgInit_def iw_key_def board_f103_def
        WATCHDOG_DEFAULT_TIMEOUT_MS_def WATCHDOG_PRESCALER_DIVIDER_def WATCHDOG_RELOAD_MAX_def get_tick_def
        set_watchdog_def set_clock_def set_port_def ww_write_cfr_def wwdg_registers Let_def split: prod.split)
  have p: "w_watchdog (m_world (init_params board_f103 sample_globals)) = powered_on"
    by (simp add: init_params_def sample_globals_def sample_world_def split: prod.split)
  obtain m1 where m1: "init_can board_f103 sample_hw (init_params board_f103 sample_globals) = Some m1"
    "w_watchdog (m_world m1) = powered_on"
    using can p by metis
  have z: "zeroed board_f103 sample_globals" "driver_slots (m_can (init_params board_f103 sample_globals))"
    using sample_zeroed init_params_any [OF sample_zeroed] by (simp_all add: zeroed_def)
  obtain d where d: "m1 = set_can d (init_params board_f103 sample_globals)"
    using init_can_slots [OF m1(1) z(2)] by blast
  have "fst (m_uds (init_params board_f103 sample_globals)) = fst (m_uds sample_globals)"
    by (simp add: init_params_def split: prod.split)
  then have mem: "mem_ok (fst (m_uds m1))" using z(1) d by (simp add: zeroed_def set_can_def set_port_def)
  have "storage_any (bd_flash_size board_f103) (m_world m1)"
    using init_params_any [OF sample_zeroed] d by (simp add: set_can_def set_port_def storage_any_def storage_ok_def)
  note uds = init_uds_ok [OF mem this]
  have "w_watchdog (m_world (init_isotp board_f103 sample_rxbuf no_buffers (init_uds board_f103 m1))) = powered_on"
    using m1(2) uds by (simp add: init_isotp_def Let_def)
  from wd [OF this] m1(1) show ?thesis by (simp add: sample_boot_def main_init_def)
qed

definition sample_node :: app_main where
  "sample_node = the sample_boot"

lemma sample_node_reachable:
  "app_reachable board_f103 sample_node \<and> \<not> m_reset sample_node \<and> \<not> rv_attempt_pending (m_recovery sample_node)"
proof -
  obtain m where m: "main_init board_f103 sample_hw sample_rxbuf no_buffers sample_globals = Some m" "sample_node = m"
    using sample_boots by (auto simp: sample_boot_def sample_node_def)
  have len: "length sample_rxbuf = 300" by (simp add: sample_rxbuf_def)
  show ?thesis
    using reach_init [OF sample_zeroed len m(1)] main_init_ok [OF sample_zeroed len m(1)] m(2) by simp
qed

text \<open>The bus fails: the controller reports Bus-Off and the error interrupt arrives.\<close>

definition broken_hw :: can_hw where
  "broken_hw = sample_hw\<lparr>hcan_error_code := HAL_CAN_ERROR_BOF\<rparr>"

definition off_node :: app_main where
  "off_node = HAL_CAN_ErrorCallback (set_can ((m_can sample_node)\<lparr>drv_handle := Some broken_hw\<rparr>) sample_node)"

lemma error_irq_fields [simp]:
  "m_recovery (HAL_CAN_ErrorCallback m) = m_recovery m" "m_reset (HAL_CAN_ErrorCallback m) = m_reset m"
  "m_recovery (set_can d m) = m_recovery m" "m_recovery (set_clock k m) = m_recovery m" "m_reset (set_clock k m) = m_reset m"
  by (simp_all add: HAL_CAN_ErrorCallback_def set_clock_def set_can_def set_port_def Let_def case_prod_beta)

lemma off_node_off:
  "app_reachable board_f103 off_node \<and> \<not> m_reset off_node \<and> \<not> rv_attempt_pending (m_recovery off_node) \<and>
   drv_handle (m_can off_node) = Some (sample_hw\<lparr>hcan_error_code := 0\<rparr>) \<and>
   (\<exists>h. m_health off_node = Some h \<and> h_state h = CAN_HEALTH_STATE_BUS_OFF)"
proof -
  let ?m = "set_can ((m_can sample_node)\<lparr>drv_handle := Some broken_hw\<rparr>) sample_node"
  have m: "app_reachable board_f103 ?m" "\<not> m_reset ?m"
    using sample_node_reachable by (auto intro: reach_other step_bus)
  obtain h where h: "m_health sample_node = Some h"
    using reachable_ok [OF conjunct1 [OF sample_node_reachable]] by (auto simp: app_ok_def app_core_def node_core_def)
  obtain d lg k where irq: "CanDriver_OnErrorIsr (m_can ?m) (m_can_error_log ?m) (port_clock (m_port ?m)) = (d, lg, k)"
    by (metis prod_cases3)
  then have "drv_handle d = Some (sample_hw\<lparr>hcan_error_code := 0\<rparr>)"
    "drv_health d = Some (classify_error h HAL_CAN_ERROR_BOF (esr_tec (hw_esr sample_hw), esr_rec (hw_esr sample_hw), esr_boff (hw_esr sample_hw)))"
    using h by (auto simp: CanDriver_OnErrorIsr_def CanDriver_GetErrorCounters_def broken_hw_def HAL_CAN_ERROR_NONE_def
        HAL_CAN_ERROR_BOF_def Let_def split: prod.splits)
  moreover have "m_can off_node = d"
    using irq by (simp add: off_node_def HAL_CAN_ErrorCallback_def set_clock_def set_can_def set_port_def)
  moreover have "h_state (CanHealth_EnterBusOff g) = CAN_HEALTH_STATE_BUS_OFF" for g
    by (simp add: CanHealth_EnterBusOff_def Let_def)
  moreover have "HAL_CAN_ERROR_BOF AND HAL_CAN_ERROR_BOF \<noteq> 0" by (simp add: HAL_CAN_ERROR_BOF_def)
  moreover have "app_reachable board_f103 off_node"
    unfolding off_node_def by (rule reach_other [OF m(1) step_error_irq [OF m(2)]])
  moreover have "\<not> m_reset off_node \<and> \<not> rv_attempt_pending (m_recovery off_node)"
    using m(2) sample_node_reachable by (simp add: off_node_def)
  ultimately show ?thesis by (simp add: classify_error_def)
qed

text \<open>A controller that acknowledges every request can always be restarted.\<close>

lemma recover_acknowledged:
  assumes "drv_handle d = Some hw" and "hw_ack hw = []"
  shows "fst (CanDriver_Recover d) = HAL_OK"
  using assms
  by (simp add: CanDriver_Recover_def HAL_CAN_DeInit_def HAL_CAN_Stop_def hal_ack_def CanDriver_Init_def HAL_CAN_Init_def
      CanDriver_ConfigureFilter_def HAL_CAN_ConfigFilter_def hal_ready_def CanDriver_Start_def HAL_CAN_Start_def
      HAL_CAN_ActivateNotification_def Let_def)

text \<open>The first attempt has been started.\<close>

definition waiting_node :: app_main where
  "waiting_node = APP_ServiceCanHealth (rv_last_recovery_tick (m_recovery off_node) + 1000) off_node"

end
