(* ===== verification/AppRecovery.thy ===== *)
theory AppRecovery
  imports AppSample
begin

section \<open>Bus-Off recovery and escalation\<close>

text \<open>
  How the recovery service starts an attempt and how it judges one, when the node is reset,
  and that every iteration of the main loop returns.
\<close>

subsection \<open>One call\<close>

lemma judged:
  assumes "app_ok bd m" and "\<not> m_reset m" and "rv_attempt_pending (m_recovery m)"
    and "drv_handle (m_can m) = Some hw" and "m_health m = Some h"
  shows "\<exists>h'. m_health (judge_attempt m) = Some h' \<and> \<not> rv_attempt_pending (m_recovery (judge_attempt m)) \<and>
    rv_last_recovery_tick (m_recovery (judge_attempt m)) = rv_last_recovery_tick (m_recovery m) \<and>
    drv_handle (m_can (judge_attempt m)) = drv_handle (m_can m) \<and>
    (if esr_boff (hw_esr hw)
     then h_state h' = CAN_HEALTH_STATE_BUS_OFF \<and>
       h_consecutive_recovery_failures h' = h_consecutive_recovery_failures h + 1 \<and>
       (m_reset (judge_attempt m) \<longleftrightarrow> h_consecutive_recovery_failures h' = 3)
     else h_state h' = CAN_HEALTH_STATE_ERROR_ACTIVE \<and> h_consecutive_recovery_failures h' = 0 \<and>
       \<not> m_reset (judge_attempt m))"
proof -
  have fine: "health_fine (m_recovery m) False h"
    using assms by (auto simp: app_ok_def app_core_def node_core_def)
  then have h: "h_state h = CAN_HEALTH_STATE_BUS_OFF" "h_bus_off_events h = rv_bus_off_events_at_attempt (m_recovery m)"
    "h_reset_requests h = 0" "max_recovery_failures (h_config h) = 3" "h_consecutive_recovery_failures h < 3"
    using assms(3) by (simp_all add: health_fine_def CanHealth_DefaultConfig_def CAN_HEALTH_MAX_RECOVERY_FAILURES_def)
  have c: "h_consecutive_recovery_failures h < 0xFF" using h(5) by (rule less_trans) simp
  have "h_consecutive_recovery_failures h = 0 \<or> h_consecutive_recovery_failures h = 1 \<or> h_consecutive_recovery_failures h = 2"
    using h(5) by (auto simp: word_less_nat_alt word_unat_eq_iff)
  then have three: "3 \<le> h_consecutive_recovery_failures h + 1 \<longleftrightarrow> h_consecutive_recovery_failures h + 1 = 3"
    by (elim disjE) (simp_all add: word_le_nat_alt)
  let ?m1 = "m\<lparr>m_recovery := (m_recovery m)\<lparr>rv_attempt_pending := False\<rparr>\<rparr>"
  let ?at = "CanHealth_AttemptRecovery h (\<not> esr_boff (hw_esr hw))"
  have at: "attempt_recovery (\<not> esr_boff (hw_esr hw)) ?m1 = (fst ?at, set_health (snd ?at) ?m1)"
    using assms(5) by (simp add: attempt_recovery_def Let_def case_prod_beta)
  have eq: "judge_attempt m = (if fst ?at then APP_HealthLog APP_LOG_SUCCESS 0 (set_health (snd ?at) ?m1)
      else recovery_failed (set_health (snd ?at) ?m1))"
    using assms(4,5) h(2) at by (simp add: judge_attempt_def CanDriver_GetErrorCounters_def Let_def)
  show ?thesis
  proof (cases "esr_boff (hw_esr hw)")
    case False
    then show ?thesis
      using eq assms(2) h
      by (simp add: CanHealth_AttemptRecovery_def CanHealth_MarkRecovered_def set_health_def set_can_def set_port_def Let_def)
  next
    case True
    then show ?thesis
      using eq assms(2) h c three
      by (simp add: CanHealth_AttemptRecovery_def recovery_failed_def CanHealth_ResetRequested_def set_health_def set_can_def
          set_port_def Let_def)
  qed
qed

lemma started:
  assumes "app_ok bd m" and "\<not> m_reset m" and "\<not> rv_attempt_pending (m_recovery m)"
    and "m_health m = Some h" and "h_state h = CAN_HEALTH_STATE_BUS_OFF"
  shows "\<exists>h'. m_health (start_attempt now m) = Some h' \<and> h_state h' = CAN_HEALTH_STATE_BUS_OFF \<and>
    rv_last_recovery_tick (m_recovery (start_attempt now m)) = now \<and>
    (if rv_attempt_pending (m_recovery (start_attempt now m))
     then rv_attempt_started_tick (m_recovery (start_attempt now m)) = now \<and> h' = h \<and> \<not> m_reset (start_attempt now m)
     else h_consecutive_recovery_failures h' = h_consecutive_recovery_failures h + 1 \<and>
       (m_reset (start_attempt now m) \<longleftrightarrow> h_consecutive_recovery_failures h' = 3))"
proof -
  let ?m1 = "m\<lparr>m_recovery := (m_recovery m)\<lparr>rv_last_recovery_tick := now\<rparr>\<rparr>"
  obtain r d where rec: "CanDriver_Recover (m_can m) = (r, d)" by fastforce
  have slots: "driver_slots (m_can m)" "drv_handle (m_can m) \<noteq> None"
    using assms(1) by (simp_all add: app_ok_def app_core_def node_core_def)
  have d: "drv_health d = Some h" using recover_keeps [OF slots(1) rec slots(2)] assms(4) by simp
  have "health_fine (m_recovery m) False h"
    using assms by (auto simp: app_ok_def app_core_def node_core_def)
  then have h: "h_reset_requests h = 0" "max_recovery_failures (h_config h) = 3" "h_consecutive_recovery_failures h < 3"
    by (simp_all add: health_fine_def CanHealth_DefaultConfig_def CAN_HEALTH_MAX_RECOVERY_FAILURES_def)
  have c: "h_consecutive_recovery_failures h < 0xFF" using h(3) by (rule less_trans) simp
  have "h_consecutive_recovery_failures h = 0 \<or> h_consecutive_recovery_failures h = 1 \<or> h_consecutive_recovery_failures h = 2"
    using h(3) by (auto simp: word_less_nat_alt word_unat_eq_iff)
  then have three: "3 \<le> h_consecutive_recovery_failures h + 1 \<longleftrightarrow> h_consecutive_recovery_failures h + 1 = 3"
    by (elim disjE) (simp_all add: word_le_nat_alt)
  have m2: "m_health (set_can d ?m1) = Some h" "m_recovery (set_can d ?m1) = (m_recovery m)\<lparr>rv_last_recovery_tick := now\<rparr>"
    using d by (simp_all add: set_can_def set_port_def)
  show ?thesis
  proof (cases "r = HAL_OK")
    case True
    with rec m2 assms(2,5) show ?thesis by (simp add: start_attempt_def Let_def)
  next
    case False
    with rec m2 assms(2,3,5) h c three show ?thesis
      by (simp add: start_attempt_def attempt_recovery_def recovery_failed_def CanHealth_AttemptRecovery_def
          CanHealth_ResetRequested_def set_health_def Let_def)
  qed
qed

subsection \<open>Two nodes on a broken bus\<close>

lemma waiting_node_waits:
  "app_reachable board_f103 waiting_node \<and> \<not> m_reset waiting_node \<and> rv_attempt_pending (m_recovery waiting_node) \<and>
   (\<exists>h. m_health waiting_node = Some h) \<and> (\<exists>hw. drv_handle (m_can waiting_node) = Some hw)"
proof -
  obtain h where h: "m_health off_node = Some h" "h_state h = CAN_HEALTH_STATE_BUS_OFF"
    and off: "app_reachable board_f103 off_node" "\<not> m_reset off_node"
      "drv_handle (m_can off_node) = Some (sample_hw\<lparr>hcan_error_code := 0\<rparr>)"
    using off_node_off by blast
  have np: "\<not> rv_attempt_pending (m_recovery off_node)" using off_node_off by simp
  let ?now = "rv_last_recovery_tick (m_recovery off_node) + 1000"
  have eq: "waiting_node = start_attempt ?now off_node"
    using np h by (simp add: waiting_node_def APP_ServiceCanHealth_def APP_CAN_RECOVERY_PERIOD_MS_def CanHealth_GetState_def)
  have r: "app_reachable board_f103 waiting_node"
    unfolding waiting_node_def by (rule reach_next [OF off(1) step_health [OF off(2)]])
  obtain d where rec: "CanDriver_Recover (m_can off_node) = (HAL_OK, d)"
    using recover_acknowledged [OF off(3)] by (cases "CanDriver_Recover (m_can off_node)") (simp add: sample_hw_def)
  have "rv_attempt_pending (m_recovery waiting_node)" unfolding eq using rec by (simp add: start_attempt_def Let_def)
  moreover have "\<not> m_reset waiting_node" unfolding eq using rec off(2) by (simp add: start_attempt_def Let_def)
  ultimately show ?thesis
    using r reachable_ok [OF r] by (auto simp: app_ok_def app_core_def node_core_def)
qed

text \<open>Iterations of the loop every ten milliseconds on a bus that stays broken, reduced to the recovery
  service and the summary after it.\<close>

definition broken_iteration :: "u32 \<Rightarrow> app_main \<Rightarrow> app_main" where
  "broken_iteration now m =
     (let m1 = APP_ServiceCanHealth now (set_can ((m_can m)\<lparr>drv_handle := Some broken_hw\<rparr>) m)
      in if m_reset m1 then m1 else APP_UpdateHealthSummary m1)"

fun broken_iterations :: "nat \<Rightarrow> u32 \<Rightarrow> app_main \<Rightarrow> app_main" where
  "broken_iterations 0 now m = m"
| "broken_iterations (Suc n) now m =
     (if m_reset m then m else broken_iterations n (now + 10) (broken_iteration (now + 10) m))"

lemma broken_iterations_reach:
  "app_reachable bd m \<Longrightarrow> app_reachable bd (broken_iterations n now m)"
proof (induction n now m rule: broken_iterations.induct)
  case (2 n now m)
  show ?case
  proof (cases "m_reset m")
    case False
    let ?m = "set_can ((m_can m)\<lparr>drv_handle := Some broken_hw\<rparr>) m"
    have "app_reachable bd ?m" by (rule reach_other [OF 2(2) step_bus [OF False]])
    then have h: "app_reachable bd (APP_ServiceCanHealth (now + 10) ?m)"
      by (rule reach_next) (use False in \<open>simp add: step_health\<close>)
    then have "app_reachable bd (broken_iteration (now + 10) m)"
      using reach_other [OF h step_summary] by (simp add: broken_iteration_def Let_def)
    with 2(1) False show ?thesis by simp
  qed (use 2 in simp)
qed simp

definition dead_node :: app_main where
  "dead_node = broken_iterations 600 (rv_last_recovery_tick (m_recovery off_node)) off_node"

subsection \<open>Claims\<close>

text \<open>C10: Every iteration of the main loop returns: whatever frames wait in the queues, whatever they
  say and whatever the peripheral, the flash and the tick do, from every reachable state the receive
  loops end, every service returns and the iteration reaches its delay or the requested reset.\<close>

theorem main_loop_returns:
  assumes "app_reachable bd m" and "\<not> m_reset m"
  shows "\<exists>m'. main_loop bd m = Some m' \<and> app_reachable bd m'"
  using main_loop_ok [OF reachable_ok [OF assms(1)] assms(2)] main_loop_reaches [OF assms] by blast

theorem main_loop_returns_witness: "\<exists>m'. main_loop board_f103 off_node = Some m'"
  using main_loop_returns [of board_f103 off_node] off_node_off by blast

text \<open>C26: The node resets itself for one reason only: in every reachable state, if it has asked for a
  reset then at least three recoveries in a row have failed, and if it has not, fewer than three have
  and the policy has requested none.\<close>

theorem reset_needs_three_failures:
  assumes "app_reachable bd m"
  shows "\<exists>h. m_health m = Some h \<and> CanHealth_GetState (Some h) = h_state h \<and>
    (m_reset m \<longrightarrow> 3 \<le> h_consecutive_recovery_failures h) \<and>
    (\<not> m_reset m \<longrightarrow> h_consecutive_recovery_failures h < 3 \<and> \<not> CanHealth_ResetRequested (Some h))"
  using reachable_ok [OF assms]
  by (auto simp: app_ok_def app_core_def node_core_def health_fine_def CanHealth_GetState_def CanHealth_ResetRequested_def)

theorem reset_needs_three_failures_witness:
  "\<exists>h. m_health dead_node = Some h \<and> (m_reset dead_node \<longrightarrow> 3 \<le> h_consecutive_recovery_failures h)"
proof -
  have "app_reachable board_f103 dead_node" unfolding dead_node_def using off_node_off by (intro broken_iterations_reach) simp
  from reset_needs_three_failures [OF this] show ?thesis by blast
qed

text \<open>C27: The verdict on a recovery attempt is the Bus-Off flag of the controller at the end of the
  settling time and nothing else: the other condition of the code, that no Bus-Off event was counted
  since the attempt, always holds, because the policy counts none while the node is in Bus-Off.  With the
  flag clear the node is error-active again with no failures; with the flag set one more failure is
  counted and the third resets the node.\<close>

theorem verdict_is_bus_off_flag:
  assumes "app_reachable bd m" and "\<not> m_reset m" and "rv_attempt_pending (m_recovery m)"
    and "1500 \<le> now - rv_attempt_started_tick (m_recovery m)"
    and "drv_handle (m_can m) = Some hw" and "m_health m = Some h"
  shows "h_bus_off_events h = rv_bus_off_events_at_attempt (m_recovery m) \<and>
    (\<exists>h'. m_health (APP_ServiceCanHealth now m) = Some h' \<and>
      \<not> rv_attempt_pending (m_recovery (APP_ServiceCanHealth now m)) \<and>
      (if esr_boff (hw_esr hw)
       then h_state h' = CAN_HEALTH_STATE_BUS_OFF \<and>
         h_consecutive_recovery_failures h' = h_consecutive_recovery_failures h + 1 \<and>
         (m_reset (APP_ServiceCanHealth now m) \<longleftrightarrow> h_consecutive_recovery_failures h' = 3)
       else h_state h' = CAN_HEALTH_STATE_ERROR_ACTIVE \<and> h_consecutive_recovery_failures h' = 0 \<and>
         \<not> m_reset (APP_ServiceCanHealth now m)))"
proof -
  note ok = reachable_ok [OF assms(1)]
  have "APP_ServiceCanHealth now m = judge_attempt m"
    using assms(3,4) by (simp add: APP_ServiceCanHealth_def APP_CAN_RECOVERY_SETTLE_MS_def not_less)
  moreover have "h_bus_off_events h = rv_bus_off_events_at_attempt (m_recovery m)"
    using ok assms(3,6) by (auto simp: app_ok_def app_core_def node_core_def health_fine_def)
  moreover obtain h' where "m_health (judge_attempt m) = Some h'" "\<not> rv_attempt_pending (m_recovery (judge_attempt m))"
    "if esr_boff (hw_esr hw)
     then h_state h' = CAN_HEALTH_STATE_BUS_OFF \<and>
       h_consecutive_recovery_failures h' = h_consecutive_recovery_failures h + 1 \<and>
       (m_reset (judge_attempt m) \<longleftrightarrow> h_consecutive_recovery_failures h' = 3)
     else h_state h' = CAN_HEALTH_STATE_ERROR_ACTIVE \<and> h_consecutive_recovery_failures h' = 0 \<and>
       \<not> m_reset (judge_attempt m)"
    using judged [OF ok assms(2,3,5,6)] by blast
  ultimately show ?thesis by metis
qed

theorem verdict_is_bus_off_flag_witness:
  "\<not> rv_attempt_pending (m_recovery (APP_ServiceCanHealth (rv_attempt_started_tick (m_recovery waiting_node) + 1500) waiting_node))"
proof -
  obtain h hw where w: "app_reachable board_f103 waiting_node" "\<not> m_reset waiting_node"
    "rv_attempt_pending (m_recovery waiting_node)" "drv_handle (m_can waiting_node) = Some hw" "m_health waiting_node = Some h"
    using waiting_node_waits by blast
  from verdict_is_bus_off_flag [OF w(1-3) _ w(4,5), of "rv_attempt_started_tick (m_recovery waiting_node) + 1500"]
  show ?thesis by auto
qed

end
