(* ===== verification/AppAnswers.thy ===== *)
theory AppAnswers
  imports AppSample
begin

section \<open>Requests and their answers\<close>

text \<open>
  The transport, the diagnostic server and the driver together: what the node puts on the bus for a
  request that has been received, and why the response buffer is safe from the next answer while the
  sender still reads it.
\<close>

lemma start_accepted:
  assumes "tx_channel tx = app_channel" and "\<not> tx_ongoing tx" and "0 < unat len" and "unat len \<le> 300"
  shows "fst (IsotpTx_Start tx (Some p) len c) = ISOTP_OK"
proof -
  have send: "fst (isotp_tx_schedule_frame t fr k)" if "tx_channel t = app_channel" for t fr and k :: app_port
    using that by (simp add: isotp_tx_schedule_frame_def app_channel_def Let_def case_prod_beta)
  have ch: "tx_channel (tx_begin tx p len) = app_channel" using assms(1) by (simp add: tx_begin_def)
  have "fst (isotp_send_sf (tx_begin tx p len) p len c)" "fst (isotp_send_ff (tx_begin tx p len) c)"
    using send ch by (simp_all add: isotp_send_sf_def isotp_send_ff_def Let_def case_prod_beta)
  moreover have "\<not> 0xFFF < len" using assms(4) by (simp add: word_less_nat_alt)
  ultimately show ?thesis
    using assms(2,3) by (auto simp: IsotpTx_Start_def ISOTP_MAX_TOTAL_LENGTH_def Let_def case_prod_beta unat_eq_0)
qed

text \<open>A frame handed to the channel while the controller has a free mailbox is on the bus.\<close>

lemma no_mailbox: "None \<notin> set ms \<Longrightarrow> filter (\<lambda>m. m = None) ms = []"
proof (rule filter_False, rule ballI)
  fix x assume "None \<notin> set ms" "x \<in> set ms"
  then show "x \<noteq> None" by metis
qed

lemma sent_frame:
  assumes "channel_send app_channel i fr c = (ok, c')"
  shows "ok \<longrightarrow> length (on_wire c') = Suc (length (on_wire c))"
    and "CanDriver_GetTxMailboxesFreeLevel (port_can c) \<noteq> 0 \<longrightarrow> ok"
proof -
  obtain r d where s: "CanDriver_SendStd (port_can c) i (Some fr) 8 = (r, d)" by fastforce
  have c: "ok = (r = HAL_OK)" "c' = c\<lparr>port_can := d\<rparr>"
    using assms s by (simp_all add: channel_send_def app_channel_def APP_IsotpSend_def)
  show "ok \<longrightarrow> length (on_wire c') = Suc (length (on_wire c))"
    using s c by (auto simp: CanDriver_SendStd_def HAL_CAN_AddTxMessage_def on_wire_def Let_def
        split: option.splits if_splits)
  show "CanDriver_GetTxMailboxesFreeLevel (port_can c) \<noteq> 0 \<longrightarrow> ok"
    using s c by (auto simp: CanDriver_GetTxMailboxesFreeLevel_def CanDriver_SendStd_def HAL_CAN_AddTxMessage_def
        HAL_CAN_GetTxMailboxesFreeLevel_def Let_def no_mailbox split: option.splits if_splits)
qed

lemma scheduled_frame:
  assumes "tx_channel tx = app_channel" and "isotp_tx_schedule_frame tx fr c = (ok, tx', c')"
    and "tx_ongoing tx" and "2 \<le> tx_n_as_ms tx"
  shows "ok \<and> tx_ongoing tx' \<and> (\<not> tx_waiting_enqueue tx' \<longrightarrow> length (on_wire c') = Suc (length (on_wire c))) \<and>
    (CanDriver_GetTxMailboxesFreeLevel (port_can c) \<noteq> 0 \<longrightarrow> length (on_wire c') = Suc (length (on_wire c)))"
proof -
  have on: "tx_ongoing tx'" using app_port.schedule_calm [OF assms(1,4,2)] assms(3) by simp
  obtain t1 c1 where t1: "isotp_tick app_channel c = (t1, c1)" by fastforce
  obtain t2 c2 where t2: "isotp_tick app_channel c1 = (t2, c2)" by fastforce
  have same: "port_can c2 = port_can c" "on_wire c2 = on_wire c"
    using t1 t2 by (auto simp: isotp_tick_def app_channel_def APP_IsotpTick_def on_wire_def split: prod.splits)
  obtain b c3 where s: "channel_send app_channel (tx_txid tx) fr c2 = (b, c3)" by fastforce
  obtain pb c4 where p: "channel_pending app_channel c3 = (pb, c4)" by fastforce
  have q: "on_wire c4 = on_wire c3" by (rule app_port.pending_quiet [OF p])
  show ?thesis
    using assms(1,2) t1 t2 s p q on sent_frame [OF s] same
    by (auto simp: isotp_tx_schedule_frame_def isotp_tx_service_enqueue_def isotp_note_frame_sent_def isotp_tx_pending_def
        Let_def app_port.send_bound split: if_splits prod.splits)
qed

lemma start_sends:
  assumes ch: "tx_channel tx = app_channel" and len: "unat len = length p" and nas: "2 \<le> tx_n_as_ms tx"
    and st: "IsotpTx_Start tx (Some p) len c = (ISOTP_OK, tx', c')"
  shows "tx_ongoing tx' \<or> on_wire c' = on_wire c @ map (Pair (tx_txid tx)) (segment (tx_padding tx) p)"
    and "CanDriver_GetTxMailboxesFreeLevel (port_can c) \<noteq> 0 \<longrightarrow>
      on_wire c' = on_wire c @ map (Pair (tx_txid tx)) (take 1 (segment (tx_padding tx) p))"
proof -
  let ?t = "tx_begin tx p len"
  have t: "tx_channel ?t = app_channel" "tx_ongoing ?t" "2 \<le> tx_n_as_ms ?t" using ch nas by (simp_all add: tx_begin_def)
  obtain n where n: "on_wire c' = on_wire c @ map (Pair (tx_txid tx)) (take n (segment (tx_padding tx) p))"
    using app_port.transfer_prefix [OF ch len st reach_start] by blast
  have "(tx_ongoing tx' \<or> length p \<le> 7 \<and> length (on_wire c') = Suc (length (on_wire c))) \<and>
      (CanDriver_GetTxMailboxesFreeLevel (port_can c) \<noteq> 0 \<longrightarrow> length (on_wire c') = Suc (length (on_wire c)))"
  proof (cases "len \<le> ISOTP_MAX_SINGLE_FRAME")
    case True
    obtain fr t1 where sf: "isotp_send_sf ?t p len c = isotp_tx_schedule_frame t1 fr c"
      "tx_channel t1 = app_channel" "tx_ongoing t1" "2 \<le> tx_n_as_ms t1"
      using t by (auto simp: isotp_send_sf_def Let_def intro: that)
    obtain ok t2 c1 where sc: "isotp_tx_schedule_frame t1 fr c = (ok, t2, c1)" by (rule prod_cases3)
    note f = scheduled_frame [OF sf(2) sc sf(3,4)]
    have "length p \<le> 7" using True len by (simp add: isotp_consts word_le_nat_alt)
    moreover have "c' = c1" "tx_ongoing tx' \<or> \<not> tx_waiting_enqueue t2"
      using st True sf(1) sc f by (auto simp: IsotpTx_Start_def Let_def split: if_splits)
    ultimately show ?thesis using f by blast
  next
    case False
    obtain fr t1 k where ff: "isotp_send_ff ?t c = isotp_tx_schedule_frame t1 fr k" "on_wire k = on_wire c" "port_can k = port_can c"
      "tx_channel t1 = app_channel" "tx_ongoing t1" "2 \<le> tx_n_as_ms t1"
      using t by (auto simp: isotp_send_ff_def isotp_tick_def app_channel_def APP_IsotpTick_def on_wire_def Let_def
          case_prod_beta intro: that)
    obtain ok t2 c1 where sc: "isotp_tx_schedule_frame t1 fr k = (ok, t2, c1)" by (rule prod_cases3)
    note f = scheduled_frame [OF ff(4) sc ff(5,6)]
    have "tx' = t2" "c' = c1" using st False ff(1) sc f by (auto simp: IsotpTx_Start_def Let_def split: if_splits)
    with f ff(2,3) show ?thesis by simp
  qed
  moreover have "segment (tx_padding tx) p \<noteq> []" using length_segment [of "tx_padding tx" p] by (auto split: if_splits)
  moreover have "length p \<le> 7 \<Longrightarrow> length (segment (tx_padding tx) p) = 1" using length_segment by simp
  moreover have "take 1 (segment (tx_padding tx) p) = take n (segment (tx_padding tx) p)"
    if "length (on_wire c') = Suc (length (on_wire c))"
  proof -
    have "min (length (segment (tx_padding tx) p)) n = 1" using that n by simp
    then show ?thesis by (cases "n \<le> 1") (auto simp: min_def split: if_splits)
  qed
  ultimately show "tx_ongoing tx' \<or> on_wire c' = on_wire c @ map (Pair (tx_txid tx)) (segment (tx_padding tx) p)"
    "CanDriver_GetTxMailboxesFreeLevel (port_can c) \<noteq> 0 \<longrightarrow>
      on_wire c' = on_wire c @ map (Pair (tx_txid tx)) (take 1 (segment (tx_padding tx) p))"
    using n by (metis order_refl take_all)+
qed

text \<open>An answer that is handed to the sender.\<close>

definition sends_reply ::
  "app_port IsotpTx_t \<Rightarrow> app_port \<Rightarrow> u8 list \<Rightarrow> app_port IsotpTx_t \<Rightarrow> app_port \<Rightarrow> bool" where
  "sends_reply tx c p tx1 c1 \<longleftrightarrow>
     (let frames = map (Pair (tx_txid tx)) (segment (tx_padding tx) p) in
      (tx_ongoing tx1 \<and> tx_data tx1 = Some p \<and> tx_length tx1 = of_nat (length p) \<or> on_wire c1 = on_wire c @ frames) \<and>
      (CanDriver_GetTxMailboxesFreeLevel (port_can c) \<noteq> 0 \<longrightarrow> on_wire c1 = on_wire c @ take 1 frames) \<and>
      (\<forall>tx2 c2. tx_reach on_wire (tx1, c1) (tx2, c2) \<longrightarrow>
        (\<exists>n. on_wire c2 = on_wire c @ take n frames) \<and>
        (\<forall>tx3 c3. tx_ongoing tx2 \<and> IsotpTx_Poll tx2 c2 = (ISOTP_OK, tx3, c3) \<and> \<not> tx_ongoing tx3 \<longrightarrow>
          on_wire c3 = on_wire c @ frames)))"

lemma start_response_sends:
  assumes "app_ok bd m" and "\<not> m_isotp_serving m" and "0 < length p" and "length p \<le> 300"
    and "take (length p) (m_isotp_tx_buffer m) = p"
  defines "m' \<equiv> start_response (of_nat (length p)) m"
  shows "m_isotp_serving m' \<and> m_isotp_rx m' = m_isotp_rx m \<and> m_isotp_tx_buffer m' = m_isotp_tx_buffer m \<and>
    fst (m_uds m') = fst (m_uds m) \<and>
    sends_reply (m_isotp_tx m) (m_port m) p (m_isotp_tx m') (m_port m')"
proof -
  have ch: "tx_channel (m_isotp_tx m) = app_channel" "\<not> tx_ongoing (m_isotp_tx m)" "2 \<le> tx_n_as_ms (m_isotp_tx m)"
    using assms(1,2) by (auto simp: app_ok_def app_core_def endpoints_ok_def ISOTP_DEFAULT_N_AS_MS_def)
  have len: "unat (of_nat (length p) :: u16) = length p"
    using assms(4) by (simp add: unat_of_nat)
  obtain r tx c where st: "IsotpTx_Start (m_isotp_tx m) (Some p) (of_nat (length p)) (m_port m) = (r, tx, c)"
    by (metis prod_cases3)
  have ok: "r = ISOTP_OK"
    using start_accepted [OF ch(1,2), of "of_nat (length p)" p "m_port m"] st len assms(3,4) by simp
  have m': "m' = (set_port c (m\<lparr>m_isotp_tx := tx\<rparr>))\<lparr>m_isotp_serving := True\<rparr>"
    using st ok len assms(5) by (simp add: m'_def start_response_def Let_def)
  note start = st [unfolded ok]
  have "sends_reply (m_isotp_tx m) (m_port m) p tx c"
    using app_port.transfer_prefix [OF ch(1) len start] transfer_complete(1) [OF ch(1) len ch(3) start]
      start_sends [OF ch(1) len ch(3) start] start_result [OF start]
    by (auto simp: sends_reply_def Let_def take_map)
  with m' show ?thesis by (simp add: set_port_def set_world_def)
qed

text \<open>The service with a request waiting: the reply in the buffer, handed to the sender.\<close>

definition answering :: "u8 list \<Rightarrow> app_world UdsEcu_t \<Rightarrow> app_main \<Rightarrow> app_main" where
  "answering reply ecu m =
     put_response reply ecu (m\<lparr>m_isotp_rx := (m_isotp_rx m)\<lparr>rx_message_ready := False, rx_message_length := 0\<rparr>\<rparr>)"

definition serving_ends :: "app_main \<Rightarrow> app_main" where
  "serving_ends m = (if \<not> IsotpTx_IsBusy (Some (m_isotp_tx m)) then m\<lparr>m_isotp_serving := False\<rparr> else m)"

lemma request_served:
  assumes "app_reachable bd m" and "m1 = poll_endpoints m" and "\<not> m_isotp_serving m1" and "rx_message_ready (m_isotp_rx m1)"
    and "request = take (unat (rx_message_length (m_isotp_rx m1))) (the (rx_buffer (m_isotp_rx m1)))"
    and "UdsEcu_Process (m_uds m1) now (Some request) (of_nat (length request)) (Some 300) = ((res, reply), ecu)"
    and "reply \<noteq> []"
  shows "app_ok bd (answering reply ecu m1)" and "\<not> m_isotp_serving (answering reply ecu m1)" and "length reply \<le> 300"
    and "take (length reply) (m_isotp_tx_buffer (answering reply ecu m1)) = reply"
    and "APP_ServiceIsotp now m = serving_ends (start_response (of_nat (length reply)) (answering reply ecu m1))"
    and "m_port (answering reply ecu m1) = m_port m1"
proof -
  let ?rx = "(m_isotp_rx m1)\<lparr>rx_message_ready := False, rx_message_length := 0\<rparr>" let ?m1 = "m1\<lparr>m_isotp_rx := ?rx\<rparr>"
  have ok: "app_ok bd m1" unfolding assms(2) by (rule poll_endpoints_ok [OF reachable_ok [OF assms(1)]])
  then have rxo: "rx_ok (m_isotp_rx m1)" "rx_buffer_size (m_isotp_rx m1) = 300"
    by (simp_all add: app_ok_def app_core_def endpoints_ok_def APP_ISOTP_RX_BUFFER_SIZE_def)
  then have "\<not> 300 < rx_message_length (m_isotp_rx m1)" using assms(4) by (simp add: rx_ok_def not_less)
  then have rd: "IsotpRx_Read (m_isotp_rx m1) (Some APP_ISOTP_RX_BUFFER_SIZE) = (ISOTP_OK, request, ?rx)"
    using assms(4,5) by (simp add: IsotpRx_Read_def APP_ISOTP_RX_BUFFER_SIZE_def Let_def)
  note place = rx_read_place [OF rd rxo(1)]
  have ok1: "app_ok bd ?m1" using rx_place_core [of bd "m_can m1" m1 ?rx] place ok by (simp add: app_ok_def)
  then have uds: "uds_ok (bd_flash_size bd) (m_uds m1)" by (simp add: app_ok_def app_core_def)
  note ecu = uds_process_ok [OF assms(6) uds]
  then show "m_port (answering reply ecu m1) = m_port m1" by (simp add: answering_def put_response_def)
  obtain sid where "reply_ok sid 300 (res, reply)" using ecu.process_reply [OF assms(6) [unfolded UdsEcu_Process_def]] by blast
  then have len: "length reply \<le> 300" and res: "res = UDS_PROCESS_RESPONSE \<or> res = UDS_PROCESS_RESPONSE_PENDING"
    using assms(7) by (auto simp: reply_ok_def split: if_splits)
  then show "length reply \<le> 300" by simp
  show ok2: "app_ok bd (answering reply ecu m1)"
    unfolding answering_def
    by (rule put_response_ok [OF ok1]) (use ecu assms(3) len in \<open>simp_all add: APP_ISOTP_TX_BUFFER_SIZE_def\<close>)
  show buf: "take (length reply) (m_isotp_tx_buffer (answering reply ecu m1)) = reply"
    by (simp add: answering_def put_response_def buf_write_def)
  show off: "\<not> m_isotp_serving (answering reply ecu m1)" using assms(3) by (simp add: answering_def put_response_def)
  note sent = start_response_sends [OF ok2 off _ len buf]
  have "serve_request now m1 = start_response (of_nat (length reply)) (answering reply ecu m1)"
    using assms(3,4,6,7) rd res
    by (simp add: serve_request_def IsotpRx_MessageReady_def APP_ISOTP_TX_BUFFER_SIZE_def answering_def Let_def)
  then show "APP_ServiceIsotp now m = serving_ends (start_response (of_nat (length reply)) (answering reply ecu m1))"
    using sent assms(2,7) by (simp add: APP_ServiceIsotp_def serve_pending_def serving_ends_def Let_def)
qed

subsection \<open>A node that hears a request\<close>

definition node_rx :: "app_port IsotpRx_t" where
  "node_rx = fst (IsotpRx_Init blank_rx (Some app_channel) (IsotpConfig_Init 0x7E9 0x7E1 (Some sample_rxbuf) 300) no_buffers)"

definition node_tx :: "app_port IsotpTx_t" where
  "node_tx = IsotpTx_Init blank_tx (Some app_channel) (IsotpConfig_Init 0x7E9 0x7E1 (Some sample_rxbuf) 300)"

lemma init_can_queues:
  assumes "init_can bd hw m = Some m'"
  shows "\<exists>d. m' = set_can d m \<and> drv_rx_callback d = Some 0 \<and>
    drv_priority_rx_queue d = CanRxQueue_Init (drv_priority_rx_queue (m_can m)) \<and>
    drv_rx_queue d = CanRxQueue_Init (drv_rx_queue (m_can m))"
proof -
  obtain d where d: "CanDriver_Init (m_can m) (Some hw) (bd_prescaler bd) (bd_time_seg1 bd) (bd_time_seg2 bd) 0 (Some 0) = (HAL_OK, d)"
    using assms by (auto simp: init_can_def split: prod.splits if_splits)
  obtain d2 where d2: "CanDriver_Start (CanDriver_AttachHealth d (Some (CanHealth_Init None))) = (HAL_OK, d2)" "m' = set_can d2 m"
    using assms d by (auto simp: init_can_def split: prod.splits if_splits)
  from init_ok [OF d] obtain hw' where hw: "drv_handle d = Some hw'" "drv_rx_callback d = Some 0"
    "drv_priority_rx_queue d = CanRxQueue_Init (drv_priority_rx_queue (m_can m))"
    "drv_rx_queue d = CanRxQueue_Init (drv_rx_queue (m_can m))" by blast
  then have "drv_handle (CanDriver_AttachHealth d (Some (CanHealth_Init None))) = Some hw'"
    by (simp add: CanDriver_AttachHealth_def)
  from start_ok [OF d2(1) this] hw d2(2) show ?thesis by (auto simp: CanDriver_AttachHealth_def)
qed

lemma sample_node_fields:
  "m_isotp_rx sample_node = node_rx" "m_isotp_tx sample_node = node_tx" "\<not> m_isotp_serving sample_node"
  "drv_rx_callback (m_can sample_node) = Some 0"
  "drv_priority_rx_queue (m_can sample_node) = CanRxQueue_Init sample_queue"
  "drv_rx_queue (m_can sample_node) = CanRxQueue_Init sample_queue"
proof -
  let ?m0 = "init_params board_f103 sample_globals"
  have any: "storage_any (bd_flash_size board_f103) (m_world ?m0)" "m_port ?m0 = m_port sample_globals"
    using init_params_any [OF sample_zeroed] by simp_all
  have keep: "m_isotp_rx ?m0 = blank_rx" "m_isotp_tx ?m0 = blank_tx" "\<not> m_isotp_serving ?m0"
    "fst (m_uds ?m0) = blank_server"
    by (simp_all add: init_params_def sample_globals_def case_prod_beta)
  obtain m1 where m1: "init_can board_f103 sample_hw ?m0 = Some m1"
    and w: "init_watchdogs board_f103 (init_isotp board_f103 sample_rxbuf no_buffers (init_uds board_f103 m1)) = Some sample_node"
    using sample_boots by (auto simp: sample_boot_def sample_node_def main_init_def split: option.splits)
  from init_can_queues [OF m1] obtain d where d: "m1 = set_can d ?m0" "drv_rx_callback d = Some 0"
    "drv_priority_rx_queue d = CanRxQueue_Init (drv_priority_rx_queue (m_can ?m0))"
    "drv_rx_queue d = CanRxQueue_Init (drv_rx_queue (m_can ?m0))" by blast
  have "mem_ok (fst (m_uds m1))" "storage_any (bd_flash_size board_f103) (m_world m1)"
    using keep(4) blank_mem_ok any(1) d(1) by (simp_all add: set_can_def set_port_def storage_any_def storage_ok_def)
  from init_uds_ok [OF this] have port: "m_port (init_uds board_f103 m1) = m_port m1" by simp
  have watch: "m_isotp_rx m' = m_isotp_rx x \<and> m_isotp_tx m' = m_isotp_tx x \<and> m_isotp_serving m' = m_isotp_serving x \<and>
      m_can m' = m_can x" if "init_watchdogs bd x = Some m'" for bd x m'
    using that by (auto simp: init_watchdogs_def get_tick_def set_watchdog_def set_clock_def set_port_def Let_def
        split: prod.splits if_splits)
  have can: "m_can ?m0 = sample_driver\<lparr>drv_handle := None, drv_rx_callback := None, drv_health := None\<rparr>"
    using any(2) by (simp add: sample_globals_def sample_world_def)
  show "m_isotp_rx sample_node = node_rx" "m_isotp_tx sample_node = node_tx" "\<not> m_isotp_serving sample_node"
    using watch [OF w] keep d(1)
    by (simp_all add: init_isotp_def init_uds_def Let_def node_rx_def node_tx_def board_f103_def APP_ISOTP_RX_BUFFER_SIZE_def
        set_can_def set_port_def)
  show "drv_rx_callback (m_can sample_node) = Some 0"
    "drv_priority_rx_queue (m_can sample_node) = CanRxQueue_Init sample_queue"
    "drv_rx_queue (m_can sample_node) = CanRxQueue_Init sample_queue"
    using watch [OF w] port d can by (simp_all add: init_isotp_def Let_def sample_driver_def)
qed

definition request_hw :: can_hw where
  "request_hw = sample_hw\<lparr>hw_fifo0 := [(\<lparr>rxh_StdId = 0x7E1, rxh_ExtId = 0, rxh_ext = False, rxh_DLC = 8\<rparr>,
     [2, 0x3E, 0, 0xCC, 0xCC, 0xCC, 0xCC, 0xCC])], hw_fifo1 := []\<rparr>"

text \<open>The frame arrives, the interrupt queues it, the main loop dispatches it.\<close>

definition hearing_node :: app_main where
  "hearing_node = HAL_CAN_RxFifoMsgPendingCallback (set_can ((m_can sample_node)\<lparr>drv_handle := Some request_hw\<rparr>) sample_node)"

definition asked_node :: app_main where
  "asked_node = (case CanDriver_ProcessRx (app_callbacks board_f103) (m_can hearing_node, hearing_node) of
     Some (d, m) \<Rightarrow> set_can d m | None \<Rightarrow> hearing_node)"

lemma asked_node_reachable: "app_reachable board_f103 asked_node \<and> \<not> m_reset asked_node"
proof -
  let ?m = "set_can ((m_can sample_node)\<lparr>drv_handle := Some request_hw\<rparr>) sample_node"
  have "app_reachable board_f103 ?m" "\<not> m_reset ?m"
    using sample_node_reachable by (auto intro: reach_other step_bus)
  then have "app_reachable board_f103 hearing_node"
    unfolding hearing_node_def by (intro reach_other [OF _ step_rx_irq])
  moreover have "\<not> m_reset hearing_node"
    using sample_node_reachable by (simp add: hearing_node_def HAL_CAN_RxFifoMsgPendingCallback_def)
  ultimately have h: "app_reachable board_f103 hearing_node" "\<not> m_reset hearing_node" by simp_all
  from process_rx_ok [OF reachable_ok [OF h(1)]] obtain d m where
    rx: "CanDriver_ProcessRx (app_callbacks board_f103) (m_can hearing_node, hearing_node) = Some (d, m)" "\<not> m_reset m"
    using h(2) by metis
  from reach_other [OF h(1) step_rx [OF h(2) rx(1)]] rx show ?thesis by (simp add: asked_node_def)
qed

definition request_slot :: CanRxFrame_t where
  "request_slot = \<lparr>frame_id = 0x7E1, frame_length = 8, frame_data = [2, 0x3E, 0, 0xCC, 0xCC, 0xCC, 0xCC, 0xCC]\<rparr>"

lemma hearing_node_queue:
  "m_can hearing_node = (m_can sample_node)\<lparr>drv_handle := Some (request_hw\<lparr>hw_fifo0 := [], hw_fifo1 := []\<rparr>),
     drv_priority_rx_queue := (CanRxQueue_Init sample_queue)\<lparr>q_frames := (q_frames sample_queue)[0 := request_slot], q_head := 1\<rparr>\<rparr>"
proof -
  have ready: "hal_ready request_hw" "hal_ready (request_hw\<lparr>hw_fifo0 := []\<rparr>)"
    by (simp_all add: hal_ready_def request_hw_def sample_hw_def)
  have one: "rxq.push_all (CanRxQueue_Init sample_queue) (map rx_push_event (fifo_of CAN_RX_FIFO0 request_hw)) =
      (CanRxQueue_Init sample_queue)\<lparr>q_frames := (q_frames sample_queue)[0 := request_slot], q_head := 1\<rparr>"
    by (simp add: fifo_of_def request_hw_def rx_push_event_def rx_header_id_def push_event_def CanRxQueue_Push_def
        CanRxQueue_Init_def CAN_RX_QUEUE_MAX_DATA_def CAN_RX_QUEUE_DEPTH_def next_slot_def buf_write_def request_slot_def Let_def)
  have two: "fifo_of CAN_RX_FIFO1 (request_hw\<lparr>hw_fifo0 := []\<rparr>) = []" by (simp add: fifo_of_def request_hw_def)
  let ?d = "(m_can sample_node)\<lparr>drv_handle := Some request_hw\<rparr>"
  have "CanDriver_RxIrqHandler ?d = ?d\<lparr>drv_handle := Some (request_hw\<lparr>hw_fifo0 := [], hw_fifo1 := []\<rparr>),
      drv_priority_rx_queue := (CanRxQueue_Init sample_queue)\<lparr>q_frames := (q_frames sample_queue)[0 := request_slot], q_head := 1\<rparr>\<rparr>"
    using irq_drain [OF ready(1), of CAN_RX_FIFO0] irq_drain [OF ready(2), of CAN_RX_FIFO1] one two sample_node_fields(5)
    by (simp add: CanDriver_RxIrqHandler_def Let_def)
  then show ?thesis by (simp add: hearing_node_def HAL_CAN_RxFifoMsgPendingCallback_def)
qed

definition asked_rx :: "app_port IsotpRx_t" where
  "asked_rx = node_rx\<lparr>rx_buffer := Some (buf_write sample_rxbuf 0 [0x3E, 0]), rx_message_length := 2, rx_message_ready := True\<rparr>"

lemma node_rx_takes:
  "IsotpRx_OnFrame node_rx (Some (frame_data request_slot)) c = (ISOTP_OK, asked_rx, c)"
  by (simp add: IsotpRx_OnFrame_def rx_on_single_frame_def request_slot_def node_rx_def asked_rx_def IsotpRx_Init_def
      IsotpConfig_Init_def blank_rx_def ISOTP_PCI_SF_def ISOTP_SF_PAYLOAD_MAX_def Let_def)

lemma can_fields [simp]:
  "m_isotp_rx (set_can d m) = m_isotp_rx m" "m_isotp_tx (set_can d m) = m_isotp_tx m"
  "m_isotp_serving (set_can d m) = m_isotp_serving m"
  by (simp_all add: set_can_def set_port_def)

lemma node_takes_request:
  assumes "m_isotp_rx m = node_rx"
  defines "m' \<equiv> APP_OnCanRx board_f103 0x7E1 (frame_data request_slot) 8 m"
  shows "m_isotp_rx m' = asked_rx \<and> m_isotp_tx m' = m_isotp_tx m \<and> m_isotp_serving m' = m_isotp_serving m \<and>
    m_can m' = m_can m"
proof -
  have "drop_bit 4 (frame_data request_slot ! 0) \<noteq> ISOTP_PCI_FC" by (simp add: request_slot_def ISOTP_PCI_FC_def)
  then have "Isotp_RouteFrame tx (Some (m_isotp_rx m)) (Some (frame_data request_slot)) c = (ISOTP_OK, tx, Some asked_rx, c)" for tx c
    using assms(1) node_rx_takes by (simp add: Isotp_RouteFrame_def)
  then show ?thesis
    by (simp add: m'_def APP_OnCanRx_def board_f103_def APP_CAN_ID_def route_frame_def set_port_def Let_def)
qed

lemma asked_node_fields:
  "m_isotp_rx asked_node = asked_rx \<and> m_isotp_tx asked_node = node_tx \<and> \<not> m_isotp_serving asked_node \<and>
   drv_handle (m_can asked_node) = Some (request_hw\<lparr>hw_fifo0 := [], hw_fifo1 := []\<rparr>)"
proof -
  note hw = hearing_node_queue
  let ?d = "m_can hearing_node" let ?q = "drv_priority_rx_queue ?d"
  have len: "0 < length (q_frames sample_queue)" by (simp add: sample_queue_def CanRxQueue_Init_def)
  have pop: "CanRxQueue_Pop ?q = (Some request_slot, ?q\<lparr>q_tail := 1\<rparr>)"
    using len hw by (simp add: CanRxQueue_Pop_def CanRxQueue_Init_def next_slot_def CAN_RX_QUEUE_DEPTH_def)
  let ?d1 = "?d\<lparr>drv_priority_rx_queue := ?q\<lparr>q_tail := 1\<rparr>\<rparr>"
  let ?m = "APP_OnCanRx board_f103 0x7E1 (frame_data request_slot) 8 (set_can ?d1 hearing_node)"
  have rx: "m_isotp_rx hearing_node = node_rx" "m_isotp_tx hearing_node = node_tx" "\<not> m_isotp_serving hearing_node"
    using sample_node_fields by (simp_all add: hearing_node_def HAL_CAN_RxFifoMsgPendingCallback_def set_can_def set_port_def)
  have m: "m_isotp_rx ?m = asked_rx" "m_isotp_tx ?m = node_tx" "\<not> m_isotp_serving ?m" "m_can ?m = ?d1"
    using node_takes_request [of "set_can ?d1 hearing_node"] rx by simp_all
  have empty: "CanRxQueue_Pop (?q\<lparr>q_tail := 1\<rparr>) = (None, ?q\<lparr>q_tail := 1\<rparr>)"
    "CanRxQueue_Pop (CanRxQueue_Init sample_queue) = (None, CanRxQueue_Init sample_queue)"
    using hw by (simp_all add: CanRxQueue_Pop_def CanRxQueue_Init_def)
  have cb: "app_callbacks board_f103 0 (frame_id request_slot) (frame_data request_slot) (ucast (frame_length request_slot))
      (?d1, hearing_node) = (?d1, ?m)"
    using m(4) by (simp add: app_callbacks_def request_slot_def Let_def)
  have "process_priority (app_callbacks board_f103 0) (?d, hearing_node) = Some (?d1, ?m)"
    using pop cb empty(1) by (subst process_priority.simps, simp, subst process_priority.simps) simp
  moreover have "process_normal (app_callbacks board_f103 0) (?d1, ?m) = Some (?d1, ?m)"
    using hw empty(2) sample_node_fields(6) by (subst process_normal.simps) simp
  ultimately have eq: "asked_node = set_can ?d1 ?m"
    using hw sample_node_fields(4) by (simp add: asked_node_def CanDriver_ProcessRx_def)
  show ?thesis unfolding eq using m hw by simp
qed

lemma asked_polled: "m_isotp_rx (poll_endpoints asked_node) = asked_rx \<and> m_isotp_tx (poll_endpoints asked_node) = node_tx \<and>
    \<not> m_isotp_serving (poll_endpoints asked_node) \<and> m_can (poll_endpoints asked_node) = m_can asked_node"
proof -
  have "IsotpTx_Poll node_tx c = (ISOTP_OK, node_tx, c)" "IsotpRx_Poll asked_rx c = (ISOTP_OK, asked_rx, c)" for c
    by (simp_all add: IsotpTx_Poll_def IsotpRx_Poll_def node_tx_def IsotpTx_Init_def asked_rx_def node_rx_def IsotpRx_Init_def
        blank_rx_def blank_tx_def Let_def)
  with asked_node_fields show ?thesis by (simp add: poll_endpoints_def set_port_def set_world_def Let_def)
qed

lemma asked_message:
  "rx_message_ready asked_rx" "[0x3E, 0] = take (unat (rx_message_length asked_rx)) (the (rx_buffer asked_rx))"
proof -
  have "take 2 (buf_write sample_rxbuf 0 [0x3E, 0]) = [0x3E, 0]"
    by (simp add: buf_write_def sample_rxbuf_def)
  then show "rx_message_ready asked_rx" "[0x3E, 0] = take (unat (rx_message_length asked_rx)) (the (rx_buffer asked_rx))"
    by (simp_all add: asked_rx_def)
qed

lemma tester_present_answered:
  "\<exists>ecu'. UdsEcu_Process ecu now (Some [0x3E, 0]) (of_nat (length [0x3E, 0 :: u8])) (Some 300) = ((UDS_PROCESS_RESPONSE, [0x7E, 0]), ecu')"
  by (simp add: UdsEcu_Process_def UdsServer_Process_def uds_service_def UDS_SID_DIAGNOSTIC_SESSION_CONTROL_def
      UDS_SID_READ_DATA_BY_IDENTIFIER_def UDS_SID_SECURITY_ACCESS_def UDS_SID_WRITE_DATA_BY_IDENTIFIER_def
      UDS_SID_ROUTINE_CONTROL_def UDS_SID_TESTER_PRESENT_def UdsServer_TesterPresent_def UDS_SUBFUNCTION_MASK_def
      UDS_SUPPRESS_POSITIVE_RESPONSE_def positive_reply_def Let_def)

lemma node_tx_busy:
  assumes "drv_handle (port_can c) = Some (request_hw\<lparr>hw_fifo0 := [], hw_fifo1 := []\<rparr>)"
  shows "tx_ongoing (fst (snd (IsotpTx_Start node_tx (Some [0x7E, 0]) 2 c)))"
  using assms
  by (simp add: IsotpTx_Start_def node_tx_def IsotpTx_Init_def IsotpConfig_Init_def blank_tx_def tx_begin_def isotp_send_sf_def ISOTP_PCI_SF_def
      isotp_tx_schedule_frame_def isotp_tx_service_enqueue_def channel_send_def isotp_tick_def app_channel_def
      APP_IsotpTick_def APP_IsotpSend_def CanDriver_SendStd_def request_hw_def sample_hw_def
      HAL_CAN_GetTxMailboxesFreeLevel_def hal_ready_def HAL_CAN_AddTxMessage_def isotp_note_frame_sent_def isotp_tx_pending_def
      channel_pending_def APP_IsotpTxPending_def CanDriver_IsTxPending_def HAL_CAN_IsTxMessagePending_def pad_to_def
      ISOTP_MAX_TOTAL_LENGTH_def ISOTP_MAX_SINGLE_FRAME_def ISOTP_SF_PAYLOAD_MAX_def Let_def case_prod_beta)

text \<open>The node while its answer is on the way.\<close>

definition answered_node :: app_main where
  "answered_node = APP_ServiceIsotp 9 asked_node"

lemma answered_node_busy: "app_reachable board_f103 answered_node \<and> IsotpTx_IsBusy (Some (m_isotp_tx answered_node))"
proof -
  let ?m1 = "poll_endpoints asked_node"
  obtain ecu where ecu: "UdsEcu_Process (m_uds ?m1) 9 (Some [0x3E, 0]) (of_nat (length [0x3E, 0 :: u8])) (Some 300) =
      ((UDS_PROCESS_RESPONSE, [0x7E, 0]), ecu)" using tester_present_answered by blast
  let ?m2 = "answering [0x7E, 0] ecu ?m1"
  have "\<not> m_isotp_serving ?m1" "rx_message_ready (m_isotp_rx ?m1)"
    "[0x3E, 0] = take (unat (rx_message_length (m_isotp_rx ?m1))) (the (rx_buffer (m_isotp_rx ?m1)))"
    using asked_polled asked_message by simp_all
  note served = request_served [OF conjunct1 [OF asked_node_reachable] refl this ecu]
  have buf: "take 2 (m_isotp_tx_buffer ?m2) = [0x7E, 0]" using served(4) by (simp add: numeral_2_eq_2)
  have "drv_handle (port_can (m_port ?m2)) = Some (request_hw\<lparr>hw_fifo0 := [], hw_fifo1 := []\<rparr>)"
    using served(6) asked_polled asked_node_fields by simp
  moreover have "m_isotp_tx ?m2 = node_tx" using asked_polled by (simp add: answering_def put_response_def)
  ultimately have "tx_ongoing (m_isotp_tx (start_response 2 ?m2))"
    using node_tx_busy [of "m_port ?m2"] buf by (simp add: start_response_def set_port_def Let_def case_prod_beta)
  then have busy: "IsotpTx_IsBusy (Some (m_isotp_tx answered_node))"
    using served(5) by (simp add: answered_node_def serving_ends_def IsotpTx_IsBusy_def)
  moreover have "app_reachable board_f103 answered_node"
    unfolding answered_node_def using asked_node_reachable by (intro reach_other [OF _ step_isotp]) simp_all
  ultimately show ?thesis by simp
qed

subsection \<open>Claims\<close>

text \<open>C7: While the sender still has bytes to send, the application is serving that response and serves
  no other, and the bytes the sender will read from the response buffer are the bytes it was started
  with: no later answer overwrites a response that is on its way.\<close>

theorem response_is_not_overwritten:
  assumes "app_reachable bd m" and "IsotpTx_IsBusy (Some (m_isotp_tx m))"
  shows "m_isotp_serving m \<and> serve_pending m = m \<and> serve_request now m = m \<and>
    tx_data (m_isotp_tx m) = Some (take (unat (tx_length (m_isotp_tx m))) (m_isotp_tx_buffer m)) \<and>
    unat (tx_length (m_isotp_tx m)) \<le> length (m_isotp_tx_buffer m)"
  using reachable_ok [OF assms(1)] assms(2)
  by (auto simp: app_ok_def app_core_def endpoints_ok_def IsotpTx_IsBusy_def serve_pending_def serve_request_def)

theorem response_is_not_overwritten_witness:
  "m_isotp_serving answered_node \<and> serve_request 10 answered_node = answered_node"
  using response_is_not_overwritten [of board_f103 answered_node 10] answered_node_busy by simp

text \<open>C6: A request is answered by the server's reply and nothing else: when a complete message waits in
  the receiver, no response is being served and the server answers it with a reply of at least one
  byte, the service takes the message, keeps exactly the server's new state, holds the reply in the
  response buffer and has started sending it: its sender is busy with exactly that reply (or has
  already put all of it on the bus), and the first frame is on the bus when the controller has a free
  mailbox.  However the transfer then goes on, the frames on the bus are those that were there
  followed by a prefix of the segmentation of that reply under the node's response identifier, and
  when a poll ends the transfer with success they are all of it.\<close>

theorem request_is_answered:
  assumes "app_reachable bd m" and "m1 = poll_endpoints m" and "\<not> m_isotp_serving m1" and "rx_message_ready (m_isotp_rx m1)"
    and "request = take (unat (rx_message_length (m_isotp_rx m1))) (the (rx_buffer (m_isotp_rx m1)))"
    and "UdsEcu_Process (m_uds m1) now (Some request) (of_nat (length request)) (Some 300) = ((res, reply), ecu)"
    and "reply \<noteq> []" and "m' = APP_ServiceIsotp now m"
  shows "\<not> rx_message_ready (m_isotp_rx m') \<and> fst (m_uds m') = fst ecu \<and> length reply \<le> 300 \<and>
    take (length reply) (m_isotp_tx_buffer m') = reply \<and>
    (let frames = map (Pair (tx_txid (m_isotp_tx m1))) (segment (tx_padding (m_isotp_tx m1)) reply) in
      (IsotpTx_IsBusy (Some (m_isotp_tx m')) \<and> m_isotp_serving m' \<and> tx_data (m_isotp_tx m') = Some reply \<and>
         tx_length (m_isotp_tx m') = of_nat (length reply) \<or>
       on_wire (m_port m') = on_wire (m_port m1) @ frames) \<and>
      (CanDriver_GetTxMailboxesFreeLevel (m_can m1) \<noteq> 0 \<longrightarrow>
         on_wire (m_port m') = on_wire (m_port m1) @ take 1 frames) \<and>
      (\<forall>tx c. tx_reach on_wire (m_isotp_tx m', m_port m') (tx, c) \<longrightarrow>
        (\<exists>n. on_wire c = on_wire (m_port m1) @ take n frames) \<and>
        (\<forall>tx' c'. tx_ongoing tx \<and> IsotpTx_Poll tx c = (ISOTP_OK, tx', c') \<and> \<not> tx_ongoing tx' \<longrightarrow>
          on_wire c' = on_wire (m_port m1) @ frames)))"
proof -
  note req = request_served [OF assms(1-7)]
  note sent = start_response_sends [OF req(1,2) _ req(3,4)]
  let ?s = "start_response (of_nat (length reply)) (answering reply ecu m1)"
  have serving: "m_isotp_serving ?s" using sent assms(7) by simp
  then have busy: "m_isotp_serving m' = IsotpTx_IsBusy (Some (m_isotp_tx m'))" "m_port m' = m_port ?s"
    using req(5) assms(8) by (simp_all add: serving_ends_def)
  have tx: "m_isotp_tx (answering reply ecu m1) = m_isotp_tx m1" by (simp add: answering_def put_response_def)
  from req(5) assms(8) have m': "m_isotp_rx m' = m_isotp_rx (start_response (of_nat (length reply)) (answering reply ecu m1)) \<and>
      m_uds m' = m_uds (start_response (of_nat (length reply)) (answering reply ecu m1)) \<and>
      m_isotp_tx m' = m_isotp_tx (start_response (of_nat (length reply)) (answering reply ecu m1)) \<and>
      m_isotp_tx_buffer m' = m_isotp_tx_buffer (start_response (of_nat (length reply)) (answering reply ecu m1))"
    by (simp add: serving_ends_def)
  have "sends_reply (m_isotp_tx m1) (m_port m1) reply (m_isotp_tx m') (m_port m')"
    using sent assms(7) req(6) m' busy(2) tx by simp
  moreover have "\<not> rx_message_ready (m_isotp_rx m') \<and> fst (m_uds m') = fst ecu \<and>
      take (length reply) (m_isotp_tx_buffer m') = reply"
    using sent req m' assms(7) by (simp add: answering_def put_response_def)
  ultimately show ?thesis using req(3) busy(1) by (simp add: sends_reply_def IsotpTx_IsBusy_def Let_def) blast
qed

theorem request_is_answered_witness:
  "take 2 (m_isotp_tx_buffer (APP_ServiceIsotp 9 asked_node)) = [0x7E, 0] \<and>
   on_wire (m_port (APP_ServiceIsotp 9 asked_node)) =
     on_wire (m_port (poll_endpoints asked_node)) @ [(0x7E9, [2, 0x7E, 0, 0xCC, 0xCC, 0xCC, 0xCC, 0xCC])]"
proof -
  let ?m1 = "poll_endpoints asked_node"
  obtain ecu where "UdsEcu_Process (m_uds ?m1) 9 (Some [0x3E, 0]) (of_nat (length [0x3E, 0 :: u8])) (Some 300) =
      ((UDS_PROCESS_RESPONSE, [0x7E, 0]), ecu)" using tester_present_answered by blast
  moreover have "CanDriver_GetTxMailboxesFreeLevel (m_can ?m1) \<noteq> 0"
    using asked_polled asked_node_fields
    by (simp add: CanDriver_GetTxMailboxesFreeLevel_def HAL_CAN_GetTxMailboxesFreeLevel_def request_hw_def sample_hw_def hal_ready_def)
  moreover have "map (Pair (tx_txid node_tx)) (segment (tx_padding node_tx) [0x7E, 0]) =
      [(0x7E9, [2, 0x7E, 0, 0xCC, 0xCC, 0xCC, 0xCC, 0xCC])]"
    by (simp add: node_tx_def IsotpTx_Init_def IsotpConfig_Init_def ISOTP_DEFAULT_PADDING_def segment_def sf_frame_def
        pad_to_def eval_nat_numeral)
  ultimately show ?thesis
    using request_is_answered [OF conjunct1 [OF asked_node_reachable] refl, where request = "[0x3E, 0]" and now = 9 and
        res = UDS_PROCESS_RESPONSE and reply = "[0x7E, 0]" and ecu = ecu] asked_polled asked_message
    by (simp add: numeral_2_eq_2 Let_def)
qed

end
