(* ===== verification/AppReboot.thy ===== *)
theory AppReboot
  imports AppSample
begin

section \<open>A written value and a reboot\<close>

text \<open>
  The diagnostic server, the parameter storage, its log and the flash together: from the request that
  writes a value to the answer that reads it after the next start, and the erase routine on this storage.
\<close>

text \<open>C9: A value written through the diagnostic service survives a reboot: after a permitted write
  whose deferred answer was positive, a successful start of the storage on the flash it left and a
  fresh initialisation of the server, a read of that identifier returns exactly the bytes written.\<close>

theorem written_value_survives_reboot:
  fixes e :: "('x param_state_scheme) ecu_rest"
  assumes "mem_ok s" and "\<not> (srv_s3_active s \<and> UdsServer_TimeReached now (srv_s3_deadline_ms s))"
    and "write_allowed s (0x2E # a # b # v) i" and "length v \<le> 64" and "did_storage_save (srv_dids s ! i) = Some g"
    and "UdsServer_Process ecu_calls now (Some (0x2E # a # b # v)) (of_nat (3 + length v)) (Some cap) (s, e) = (reply1, s1, e1)"
    and "3 \<le> cap" and "ecu_flash fsize" and "ecu_env (AppParamStorage_GetUdsStorage fsize) hk (storage_ok fsize) e"
    and "UdsServer_PollPending ecu_calls (Some cap) (s1, e1) = ((UDS_PROCESS_RESPONSE, [0x6E, a, b]), s2, e2)"
    and "AppParamStorage_Init fsize (st_flash (ecu_app e2)) = (p3, f3)" and "aps_valid p3"
    and "mem_ok (fst ecu3)" and "st_params (ecu_app (snd ecu3)) = p3"
    and "UdsEcu_InitWithHooks ecu3 variant (Some (AppParamStorage_GetUdsStorage fsize)) hooks = (s4, e4 :: ('x param_state_scheme) ecu_rest)"
    and "k < 6" and "did_id (db_dids (UdsDidDb_Init variant) ! k) = be16 a b"
    and "length v \<le> unat (did_storage_capacity (db_dids (UdsDidDb_Init variant) ! k))"
    and "4 + length v \<le> unat cap4"
  shows "UdsServer_ReadDid s4 [0x22, a, b] cap4 = (UDS_PROCESS_RESPONSE, 0x62 # a # b # v)"
proof -
  let ?load = "AppParamStorage_GetUdsStorage fsize :: ('x param_state_scheme) UdsDidStorage_t"
  note deferred = write_is_deferred [OF assms(1-7)]
  have find: "UdsServer_FindDid s (be16 a b) = Some i" using assms(3) by (simp add: write_allowed_def)
  have i: "i < UDS_MAX_DIDS" "did_id (srv_dids s ! i) = be16 a b"
    using find_did_index [OF assms(1) find] find_did_Some [OF find] by simp_all
  obtain a2 where save: "app_param_save fsize (be16 a b) v (ecu_app e) = (True, a2)" and a2: "ecu_app e2 = a2"
    using poll_saved [OF deferred [THEN conjunct2, THEN conjunct2] assms(5) i(1) assms(4) assms(10)] deferred i(2) assms(9)
    by (auto simp: ecu_calls_def ecu_env_def AppParamStorage_GetUdsStorage_def Let_def split: prod.splits)
  have ok: "storage_ok fsize (ecu_app e)" using assms(9) by (simp add: ecu_env_def)
  note saved = save_step [OF ok save]
  have v: "v \<noteq> []" "length v \<le> 17"
    using save set_valid [of "app_io fsize"] by (auto simp: app_param_save_def PARAM_STORE_VALUE_MAX_def split: prod.splits)
  have again: "log_state_ok fl_cells (flash_valid fsize) (aps_log p3, f3, (params_of (ecu_app e))(be16 a b \<mapsto> v))"
    using storage_restarts [OF _ _ assms(11,12)] saved a2 found_erased
    by (auto simp: storage_ok_def log_state_ok_def)
  have get: "app_param_load (be16 a b) UDS_DID_VIN_CAPACITY (ecu_app (snd ecu3)) = (Some v, ecu_app (snd ecu3))"
    using state_get [OF again, of "be16 a b" v UDS_DID_VIN_CAPACITY] v assms(14)
    by (simp add: app_param_load_def UDS_DID_VIN_CAPACITY_def)
  have pure: "pure_load ?load (ecu_app (snd ecu3))"
    by (simp add: pure_load_def AppParamStorage_GetUdsStorage_def app_param_load_def)
  note start = ecu_start [OF assms(13) pure assms(15)]
  let ?d = "(db_dids (UdsDidDb_Init variant) ! k)\<lparr>did_storage_load := Some 0, did_storage_save := Some 0\<rparr>"
  have cap: "did_storage_capacity (db_dids (UdsDidDb_Init variant) ! k) \<noteq> 0" using assms(18) v(1) by (cases v) auto
  note db = db_stored [OF assms(16) cap]
  have entry: "srv_dids s4 ! k = did_store ?d v"
    using start assms(16,17) get attach_stored [OF assms(16,18) v(1), of ?load app_param_load "ecu_app (snd ecu3)"]
    by (simp add: AppParamStorage_GetUdsStorage_def)
  have dok: "did_ok (db_dids (UdsDidDb_Init variant) ! k)"
    using did_db_ok [of variant] assms(16) by (simp add: list_all_length)
  obtain mem where mem: "did_storage ?d = Some mem" "length mem = unat (did_storage_capacity ?d)"
    using db dok by (auto simp: did_ok_def)
  note stored = did_store_value [OF mem(1), of v]
  have "did_id (srv_dids s4 ! j) = did_id (db_dids (UdsDidDb_Init variant) ! j)" if "j < 6" for j
    using start that attach_same [of "db_dids (UdsDidDb_Init variant) ! j" ?load "ecu_app (snd ecu3)"] by (simp add: same_entry_def)
  then have found: "UdsServer_FindDid s4 (be16 a b) = Some k"
    using db_find [OF assms(16), of s4 variant] start assms(17) by simp
  have "did_read_sessions_mask (srv_dids s4 ! k) = 0" using entry db by (simp add: did_store_def Let_def)
  then show ?thesis
    using read_one [OF found, of cap4] entry stored mem(2) assms(18,19) v(2)
    by (simp add: UdsServer_SessionAllowed_def)
qed

text \<open>An F103 node with an erased page, its server unlocked.\<close>

definition page_rest :: "param_state ecu_rest" where
  "page_rest = \<lparr>ecu_did_db = \<lparr>db_dids = [], db_did_count = 0\<rparr>, ecu_variant = UDS_ECU_F103,
     ecu_storage = AppParamStorage_GetUdsStorage APP_PARAM_FLASH_SIZE_F103, ecu_has_storage = True,
     ecu_hooks = \<lparr>hook_self_test = None, hook_erase_params = None\<rparr>,
     ecu_self_test_context = \<lparr>ctx_owner = False, ctx_polls = 0, ctx_executed = False, ctx_result = 0\<rparr>,
     ecu_erase_context = \<lparr>ctx_owner = False, ctx_polls = 0, ctx_executed = False, ctx_result = 0\<rparr>,
     ecu_routines = [], ecu_app = page_state\<rparr>"

definition page_written :: "uds_reply \<times> param_state UdsEcu_t" where
  "page_written = UdsServer_PollPending ecu_calls (Some 8)
     (snd (UdsServer_Process ecu_calls 20 (Some [0x2E, 1, 0, 7, 8, 9]) 6 (Some 8) (fst logging, page_rest)))"

definition page_restarted :: "AppParamStorage_t \<times> flash_hw" where
  "page_restarted = AppParamStorage_Init APP_PARAM_FLASH_SIZE_F103 (st_flash (ecu_app (snd (snd page_written))))"

definition page_rebooted :: "param_state UdsEcu_t" where
  "page_rebooted = UdsEcu_InitWithHooks
     (blank_server, page_rest\<lparr>ecu_app := \<lparr>st_params = fst page_restarted, st_flash = snd page_restarted\<rparr>\<rparr>)
     UDS_ECU_F103 (Some (AppParamStorage_GetUdsStorage APP_PARAM_FLASH_SIZE_F103)) None"

lemma db_f103_custom:
  "did_id (db_dids (UdsDidDb_Init UDS_ECU_F103) ! 2) = 0x0100 \<and>
   length [7, 8, 9 :: u8] \<le> unat (did_storage_capacity (db_dids (UdsDidDb_Init UDS_ECU_F103) ! 2))"
  by code_simp

lemma page_saves:
  obtains st p where "app_param_save APP_PARAM_FLASH_SIZE_F103 0x0100 [7, 8, 9] page_state = (True, st)"
    "AppParamStorage_Init APP_PARAM_FLASH_SIZE_F103 (st_flash st) = (p, st_flash st)" "aps_valid p"
proof -
  let ?F = APP_PARAM_FLASH_SIZE_F103
  have nf: "no_fault 21 erased_page" by (simp add: no_fault_def erased_page_def)
  have agrees: "log_agrees (fl_cells erased_page) (aps_log (fst started))"
    using page_started by (simp add: log_state_ok_def)
  have known: "known_did 0x0100" by code_simp
  obtain log f where set: "ParamLog_Set (app_io ?F) (aps_log (fst started)) 0x0100 [7, 8, 9] erased_page = (True, log, f)"
    and again: "log_next_slot log < log_slot_count log \<longrightarrow> (\<exists>p. AppParamStorage_Init ?F f = (p, f) \<and> aps_valid p)"
    using save_carried_out [OF agrees _ _ _ _ nf known, of ?F "[7, 8, 9]"] page_started page_clean
    by (auto simp: f103 PARAM_STORE_VALUE_MAX_def)
  have "log_next_slot log < log_slot_count log" using set_next [OF set] page_started by simp
  with again set show ?thesis
    by (auto intro!: that simp: app_param_save_def page_state_def)
qed

theorem written_value_survives_reboot_witness:
  "fst page_written = (UDS_PROCESS_RESPONSE, [0x6E, 1, 0]) \<and>
   UdsServer_ReadDid (fst page_rebooted) [0x22, 1, 0] 20 = (UDS_PROCESS_RESPONSE, [0x62, 1, 0, 7, 8, 9])"
proof -
  let ?F = APP_PARAM_FLASH_SIZE_F103 and ?s = "fst logging"
  have st: "mem_ok ?s" "\<not> (srv_s3_active ?s \<and> UdsServer_TimeReached 20 (srv_s3_deadline_ms ?s))"
    "write_allowed ?s (0x2E # 1 # 0 # [7, 8, 9]) 2" "length [7, 8, 9 :: u8] \<le> 64"
    "did_storage_save (srv_dids ?s ! 2) = Some 0"
    using logging_state by (simp_all add: case_prod_unfold write_check_allowed)
  obtain p1 s1 e1 where 1: "UdsServer_Process ecu_calls 20 (Some (0x2E # 1 # 0 # [7, 8, 9])) (of_nat (3 + length [7, 8, 9 :: u8])) (Some 8)
      (?s, page_rest) = (p1, s1, e1)"
    by (metis prod_cases3)
  note deferred = write_is_deferred [OF st 1]
  obtain st' p where save: "app_param_save ?F 0x0100 [7, 8, 9] page_state = (True, st')"
    "AppParamStorage_Init ?F (st_flash st') = (p, st_flash st')" "aps_valid p" by (rule page_saves)
  have w: "srv_pending_did_write s1" "srv_pending_did_index s1 = of_nat 2" "srv_pending_did_length s1 = of_nat (length [7, 8, 9 :: u8])"
    "take (length [7, 8, 9 :: u8]) (srv_pending_did_data s1) = [7, 8, 9]" "srv_dids s1 = srv_dids ?s" "srv_did_count s1 = srv_did_count ?s"
    "e1 = page_rest"
    using deferred by (simp_all add: write_pending_def)
  have find: "UdsServer_FindDid ?s (be16 1 0) = Some 2" using st(3) by (simp add: write_allowed_def)
  have i: "2 < unat (srv_did_count ?s)" "did_id (srv_dids ?s ! 2) = 0x0100"
    using find_did_Some [OF find] by (simp_all add: be16_def)
  have mem: "did_storage (srv_dids ?s ! 2) \<noteq> None" "length [7, 8, 9 :: u8] \<le> unat (did_storage_capacity (srv_dids ?s ! 2))"
    using st(3) by (simp_all add: write_allowed_def)
  have call: "call_save ecu_calls 0 (did_id (srv_dids s1 ! 2)) [7, 8, 9] e1 = (True, page_rest\<lparr>ecu_app := st'\<rparr>)"
    using save(1) i(2) w(5,7) by (simp add: ecu_calls_def page_rest_def AppParamStorage_GetUdsStorage_def)
  obtain s2 where 2: "UdsServer_PollPending ecu_calls (Some 8) (s1, e1) =
      ((UDS_PROCESS_RESPONSE, [0x6E, 1, 0]), s2, page_rest\<lparr>ecu_app := st'\<rparr>)"
    using ecu.poll_commits [OF w(1,2) _ w(3,4) _ _ _ _ _ call, of 8] w(5,6) i mem st(5)
    by (simp add: positive_reply_def hi8_def lo8_def)
  have env: "ecu_env (AppParamStorage_GetUdsStorage ?F) (ecu_hooks page_rest) (storage_ok ?F) page_rest"
    using page_storage by (simp add: ecu_env_def page_rest_def)
  have eq: "page_written = ((UDS_PROCESS_RESPONSE, [0x6E, 1, 0]), s2, page_rest\<lparr>ecu_app := st'\<rparr>)"
    using 1 2 by (simp add: page_written_def)
  have rst: "page_restarted = (p, st_flash st')" unfolding page_restarted_def eq using save(2) by simp
  obtain s4 e4 where 4: "UdsEcu_InitWithHooks (blank_server, page_rest\<lparr>ecu_app := \<lparr>st_params = p, st_flash = st_flash st'\<rparr>\<rparr>)
     UDS_ECU_F103 (Some (AppParamStorage_GetUdsStorage ?F)) None = (s4, e4)" by fastforce
  then have reb: "page_rebooted = (s4, e4)" by (simp add: page_rebooted_def rst)
  have blank: "mem_ok blank_server" by code_simp
  have read: "UdsServer_ReadDid s4 [0x22, 1, 0] 20 = (UDS_PROCESS_RESPONSE, 0x62 # 1 # 0 # [7, 8, 9])"
    by (rule written_value_survives_reboot [OF st 1 _ f103(1) env 2 _ save(3) _ _ 4, where k = 2])
      (use blank save(2) db_f103_custom in \<open>simp_all add: be16_def\<close>)
  show ?thesis unfolding eq reb using read by simp
qed

section \<open>Erasing the parameters\<close>

text \<open>A cleared storage has nothing to load, and the next start finds it empty.\<close>

lemma cleared_store:
  "AppParamStorage_Clear fsize st = (True, st') \<Longrightarrow> log_store (aps_log (st_params st')) = ParamStore_Init"
  by (auto simp: AppParamStorage_Clear_def ParamLog_Clear_def append_image_def Let_def
      split: prod.splits if_splits option.splits)

lemma empty_get: "did \<noteq> 0 \<Longrightarrow> ParamStore_Get ParamStore_Init did n = None"
  using get_refines [OF store_init_ok, of did n]
  by (auto simp: ParamStore_Get_def find_entry_def find_None_iff ParamStore_Init_def blank_entry_def split: option.split)

lemma cleared_loads_nothing:
  "AppParamStorage_Clear fsize st = (True, st') \<Longrightarrow> loads_nothing (AppParamStorage_GetUdsStorage fsize) st'"
  using cleared_store [of fsize st st']
  by (simp add: loads_nothing_def AppParamStorage_GetUdsStorage_def app_param_load_def ParamLog_Get_def empty_get)

lemma cleared_restart:
  assumes "storage_any fsize st" and "AppParamStorage_Clear fsize st = (True, st')"
    and "AppParamStorage_Init fsize (st_flash st') = (p, f)" and "aps_valid p"
  shows "param_map (log_store (aps_log p)) = Map.empty"
proof -
  have "aps_log (st_params st) \<noteq> ParamLog_Init"
    using assms(2) by (auto simp: AppParamStorage_Clear_def ParamLog_Clear_def ParamLog_Init_def Let_def)
  then have ok: "storage_ok fsize st" using assms(1) by (simp add: storage_any_def)
  note c = clear_storage_step [OF ok assms(2)]
  have "log_state_ok fl_cells (flash_valid fsize) (aps_log p, f, found_map (fl_cells (st_flash st')) (aps_log (st_params st')) Map.empty)"
    by (rule storage_restarts [OF _ _ assms(3,4)]) (use c in \<open>auto simp: storage_ok_def log_state_ok_def\<close>)
  then show ?thesis using c found_erased by (simp add: log_state_ok_def)
qed


text \<open>The F103 node with a value stored, its server unlocked.\<close>

lemma faults_kept:
  "HAL_FLASH_Unlock f = (st, f') \<Longrightarrow> fl_faults f = [] \<Longrightarrow> fl_faults f' = []"
  "HAL_FLASH_Program i w f = (st, f') \<Longrightarrow> fl_faults f = [] \<Longrightarrow> fl_faults f' = []"
  by (auto simp: HAL_FLASH_Unlock_def HAL_FLASH_Program_def flash_fault_def split: if_splits)

lemma program_faults: "program_words i bs f = (ok, f') \<Longrightarrow> fl_faults f = [] \<Longrightarrow> fl_faults f' = []"
  by (induction i bs f rule: program_words.induct) (auto dest: faults_kept split: if_splits prod.splits)

lemma write_faults: "app_flash_write fsize off bs f = (ok, f') \<Longrightarrow> fl_faults f = [] \<Longrightarrow> fl_faults f' = []"
  by (auto simp: app_flash_write_def HAL_FLASH_Lock_def Let_def dest: faults_kept program_faults split: if_splits prod.splits)

lemma save_faults: "app_param_save fsize did data st = (ok, st') \<Longrightarrow> fl_faults (st_flash st) = [] \<Longrightarrow> fl_faults (st_flash st') = []"
  by (auto simp: app_param_save_def ParamLog_Set_def append_image_def app_io_def write_verified_def app_flash_read_def Let_def
      dest: write_faults split: if_splits prod.splits option.splits)

definition stored_world :: app_world where
  "stored_world = snd (app_param_save APP_PARAM_FLASH_SIZE_F103 0x0100 [7, 8, 9] sample_world)"

definition stored_rest :: "app_world ecu_rest" where
  "stored_rest = \<lparr>ecu_did_db = \<lparr>db_dids = [], db_did_count = 0\<rparr>, ecu_variant = UDS_ECU_F103,
     ecu_storage = AppParamStorage_GetUdsStorage APP_PARAM_FLASH_SIZE_F103, ecu_has_storage = True,
     ecu_hooks = app_hooks APP_PARAM_FLASH_SIZE_F103,
     ecu_self_test_context = \<lparr>ctx_owner = True, ctx_polls = 0, ctx_executed = False, ctx_result = 0\<rparr>,
     ecu_erase_context = \<lparr>ctx_owner = True, ctx_polls = 0, ctx_executed = False, ctx_result = 0\<rparr>,
     ecu_routines = [], ecu_app = stored_world\<rparr>"

lemma stored_world_holds:
  "storage_ok APP_PARAM_FLASH_SIZE_F103 stored_world \<and> params_of stored_world = [0x0100 \<mapsto> [7, 8, 9]] \<and>
   fst (AppParamStorage_Clear APP_PARAM_FLASH_SIZE_F103 stored_world)"
proof -
  let ?F = APP_PARAM_FLASH_SIZE_F103
  have ok: "storage_ok ?F sample_world"
    using page_started by (simp add: storage_ok_def sample_world_def f103 log_state_ok_def)
  have log: "log_agrees (fl_cells erased_page) (aps_log (fst started))"
    using page_started by (simp add: log_state_ok_def)
  have nf: "no_fault 21 erased_page" by (simp add: no_fault_def erased_page_def)
  have known: "known_did 0x0100" by code_simp
  obtain log f where set: "ParamLog_Set (app_io ?F) (aps_log (fst started)) 0x0100 [7, 8, 9] erased_page = (True, log, f)"
    and "log_next_slot log < log_slot_count log \<longrightarrow> (\<exists>p. AppParamStorage_Init ?F f = (p, f) \<and> aps_valid p)"
    using save_carried_out [OF log _ _ _ _ nf known, of ?F "[7, 8, 9]"] page_started page_clean
    by (auto simp: f103 PARAM_STORE_VALUE_MAX_def)
  have save: "app_param_save ?F 0x0100 [7, 8, 9] sample_world = (True, stored_world)"
    using set by (simp add: app_param_save_def sample_world_def stored_world_def)
  note saved = save_step [OF ok save]
  have "params_of sample_world = Map.empty" using page_started by (simp add: sample_world_def log_state_ok_def)
  moreover have "fl_faults (st_flash stored_world) = []"
    by (rule save_faults [OF save]) (simp add: sample_world_def erased_page_def)
  moreover have "aps_log (st_params stored_world) = log"
    using set by (simp add: app_param_save_def sample_world_def stored_world_def)
  then have "log_next_slot (aps_log (st_params stored_world)) < log_slot_count (aps_log (st_params stored_world))"
    using set_next [OF set] page_started by simp
  ultimately have "fst (ParamLog_Clear (app_io ?F) (aps_log (st_params stored_world)) (st_flash stored_world))"
    using saved by (intro app_flash.clear_succeeds [where fsize = ?F] app_write_slot_succeeds)
      (simp_all add: storage_ok_def no_fault_def)
  then have "fst (AppParamStorage_Clear ?F stored_world)"
    by (auto simp: AppParamStorage_Clear_def Let_def split: prod.splits)
  with saved \<open>params_of sample_world = Map.empty\<close> show ?thesis by simp
qed

lemma hooked_secure: "sec_ok (fst hooked)"
  by code_simp


end
