(* ===== verification/Bench.thy ===== *)
theory Bench
  imports IsotpCore UdsDidDb
begin

section \<open>The tools of the test bench\<close>

text \<open>
  \<open>background_probe.c\<close>, \<open>load_generator.c\<close>, \<open>stress_master.c\<close>, \<open>peer_tester.c\<close> and
  \<open>isotp_bench.c\<close>: the frames the two nodes load each other's bus with, and the counters that say
  what was lost, late or wrong.
\<close>

subsection \<open>The load generator\<close>

record LoadGeneratorStats_t =
  lg_period_us :: u32
  lg_target_frames :: u32
  lg_sequence :: u32
  lg_sent :: u32
  lg_tx_failures :: u32
  lg_missed_deadlines :: u32
  lg_completed :: u32

definition LoadGenerator_Init :: "u32 \<Rightarrow> u32 \<Rightarrow> LoadGeneratorStats_t" where
  "LoadGenerator_Init period_us target_frames =
     \<lparr>lg_period_us = period_us, lg_target_frames = target_frames, lg_sequence = 0, lg_sent = 0, lg_tx_failures = 0,
      lg_missed_deadlines = 0, lg_completed = 0\<rparr>"

definition LoadGenerator_BuildFrame :: "u32 \<Rightarrow> frame" where
  "LoadGenerator_BuildFrame n =
     [byte_of32 3 n, byte_of32 2 n, byte_of32 1 n, byte_of32 0 n, 0x55, 0x55, 0x55, 0x55]"

definition LoadGenerator_RecordAttempt :: "LoadGeneratorStats_t \<Rightarrow> bool \<Rightarrow> LoadGeneratorStats_t" where
  "LoadGenerator_RecordAttempt st sent =
     (let st1 = st\<lparr>lg_sequence := lg_sequence st + 1\<rparr> in
      if sent then
        let st2 = st1\<lparr>lg_sent := lg_sent st1 + 1\<rparr> in
        if lg_target_frames st2 \<noteq> 0 \<and> lg_target_frames st2 \<le> lg_sent st2 then st2\<lparr>lg_completed := 1\<rparr> else st2
      else st1\<lparr>lg_tx_failures := lg_tx_failures st1 + 1\<rparr>)"

definition LoadGenerator_RecordSkipped :: "LoadGeneratorStats_t \<Rightarrow> u32 \<Rightarrow> LoadGeneratorStats_t" where
  "LoadGenerator_RecordSkipped st skipped =
     st\<lparr>lg_missed_deadlines := lg_missed_deadlines st + skipped, lg_sequence := lg_sequence st + skipped\<rparr>"

subsection \<open>The background probe\<close>

record BackgroundProbe_t =
  bp_received :: u32
  bp_gaps :: u32
  bp_out_of_order :: u32
  bp_expected :: u32
  bp_last_sequence :: u32
  bp_initialized :: u32

definition BackgroundProbe_Reset :: "BackgroundProbe_t \<Rightarrow> BackgroundProbe_t" where
  "BackgroundProbe_Reset p =
     p\<lparr>bp_received := 0, bp_gaps := 0, bp_out_of_order := 0, bp_expected := 0, bp_last_sequence := 0, bp_initialized := 0\<rparr>"

definition BackgroundProbe_Init :: "BackgroundProbe_t \<Rightarrow> BackgroundProbe_t" where
  "BackgroundProbe_Init p = BackgroundProbe_Reset p"

definition BackgroundProbe_OnFrame :: "u32 \<Rightarrow> BackgroundProbe_t \<Rightarrow> BackgroundProbe_t" where
  "BackgroundProbe_OnFrame n p =
     (if bp_initialized p = 0 then
        p\<lparr>bp_initialized := 1, bp_received := 1, bp_expected := n + 1, bp_last_sequence := n\<rparr>
      else let p1 = p\<lparr>bp_last_sequence := n\<rparr>; delta = n - bp_expected p1 in
        if delta = 0 then p1\<lparr>bp_received := bp_received p1 + 1, bp_expected := n + 1\<rparr>
        else if delta < 0x80000000 then
          p1\<lparr>bp_gaps := bp_gaps p1 + delta, bp_received := bp_received p1 + 1, bp_expected := n + 1\<rparr>
        else p1\<lparr>bp_out_of_order := bp_out_of_order p1 + 1\<rparr>)"

text \<open>The branch of the receive callback that feeds the probe.\<close>

definition load_frame_sequence :: "frame \<Rightarrow> u32" where
  "load_frame_sequence data =
     be32 (data ! 0) (data ! 1) (data ! 2) (data ! 3)"

subsection \<open>The stress master\<close>

datatype StressMasterState_t = STRESS_MASTER_READY | STRESS_MASTER_RUNNING | STRESS_MASTER_DONE

record StressMasterStats_t =
  sm_state :: StressMasterState_t
  sm_requests_target :: u32
  sm_requests_sent :: u32
  sm_responses_ok :: u32
  sm_timeouts :: u32
  sm_invalid_responses :: u32
  sm_background_sent :: u32
  sm_background_missed :: u32
  sm_last_rtt_cycles :: u32
  sm_min_rtt_cycles :: u32
  sm_max_rtt_cycles :: u32
  sm_rtt_total_cycles :: u32
  sm_runtime_cycles :: u32
  sm_last_response_length :: u16
  sm_last_response :: "u8 list"

definition STRESS_REQUEST_DID :: u16 where "STRESS_REQUEST_DID = 0xF19A"

definition StressMaster_Init :: "u32 \<Rightarrow> StressMasterStats_t" where
  "StressMaster_Init requests_target =
     \<lparr>sm_state = STRESS_MASTER_READY, sm_requests_target = requests_target, sm_requests_sent = 0, sm_responses_ok = 0,
      sm_timeouts = 0, sm_invalid_responses = 0, sm_background_sent = 0, sm_background_missed = 0, sm_last_rtt_cycles = 0,
      sm_min_rtt_cycles = 0xFFFFFFFF, sm_max_rtt_cycles = 0, sm_rtt_total_cycles = 0, sm_runtime_cycles = 0,
      sm_last_response_length = 0, sm_last_response = replicate 8 0\<rparr>"

definition StressMaster_BuildRequest :: frame where
  "StressMaster_BuildRequest = [0x03, 0x22, 0xF1, 0x9A, 0, 0, 0, 0]"

definition StressMaster_BuildBackground :: "u32 \<Rightarrow> frame" where
  "StressMaster_BuildBackground n =
     [byte_of32 3 n, byte_of32 2 n, byte_of32 1 n, byte_of32 0 n, 0x55, 0x55, 0x55, 0x55]"

definition StressMaster_RecordRequest :: "StressMasterStats_t \<Rightarrow> StressMasterStats_t" where
  "StressMaster_RecordRequest st = st\<lparr>sm_state := STRESS_MASTER_RUNNING, sm_requests_sent := sm_requests_sent st + 1\<rparr>"

definition StressMaster_AcceptResponse ::
  "StressMasterStats_t \<Rightarrow> u32 \<Rightarrow> frame \<Rightarrow> u8 \<Rightarrow> u32 \<Rightarrow> bool \<times> StressMasterStats_t" where
  "StressMaster_AcceptResponse st received_id data data_length expected_id =
     (if received_id \<noteq> expected_id \<or> data_length \<noteq> 8 \<or> data ! 0 AND 0xF0 \<noteq> 0 \<or> data ! 0 AND 0x0F \<noteq> 7 \<or> data ! 1 \<noteq> 0x62 \<or>
         data ! 2 \<noteq> hi8 STRESS_REQUEST_DID \<or> data ! 3 \<noteq> lo8 STRESS_REQUEST_DID
      then (False, st)
      else (True, st\<lparr>sm_responses_ok := sm_responses_ok st + 1, sm_last_response_length := 8,
                     sm_last_response := take 8 data\<rparr>))"

definition StressMaster_RecordLatency :: "StressMasterStats_t \<Rightarrow> u32 \<Rightarrow> StressMasterStats_t" where
  "StressMaster_RecordLatency st cycles =
     st\<lparr>sm_last_rtt_cycles := cycles, sm_rtt_total_cycles := sm_rtt_total_cycles st + cycles,
        sm_min_rtt_cycles := (if cycles < sm_min_rtt_cycles st then cycles else sm_min_rtt_cycles st),
        sm_max_rtt_cycles := (if sm_max_rtt_cycles st < cycles then cycles else sm_max_rtt_cycles st)\<rparr>"

definition StressMaster_RecordTimeout :: "StressMasterStats_t \<Rightarrow> StressMasterStats_t" where
  "StressMaster_RecordTimeout st = st\<lparr>sm_timeouts := sm_timeouts st + 1\<rparr>"

definition StressMaster_Finish :: "StressMasterStats_t \<Rightarrow> StressMasterStats_t" where
  "StressMaster_Finish st = st\<lparr>sm_state := STRESS_MASTER_DONE\<rparr>"

subsection \<open>The peer tester\<close>

record PeerTesterStats_t =
  pt_interval_ms :: u32
  pt_response_timeout_ms :: u32
  pt_requests_sent :: u32
  pt_responses_ok :: u32
  pt_timeouts :: u32
  pt_tx_failures :: u32
  pt_invalid_responses :: u32
  pt_last_rtt_ms :: u32
  pt_min_rtt_ms :: u32
  pt_max_rtt_ms :: u32
  pt_rtt_total_ms :: u32

definition PEER_TEST_DID :: u16 where "PEER_TEST_DID = 0xF19A"

definition PeerTester_Init :: "u32 \<Rightarrow> u32 \<Rightarrow> PeerTesterStats_t" where
  "PeerTester_Init interval_ms response_timeout_ms =
     \<lparr>pt_interval_ms = interval_ms, pt_response_timeout_ms = response_timeout_ms, pt_requests_sent = 0, pt_responses_ok = 0,
      pt_timeouts = 0, pt_tx_failures = 0, pt_invalid_responses = 0, pt_last_rtt_ms = 0, pt_min_rtt_ms = 0xFFFFFFFF,
      pt_max_rtt_ms = 0, pt_rtt_total_ms = 0\<rparr>"

definition PeerTester_BuildRequest :: frame where
  "PeerTester_BuildRequest = [0x03, 0x22, hi8 PEER_TEST_DID, lo8 PEER_TEST_DID, 0xCC, 0xCC, 0xCC, 0xCC]"

definition PeerTester_RecordRequest :: "PeerTesterStats_t \<Rightarrow> PeerTesterStats_t" where
  "PeerTester_RecordRequest st = st\<lparr>pt_requests_sent := pt_requests_sent st + 1\<rparr>"

definition PeerTester_RecordTxFailure :: "PeerTesterStats_t \<Rightarrow> PeerTesterStats_t" where
  "PeerTester_RecordTxFailure st = st\<lparr>pt_tx_failures := pt_tx_failures st + 1\<rparr>"

definition PeerTester_RecordTimeout :: "PeerTesterStats_t \<Rightarrow> PeerTesterStats_t" where
  "PeerTester_RecordTimeout st = st\<lparr>pt_timeouts := pt_timeouts st + 1\<rparr>"

definition PeerTester_RecordLatency :: "PeerTesterStats_t \<Rightarrow> u32 \<Rightarrow> PeerTesterStats_t" where
  "PeerTester_RecordLatency st elapsed =
     st\<lparr>pt_last_rtt_ms := elapsed, pt_rtt_total_ms := pt_rtt_total_ms st + elapsed,
        pt_min_rtt_ms := (if elapsed < pt_min_rtt_ms st then elapsed else pt_min_rtt_ms st),
        pt_max_rtt_ms := (if pt_max_rtt_ms st < elapsed then elapsed else pt_max_rtt_ms st)\<rparr>"

definition PeerTester_AcceptResponse ::
  "PeerTesterStats_t \<Rightarrow> u32 \<Rightarrow> frame \<Rightarrow> u32 \<Rightarrow> u32 \<Rightarrow> bool \<times> PeerTesterStats_t" where
  "PeerTester_AcceptResponse st received_id data data_length expected_id =
     (if received_id \<noteq> expected_id \<or> data_length \<noteq> 8 \<or> data ! 0 \<noteq> 0x07 \<or> data ! 1 \<noteq> 0x62 \<or>
         data ! 2 \<noteq> hi8 PEER_TEST_DID \<or> data ! 3 \<noteq> lo8 PEER_TEST_DID
      then (False, st\<lparr>pt_invalid_responses := pt_invalid_responses st + 1\<rparr>)
      else (True, st\<lparr>pt_responses_ok := pt_responses_ok st + 1\<rparr>))"

subsection \<open>The transport bench\<close>

definition ISOTP_BENCH_STATUS_OK :: u8 where "ISOTP_BENCH_STATUS_OK = 0x5A"
definition ISOTP_BENCH_STATUS_FAIL :: u8 where "ISOTP_BENCH_STATUS_FAIL = 0xA5"

text \<open>The index is promoted to \<open>int\<close> before it is multiplied.\<close>

definition expected_byte :: "u16 \<Rightarrow> u8" where
  "expected_byte i = of_nat ((unat i * 7 + 3) mod 256)"

definition IsotpBench_BuildPayload :: "u8 list option \<Rightarrow> u16 \<Rightarrow> u8 list option" where
  "IsotpBench_BuildPayload p len =
     (case p of None \<Rightarrow> None
      | Some buf \<Rightarrow> Some (map (\<lambda>i. expected_byte (of_nat i)) [0..<unat len] @ drop (unat len) buf))"

text \<open>The result and \<open>*bad_index\<close>.\<close>

definition IsotpBench_ValidatePayload :: "u8 list option \<Rightarrow> u16 \<Rightarrow> u16 \<Rightarrow> bool \<times> u16" where
  "IsotpBench_ValidatePayload p len expected_len =
     (case p of None \<Rightarrow> (False, 0xFFFF)
      | Some buf \<Rightarrow> if len \<noteq> expected_len then (False, 0xFFFF)
          else case List.find (\<lambda>i. buf ! i \<noteq> expected_byte (of_nat i)) [0..<unat len] of
            Some i \<Rightarrow> (False, of_nat i) | None \<Rightarrow> (True, 0xFFFF))"

definition IsotpBench_BuildStatusFrame :: "u8 \<Rightarrow> frame" where
  "IsotpBench_BuildStatusFrame status = [0x01, status, 0xCC, 0xCC, 0xCC, 0xCC, 0xCC, 0xCC]"

subsection \<open>What the probe counts\<close>

lemma sequence_of_frame [simp]: "load_frame_sequence (LoadGenerator_BuildFrame n) = n"
  by (simp add: load_frame_sequence_def LoadGenerator_BuildFrame_def del: One_nat_def)

definition probe_load :: "u32 \<Rightarrow> nat list \<Rightarrow> BackgroundProbe_t \<Rightarrow> BackgroundProbe_t" where
  "probe_load start ks p =
     fold (\<lambda>k. BackgroundProbe_OnFrame (load_frame_sequence (LoadGenerator_BuildFrame (start + of_nat k)))) ks (BackgroundProbe_Init p)"

lemma missing_extend:
  assumes "sorted_wrt (<) ks" and "ks \<noteq> []" and "last ks < (k :: nat)"
  shows "card ({hd ks..k} - set (ks @ [k])) = card ({hd ks..last ks} - set ks) + (k - last ks - 1)"
proof -
  have le: "x \<le> last ks" if "x \<in> set ks" for x
    using assms(1) that by (cases ks rule: rev_cases) (auto simp: sorted_wrt_append)
  have hd: "hd ks \<le> last ks" using assms(2) by (simp add: le)
  have "{hd ks..k} - set (ks @ [k]) = ({hd ks..last ks} - set ks) \<union> {last ks<..<k}"
    using hd assms(3) le by fastforce
  then show ?thesis by (simp add: card_Un_disjoint disjoint_iff)
qed

lemma probe_load_state:
  assumes "sorted_wrt (<) ks" and "ks \<noteq> []" and "successively (\<lambda>a b. b - a \<le> 2 ^ 31) ks"
  shows "bp_initialized (probe_load start ks p) = 1 \<and> bp_out_of_order (probe_load start ks p) = 0 \<and>
    bp_received (probe_load start ks p) = of_nat (length ks) \<and>
    bp_gaps (probe_load start ks p) = of_nat (card ({hd ks..last ks} - set ks)) \<and>
    bp_expected (probe_load start ks p) = start + of_nat (last ks) + 1 \<and>
    bp_last_sequence (probe_load start ks p) = start + of_nat (last ks)"
  using assms
proof (induction ks rule: rev_induct)
  case (snoc k ks)
  show ?case
  proof (cases "ks = []")
    case True
    then show ?thesis by (simp add: probe_load_def BackgroundProbe_OnFrame_def BackgroundProbe_Init_def BackgroundProbe_Reset_def)
  next
    case False
    let ?p = "probe_load start ks p" and ?d = "k - last ks - 1"
    have k: "last ks < k" "k - last ks \<le> 2 ^ 31" "sorted_wrt (<) ks" "successively (\<lambda>a b. b - a \<le> 2 ^ 31) ks"
      using snoc.prems False by (simp_all add: sorted_wrt_append successively_append_iff)
    note IH = snoc.IH [OF k(3) False k(4)]
    have app: "probe_load start (ks @ [k]) p = BackgroundProbe_OnFrame (start + of_nat k) ?p"
      by (simp add: probe_load_def)
    have "(of_nat k :: u32) = of_nat (last ks + 1 + ?d)" using k(1) by simp
    then have delta: "start + of_nat k - (start + of_nat (last ks) + 1) = (of_nat ?d :: u32)"
      by (simp only: of_nat_add of_nat_1) (simp add: algebra_simps)
    have d: "unat (of_nat ?d :: u32) = ?d" using k(2) by (simp add: unat_of_nat)
    have small: "(of_nat ?d :: u32) < 0x80000000" using d k(1,2) by (simp add: word_less_nat_alt)
    have card: "card ({hd (ks @ [k])..last (ks @ [k])} - set (ks @ [k])) = card ({hd ks..last ks} - set ks) + ?d"
      using missing_extend [OF k(3) False k(1)] False by simp
    show ?thesis
      unfolding app card using IH delta small False by (auto simp: BackgroundProbe_OnFrame_def Let_def)
  qed
qed simp

text \<open>C37: The probe counts losses exactly: fed the load generator's frames in order, with any of them
  lost (fewer than 2^31 in a row), from any first sequence number and across its wrap-around, it
  reports as received the frames it got, as gaps exactly the numbers between the first and the last
  it got that never came, and nothing as out of order.\<close>

theorem probe_counts_losses:
  assumes "sorted_wrt (<) ks" and "ks \<noteq> []" and "successively (\<lambda>a b. b - a \<le> 2 ^ 31) ks"
  shows "bp_received (probe_load start ks p) = of_nat (length ks) \<and>
    bp_gaps (probe_load start ks p) = of_nat (card ({hd ks..last ks} - set ks)) \<and>
    bp_out_of_order (probe_load start ks p) = 0 \<and> bp_last_sequence (probe_load start ks p) = start + of_nat (last ks)"
  using probe_load_state [OF assms, of start p] by simp

definition fresh_probe :: BackgroundProbe_t where
  "fresh_probe = \<lparr>bp_received = 0, bp_gaps = 0, bp_out_of_order = 0, bp_expected = 0, bp_last_sequence = 0, bp_initialized = 0\<rparr>"

theorem probe_counts_losses_witness:
  "bp_gaps (probe_load 0xFFFFFFFE [0, 1, 4, 5] fresh_probe) = 2 \<and> bp_received (probe_load 0xFFFFFFFE [0, 1, 4, 5] fresh_probe) = 4"
proof -
  have "{0..5} - set [0, 1, 4, 5] = {2, 3 :: nat}" by auto
  with probe_counts_losses [of "[0, 1, 4, 5]" "0xFFFFFFFE" fresh_probe] show ?thesis by simp
qed

subsection \<open>What the testers accept\<close>

text \<open>The two testers agree: the stress master and the peer tester send background load and
  requests of the same content, and they accept exactly the same frames as a response, although they
  test the length nibble differently; only the peer tester counts the others.\<close>

theorem testers_agree:
  "fst (StressMaster_AcceptResponse sm i data n expected) = fst (PeerTester_AcceptResponse pt i data (ucast n) expected) \<and>
   StressMaster_BuildBackground k = LoadGenerator_BuildFrame k \<and>
   take 4 StressMaster_BuildRequest = take 4 PeerTester_BuildRequest \<and>
   pt_invalid_responses (snd (PeerTester_AcceptResponse pt i data (ucast n) expected)) =
     pt_invalid_responses pt + (if fst (StressMaster_AcceptResponse sm i data n expected) then 0 else 1)"
proof -
  have nib: "b AND 0xF0 \<noteq> 0 \<or> b AND 0x0F \<noteq> 7 \<longleftrightarrow> b \<noteq> 7" for b :: u8
  proof -
    have "(0xF0 OR 0x0F :: u8) = - 1" by simp
    then have "b = b AND (0xF0 OR 0x0F)" by (simp only: and.right_neutral)
    also have "\<dots> = (b AND 0xF0) OR (b AND 0x0F)" by (rule bit.conj_disj_distrib)
    finally show ?thesis by auto
  qed
  have len: "(ucast n :: u32) = 8 \<longleftrightarrow> n = 8"
    by (simp add: word_unat_eq_iff)
  have bg: "StressMaster_BuildBackground k = LoadGenerator_BuildFrame k"
    by (simp add: StressMaster_BuildBackground_def LoadGenerator_BuildFrame_def byte_of32_def)
  have rq: "take 4 StressMaster_BuildRequest = take 4 PeerTester_BuildRequest"
    by (simp add: StressMaster_BuildRequest_def PeerTester_BuildRequest_def PEER_TEST_DID_def hi8_def lo8_def)
  have cond: "i \<noteq> expected \<or> n \<noteq> 8 \<or> data ! 0 AND 0xF0 \<noteq> 0 \<or> data ! 0 AND 0x0F \<noteq> 7 \<or> R \<longleftrightarrow>
      i \<noteq> expected \<or> (ucast n :: u32) \<noteq> 8 \<or> data ! 0 \<noteq> 0x07 \<or> R" for R
    using len nib [of "data ! 0"] by blast
  show ?thesis
    unfolding StressMaster_AcceptResponse_def PeerTester_AcceptResponse_def PEER_TEST_DID_def STRESS_REQUEST_DID_def cond
    using bg rq by simp
qed

subsection \<open>The payload check\<close>

text \<open>The bench's payload check is exact: what \<open>IsotpBench_BuildPayload\<close> builds is accepted, and a
  buffer of the expected length is rejected with the position of the first byte that differs.\<close>

theorem payload_check_exact:
  assumes "unat len \<le> length buf"
  shows "(IsotpBench_ValidatePayload (Some buf) len len = (True, 0xFFFF) \<longleftrightarrow>
      IsotpBench_BuildPayload (Some buf) len = Some buf) \<and>
    IsotpBench_ValidatePayload (IsotpBench_BuildPayload (Some buf) len) len len = (True, 0xFFFF) \<and>
    (\<forall>i < unat len. buf ! i \<noteq> expected_byte (of_nat i) \<longrightarrow> (\<forall>j < i. buf ! j = expected_byte (of_nat j)) \<longrightarrow>
      IsotpBench_ValidatePayload (Some buf) len len = (False, of_nat i))"
proof -
  let ?n = "unat len" and ?e = "\<lambda>i. expected_byte (of_nat i)"
  have "map ?e [0..<?n] @ drop ?n buf = buf \<longleftrightarrow> map ?e [0..<?n] @ drop ?n buf = take ?n buf @ drop ?n buf" by simp
  also have "\<dots> \<longleftrightarrow> map ?e [0..<?n] = take ?n buf" by (rule append_same_eq)
  also have "\<dots> \<longleftrightarrow> (\<forall>i < ?n. buf ! i = ?e i)"
    using assms by (auto simp: list_eq_iff_nth_eq)
  finally have built: "IsotpBench_BuildPayload (Some buf) len = Some buf \<longleftrightarrow> (\<forall>i < ?n. buf ! i = ?e i)"
    by (simp add: IsotpBench_BuildPayload_def)
  have ok: "IsotpBench_ValidatePayload (Some b) len len = (True, 0xFFFF) \<longleftrightarrow> (\<forall>i < ?n. b ! i = ?e i)" for b
  proof -
    have "IsotpBench_ValidatePayload (Some b) len len = (True, 0xFFFF) \<longleftrightarrow> List.find (\<lambda>i. b ! i \<noteq> ?e i) [0..<?n] = None"
      by (simp add: IsotpBench_ValidatePayload_def split: option.split)
    then show ?thesis by (auto simp: find_None_iff)
  qed
  have self: "\<forall>i < ?n. (map ?e [0..<?n] @ drop ?n buf) ! i = ?e i" by (simp add: nth_append)
  have bad: "IsotpBench_ValidatePayload (Some buf) len len = (False, of_nat i)"
    if "i < ?n" "buf ! i \<noteq> ?e i" "\<forall>j < i. buf ! j = ?e j" for i
  proof -
    have "List.find (\<lambda>i. buf ! i \<noteq> ?e i) [0..<?n] = Some i"
      using that by (auto simp: find_Some_iff intro!: exI [of _ i])
    then show ?thesis by (simp add: IsotpBench_ValidatePayload_def)
  qed
  show ?thesis
    using built ok [of buf] ok [of "map ?e [0..<?n] @ drop ?n buf"] self bad
    by (simp add: IsotpBench_BuildPayload_def)
qed

theorem payload_check_exact_witness:
  "IsotpBench_ValidatePayload (Some [3, 10, 18, 24]) 4 4 = (False, 2) \<and>
   IsotpBench_ValidatePayload (Some [3, 10, 17, 24]) 4 4 = (True, 0xFFFF)"
proof -
  have e: "expected_byte 0 = 3" "expected_byte 1 = 10" "expected_byte 2 = 17" "expected_byte 3 = 24"
    by (simp_all add: expected_byte_def)
  have all: "(\<forall>i < 2. P i) \<longleftrightarrow> P 0 \<and> P 1" for P :: "nat \<Rightarrow> bool" by (auto simp: less_2_cases_iff)
  have "\<forall>j < 2. [3, 10, 18, 24 :: u8] ! j = expected_byte (of_nat j)" using e all by simp
  then have 1: "IsotpBench_ValidatePayload (Some [3, 10, 18, 24]) 4 4 = (False, of_nat 2)"
    using payload_check_exact [of 4 "[3, 10, 18, 24]", THEN conjunct2, THEN conjunct2, rule_format, of 2] e by simp
  have "IsotpBench_BuildPayload (Some [3, 10, 17, 24]) 4 = Some [3, 10, 17, 24]"
    using e by (simp add: IsotpBench_BuildPayload_def upt_rec)
  with payload_check_exact [of 4 "[3, 10, 17, 24]"] 1 show ?thesis by simp
qed

end
