(* ===== verification/Binary64.thy ===== *)
theory Binary64
  imports Prelude Complex_Main "HOL-Library.Log_Nat"
begin

section \<open>Arithmetic on \<open>double\<close>\<close>

text \<open>
  A finite \<open>double\<close> is the rational number it stands for, and an operation of the C program is the exact
  operation followed by \<open>fl\<close>, the rounding of IEEE 754 binary64: to 53 significant bits, ties to even.
  The code's values keep far from overflow and from the subnormal numbers, and a zero's sign is never
  observed, so none of these is represented.  The relative error of \<open>fl\<close> is all the proofs need, with
  its exactness on the integers of 53 bits.
\<close>

definition pow2 :: "int \<Rightarrow> rat" where
  "pow2 e = (if 0 \<le> e then 2 ^ nat e else 1 / 2 ^ nat (- e))"

text \<open>The exponent of a positive number: \<open>2 ^ binade x \<le> x < 2 ^ (binade x + 1)\<close>.\<close>

definition binade :: "rat \<Rightarrow> int" where
  "binade x = (let (a, b) = quotient_of x; e = bitlen a - bitlen b in if x < pow2 e then e - 1 else e)"

definition round_even :: "rat \<Rightarrow> int" where
  "round_even x = (let n = \<lfloor>x\<rfloor>; r = x - of_int n in if r < 1 / 2 \<or> r = 1 / 2 \<and> even n then n else n + 1)"

definition fl :: "rat \<Rightarrow> rat" where
  "fl x = (if x = 0 then 0 else let s = pow2 (52 - binade \<bar>x\<bar>) in of_int (round_even (x * s)) / s)"

text \<open>\<open>(int64_t)v\<close>.\<close>

definition trunc :: "rat \<Rightarrow> int" where
  "trunc v = (if 0 \<le> v then \<lfloor>v\<rfloor> else \<lceil>v\<rceil>)"

subsection \<open>The error of the rounding\<close>

lemma pow2_pos [simp]: "0 < pow2 e"
  by (simp add: pow2_def)

lemma pow2_nonzero [simp]: "pow2 e \<noteq> 0"
  using pow2_pos [of e] by linarith

lemma pow2_diff: "pow2 (int a - int b) = 2 ^ a / 2 ^ b"
proof (cases "b \<le> a")
  case True
  then have "nat (int a - int b) = a - b" by simp
  with True show ?thesis by (simp add: pow2_def power_diff)
next
  case False
  then have "nat (- (int a - int b)) = b - a" by simp
  with False show ?thesis by (simp add: pow2_def power_diff)
qed

lemma pow2_add: "pow2 (x + y) = pow2 x * pow2 y"
proof -
  obtain a b where x: "x = int a - int b" by (metis int_diff_cases)
  obtain c d where y: "y = int c - int d" by (metis int_diff_cases)
  have "x + y = int (a + c) - int (b + d)" using x y by simp
  then show ?thesis unfolding x y by (simp only: pow2_diff) (simp add: power_add)
qed

lemma pow2_mono: "a \<le> b \<Longrightarrow> pow2 a \<le> pow2 b"
proof -
  assume "a \<le> b"
  then have "1 \<le> pow2 (b - a)" by (simp add: pow2_def)
  then have "pow2 a * 1 \<le> pow2 a * pow2 (b - a)" by (intro mult_left_mono less_imp_le [OF pow2_pos])
  also have "\<dots> = pow2 b" by (simp flip: pow2_add)
  finally show ?thesis by simp
qed

lemma binade_below: "0 < x \<Longrightarrow> pow2 (binade x) \<le> x"
proof -
  assume x: "0 < x"
  obtain a b where q: "quotient_of x = (a, b)" by fastforce
  have b: "0 < b" using quotient_of_denom_pos [OF q] .
  have x': "x = of_int a / of_int b" using quotient_of_div [OF q] .
  have a: "0 < a" using x b unfolding x' by (simp add: zero_less_divide_iff)
  have la: "1 \<le> bitlen a" using a by (simp add: bitlen_ge_iff_power)
  have "2 ^ nat (bitlen a - 1) \<le> a" "b < 2 ^ nat (bitlen b)" using bitlen_bounds a b by auto
  then have r: "(2 :: rat) ^ nat (bitlen a - 1) \<le> of_int a" "of_int b \<le> (2 :: rat) ^ nat (bitlen b)"
    by (metis of_int_le_iff of_int_numeral of_int_power, metis less_imp_le of_int_le_iff of_int_numeral of_int_power)
  have "(2 :: rat) ^ nat (bitlen a - 1) / 2 ^ nat (bitlen b) \<le> of_int a / of_int b"
    using r a b by (intro frac_le) simp_all
  then have "pow2 (bitlen a - bitlen b - 1) \<le> x"
    using la bitlen_nonneg [of b] pow2_diff [of "nat (bitlen a - 1)" "nat (bitlen b)"] by (simp add: x' algebra_simps)
  then show ?thesis by (simp add: binade_def q Let_def)
qed

lemma round_even_error: "\<bar>of_int (round_even x) - x\<bar> \<le> 1 / 2"
proof -
  have "of_int \<lfloor>x\<rfloor> \<le> x" "x < of_int \<lfloor>x\<rfloor> + 1" by linarith+
  then show ?thesis by (auto simp: round_even_def Let_def abs_le_iff)
qed

lemma round_even_int: "round_even (of_int n) = n"
  by (simp add: round_even_def)

lemma fl_error: "\<bar>fl x - x\<bar> \<le> \<bar>x\<bar> / 2 ^ 53"
proof (cases "x = 0")
  case False
  define s where "s = pow2 (52 - binade \<bar>x\<bar>)"
  have s: "0 < s" by (simp add: s_def)
  have "pow2 (binade \<bar>x\<bar>) * s = pow2 52" unfolding s_def by (simp flip: pow2_add)
  moreover have "pow2 (binade \<bar>x\<bar>) * s \<le> \<bar>x\<bar> * s" using binade_below [of "\<bar>x\<bar>"] False s by simp
  ultimately have big: "2 ^ 52 \<le> \<bar>x\<bar> * s" by (simp add: pow2_def)
  have "\<bar>of_int (round_even (x * s)) - x * s\<bar> \<le> \<bar>x\<bar> * s / 2 ^ 53"
    using round_even_error [of "x * s"] big by simp
  then have "\<bar>of_int (round_even (x * s)) - x * s\<bar> / s \<le> \<bar>x\<bar> / 2 ^ 53" using s by (simp add: field_simps)
  moreover have "fl x - x = (of_int (round_even (x * s)) - x * s) / s"
    using False s by (simp add: fl_def s_def [symmetric] Let_def diff_divide_distrib)
  ultimately show ?thesis using s by (simp add: abs_divide)
qed (simp add: fl_def)

lemma fl_int:
  assumes "\<bar>n\<bar> < 2 ^ 53"
  shows "fl (of_int n) = of_int n"
proof (cases "n = 0")
  case False
  let ?e = "binade \<bar>of_int n\<bar>"
  have "pow2 ?e \<le> of_int \<bar>n\<bar>" using binade_below [of "\<bar>of_int n\<bar>"] False by simp
  also have "\<dots> < 2 ^ 53" using assms by (metis of_int_less_iff of_int_numeral of_int_power)
  finally have "\<not> pow2 53 \<le> pow2 ?e" by (simp add: pow2_def [of 53])
  then have "\<not> 53 \<le> ?e" using pow2_mono by blast
  then have "?e < 53" by simp
  then have "0 \<le> 52 - ?e" by simp
  then obtain k where "52 - ?e = int k" by (rule nonneg_int_cases)
  then have "of_int n * pow2 (52 - ?e) = of_int (n * 2 ^ k)" by (simp add: pow2_def)
  then show ?thesis using False by (simp only: fl_def Let_def round_even_int) simp
qed (simp add: fl_def)

text \<open>An operand known up to \<open>d\<close> leaves a result known up to \<open>d\<close> and the rounding.\<close>

lemma fl_near:
  assumes "\<bar>x - a\<bar> \<le> d" and "\<bar>a\<bar> + d \<le> m"
  shows "\<bar>fl x - a\<bar> \<le> d + m / 2 ^ 53"
proof -
  have "\<bar>x\<bar> \<le> m" using assms by linarith
  then have "\<bar>x\<bar> / 2 ^ 53 \<le> m / 2 ^ 53" by (simp add: divide_right_mono)
  with fl_error [of x] assms(1) show ?thesis by linarith
qed

end
