(* ===== verification/Dbc.thy ===== *)
theory Dbc
  imports Binary64
begin

section \<open>The signal codec and its bench\<close>

text \<open>
  \<open>firmware/common/project_dbc.c\<close>, which a generator wrote from \<open>dbc/project.dbc\<close>, and \<open>dbc_bench.c\<close>,
  which sends two of its messages.  A frame's bytes are read into two 64-bit words, one per byte order,
  and a signal is a field of one of them; its raw number and its physical value are related by a factor
  and an offset in \<open>double\<close>.  The four diagnostic messages have the same eight signals and the same
  functions but for the names.
\<close>

type_synonym u64 = "64 word"

definition project_dbc_round :: "rat \<Rightarrow> int" where
  "project_dbc_round v = trunc (if 0 \<le> v then fl (v + 1 / 2) else fl (v - 1 / 2))"

text \<open>One line of a \<open>pack\<close> and one of an \<open>unpack\<close> function: \<open>pack\<close> adds \<open>bias\<close>, \<open>unpack\<close> adds \<open>offset\<close>.\<close>

definition signal_raw :: "rat \<Rightarrow> rat \<Rightarrow> u64 \<Rightarrow> rat \<Rightarrow> u64" where
  "signal_raw factor bias field v = word_of_int (project_dbc_round (fl (fl (v + bias) / factor))) AND field"

definition signal_value :: "rat \<Rightarrow> rat \<Rightarrow> u64 \<Rightarrow> rat" where
  "signal_value factor offset raw = fl (fl (of_nat (unat raw) * factor) + offset)"

definition load_be :: "frame \<Rightarrow> u64" where
  "load_be data = fold (\<lambda>i w. push_bit 8 w OR ucast (data ! i)) [0..<8] 0"

definition load_le :: "frame \<Rightarrow> u64" where
  "load_le data = fold (\<lambda>i w. w OR push_bit (8 * i) (ucast (data ! i))) [0..<8] 0"

definition store_words :: "u64 \<Rightarrow> u64 \<Rightarrow> frame" where
  "store_words be le = map (\<lambda>i. ucast ((drop_bit (8 * (7 - i)) be AND 0xFF)) OR ucast (drop_bit (8 * i) le AND 0xFF)) [0..<8]"

subsection \<open>The messages\<close>

record DiagnosticRequest_ECU1_t =
  PciByte0 :: u8
  PciByte1 :: u8
  PciByte2 :: u8
  PciByte3 :: u8
  PciByte4 :: u8
  PciByte5 :: u8
  PciByte6 :: u8
  PciByte7 :: u8

type_synonym DiagnosticResponse_ECU1_t = DiagnosticRequest_ECU1_t
type_synonym DiagnosticRequest_ECU2_t = DiagnosticRequest_ECU1_t
type_synonym DiagnosticResponse_ECU2_t = DiagnosticRequest_ECU1_t

definition byte_raw :: "u8 \<Rightarrow> u64" where
  "byte_raw b = signal_raw 1 0 0xFF (of_nat (unat b))"

definition byte_value :: "u64 \<Rightarrow> u8" where
  "byte_value raw = word_of_int (trunc (signal_value 1 0 raw))"

definition DiagnosticRequest_ECU1_pack :: "DiagnosticRequest_ECU1_t \<Rightarrow> frame" where
  "DiagnosticRequest_ECU1_pack m = store_words 0
     (push_bit 0 (byte_raw (PciByte0 m)) OR push_bit 8 (byte_raw (PciByte1 m)) OR
      push_bit 16 (byte_raw (PciByte2 m)) OR push_bit 24 (byte_raw (PciByte3 m)) OR
      push_bit 32 (byte_raw (PciByte4 m)) OR push_bit 40 (byte_raw (PciByte5 m)) OR
      push_bit 48 (byte_raw (PciByte6 m)) OR push_bit 56 (byte_raw (PciByte7 m)))"

definition DiagnosticRequest_ECU1_unpack :: "frame \<Rightarrow> DiagnosticRequest_ECU1_t" where
  "DiagnosticRequest_ECU1_unpack data =
     (let le = load_le data in
      \<lparr>PciByte0 = byte_value (drop_bit 0 le AND 0xFF), PciByte1 = byte_value (drop_bit 8 le AND 0xFF),
       PciByte2 = byte_value (drop_bit 16 le AND 0xFF), PciByte3 = byte_value (drop_bit 24 le AND 0xFF),
       PciByte4 = byte_value (drop_bit 32 le AND 0xFF), PciByte5 = byte_value (drop_bit 40 le AND 0xFF),
       PciByte6 = byte_value (drop_bit 48 le AND 0xFF), PciByte7 = byte_value (drop_bit 56 le AND 0xFF)\<rparr>)"

definition DiagnosticResponse_ECU1_pack :: "DiagnosticResponse_ECU1_t \<Rightarrow> frame" where
  "DiagnosticResponse_ECU1_pack = DiagnosticRequest_ECU1_pack"
definition DiagnosticResponse_ECU1_unpack :: "frame \<Rightarrow> DiagnosticResponse_ECU1_t" where
  "DiagnosticResponse_ECU1_unpack = DiagnosticRequest_ECU1_unpack"
definition DiagnosticRequest_ECU2_pack :: "DiagnosticRequest_ECU2_t \<Rightarrow> frame" where
  "DiagnosticRequest_ECU2_pack = DiagnosticRequest_ECU1_pack"
definition DiagnosticRequest_ECU2_unpack :: "frame \<Rightarrow> DiagnosticRequest_ECU2_t" where
  "DiagnosticRequest_ECU2_unpack = DiagnosticRequest_ECU1_unpack"
definition DiagnosticResponse_ECU2_pack :: "DiagnosticResponse_ECU2_t \<Rightarrow> frame" where
  "DiagnosticResponse_ECU2_pack = DiagnosticRequest_ECU1_pack"
definition DiagnosticResponse_ECU2_unpack :: "frame \<Rightarrow> DiagnosticResponse_ECU2_t" where
  "DiagnosticResponse_ECU2_unpack = DiagnosticRequest_ECU1_unpack"

record EngineData_t =
  EngineSpeed :: rat
  CoolantTemp :: rat

definition EngineData_pack :: "EngineData_t \<Rightarrow> frame" where
  "EngineData_pack m = store_words
     (push_bit 48 (signal_raw (1 / 4) 0 0xFFFF (EngineSpeed m)) OR push_bit 40 (signal_raw 1 40 0xFF (CoolantTemp m))) 0"

definition EngineData_unpack :: "frame \<Rightarrow> EngineData_t" where
  "EngineData_unpack data =
     (let be = load_be data in
      \<lparr>EngineSpeed = signal_value (1 / 4) 0 (drop_bit 48 be AND 0xFFFF),
       CoolantTemp = signal_value 1 (- 40) (drop_bit 40 be AND 0xFF)\<rparr>)"

record VehicleStatus_t =
  VehicleSpeed :: rat
  BrakeActive :: u8

text \<open>The constant \<open>0.01\<close> is the nearest \<open>double\<close>.\<close>

definition hundredth :: rat where
  "hundredth = fl (1 / 100)"

definition VehicleStatus_pack :: "VehicleStatus_t \<Rightarrow> frame" where
  "VehicleStatus_pack m = store_words 0
     (push_bit 0 (signal_raw hundredth 0 0xFFFF (VehicleSpeed m)) OR
      push_bit 16 (signal_raw 1 0 0x1 (of_nat (unat (BrakeActive m)))))"

definition VehicleStatus_unpack :: "frame \<Rightarrow> VehicleStatus_t" where
  "VehicleStatus_unpack data =
     (let le = load_le data in
      \<lparr>VehicleSpeed = signal_value hundredth 0 (drop_bit 0 le AND 0xFFFF),
       BrakeActive = byte_value (drop_bit 16 le AND 0x1)\<rparr>)"

subsection \<open>The bench\<close>

datatype DbcBenchNode_t = DBC_BENCH_F407 | DBC_BENCH_F103

record DbcBench_t =
  db_node :: DbcBenchNode_t
  db_period_ms :: u32
  db_last_tx_ms :: u32
  db_started :: bool

definition DbcBench_Init :: "DbcBenchNode_t \<Rightarrow> u32 \<Rightarrow> DbcBench_t" where
  "DbcBench_Init node period_ms =
     \<lparr>db_node = node, db_period_ms = (if period_ms = 0 then 100 else period_ms), db_last_tx_ms = 0, db_started = False\<rparr>"

definition DbcBench_Poll :: "DbcBench_t \<Rightarrow> u32 \<Rightarrow> (u32 \<times> frame) option \<times> DbcBench_t" where
  "DbcBench_Poll b now_ms =
     (if db_started b \<and> now_ms - db_last_tx_ms b < db_period_ms b then (None, b)
      else (Some (if db_node b = DBC_BENCH_F407 then (0x180, EngineData_pack \<lparr>EngineSpeed = 1234 + 1 / 2, CoolantTemp = 85\<rparr>)
                  else (0x280, VehicleStatus_pack \<lparr>VehicleSpeed = 42 + 1 / 2, BrakeActive = 1\<rparr>)),
            b\<lparr>db_started := True, db_last_tx_ms := now_ms\<rparr>))"

subsection \<open>A signal survives the way through \<open>double\<close>\<close>

lemma round_error: "\<bar>of_int (project_dbc_round y) - y\<bar> \<le> 1 / 2 + (\<bar>y\<bar> + 1) / 2 ^ 53"
proof (cases "0 \<le> y")
  case True
  define z where "z = fl (y + 1 / 2)"
  have z: "\<bar>z - (y + 1 / 2)\<bar> \<le> (\<bar>y\<bar> + 1) / 2 ^ 53" using fl_error [of "y + 1 / 2"] True by (simp add: z_def field_simps)
  have "of_int (trunc z) \<le> z \<and> z < of_int (trunc z) + 1 \<or> z < 0 \<and> z \<le> of_int (trunc z) \<and> of_int (trunc z) < z + 1"
    by (simp add: trunc_def; linarith)
  then have "\<bar>of_int (trunc z) - y\<bar> \<le> 1 / 2 + (\<bar>y\<bar> + 1) / 2 ^ 53" using z True by (elim disjE) linarith+
  with True show ?thesis by (simp add: project_dbc_round_def z_def)
next
  case False
  define z where "z = fl (y - 1 / 2)"
  have z: "\<bar>z - (y - 1 / 2)\<bar> \<le> (\<bar>y\<bar> + 1) / 2 ^ 53" using fl_error [of "y - 1 / 2"] False by (simp add: z_def field_simps)
  have "0 \<le> z \<and> of_int (trunc z) \<le> z \<and> z < of_int (trunc z) + 1 \<or> z \<le> of_int (trunc z) \<and> of_int (trunc z) < z + 1"
    by (simp add: trunc_def; linarith)
  then have "\<bar>of_int (trunc z) - y\<bar> \<le> 1 / 2 + (\<bar>y\<bar> + 1) / 2 ^ 53" using z False by (elim disjE) linarith+
  with False show ?thesis by (simp add: project_dbc_round_def z_def)
qed

text \<open>The physical value is right to a tiny part of a step.\<close>

lemma small_raw: "n < 2 ^ 16 \<Longrightarrow> 0 \<le> (of_nat n :: rat) \<and> (of_nat n :: rat) \<le> 2 ^ 16"
  by simp

lemma room:
  fixes c fac :: rat
  shows "0 \<le> c \<Longrightarrow> c \<le> 2 ^ 16 * fac \<Longrightarrow> 0 < fac \<Longrightarrow> \<bar>c\<bar> + fac / 2 ^ 34 \<le> 2 ^ 17 * fac"
  by simp

lemma tiny:
  fixes x y :: rat
  shows "\<bar>y - x\<bar> \<le> 1 / 2 ^ 32 \<Longrightarrow> 0 \<le> x \<Longrightarrow> x \<le> 2 ^ 16 \<Longrightarrow> (\<bar>y\<bar> + 1) / 2 ^ 53 \<le> 1 / 2 ^ 33"
proof -
  assume y: "\<bar>y - x\<bar> \<le> 1 / 2 ^ 32" and x: "0 \<le> x" "x \<le> 2 ^ 16"
  have "\<bar>y - x\<bar> \<le> 1" using y by (rule order_trans) simp
  with x have "\<bar>y\<bar> \<le> 2 ^ 16 + 1" by linarith
  then show ?thesis by simp
qed

lemma near_trans:
  fixes n x y :: rat
  shows "\<bar>y - x\<bar> \<le> w \<Longrightarrow> t \<le> u \<Longrightarrow> \<bar>n - y\<bar> \<le> h + t \<Longrightarrow> \<bar>n - x\<bar> \<le> h + u + w"
  by linarith

lemma value_near:
  assumes "unat raw < 2 ^ 16" and "0 < fac" and "\<bar>off\<bar> \<le> 64 * fac"
  shows "\<bar>signal_value fac off raw - (of_nat (unat raw) * fac + off)\<bar> \<le> fac / 2 ^ 34"
proof -
  define x where "x = of_nat (unat raw) * fac"
  have x: "0 \<le> x" "x \<le> 2 ^ 16 * fac"
    using mult_right_mono [OF conjunct2 [OF small_raw [OF assms(1)]], of fac] assms(2)
      mult_nonneg_nonneg [OF conjunct1 [OF small_raw [OF assms(1)]], of fac] by (simp_all add: x_def)
  have 1: "\<bar>fl x - x\<bar> \<le> 0 + (2 ^ 16 * fac) / 2 ^ 53" by (rule fl_near) (use x in simp_all)
  then have "\<bar>fl x + off - (x + off)\<bar> \<le> fac / 2 ^ 36" using assms(2) by simp
  then have "\<bar>fl (fl x + off) - (x + off)\<bar> \<le> fac / 2 ^ 36 + (2 ^ 17 * fac) / 2 ^ 53"
    by (rule fl_near) (use x assms(2,3) in simp)
  then show ?thesis using assms(2) by (simp add: signal_value_def x_def)
qed

lemma raw_near:
  assumes "\<bar>v + bias - x * fac\<bar> \<le> fac / 2 ^ 34" and "0 \<le> x" and "x \<le> 2 ^ 16" and "0 < fac"
  shows "\<bar>fl (fl (v + bias) / fac) - x\<bar> \<le> 1 / 2 ^ 32"
proof -
  have b: "0 \<le> x * fac" "x * fac \<le> 2 ^ 16 * fac" using assms(2-4) by simp_all
  have "\<bar>fl (v + bias) - x * fac\<bar> \<le> fac / 2 ^ 34 + (2 ^ 17 * fac) / 2 ^ 53"
    by (rule fl_near [OF assms(1)]) (rule room [OF b assms(4)])
  then have "\<bar>fl (v + bias) - x * fac\<bar> \<le> fac / 2 ^ 33" using assms(4) by simp
  then have "\<bar>fl (v + bias) - x * fac\<bar> / fac \<le> 1 / 2 ^ 33" using assms(4) by (simp add: field_simps)
  moreover have "fl (v + bias) / fac - x = (fl (v + bias) - x * fac) / fac"
    using assms(4) by (simp add: diff_divide_distrib)
  then have "\<bar>fl (v + bias) / fac - x\<bar> = \<bar>fl (v + bias) - x * fac\<bar> / fac" using assms(4) by (simp only: abs_divide)
  ultimately have "\<bar>fl (v + bias) / fac - x\<bar> \<le> 1 / 2 ^ 33" by simp
  then have "\<bar>fl (fl (v + bias) / fac) - x\<bar> \<le> 1 / 2 ^ 33 + 2 ^ 17 / 2 ^ 53"
    by (rule fl_near) (use assms(2,3) in simp)
  then show ?thesis by simp
qed

text \<open>A physical value in range is rounded to the nearest raw number, but for a tie's hair.\<close>

lemma rounded_near:
  assumes "\<bar>v + bias - x * fac\<bar> \<le> fac / 2 ^ 34" and "0 \<le> x" and "x \<le> 2 ^ 16" and "0 < fac"
  shows "\<bar>of_int (project_dbc_round (fl (fl (v + bias) / fac))) - x\<bar> \<le> 1 / 2 + 1 / 2 ^ 31"
proof -
  let ?y = "fl (fl (v + bias) / fac)"
  note y = raw_near [OF assms]
  have "\<bar>of_int (project_dbc_round ?y) - x\<bar> \<le> 1 / 2 + 1 / 2 ^ 33 + 1 / 2 ^ 32"
    by (rule near_trans [OF y tiny [OF y assms(2,3)] round_error])
  then show ?thesis by (rule order_trans) simp
qed

lemma signal_roundtrip:
  assumes "raw AND field = raw" and "unat raw < 2 ^ 16" and "0 < fac" and "\<bar>off\<bar> \<le> 64 * fac"
  shows "signal_raw fac (- off) field (signal_value fac off raw) = raw"
proof -
  let ?n = "project_dbc_round (fl (fl (signal_value fac off raw + - off) / fac))"
  have "\<bar>signal_value fac off raw + - off - of_nat (unat raw) * fac\<bar> \<le> fac / 2 ^ 34"
    using value_near [OF assms(2-4)] by (simp add: algebra_simps)
  note rounded_near [OF this conjunct1 [OF small_raw [OF assms(2)]] conjunct2 [OF small_raw [OF assms(2)]] assms(3)]
  then have "\<bar>of_int (?n - int (unat raw)) :: rat\<bar> < 1" by simp
  then have "?n = int (unat raw)" by linarith
  then show ?thesis using assms(1) by (simp add: signal_raw_def)
qed

text \<open>Bytes pass through \<open>double\<close> unchanged.\<close>

lemma fl_small: "n < 256 \<Longrightarrow> fl (of_nat n) = of_nat n"
  using fl_int [of "int n"] by simp

lemma byte_physical: "unat raw < 256 \<Longrightarrow> signal_value 1 0 raw = of_nat (unat raw)"
  using fl_small by (simp add: signal_value_def del: of_nat_unat)

lemma byte_value_exact: "unat raw < 256 \<Longrightarrow> byte_value raw = of_nat (unat raw)"
  using byte_physical by (simp add: byte_value_def trunc_def del: of_nat_unat)

lemma and_fields:
  fixes w :: u64
  shows "w AND 0xFF = take_bit 8 w" "w AND 0xFFFF = take_bit 16 w" "w AND 0x1 = take_bit 1 w"
  by (simp_all add: take_bit_eq_mask mask_eq_exp_minus_1)

lemma byte_raw_exact: "byte_raw b = ucast b"
proof -
  let ?u = "ucast b :: u64"
  have b: "unat b < 256" using unsigned_less [of b] by simp
  then have u: "unat ?u = unat b" by (simp add: unsigned_ucast_eq take_bit_nat_eq_self)
  have "?u AND 0xFF = ?u" unfolding and_fields by (rule bit_word_eqI) (auto simp: bit_simps dest: bit_imp_le_length)
  from signal_roundtrip [OF this, of 1 0] b u have "signal_raw 1 0 0xFF (signal_value 1 0 ?u) = ?u" by simp
  moreover have "signal_value 1 0 ?u = of_nat (unat b)"
    using byte_physical [of ?u] b u by simp
  ultimately show ?thesis by (simp only: byte_raw_def)
qed

subsection \<open>The bytes of the two words\<close>

lemma load_bytes:
  "load_be [a, b, c, d, e, f, g, h] = push_bit 56 (ucast a) OR push_bit 48 (ucast b) OR push_bit 40 (ucast c) OR
     push_bit 32 (ucast d) OR push_bit 24 (ucast e) OR push_bit 16 (ucast f) OR push_bit 8 (ucast g) OR ucast h"
  "load_le [a, b, c, d, e, f, g, h] = ucast a OR push_bit 8 (ucast b) OR push_bit 16 (ucast c) OR
     push_bit 24 (ucast d) OR push_bit 32 (ucast e) OR push_bit 40 (ucast f) OR push_bit 48 (ucast g) OR push_bit 56 (ucast h)"
  by (rule bit_word_eqI; simp add: load_be_def load_le_def upt_rec; auto simp: bit_simps)+

lemma store_le: "store_words 0 le = map (\<lambda>i. ucast (drop_bit (8 * i) le)) [0..<8]"
  unfolding store_words_def and_fields by (auto intro!: bit_word_eqI simp: bit_simps)

lemma store_be: "store_words be 0 = map (\<lambda>i. ucast (drop_bit (8 * (7 - i)) be)) [0..<8]"
  unfolding store_words_def and_fields by (auto intro!: bit_word_eqI simp: bit_simps)

lemma le_bytes: "store_words 0 (load_le [a, b, c, d, e, f, g, h]) = [a, b, c, d, e, f, g, h]"
  unfolding store_le load_bytes
  by (simp add: upt_rec) (intro conjI; rule bit_word_eqI; auto simp: bit_simps dest: bit_imp_le_length)

lemma field_small: "n \<le> 16 \<Longrightarrow> unat (take_bit n w :: u64) < 2 ^ 16"
proof -
  assume "n \<le> 16"
  then have "take_bit n w = take_bit 16 (take_bit n w)" by (simp add: min_def)
  then show ?thesis by (metis take_bit_nat_less_exp unsigned_take_bit_eq)
qed

lemma hundredth_pos: "0 < hundredth"
proof -
  have "\<bar>fl (1 / 100) - 1 / 100\<bar> \<le> 1 / 1000" by (rule order_trans [OF fl_error]) simp
  then show ?thesis unfolding hundredth_def by linarith
qed

lemma field_roundtrip:
  assumes "n \<le> 16" and "0 < fac" and "\<bar>off\<bar> \<le> 64 * fac"
  shows "signal_raw fac (- off) (mask n) (signal_value fac off (take_bit n w)) = take_bit n w"
  using assms by (intro signal_roundtrip field_small) (simp_all add: take_bit_eq_mask [symmetric] min_def)

lemma signals:
  fixes w :: u64
  shows "signal_raw (1 / 4) 0 0xFFFF (signal_value (1 / 4) 0 (w AND 0xFFFF)) = take_bit 16 w"
    "signal_raw 1 40 0xFF (signal_value 1 (- 40) (w AND 0xFF)) = take_bit 8 w"
    "signal_raw hundredth 0 0xFFFF (signal_value hundredth 0 (w AND 0xFFFF)) = take_bit 16 w"
    "signal_raw 1 0 0x1 (of_nat (unat (ucast (take_bit 1 w) :: u8))) = take_bit 1 w"
    "byte_value (w AND 0xFF) = ucast w" "byte_value (w AND 0x1) = ucast (take_bit 1 w)"
proof -
  have field: "0xFFFF = (mask 16 :: u64)" "0xFF = (mask 8 :: u64)" by (simp_all add: mask_eq_exp_minus_1)
  show "signal_raw (1 / 4) 0 0xFFFF (signal_value (1 / 4) 0 (w AND 0xFFFF)) = take_bit 16 w"
    "signal_raw 1 40 0xFF (signal_value 1 (- 40) (w AND 0xFF)) = take_bit 8 w"
    "signal_raw hundredth 0 0xFFFF (signal_value hundredth 0 (w AND 0xFFFF)) = take_bit 16 w"
    using field_roundtrip [of 16 "1 / 4" 0 w] field_roundtrip [of 8 1 "- 40" w] field_roundtrip [of 16 hundredth 0 w] hundredth_pos
    unfolding field take_bit_eq_mask [symmetric] by simp_all
  have small: "unat (take_bit n w) < 256" if "n \<le> 8" for n
    using take_bit_tightened_less_eq_nat [of n 8 "unat w"] that take_bit_nat_less_exp [of 8 "unat w"]
    by (simp add: unsigned_take_bit_eq)
  have byte: "byte_value (take_bit n w) = ucast (take_bit n w)" if "n \<le> 8" for n
    using byte_value_exact [OF small [OF that]] by (simp add: unsigned_of_nat)
  show "byte_value (w AND 0xFF) = ucast w" unfolding and_fields byte [OF order_refl]
    by (rule bit_word_eqI) (auto simp: bit_simps dest: bit_imp_le_length)
  show "byte_value (w AND 0x1) = ucast (take_bit 1 w)" unfolding and_fields by (rule byte) simp
  show "signal_raw 1 0 0x1 (of_nat (unat (ucast (take_bit 1 w) :: u8))) = take_bit 1 w"
    using field_roundtrip [of 1 1 0 w] byte_physical [OF small [of 1]] small [of 1]
    by (simp add: mask_eq_exp_minus_1 unsigned_ucast_eq take_bit_nat_eq_self del: of_nat_unat)
qed

lemma engine_bytes:
  "store_words (push_bit 48 (take_bit 16 (drop_bit 48 (load_be [a, b, c, d, e, f, g, h]))) OR
     push_bit 40 (take_bit 8 (drop_bit 40 (load_be [a, b, c, d, e, f, g, h])))) 0 = [a, b, c, 0, 0, 0, 0, 0]"
  unfolding store_be load_bytes
  by (simp add: upt_rec) (intro conjI; rule bit_word_eqI; auto simp: bit_simps dest: bit_imp_le_length)

lemma status_bytes:
  "m \<le> 8 \<Longrightarrow> store_words 0 (push_bit 0 (take_bit 16 (drop_bit 0 (load_le [a, b, c, d, e, f, g, h]))) OR
     push_bit 16 (take_bit m (drop_bit 16 (load_le [a, b, c, d, e, f, g, h])))) = [a, b, take_bit m c, 0, 0, 0, 0, 0]"
  unfolding store_le load_bytes
  by (simp add: upt_rec) (intro conjI; rule bit_word_eqI; auto simp: bit_simps dest: bit_imp_le_length)

lemma le_fields:
  fixes le :: u64
  shows "store_words 0 (push_bit 0 (ucast (ucast (drop_bit 0 le) :: u8)) OR push_bit 8 (ucast (ucast (drop_bit 8 le) :: u8)) OR
    push_bit 16 (ucast (ucast (drop_bit 16 le) :: u8)) OR push_bit 24 (ucast (ucast (drop_bit 24 le) :: u8)) OR
    push_bit 32 (ucast (ucast (drop_bit 32 le) :: u8)) OR push_bit 40 (ucast (ucast (drop_bit 40 le) :: u8)) OR
    push_bit 48 (ucast (ucast (drop_bit 48 le) :: u8)) OR push_bit 56 (ucast (ucast (drop_bit 56 le) :: u8))) = store_words 0 le"
  unfolding store_le
  by (simp add: upt_rec) (intro conjI; rule bit_word_eqI; auto simp: bit_simps dest: bit_imp_le_length)

text \<open>C40: A frame that is unpacked and packed again is unchanged in the bits its signals occupy, and zero
  elsewhere, although every raw number goes through \<open>double\<close>, one of them through a factor of 0.01 that
  \<open>double\<close> cannot represent: no raw number of any signal is off by one.\<close>

theorem dbc_roundtrip:
  "EngineData_pack (EngineData_unpack [a, b, c, d, e, f, g, h]) = [a, b, c, 0, 0, 0, 0, 0] \<and>
   VehicleStatus_pack (VehicleStatus_unpack [a, b, c, d, e, f, g, h]) = [a, b, c AND 1, 0, 0, 0, 0, 0] \<and>
   DiagnosticRequest_ECU1_pack (DiagnosticRequest_ECU1_unpack [a, b, c, d, e, f, g, h]) = [a, b, c, d, e, f, g, h]"
proof (intro conjI)
  let ?d = "[a, b, c, d, e, f, g, h]"
  have "EngineData_pack (EngineData_unpack ?d) =
      store_words (push_bit 48 (take_bit 16 (drop_bit 48 (load_be ?d))) OR push_bit 40 (take_bit 8 (drop_bit 40 (load_be ?d)))) 0"
    by (simp only: EngineData_pack_def EngineData_unpack_def Let_def EngineData_t.simps signals)
  also have "\<dots> = [a, b, c, 0, 0, 0, 0, 0]"
    by (rule engine_bytes)
  finally show "EngineData_pack (EngineData_unpack ?d) = [a, b, c, 0, 0, 0, 0, 0]" .
  have "VehicleStatus_pack (VehicleStatus_unpack ?d) =
      store_words 0 (push_bit 0 (take_bit 16 (drop_bit 0 (load_le ?d))) OR push_bit 16 (take_bit 1 (drop_bit 16 (load_le ?d))))"
    by (simp only: VehicleStatus_pack_def VehicleStatus_unpack_def Let_def VehicleStatus_t.simps signals)
  also have "\<dots> = [a, b, take_bit 1 c, 0, 0, 0, 0, 0]" by (rule status_bytes) simp
  finally show "VehicleStatus_pack (VehicleStatus_unpack ?d) = [a, b, c AND 1, 0, 0, 0, 0, 0]"
    by (simp add: take_bit_eq_mask mask_eq_exp_minus_1)
  show "DiagnosticRequest_ECU1_pack (DiagnosticRequest_ECU1_unpack ?d) = ?d"
    unfolding DiagnosticRequest_ECU1_pack_def DiagnosticRequest_ECU1_unpack_def Let_def DiagnosticRequest_ECU1_t.simps
      signals byte_raw_exact le_fields by (rule le_bytes)
qed

subsection \<open>What packing loses\<close>

lemma assemble_bits:
  fixes w :: u64
  assumes "n < 64"
  shows "bit (load_be (store_words w 0)) n \<longleftrightarrow> bit w n" "bit (load_le (store_words 0 w)) n \<longleftrightarrow> bit w n"
proof -
  consider "n < 8" | "8 \<le> n" "n < 16" | "16 \<le> n" "n < 24" | "24 \<le> n" "n < 32" | "32 \<le> n" "n < 40"
    | "40 \<le> n" "n < 48" | "48 \<le> n" "n < 56" | "56 \<le> n" "n < 64" using assms by fastforce
  note parts = this
  show "bit (load_be (store_words w 0)) n \<longleftrightarrow> bit w n"
    using parts unfolding store_be by cases (simp_all add: upt_rec load_bytes bit_simps less_diff_conv2)
  show "bit (load_le (store_words 0 w)) n \<longleftrightarrow> bit w n"
    using parts unfolding store_le by cases (simp_all add: upt_rec load_bytes bit_simps less_diff_conv2)
qed

lemma assemble:
  fixes w :: u64
  shows "load_be (store_words w 0) = w" "load_le (store_words 0 w) = w"
  by (auto intro!: bit_word_eqI simp: assemble_bits)

text \<open>Half a step and a hair: the whole cost of a signal's way to the bus and back.\<close>

lemma raw_in_range:
  assumes "n \<le> 16" and "0 \<le> r" and "r < 2 ^ n"
  shows "unat (word_of_int r AND mask n :: u64) = nat r"
proof -
  obtain k where k: "r = int k" using nonneg_int_cases [OF assms(2)] .
  have "int k < int (2 ^ n)" using assms(3) k by simp
  then have "k < 2 ^ n" by (simp only: of_nat_less_iff)
  moreover have "(2 :: nat) ^ n \<le> 2 ^ 16" using assms(1) by (rule power_increasing) simp
  ultimately have "unat (of_nat k :: u64) = k" "take_bit n k = k" by (simp_all add: unat_of_nat take_bit_nat_eq_self)
  then show ?thesis by (simp add: k unsigned_take_bit_eq flip: take_bit_eq_mask)
qed

lemma signal_quantised:
  assumes "n \<le> 16" and "0 < fac" and "\<bar>off\<bar> \<le> 64 * fac"
    and "v = x * fac + off" and "0 \<le> x" and "x \<le> of_int (2 ^ n - 1)"
  shows "\<bar>signal_value fac off (signal_raw fac (- off) (mask n) v) - v\<bar> \<le> fac * (1 / 2 + 1 / 2 ^ 30)"
proof -
  define r where "r = project_dbc_round (fl (fl (v + - off) / fac))"
  define raw where "raw = signal_raw fac (- off) (mask n) v"
  have "(2 :: int) ^ n \<le> 2 ^ 16" using assms(1) by (rule power_increasing) simp
  then have "(of_int (2 ^ n - 1) :: rat) \<le> of_int (2 ^ 16)" by (simp only: of_int_le_iff)
  then have x: "x \<le> 2 ^ 16" using assms(6) by simp
  have "\<bar>v + - off - x * fac\<bar> \<le> fac / 2 ^ 34" using assms(2,4) by simp
  from rounded_near [OF this assms(5) x assms(2)] have near: "\<bar>of_int r - x\<bar> \<le> 1 / 2 + 1 / 2 ^ 31" by (simp only: r_def)
  then have "\<bar>of_int r - x\<bar> < 1" by (rule le_less_trans) simp
  then have "of_int (- 1) < (of_int r :: rat)" "of_int r < (of_int (2 ^ n) :: rat)"
    using assms(5,6) unfolding of_int_diff of_int_minus of_int_1 by linarith+
  then have r: "0 \<le> r" "r < 2 ^ n" unfolding of_int_less_iff by simp_all
  then have raw: "unat raw = nat r" using raw_in_range [OF assms(1) r] by (simp add: raw_def signal_raw_def r_def)
  have "r < 2 ^ 16" using r(2) \<open>2 ^ n \<le> 2 ^ 16\<close> by (rule less_le_trans)
  with raw r(1) have "unat raw < 2 ^ 16" by (simp add: nat_less_iff)
  from value_near [OF this assms(2,3)] raw r(1) have val: "\<bar>signal_value fac off raw - (of_int r * fac + off)\<bar> \<le> fac / 2 ^ 34"
    by (simp del: of_nat_unat)
  have "\<bar>of_int r * fac - x * fac\<bar> = \<bar>of_int r - x\<bar> * fac" using assms(2) by (simp add: abs_mult flip: left_diff_distrib)
  also have "\<dots> \<le> (1 / 2 + 1 / 2 ^ 31) * fac" using near assms(2) by (intro mult_right_mono) simp_all
  finally have "\<bar>signal_value fac off raw - v\<bar> \<le> fac / 2 ^ 34 + (1 / 2 + 1 / 2 ^ 31) * fac"
    using val assms(4) by linarith
  also have "\<dots> \<le> fac * (1 / 2 + 1 / 2 ^ 30)" using assms(2) by (simp add: field_simps)
  finally show ?thesis by (simp only: raw_def)
qed

lemma field_parts:
  fixes x y :: u64
  shows "x = take_bit 16 x \<Longrightarrow> y = take_bit 8 y \<Longrightarrow> drop_bit 48 (push_bit 48 x OR push_bit 40 y) AND 0xFFFF = x"
    "x = take_bit 16 x \<Longrightarrow> y = take_bit 8 y \<Longrightarrow> drop_bit 40 (push_bit 48 x OR push_bit 40 y) AND 0xFF = y"
    "x = take_bit 16 x \<Longrightarrow> drop_bit 0 (push_bit 0 x OR push_bit 16 y) AND 0xFFFF = x"
  unfolding and_fields
  by ((erule ssubst)+; rule bit_word_eqI; auto simp: bit_simps)+

lemma raw_field:
  "signal_raw fac bias 0xFFFF v = take_bit 16 (signal_raw fac bias 0xFFFF v)"
  "signal_raw fac bias 0xFF v = take_bit 8 (signal_raw fac bias 0xFF v)"
  unfolding signal_raw_def and_fields by (simp_all only: take_bit_take_bit min.idem)

text \<open>What packing loses: an engine speed or temperature or a vehicle speed in its signal's range comes
  back from the frame within half a step of the signal, up to the rounding of \<open>double\<close>, which is less
  than a thousand-millionth of a step.\<close>

theorem dbc_quantises:
  assumes "0 \<le> EngineSpeed e" and "EngineSpeed e \<le> 65535 / 4" and "- 40 \<le> CoolantTemp e" and "CoolantTemp e \<le> 215"
    and "0 \<le> VehicleSpeed v" and "VehicleSpeed v \<le> 65535 * hundredth"
  shows "\<bar>EngineSpeed (EngineData_unpack (EngineData_pack e)) - EngineSpeed e\<bar> \<le> 1 / 4 * (1 / 2 + 1 / 2 ^ 30) \<and>
    \<bar>CoolantTemp (EngineData_unpack (EngineData_pack e)) - CoolantTemp e\<bar> \<le> 1 / 2 + 1 / 2 ^ 30 \<and>
    \<bar>VehicleSpeed (VehicleStatus_unpack (VehicleStatus_pack v)) - VehicleSpeed v\<bar> \<le> hundredth * (1 / 2 + 1 / 2 ^ 30)"
proof -
  have field: "0xFFFF = (mask 16 :: u64)" "0xFF = (mask 8 :: u64)" by (simp_all add: mask_eq_exp_minus_1)
  have fields: "EngineSpeed (EngineData_unpack (EngineData_pack e)) = signal_value (1 / 4) 0 (signal_raw (1 / 4) 0 0xFFFF (EngineSpeed e))"
    "CoolantTemp (EngineData_unpack (EngineData_pack e)) = signal_value 1 (- 40) (signal_raw 1 40 0xFF (CoolantTemp e))"
    "VehicleSpeed (VehicleStatus_unpack (VehicleStatus_pack v)) =
      signal_value hundredth 0 (signal_raw hundredth 0 0xFFFF (VehicleSpeed v))"
    by (simp_all only: EngineData_pack_def EngineData_unpack_def VehicleStatus_pack_def VehicleStatus_unpack_def Let_def
        assemble EngineData_t.simps VehicleStatus_t.simps field_parts(1,2) [OF raw_field(1) raw_field(2)] field_parts(3) [OF raw_field(1)])
  have "\<bar>signal_value (1 / 4) 0 (signal_raw (1 / 4) (- 0) (mask 16) (EngineSpeed e)) - EngineSpeed e\<bar> \<le> 1 / 4 * (1 / 2 + 1 / 2 ^ 30)"
    by (rule signal_quantised [where x = "EngineSpeed e * 4"]) (use assms in simp_all)
  moreover have "\<bar>signal_value 1 (- 40) (signal_raw 1 (- (- 40)) (mask 8) (CoolantTemp e)) - CoolantTemp e\<bar> \<le> 1 * (1 / 2 + 1 / 2 ^ 30)"
    by (rule signal_quantised [where x = "CoolantTemp e + 40"]) (use assms in simp_all)
  moreover have "\<bar>signal_value hundredth 0 (signal_raw hundredth (- 0) (mask 16) (VehicleSpeed v)) - VehicleSpeed v\<bar> \<le>
      hundredth * (1 / 2 + 1 / 2 ^ 30)"
    by (rule signal_quantised [where x = "VehicleSpeed v / hundredth"]) (use assms hundredth_pos in \<open>simp_all add: divide_le_eq\<close>)
  ultimately show ?thesis unfolding fields field by simp
qed

theorem dbc_quantises_witness:
  "\<bar>EngineSpeed (EngineData_unpack (EngineData_pack \<lparr>EngineSpeed = 1000 + 1 / 16, CoolantTemp = 20 + 3 / 8\<rparr>)) - (1000 + 1 / 16)\<bar> \<le>
     1 / 4 * (1 / 2 + 1 / 2 ^ 30) \<and>
   \<bar>VehicleSpeed (VehicleStatus_unpack (VehicleStatus_pack \<lparr>VehicleSpeed = 88 + 1 / 8, BrakeActive = 0\<rparr>)) - (88 + 1 / 8)\<bar> \<le>
     hundredth * (1 / 2 + 1 / 2 ^ 30)"
proof -
  have "88 + 1 / 8 \<le> 65535 * hundredth" by code_simp
  with dbc_quantises [of "\<lparr>EngineSpeed = 1000 + 1 / 16, CoolantTemp = 20 + 3 / 8\<rparr>" "\<lparr>VehicleSpeed = 88 + 1 / 8, BrakeActive = 0\<rparr>"]
  show ?thesis by simp
qed

subsection \<open>When the bench sends\<close>

text \<open>The frames the bench sends, as the host test expects them, and when it sends them.\<close>

lemma bench_frames:
  "EngineData_pack \<lparr>EngineSpeed = 1234 + 1 / 2, CoolantTemp = 85\<rparr> = [0x13, 0x4A, 0x7D, 0, 0, 0, 0, 0]"
  "VehicleStatus_pack \<lparr>VehicleSpeed = 42 + 1 / 2, BrakeActive = 1\<rparr> = [0x9A, 0x10, 0x01, 0, 0, 0, 0, 0]"
  by code_simp+

text \<open>Beyond its range a signal is not clamped: it wraps.\<close>

lemma speed_wraps: "EngineData_pack \<lparr>EngineSpeed = 16384, CoolantTemp = 216\<rparr> = [0, 0, 0, 0, 0, 0, 0, 0]"
  by code_simp

lemma bench_pace:
  assumes "DbcBench_Poll b t = (Some fr, b')" and "0 < d"
  shows "fst (DbcBench_Poll b' (t + d)) \<noteq> None \<longleftrightarrow> db_period_ms b \<le> d"
  using assms by (auto simp: DbcBench_Poll_def split: if_splits)

end
