(* ===== verification/BenchApp.thy ===== *)
theory BenchApp
  imports Bench Dbc AppPort UdsEcu
begin

section \<open>The bench services of the application\<close>

text \<open>
  The services \<open>main.c\<close> compiles in for the test bench: the peer tester, the load generator, the
  handshake of the frame-loss test, the background load of the stress master and the transport bench.
  Each works on the CAN driver and its own globals; the cycle counter's readings are arguments.
\<close>

definition APP_PEER_INTERVAL_MS :: u32 where "APP_PEER_INTERVAL_MS = 100"
definition APP_PEER_RESPONSE_MS :: u32 where "APP_PEER_RESPONSE_MS = 50"
definition APP_ISOTP_BENCH_PAYLOAD_SIZE :: u16 where "APP_ISOTP_BENCH_PAYLOAD_SIZE = 100"
definition APP_ISOTP_BENCH_PERIOD_MS :: u32 where "APP_ISOTP_BENCH_PERIOD_MS = 1000"

text \<open>\<open>(int32_t)(a - b) < 0\<close>.\<close>

definition before :: "u32 \<Rightarrow> u32 \<Rightarrow> bool" where
  "before a b \<longleftrightarrow> sint (a - b) < 0"

subsection \<open>The peer tester\<close>

record peer_state =
  pr_stats :: PeerTesterStats_t
  pr_request_started_ms :: u32
  pr_request_pending :: bool
  pr_next_request :: u32
  pr_initialized :: bool

definition peer_timeout :: "u32 \<Rightarrow> peer_state \<Rightarrow> peer_state" where
  "peer_timeout now p =
     (if pr_request_pending p \<and> APP_PEER_RESPONSE_MS \<le> now - pr_request_started_ms p
      then p\<lparr>pr_stats := PeerTester_RecordTimeout (pr_stats p), pr_request_pending := False\<rparr> else p)"

definition peer_request :: "u32 \<Rightarrow> u32 \<Rightarrow> CanDriver_t \<times> peer_state \<Rightarrow> CanDriver_t \<times> peer_state" where
  "peer_request request_id now s =
     (let (r, d) = CanDriver_SendStd (fst s) request_id (Some PeerTester_BuildRequest) 8;
          p = (snd s)\<lparr>pr_request_started_ms := now\<rparr>;
          p1 = (if r = HAL_OK
                then p\<lparr>pr_stats := PeerTester_RecordRequest (pr_stats p), pr_request_pending := True\<rparr>
                else p\<lparr>pr_stats := PeerTester_RecordTxFailure (pr_stats p)\<rparr>);
          next_request = pr_next_request p1 + APP_PEER_INTERVAL_MS
      in (d, p1\<lparr>pr_next_request := (if \<not> before now next_request then now + APP_PEER_INTERVAL_MS else next_request)\<rparr>))"

definition APP_ServicePeerTester :: "u32 \<Rightarrow> u32 \<Rightarrow> CanDriver_t \<times> peer_state \<Rightarrow> CanDriver_t \<times> peer_state" where
  "APP_ServicePeerTester request_id now s =
     (let p = (if \<not> pr_initialized (snd s) then (snd s)\<lparr>pr_next_request := now, pr_initialized := True\<rparr> else snd s);
          p1 = peer_timeout now p
      in if pr_request_pending p1 \<or> before now (pr_next_request p1) then (fst s, p1)
         else peer_request request_id now (fst s, p1))"

text \<open>The branch of the receive callback; the Boolean says that the frame was for the tester.\<close>

definition peer_on_frame :: "u32 \<Rightarrow> u32 \<Rightarrow> frame \<Rightarrow> u32 \<Rightarrow> u32 \<Rightarrow> peer_state \<Rightarrow> bool \<times> peer_state" where
  "peer_on_frame response_id i data len tick p =
     (if i = response_id \<and> len = 8 then
        if pr_request_pending p then
          let (ok, st) = PeerTester_AcceptResponse (pr_stats p) i data len response_id in
          (True, if ok then p\<lparr>pr_stats := PeerTester_RecordLatency st (tick - pr_request_started_ms p),
                             pr_request_pending := False\<rparr>
                 else p\<lparr>pr_stats := st\<rparr>)
        else (True, p)
      else (False, p))"

subsection \<open>The load generator\<close>

record load_state =
  ld_stats :: LoadGeneratorStats_t
  ld_initialized :: bool
  ld_next_send :: u32

definition load_skip :: "u32 \<Rightarrow> u32 \<Rightarrow> load_state \<Rightarrow> load_state" where
  "load_skip period now l =
     (let late = now - ld_next_send l; skipped = late div period in
      if period \<le> late
      then l\<lparr>ld_stats := LoadGenerator_RecordSkipped (ld_stats l) skipped,
             ld_next_send := ld_next_send l + skipped * period\<rparr>
      else l)"

definition load_send :: "u32 \<Rightarrow> u32 \<Rightarrow> CanDriver_t \<times> load_state \<Rightarrow> CanDriver_t \<times> load_state" where
  "load_send fid period s =
     (if CanDriver_GetTxMailboxesFreeLevel (fst s) < 3 then s
      else let (r, d) = CanDriver_SendStd (fst s) fid
                          (Some (LoadGenerator_BuildFrame (lg_sequence (ld_stats (snd s))))) 8
           in (d, (snd s)\<lparr>ld_stats := LoadGenerator_RecordAttempt (ld_stats (snd s)) (r = HAL_OK),
                          ld_next_send := ld_next_send (snd s) + period\<rparr>))"

text \<open>\<open>first\<close> is the counter after it has been reset, \<open>now\<close> its reading in this call; the build without
  the frame-loss handshake.\<close>

definition APP_ServiceLoadGenerator ::
  "u32 \<Rightarrow> u32 \<Rightarrow> u32 \<Rightarrow> u32 \<Rightarrow> CanDriver_t \<times> load_state \<Rightarrow> CanDriver_t \<times> load_state" where
  "APP_ServiceLoadGenerator fid period first now s =
     (let d = fst s; l = snd s in
      if lg_target_frames (ld_stats l) \<noteq> 0 \<and> lg_completed (ld_stats l) \<noteq> 0 then s
      else let l1 = (if \<not> ld_initialized l then l\<lparr>ld_next_send := first, ld_initialized := True\<rparr> else l) in
        if before now (ld_next_send l1) then (d, l1)
        else load_send fid period (d, load_skip period now l1))"

subsection \<open>The handshake of the frame-loss test\<close>

record handshake =
  hs_next_control :: u32
  hs_initialized :: bool
  hs_peer_ready :: bool
  hs_go_seen :: bool

definition APP_ServiceFrameLossHandshake :: "bool \<Rightarrow> u32 \<Rightarrow> CanDriver_t \<times> handshake \<Rightarrow> CanDriver_t \<times> handshake" where
  "APP_ServiceFrameLossHandshake coordinator now s =
     (let h = (if \<not> hs_initialized (snd s) then (snd s)\<lparr>hs_next_control := now, hs_initialized := True\<rparr> else snd s) in
      if hs_go_seen h \<or> before now (hs_next_control h) then (fst s, h)
      else let go = (coordinator \<and> hs_peer_ready h);
               (r, d) = CanDriver_SendStd (fst s) 0x6F2 (Some [if go then 0x20 else 0x10, 0, 0, 0, 0, 0, 0, 0]) 8
           in (d, h\<lparr>hs_go_seen := go, hs_next_control := now + 100\<rparr>))"

text \<open>The coordinator takes its go frame for sent whatever the driver answered and never sends it again.\<close>

lemma go_sent_once:
  assumes "hs_initialized h" and "hs_peer_ready h" and "\<not> hs_go_seen h" and "\<not> before now (hs_next_control h)"
    and "APP_ServiceFrameLossHandshake True now (d, h) = (d', h')"
  shows "hs_go_seen h' \<and> APP_ServiceFrameLossHandshake True later (d2, h') = (d2, h')"
  using assms by (auto simp: APP_ServiceFrameLossHandshake_def Let_def split: prod.splits)

definition handshake_on_frame :: "u32 \<Rightarrow> frame \<Rightarrow> u32 \<Rightarrow> handshake \<Rightarrow> bool \<times> handshake" where
  "handshake_on_frame i data len h =
     (if i = 0x6F2 \<and> len = 8 then
        (True, if data ! 0 = 0x10 then h\<lparr>hs_peer_ready := True\<rparr>
               else if data ! 0 = 0x20 then h\<lparr>hs_go_seen := True\<rparr> else h)
      else (False, h))"

subsection \<open>The background load of the stress master\<close>

definition stress_skip :: "u32 \<Rightarrow> u32 \<Rightarrow> u32 \<times> u32 \<times> StressMasterStats_t \<Rightarrow> u32 \<times> u32 \<times> StressMasterStats_t" where
  "stress_skip period now b =
     (case b of (next_background, seq, st) \<Rightarrow>
      let late = now - next_background; skipped = late div period in
      if period \<le> late
      then (next_background + skipped * period, seq + skipped, st\<lparr>sm_background_missed := sm_background_missed st + skipped\<rparr>)
      else b)"

definition APP_StressServiceBackground ::
  "u32 \<Rightarrow> u32 \<Rightarrow> CanDriver_t \<times> u32 \<times> u32 \<times> StressMasterStats_t \<Rightarrow> CanDriver_t \<times> u32 \<times> u32 \<times> StressMasterStats_t" where
  "APP_StressServiceBackground period now s =
     (if before now (fst (snd s)) then s
      else case stress_skip period now (snd s) of (next_background, seq, st) \<Rightarrow>
        let (r, d) = CanDriver_SendStd (fst s) 0x7F0 (Some (StressMaster_BuildBackground seq)) 8
        in (d, next_background + period, seq + 1,
            if r = HAL_OK then st\<lparr>sm_background_sent := sm_background_sent st + 1\<rparr>
            else st\<lparr>sm_background_missed := sm_background_missed st + 1\<rparr>))"

subsection \<open>The transport bench\<close>

record isotp_bench =
  ib_rx :: "app_port IsotpRx_t"
  ib_tx :: "app_port IsotpTx_t"
  ib_port :: app_port
  ib_buffer :: "u8 list"
  ib_tx_started :: u32
  ib_rx_messages :: u32
  ib_rx_errors :: u32
  ib_rx_bad_index :: u16
  ib_last_ack :: u8
  ib_payload_ready :: bool
  ib_last_tx_ms :: u32

text \<open>The receiving node checks the payload and answers with a status frame.\<close>

definition bench_receive :: "u32 \<Rightarrow> isotp_bench \<Rightarrow> isotp_bench" where
  "bench_receive tx_id b =
     (if IsotpRx_MessageReady (Some (ib_rx b)) then
        let (r, message, rx) = IsotpRx_Read (ib_rx b) (Some 300); b1 = b\<lparr>ib_rx := rx\<rparr> in
        if r \<noteq> ISOTP_OK then b1
        else let (ok, bad) = IsotpBench_ValidatePayload (Some message) (of_nat (length message)) APP_ISOTP_BENCH_PAYLOAD_SIZE;
                 b2 = b1\<lparr>ib_rx_messages := ib_rx_messages b1 + 1\<rparr>;
                 b3 = (if ok then b2 else b2\<lparr>ib_rx_errors := ib_rx_errors b2 + 1, ib_rx_bad_index := bad\<rparr>);
                 (sent, d) = CanDriver_SendStd (port_can (ib_port b3)) tx_id
                   (Some (IsotpBench_BuildStatusFrame (if ok then ISOTP_BENCH_STATUS_OK else ISOTP_BENCH_STATUS_FAIL))) 8
             in b3\<lparr>ib_port := (ib_port b3)\<lparr>port_can := d\<rparr>\<rparr>
      else b)"

text \<open>The sending node notes the answer and starts the next transfer when its period has passed.\<close>

definition bench_note_ack :: "isotp_bench \<Rightarrow> isotp_bench" where
  "bench_note_ack b =
     (if IsotpRx_MessageReady (Some (ib_rx b)) then
        let (r, message, rx) = IsotpRx_Read (ib_rx b) (Some 300); b1 = b\<lparr>ib_rx := rx\<rparr> in
        if r = ISOTP_OK \<and> length message = 1 then b1\<lparr>ib_last_ack := message ! 0\<rparr> else b1
      else b)"

definition bench_send :: "u32 \<Rightarrow> isotp_bench \<Rightarrow> isotp_bench" where
  "bench_send now b =
     (if \<not> IsotpTx_IsBusy (Some (ib_tx b)) \<and> APP_ISOTP_BENCH_PERIOD_MS \<le> now - ib_last_tx_ms b then
        let b1 = (if \<not> ib_payload_ready b
                  then b\<lparr>ib_buffer := the (IsotpBench_BuildPayload (Some (ib_buffer b)) APP_ISOTP_BENCH_PAYLOAD_SIZE),
                         ib_payload_ready := True\<rparr>
                  else b);
            (r, tx, p) = IsotpTx_Start (ib_tx b1) (Some (take (unat APP_ISOTP_BENCH_PAYLOAD_SIZE) (ib_buffer b1)))
                           APP_ISOTP_BENCH_PAYLOAD_SIZE (ib_port b1);
            b2 = b1\<lparr>ib_tx := tx, ib_port := p\<rparr>
        in if r = ISOTP_OK then b2\<lparr>ib_tx_started := ib_tx_started b2 + 1, ib_last_tx_ms := now\<rparr>
           else b2\<lparr>ib_rx_errors := ib_rx_errors b2 + 1\<rparr>
      else b)"

subsection \<open>The signal bench\<close>

text \<open>The branch of the main loop; the send's result is ignored.\<close>

definition service_dbc_bench :: "u32 \<Rightarrow> CanDriver_t \<times> DbcBench_t \<Rightarrow> CanDriver_t \<times> DbcBench_t" where
  "service_dbc_bench now s =
     (case DbcBench_Poll (snd s) now of
        (None, b) \<Rightarrow> (fst s, b)
      | (Some (dbc_id, dbc_data), b) \<Rightarrow> (snd (CanDriver_SendStd (fst s) dbc_id (Some dbc_data) 8), b))"

subsection \<open>Requests are accounted for\<close>

datatype peer_event = PeerService u32 CanDriver_t | PeerFrame u32 frame u32 u32

fun peer_step :: "u32 \<Rightarrow> u32 \<Rightarrow> peer_event \<Rightarrow> peer_state \<Rightarrow> peer_state" where
  "peer_step request_id response_id (PeerService now d) p = snd (APP_ServicePeerTester request_id now (d, p))"
| "peer_step request_id response_id (PeerFrame i data len tick) p = snd (peer_on_frame response_id i data len tick p)"

definition peer_balanced :: "peer_state \<Rightarrow> bool" where
  "peer_balanced p \<longleftrightarrow> pt_requests_sent (pr_stats p) =
     pt_responses_ok (pr_stats p) + pt_timeouts (pr_stats p) + (if pr_request_pending p then 1 else 0)"

lemma timeout_balanced: "peer_balanced p \<Longrightarrow> peer_balanced (peer_timeout now p)"
  by (simp add: peer_balanced_def peer_timeout_def PeerTester_RecordTimeout_def)

lemma request_balanced:
  "peer_balanced p \<Longrightarrow> \<not> pr_request_pending p \<Longrightarrow> peer_balanced (snd (peer_request request_id now (d, p)))"
  by (simp add: peer_balanced_def peer_request_def PeerTester_RecordRequest_def PeerTester_RecordTxFailure_def Let_def case_prod_beta)

lemma service_balanced:
  assumes "peer_balanced p"
  shows "peer_balanced (snd (APP_ServicePeerTester request_id now (d, p)))"
proof -
  define q where "q = (if \<not> pr_initialized p then p\<lparr>pr_next_request := now, pr_initialized := True\<rparr> else p)"
  have "peer_balanced q" using assms by (simp add: peer_balanced_def q_def)
  note t = timeout_balanced [OF this, of now]
  have "snd (APP_ServicePeerTester request_id now (d, p)) =
      (if pr_request_pending (peer_timeout now q) \<or> before now (pr_next_request (peer_timeout now q)) then peer_timeout now q
       else snd (peer_request request_id now (d, peer_timeout now q)))"
    unfolding APP_ServicePeerTester_def Let_def fst_conv snd_conv q_def [symmetric] by simp
  with t request_balanced [OF t, of request_id now d] show ?thesis by simp
qed

lemma frame_balanced: "peer_balanced p \<Longrightarrow> peer_balanced (snd (peer_on_frame response_id i data len tick p))"
  by (simp add: peer_balanced_def peer_on_frame_def PeerTester_AcceptResponse_def PeerTester_RecordLatency_def Let_def)

lemma peer_steps_balanced: "peer_balanced p \<Longrightarrow> peer_balanced (fold (peer_step request_id response_id) es p)"
proof (induction es arbitrary: p)
  case (Cons e es)
  have "peer_balanced (peer_step request_id response_id e p)"
    using Cons.prems by (cases e) (simp_all add: service_balanced frame_balanced)
  from Cons.IH [OF this] show ?case by simp
qed simp

definition fresh_peer :: peer_state where
  "fresh_peer = \<lparr>pr_stats = PeerTester_Init APP_PEER_INTERVAL_MS APP_PEER_RESPONSE_MS, pr_request_started_ms = 0,
     pr_request_pending = False, pr_next_request = 0, pr_initialized = False\<rparr>"

text \<open>No request of the peer tester is lost in its books: after any sequence of service calls, at
  any ticks and with the driver and the controller in any state, and of received frames, the requests
  sent are the responses accepted plus the timeouts plus the one request that may be outstanding.\<close>

theorem peer_requests_accounted:
  "pt_requests_sent (pr_stats (fold (peer_step request_id response_id) es fresh_peer)) =
     pt_responses_ok (pr_stats (fold (peer_step request_id response_id) es fresh_peer)) +
     pt_timeouts (pr_stats (fold (peer_step request_id response_id) es fresh_peer)) +
     of_bool (pr_request_pending (fold (peer_step request_id response_id) es fresh_peer))"
  using peer_steps_balanced [of fresh_peer request_id response_id es]
  by (simp add: peer_balanced_def fresh_peer_def PeerTester_Init_def)

subsection \<open>Every load frame in its slot\<close>

text \<open>Slot \<open>n\<close> begins \<open>n\<close> periods after the start.  Between two calls the generator is in slot \<open>n\<close>, no
  more than a period ahead of the time and less than one behind it, and every slot before is accounted.\<close>

definition load_slot :: "nat \<Rightarrow> u32 \<Rightarrow> nat \<Rightarrow> nat \<Rightarrow> load_state \<Rightarrow> bool" where
  "load_slot start period t n l \<longleftrightarrow> ld_initialized l \<and> ld_next_send l = of_nat (start + n * unat period) \<and>
     lg_sequence (ld_stats l) = of_nat n \<and>
     of_nat n = lg_sent (ld_stats l) + lg_tx_failures (ld_stats l) + lg_missed_deadlines (ld_stats l) \<and>
     start + n * unat period \<le> t + unat period \<and> t < start + n * unat period + unat period"

lemma sint_diff:
  fixes a b :: nat
  assumes "\<bar>int a - int b\<bar> < 2 ^ 31"
  shows "sint (of_nat a - of_nat b :: u32) = int a - int b"
proof -
  have "(of_nat a - of_nat b :: u32) = word_of_int (int a - int b)" by simp
  then have "sint (of_nat a - of_nat b :: u32) = signed_take_bit 31 (int a - int b)"
    by (simp only: sint_sbintrunc') simp
  also have "\<dots> = int a - int b"
    using assms by (intro signed_take_bit_int_eq_self) simp_all
  finally show ?thesis .
qed

lemma near_slot:
  fixes x q t t' :: nat
  assumes "x \<le> t + q" and "t < x + q" and "t \<le> t'" and "t' - t + 2 * q \<le> 2 ^ 31"
  shows "\<bar>int t' - int x\<bar> < 2 ^ 31" "t' - x < 2 ^ 31"
  using assms by simp_all

lemma skip_slot:
  assumes "0 < unat period" and "t = start + n * unat period + k" and "k < 2 ^ 31"
    and "ld_next_send l = of_nat (start + n * unat period)" and "lg_sequence (ld_stats l) = of_nat n" and "ld_initialized l"
    and "of_nat n = lg_sent (ld_stats l) + lg_tx_failures (ld_stats l) + lg_missed_deadlines (ld_stats l)"
  shows "load_slot start period t ((t - start) div unat period) (load_skip period (of_nat t) l) \<and>
    start + (t - start) div unat period * unat period \<le> t \<and>
    lg_sent (ld_stats (load_skip period (of_nat t) l)) = lg_sent (ld_stats l) \<and>
    lg_missed_deadlines (ld_stats (load_skip period (of_nat t) l)) =
      lg_missed_deadlines (ld_stats l) + of_nat ((t - start) div unat period - n)"
proof -
  let ?q = "unat period" let ?s = "k div unat period"
  have word: "of_nat t - ld_next_send l = (of_nat k :: u32)" using assms(2,4) by simp
  have late: "unat (of_nat k :: u32) = k" using assms(3) by (simp add: unat_of_nat)
  have "?s < 2 ^ 32" by (rule le_less_trans [OF div_le_dividend]) (use assms(3) in simp)
  then have "unat (of_nat ?s :: u32) = ?s" by (simp add: unat_of_nat)
  then have skip: "(of_nat k :: u32) div period = of_nat ?s"
    using late by (simp add: word_unat_eq_iff unat_div)
  have cmp: "period \<le> of_nat k \<longleftrightarrow> ?q \<le> k" using late by (simp add: word_le_nat_alt)
  have m: "(t - start) div ?q = n + ?s" using assms(1,2) by simp
  have "?s * ?q + k mod ?q = k" "k mod ?q < ?q" using assms(1) by simp_all
  then have le: "start + (n + ?s) * ?q \<le> t" "t < start + (n + ?s) * ?q + ?q"
    unfolding assms(2) add_mult_distrib by linarith+
  have period: "(of_nat ?q :: u32) = period" by simp
  show ?thesis
  proof (cases "?q \<le> k")
    case True
    have "load_skip period (of_nat t) l = l\<lparr>ld_stats := LoadGenerator_RecordSkipped (ld_stats l) (of_nat ?s),
        ld_next_send := of_nat (start + n * ?q) + of_nat ?s * period\<rparr>"
      using True cmp word skip assms(4) by (simp add: load_skip_def Let_def)
    with le assms(5-7) m show ?thesis
      by (simp add: load_slot_def LoadGenerator_RecordSkipped_def algebra_simps)
  next
    case False
    then have "load_skip period (of_nat t) l = l" "?s = 0"
      using cmp word by (simp_all add: load_skip_def Let_def)
    with le assms(4-7) m show ?thesis by (simp add: load_slot_def)
  qed
qed

text \<open>What a call in slot \<open>k\<close> does: with \<open>n\<close> slots accounted for before it, it does nothing when slot \<open>k\<close> is among
  them; otherwise it counts the slots from \<open>n\<close> to \<open>k\<close> as missed and, unless a mailbox is in use, spends slot
  \<open>k\<close> on a frame with its number.\<close>

definition slot_call :: "u32 \<Rightarrow> nat \<Rightarrow> CanDriver_t \<times> load_state \<Rightarrow> CanDriver_t \<times> load_state \<Rightarrow> bool" where
  "slot_call fid k s s' \<longleftrightarrow>
     (case s of (d, l) \<Rightarrow> case s' of (d', l') \<Rightarrow>
      \<exists>n \<le> k + 1. lg_sequence (ld_stats l) = of_nat n \<and>
        (if n = k + 1 then d' = d \<and> ld_stats l' = ld_stats l
         else lg_missed_deadlines (ld_stats l') = lg_missed_deadlines (ld_stats l) + of_nat (k - n) \<and>
           (if CanDriver_GetTxMailboxesFreeLevel d < 3
            then d' = d \<and> lg_sequence (ld_stats l') = of_nat k \<and> lg_sent (ld_stats l') = lg_sent (ld_stats l)
            else let (r, d1) = CanDriver_SendStd d fid (Some (LoadGenerator_BuildFrame (of_nat k))) 8
              in d' = d1 \<and> lg_sequence (ld_stats l') = of_nat (k + 1) \<and>
                lg_sent (ld_stats l') = lg_sent (ld_stats l) + (if r = HAL_OK then 1 else 0))))"

definition load_stopped :: "load_state \<Rightarrow> bool" where
  "load_stopped l \<longleftrightarrow> lg_target_frames (ld_stats l) \<noteq> 0 \<and> lg_completed (ld_stats l) \<noteq> 0"

definition load_balanced :: "load_state \<Rightarrow> bool" where
  "load_balanced l \<longleftrightarrow> lg_sequence (ld_stats l) =
     lg_sent (ld_stats l) + lg_tx_failures (ld_stats l) + lg_missed_deadlines (ld_stats l)"

lemma send_slot:
  assumes "load_slot start period t k l" and "start + k * unat period \<le> t" and "load_send fid period (d, l) = (d', l')"
  shows "\<exists>n'. load_slot start period t n' l'"
    and "lg_missed_deadlines (ld_stats l') = lg_missed_deadlines (ld_stats l)"
    and "CanDriver_GetTxMailboxesFreeLevel d < 3 \<Longrightarrow> d' = d \<and> l' = l"
    and "\<not> CanDriver_GetTxMailboxesFreeLevel d < 3 \<Longrightarrow>
      CanDriver_SendStd d fid (Some (LoadGenerator_BuildFrame (of_nat k))) 8 = (r, d1) \<Longrightarrow>
      d' = d1 \<and> lg_sequence (ld_stats l') = of_nat (k + 1) \<and>
      lg_sent (ld_stats l') = lg_sent (ld_stats l) + (if r = HAL_OK then 1 else 0)"
proof -
  have seq: "lg_sequence (ld_stats l) = of_nat k" using assms(1) by (simp add: load_slot_def)
  have sent: "\<not> CanDriver_GetTxMailboxesFreeLevel d < 3 \<Longrightarrow>
      CanDriver_SendStd d fid (Some (LoadGenerator_BuildFrame (of_nat k))) 8 = (r, d1) \<Longrightarrow>
      d' = d1 \<and> l' = l\<lparr>ld_stats := LoadGenerator_RecordAttempt (ld_stats l) (r = HAL_OK), ld_next_send := ld_next_send l + period\<rparr>"
    for r d1 using assms(3) seq by (auto simp: load_send_def split: prod.splits)
  have kept: "CanDriver_GetTxMailboxesFreeLevel d < 3 \<Longrightarrow> d' = d \<and> l' = l"
    using assms(3) by (simp add: load_send_def)
  have spent: "load_slot start period t (k + 1) (l\<lparr>ld_stats := LoadGenerator_RecordAttempt (ld_stats l) b,
      ld_next_send := ld_next_send l + period\<rparr>)" for b
    using assms(1,2) by (auto simp: load_slot_def LoadGenerator_RecordAttempt_def Let_def algebra_simps)
  obtain r0 d0 where s0: "CanDriver_SendStd d fid (Some (LoadGenerator_BuildFrame (of_nat k))) 8 = (r0, d0)" by fastforce
  show "\<exists>n'. load_slot start period t n' l'" using sent [OF _ s0] kept spent assms(1) by blast
  show "lg_missed_deadlines (ld_stats l') = lg_missed_deadlines (ld_stats l)"
    using sent [OF _ s0] kept by (cases "CanDriver_GetTxMailboxesFreeLevel d < 3")
      (auto simp: LoadGenerator_RecordAttempt_def Let_def)
  show "CanDriver_GetTxMailboxesFreeLevel d < 3 \<Longrightarrow> d' = d \<and> l' = l" by (rule kept)
  show "\<not> CanDriver_GetTxMailboxesFreeLevel d < 3 \<Longrightarrow>
      CanDriver_SendStd d fid (Some (LoadGenerator_BuildFrame (of_nat k))) 8 = (r, d1) \<Longrightarrow>
      d' = d1 \<and> lg_sequence (ld_stats l') = of_nat (k + 1) \<and>
      lg_sent (ld_stats l') = lg_sent (ld_stats l) + (if r = HAL_OK then 1 else 0)"
    using sent [of r d1] seq by (auto simp: LoadGenerator_RecordAttempt_def Let_def)
qed

lemma slot_of_time:
  fixes q n k t :: nat
  assumes "0 < q" and "start + n * q \<le> t + q" and "start \<le> t"
  shows "n \<le> (t - start) div q + 1" and "t < start + n * q \<longleftrightarrow> n = (t - start) div q + 1"
proof -
  have lt: "x < start + m * q \<longleftrightarrow> (x - start) div q < m" if "start \<le> x" for x m
    using that assms(1) by (simp add: div_less_iff_less_mult) linarith
  have sum: "t + q - start = (t - start) + q" using assms(3) by simp
  have "(t + q - start) div q = (t - start) div q + 1"
    unfolding sum by (rule div_add_self2) (use assms(1) in simp)
  moreover have "\<not> t + q < start + n * q" using assms(2) by simp
  ultimately show n: "n \<le> (t - start) div q + 1" using lt [of "t + q" n] assms(3) by simp
  show "t < start + n * q \<longleftrightarrow> n = (t - start) div q + 1" using lt [of t n] assms(3) n by linarith
qed

lemma service_slot:
  assumes "0 < unat period" and "load_slot start period t n (if ld_initialized l then l else l\<lparr>ld_next_send := first, ld_initialized := True\<rparr>)"
    and "\<not> load_stopped l" and "start \<le> t" and "t \<le> t'" and "t' - t + 2 * unat period \<le> 2 ^ 31"
    and "APP_ServiceLoadGenerator fid period first (of_nat t') (d, l) = (d', l')"
  shows "(\<exists>n'. load_slot start period t' n' l') \<and> slot_call fid ((t' - start) div unat period) (d, l) (d', l')"
proof -
  define l1 where "l1 = (if ld_initialized l then l else l\<lparr>ld_next_send := first, ld_initialized := True\<rparr>)"
  let ?next = "start + n * unat period" and ?k = "(t' - start) div unat period"
  have l1: "load_slot start period t n l1" using assms(2) by (simp add: l1_def)
  have stats: "ld_stats l1 = ld_stats l" by (simp add: l1_def)
  have n: "?next \<le> t + unat period" "t < ?next + unat period" "ld_next_send l1 = of_nat ?next"
    and seq: "ld_initialized l1" "lg_sequence (ld_stats l1) = of_nat n"
      "of_nat n = lg_sent (ld_stats l1) + lg_tx_failures (ld_stats l1) + lg_missed_deadlines (ld_stats l1)"
    using l1 by (simp_all add: load_slot_def)
  have run: "APP_ServiceLoadGenerator fid period first (of_nat t') (d, l) =
      (if before (of_nat t') (ld_next_send l1) then (d, l1) else load_send fid period (d, load_skip period (of_nat t') l1))"
    unfolding APP_ServiceLoadGenerator_def Let_def fst_conv snd_conv l1_def
    using assms(3) by (cases "ld_initialized l") (auto simp: load_stopped_def)
  note near = near_slot [OF n(1,2) assms(5,6)]
  have early: "before (of_nat t') (ld_next_send l1) \<longleftrightarrow> t' < ?next"
    unfolding before_def n(3) sint_diff [OF near(1)] by linarith
  have nk: "n \<le> ?k + 1" "t' < ?next \<longleftrightarrow> n = ?k + 1"
    using slot_of_time [OF assms(1), of start n t'] n(1) assms(4,5) by simp_all
  show ?thesis
  proof (cases "t' < ?next")
    case True
    then have same: "d' = d" "l' = l1" using run early assms(7) by simp_all
    moreover have "load_slot start period t' n l1" using l1 True n assms(5) by (simp add: load_slot_def)
    moreover have "slot_call fid ?k (d, l) (d', l')"
      unfolding slot_call_def prod.case using nk True seq(2) stats same by (intro exI [of _ n]) simp
    ultimately show ?thesis by blast
  next
    case False
    have t': "t' = ?next + (t' - ?next)" using False by simp
    note skip = skip_slot [OF assms(1) t' near(2) n(3) seq(2,1,3)]
    let ?l2 = "load_skip period (of_nat t') l1"
    have go: "load_send fid period (d, ?l2) = (d', l')" using run early False assms(7) by simp
    have k: "load_slot start period t' ?k ?l2" "start + ?k * unat period \<le> t'" using skip by simp_all
    note snd = send_slot [OF k go]
    have "lg_sequence (ld_stats ?l2) = of_nat ?k" using k(1) by (simp add: load_slot_def)
    then have "slot_call fid ?k (d, l) (d', l')"
      unfolding slot_call_def prod.case using nk False seq(2) stats skip snd(2,3,4)
      by (intro exI [of _ n]) (auto split: prod.split)
    with snd(1) show ?thesis by blast
  qed
qed

text \<open>Calls at growing times, each with the driver as it is then.\<close>

fun load_times :: "nat \<Rightarrow> nat \<Rightarrow> (nat \<times> CanDriver_t) list \<Rightarrow> bool" where
  "load_times q t [] \<longleftrightarrow> True"
| "load_times q t ((t', d) # cs) \<longleftrightarrow> t \<le> t' \<and> t' - t + 2 * q \<le> 2 ^ 31 \<and> load_times q t' cs"

fun load_run :: "u32 \<Rightarrow> u32 \<Rightarrow> u32 \<Rightarrow> (nat \<times> CanDriver_t) list \<Rightarrow> load_state \<Rightarrow> load_state" where
  "load_run fid period first [] l = l"
| "load_run fid period first ((t, d) # cs) l =
     load_run fid period first cs (snd (APP_ServiceLoadGenerator fid period first (of_nat t) (d, l)))"

definition fresh_load :: "u32 \<Rightarrow> u32 \<Rightarrow> load_state" where
  "fresh_load period_us target = \<lparr>ld_stats = LoadGenerator_Init period_us target, ld_initialized = False, ld_next_send = 0\<rparr>"

definition load_ok :: "nat \<Rightarrow> u32 \<Rightarrow> nat \<Rightarrow> load_state \<Rightarrow> bool" where
  "load_ok start period t l \<longleftrightarrow> load_balanced l \<and> (load_stopped l \<or>
     (\<exists>n. load_slot start period t n (if ld_initialized l then l else l\<lparr>ld_next_send := of_nat start, ld_initialized := True\<rparr>)))"

lemma load_service_step:
  assumes "0 < unat period" and "load_ok start period t l" and "start \<le> t" and "t \<le> t'" and "t' - t + 2 * unat period \<le> 2 ^ 31"
    and "APP_ServiceLoadGenerator fid period (of_nat start) (of_nat t') (d, l) = (d', l')"
  shows "load_ok start period t' l' \<and>
    (if load_stopped l then (d', l') = (d, l) else slot_call fid ((t' - start) div unat period) (d, l) (d', l'))"
proof (cases "load_stopped l")
  case True
  with assms(2,6) show ?thesis
    by (auto simp: APP_ServiceLoadGenerator_def load_stopped_def load_ok_def)
next
  case False
  with assms(2) obtain n where "load_slot start period t n
      (if ld_initialized l then l else l\<lparr>ld_next_send := of_nat start, ld_initialized := True\<rparr>)" by (auto simp: load_ok_def)
  note step = service_slot [OF assms(1) this False assms(3-6)]
  then obtain n' where "load_slot start period t' n' l'" by blast
  then have "load_balanced l'" "ld_initialized l'" "load_slot start period t' n' l'"
    by (simp_all add: load_slot_def load_balanced_def)
  with step False show ?thesis by (auto simp: load_ok_def)
qed

lemma load_run_ok:
  "0 < unat period \<Longrightarrow> load_ok start period t l \<Longrightarrow> start \<le> t \<Longrightarrow> load_times (unat period) t (cs @ [(t', d)]) \<Longrightarrow>
    \<exists>t1. load_ok start period t1 (load_run fid period (of_nat start) cs l) \<and> start \<le> t1 \<and> t1 \<le> t' \<and>
      t' - t1 + 2 * unat period \<le> 2 ^ 31"
proof (induction cs arbitrary: t l)
  case (Cons c cs)
  obtain tc dc where c: "c = (tc, dc)" by fastforce
  obtain d1 l1 where s: "APP_ServiceLoadGenerator fid period (of_nat start) (of_nat tc) (dc, l) = (d1, l1)" by fastforce
  have t: "t \<le> tc" "tc - t + 2 * unat period \<le> 2 ^ 31" "load_times (unat period) tc (cs @ [(t', d)])"
    using Cons.prems(4) by (simp_all only: c append_Cons load_times.simps)
  note step = conjunct1 [OF load_service_step [OF Cons.prems(1-3) t(1,2) s]]
  have "start \<le> tc" using Cons.prems(3) t(1) by simp
  show ?case unfolding c load_run.simps s snd_conv by (rule Cons.IH [OF Cons.prems(1) step \<open>start \<le> tc\<close> t(3)])
qed auto

text \<open>C36: The load generator keeps its schedule.  It is called at any growing times, two calls in a row less
  than 2^31 cycles (less two periods) apart, with the driver in any state at each.  While the target has not been reached, a
  call in slot \<open>k\<close>, counted in periods from the start, accounts for every slot before \<open>k\<close> as sent, failed or
  missed, exactly once; and slot \<open>k\<close> itself is spent, on one attempt to send the frame with number \<open>k\<close>, by the first
  call in it that finds all three mailboxes free.  From the call after the target on nothing is sent or counted any more.\<close>

theorem load_frames_in_slots:
  assumes "0 < unat period" and "load_times (unat period) start (cs @ [(t, d)])"
    and "l = load_run fid period (of_nat start) cs (fresh_load period_us target)"
    and "APP_ServiceLoadGenerator fid period (of_nat start) (of_nat t) (d, l) = (d', l')"
  shows "lg_sequence (ld_stats l') = lg_sent (ld_stats l') + lg_tx_failures (ld_stats l') + lg_missed_deadlines (ld_stats l') \<and>
    (if lg_target_frames (ld_stats l) \<noteq> 0 \<and> lg_completed (ld_stats l) \<noteq> 0 then d' = d \<and> l' = l
     else \<exists>n. let k = (t - start) div unat period in
       n \<le> k + 1 \<and> lg_sequence (ld_stats l) = of_nat n \<and>
       (if n = k + 1 then d' = d \<and> ld_stats l' = ld_stats l
        else lg_missed_deadlines (ld_stats l') = lg_missed_deadlines (ld_stats l) + of_nat (k - n) \<and>
          (if CanDriver_GetTxMailboxesFreeLevel d < 3
           then d' = d \<and> lg_sequence (ld_stats l') = of_nat k \<and> lg_sent (ld_stats l') = lg_sent (ld_stats l)
           else let (r, d1) = CanDriver_SendStd d fid (Some (LoadGenerator_BuildFrame (of_nat k))) 8
             in d' = d1 \<and> lg_sequence (ld_stats l') = of_nat (k + 1) \<and>
               lg_sent (ld_stats l') = lg_sent (ld_stats l) + (if r = HAL_OK then 1 else 0))))"
proof -
  have "load_ok start period start (fresh_load period_us target)"
    using assms(1) by (auto simp: load_ok_def load_balanced_def fresh_load_def LoadGenerator_Init_def load_slot_def intro!: exI [of _ 0])
  from load_run_ok [OF assms(1) this order_refl assms(2), of fid] obtain t1 where
    "load_ok start period t1 l" "start \<le> t1" "t1 \<le> t" "t - t1 + 2 * unat period \<le> 2 ^ 31"
    unfolding assms(3) by blast
  from load_service_step [OF assms(1) this assms(4)]
  have "load_balanced l'" "if load_stopped l then (d', l') = (d, l) else slot_call fid ((t - start) div unat period) (d, l) (d', l')"
    by (simp_all add: load_ok_def)
  then show ?thesis unfolding load_balanced_def load_stopped_def slot_call_def Let_def prod.inject prod.case by simp
qed

text \<open>Period 3 from cycle 5: a call in slot 0 sends frame 0, one in slot 2 counts slot 1 as missed and sends
  frame 2, and the call at cycle 20 is in slot 5.\<close>

theorem load_frames_in_slots_witness:
  "\<exists>d' l'. APP_ServiceLoadGenerator 0x123 3 (of_nat 5) (of_nat 20)
      (sample_driver, load_run 0x123 3 (of_nat 5) [(6, sample_driver), (11, sample_driver)] (fresh_load 3 0)) = (d', l') \<and>
    lg_sequence (ld_stats l') = lg_sent (ld_stats l') + lg_tx_failures (ld_stats l') + lg_missed_deadlines (ld_stats l') \<and>
    lg_sequence (ld_stats l') = 6 \<and> lg_missed_deadlines (ld_stats l') = 3"
proof -
  let ?l = "load_run 0x123 3 (of_nat 5) [(6, sample_driver), (11, sample_driver)] (fresh_load 3 0)"
  obtain d' l' where r: "APP_ServiceLoadGenerator 0x123 3 (of_nat 5) (of_nat 20) (sample_driver, ?l) = (d', l')"
    by fastforce
  have times: "load_times (unat (3 :: u32)) 5 ([(6, sample_driver), (11, sample_driver)] @ [(20, sample_driver)])" by simp
  have l: "lg_target_frames (ld_stats ?l) = 0" "lg_sequence (ld_stats ?l) = 3" "lg_missed_deadlines (ld_stats ?l) = 1"
    by code_simp+
  have free: "\<not> CanDriver_GetTxMailboxesFreeLevel sample_driver < 3" by code_simp
  have small: "n = 3" if "n \<le> 6" "(3 :: u32) = of_nat n" for n
  proof -
    have "n = 0 \<or> n = 1 \<or> n = 2 \<or> n = 3 \<or> n = 4 \<or> n = 5 \<or> n = 6" using that(1) by arith
    with that(2) show ?thesis by (elim disjE) simp_all
  qed
  have "lg_sequence (ld_stats l') = lg_sent (ld_stats l') + lg_tx_failures (ld_stats l') + lg_missed_deadlines (ld_stats l') \<and>
    lg_sequence (ld_stats l') = 6 \<and> lg_missed_deadlines (ld_stats l') = 3"
    using load_frames_in_slots [OF _ times refl r] l free
    by (auto simp: Let_def dest!: small split: prod.splits)
  with r show ?thesis by blast
qed

end
