(* ===== verification/UdsFault.thy ===== *)
theory UdsFault
  imports BenchApp AppMain
begin

section \<open>Fault injection for the test bench and the reference routines\<close>

text \<open>
  \<open>uds_fault_test.c\<close>, the filter the bench build puts before the diagnostic server: a write to the
  identifier F1A0 orders a forged trouble code, a refusal of one service or silence for some seconds.
  A reply is the list of bytes written, its length the source's \<open>*response_length\<close>.  The service
  function of the application is given as the bench build compiles it.  \<open>uds_reference_routines.c\<close>,
  which no firmware build calls, is a routine that completes at a given poll.
\<close>

datatype UdsFaultAction_t = UDS_FAULT_PASS | UDS_FAULT_HANDLED | UDS_FAULT_DROP

record UdsFaultTest_t =
  ft_suppress_until_ms :: u32
  ft_dtc_status :: "u8 list"
  ft_dtc_active :: bool
  ft_nrc_service :: u8
  ft_nrc :: u8
  ft_nrc_active :: bool

definition UDS_DID_FAULT_CONTROL :: u16 where "UDS_DID_FAULT_CONTROL = 0xF1A0"
definition UDS_DID_DTC_STATUS :: u16 where "UDS_DID_DTC_STATUS = 0xF191"

definition time_before :: "u32 \<Rightarrow> u32 \<Rightarrow> bool" where
  "time_before now_ms deadline_ms \<longleftrightarrow> sint (now_ms - deadline_ms) < 0"

definition respond :: "nat \<Rightarrow> u8 list \<Rightarrow> UdsFaultAction_t \<times> u8 list" where
  "respond capacity bs = (if capacity < length bs then (UDS_FAULT_PASS, []) else (UDS_FAULT_HANDLED, bs))"

definition UdsFaultTest_Init :: UdsFaultTest_t where
  "UdsFaultTest_Init = \<lparr>ft_suppress_until_ms = 0, ft_dtc_status = [0, 0, 0, 0], ft_dtc_active = False,
     ft_nrc_service = 0, ft_nrc = 0, ft_nrc_active = False\<rparr>"

definition fault_control :: "u8 list \<Rightarrow> bool" where
  "fault_control req \<longleftrightarrow> 4 \<le> length req \<and> req ! 0 = 0x2E \<and> be16 (req ! 1) (req ! 2) = UDS_DID_FAULT_CONTROL"

definition set_fault :: "UdsFaultTest_t \<Rightarrow> u8 list \<Rightarrow> u32 \<Rightarrow> UdsFaultTest_t option" where
  "set_fault f req now =
     (if req ! 3 = 0 then Some UdsFaultTest_Init
      else if req ! 3 = 1 \<and> 8 \<le> length req then
        Some (f\<lparr>ft_dtc_status := [req ! 4, req ! 5, req ! 6, req ! 7], ft_dtc_active := True\<rparr>)
      else if req ! 3 = 2 \<and> 5 \<le> length req then Some (f\<lparr>ft_suppress_until_ms := now + ucast (req ! 4) * 1000\<rparr>)
      else if req ! 3 = 4 \<and> 6 \<le> length req then
        Some (f\<lparr>ft_nrc_service := req ! 4, ft_nrc := req ! 5, ft_nrc_active := True\<rparr>)
      else None)"

definition UdsFaultTest_Process ::
  "UdsFaultTest_t \<Rightarrow> u8 list \<Rightarrow> u32 \<Rightarrow> nat \<Rightarrow> (UdsFaultAction_t \<times> u8 list) \<times> UdsFaultTest_t" where
  "UdsFaultTest_Process f req now capacity =
     (if fault_control req then
        (case set_fault f req now of None \<Rightarrow> (respond capacity [0x7F, 0x2E, 0x31], f)
         | Some f' \<Rightarrow> (respond capacity [0x6E, 0xF1, 0xA0], f'))
      else if time_before now (ft_suppress_until_ms f) then ((UDS_FAULT_DROP, []), f)
      else if 3 \<le> length req \<and> req ! 0 = 0x22 \<and> be16 (req ! 1) (req ! 2) = UDS_DID_DTC_STATUS \<and> ft_dtc_active f then
        (respond capacity ([0x62, 0xF1, 0x91] @ ft_dtc_status f), f)
      else if 0 < length req \<and> ft_nrc_active f \<and> req ! 0 = ft_nrc_service f then
        (respond capacity [0x7F, req ! 0, ft_nrc f], f)
      else ((UDS_FAULT_PASS, []), f))"

subsection \<open>The server of the bench build\<close>

text \<open>\<open>serve_request\<close> with \<open>APP_BENCH_TEST\<close>; the filter's state is the global \<open>g_uds_fault_test\<close>.\<close>

definition serve_bench_request :: "u32 \<Rightarrow> app_main \<times> UdsFaultTest_t \<Rightarrow> app_main \<times> UdsFaultTest_t" where
  "serve_bench_request now s =
     (let m = fst s; f = snd s in
      if IsotpRx_MessageReady (Some (m_isotp_rx m)) \<and> \<not> m_isotp_serving m then
        let (r, request, rx) = IsotpRx_Read (m_isotp_rx m) (Some APP_ISOTP_RX_BUFFER_SIZE);
            m1 = m\<lparr>m_isotp_rx := rx\<rparr>
        in if r \<noteq> ISOTP_OK then (m1, f) else
          let ((action, forged), f') = UdsFaultTest_Process f request now (unat APP_ISOTP_TX_BUFFER_SIZE) in
          if action = UDS_FAULT_PASS then
            let ((res, reply), ecu) = UdsEcu_Process (m_uds m1) now (Some request) (of_nat (length request))
                                        (Some APP_ISOTP_TX_BUFFER_SIZE);
                m2 = put_response reply ecu m1
            in (if (res = UDS_PROCESS_RESPONSE \<or> res = UDS_PROCESS_RESPONSE_PENDING) \<and> 0 < length reply
                then start_response (of_nat (length reply)) m2 else m2, f')
          else if action = UDS_FAULT_HANDLED then
            let m2 = put_response forged (m_uds m1) m1
            in (if 0 < length forged then start_response (of_nat (length forged)) m2 else m2, f')
          else (m1, f')
      else (m, f))"

subsection \<open>What the filter does\<close>

lemma sint_negative: "sint (w :: u32) < 0 \<longleftrightarrow> 2 ^ 31 \<le> unat w"
proof -
  have "unat w div 2 ^ 31 < 2" using unsigned_less [of w] by (intro less_mult_imp_div_less) simp
  then have "odd (unat w div 2 ^ 31) \<longleftrightarrow> 0 < unat w div 2 ^ 31" by (auto simp: less_2_cases_iff)
  then have half: "odd (unat w div 2 ^ 31) \<longleftrightarrow> 2 ^ 31 \<le> unat w" by (simp add: div_greater_zero_iff)
  have "sint w = signed_take_bit 31 (int (unat w))" by (simp add: sint_uint)
  then have "sint w < 0 \<longleftrightarrow> odd (int (unat w) div 2 ^ 31)"
    by (simp only: signed_take_bit_negative_iff bit_iff_odd)
  also have "int (unat w) div 2 ^ 31 = int (unat w div 2 ^ 31)" by (simp only: zdiv_int of_nat_power of_nat_numeral)
  also have "odd (int (unat w div 2 ^ 31)) \<longleftrightarrow> odd (unat w div 2 ^ 31)" by (simp only: even_of_nat)
  finally show ?thesis unfolding half .
qed

lemma processed_unless_suppressed:
  "\<not> fault_control req \<Longrightarrow>
    fst (fst (UdsFaultTest_Process f req now capacity)) = UDS_FAULT_DROP \<longleftrightarrow> time_before now (ft_suppress_until_ms f)"
  by (simp add: UdsFaultTest_Process_def respond_def)

lemma silence_ordered:
  assumes "fault_control req" and "req ! 3 = 2" and "5 \<le> length req"
  shows "snd (UdsFaultTest_Process f req now capacity) = f\<lparr>ft_suppress_until_ms := now + of_nat (1000 * unat (req ! 4))\<rparr>"
  using assms by (simp add: UdsFaultTest_Process_def set_fault_def mult.commute)

lemma silence_range:
  fixes d n :: nat
  assumes "d < 2 ^ 31 - 255000" and "n \<le> 255000"
  shows "\<bar>int d - int n\<bar> < 2 ^ 31"
  using assms by simp

text \<open>C38: Ordered silence lasts exactly the seconds asked for, whatever the tick is when it is ordered:
  of the requests of the next 2^31 - 255000 milliseconds, save further orders, those before its end are
  dropped and no other is.  A filter in its initial state, which nobody has armed, drops every request
  while the tick is in its upper half, from day 25 to day 50 after the start.\<close>

theorem silence_lasts_as_ordered:
  assumes "fault_control order" and "order ! 3 = 2" and "5 \<le> length order"
    and "\<not> fault_control req" and "d < 2 ^ 31 - 255000"
  shows "(fst (fst (UdsFaultTest_Process (snd (UdsFaultTest_Process f order t capacity)) req (t + of_nat d) capacity)) = UDS_FAULT_DROP
      \<longleftrightarrow> d < 1000 * unat (order ! 4)) \<and>
    (fst (fst (UdsFaultTest_Process UdsFaultTest_Init req now capacity)) = UDS_FAULT_DROP \<longleftrightarrow> 2 ^ 31 \<le> unat now)"
proof (rule conjI)
  let ?n = "1000 * unat (order ! 4)"
  have "unat (order ! 4) < 256" using unsigned_less [of "order ! 4"] by simp
  then have "?n \<le> 255000" by simp
  note sint = sint_diff [OF silence_range [OF assms(5) this]]
  have "t + of_nat d - (t + of_nat ?n) = (of_nat d - of_nat ?n :: u32)" by simp
  then have "time_before (t + of_nat d) (t + of_nat ?n) \<longleftrightarrow> d < ?n"
    unfolding time_before_def by (simp only: sint) linarith
  then show "fst (fst (UdsFaultTest_Process (snd (UdsFaultTest_Process f order t capacity)) req (t + of_nat d) capacity)) = UDS_FAULT_DROP
      \<longleftrightarrow> d < ?n"
    using processed_unless_suppressed [OF assms(4)] silence_ordered [OF assms(1-3)] by simp
  show "fst (fst (UdsFaultTest_Process UdsFaultTest_Init req now capacity)) = UDS_FAULT_DROP \<longleftrightarrow> 2 ^ 31 \<le> unat now"
    using processed_unless_suppressed [OF assms(4)]
    by (simp add: UdsFaultTest_Init_def time_before_def sint_negative)
qed

theorem silence_lasts_as_ordered_witness:
  "fst (fst (UdsFaultTest_Process (snd (UdsFaultTest_Process UdsFaultTest_Init [0x2E, 0xF1, 0xA0, 2, 3] 0xFFFFFF00 300))
      [0x3E, 0] (0xFFFFFF00 + of_nat 2999) 300)) = UDS_FAULT_DROP \<and>
   fst (fst (UdsFaultTest_Process UdsFaultTest_Init [0x3E, 0] 0x80000000 300)) = UDS_FAULT_DROP"
proof -
  have c: "fault_control [0x2E, 0xF1, 0xA0, 2, 3]" "\<not> fault_control [0x3E, 0]"
    by (simp_all add: fault_control_def be16_def UDS_DID_FAULT_CONTROL_def)
  note s = silence_lasts_as_ordered [OF c(1) _ _ c(2)]
  show ?thesis
    using s [of 2999 UdsFaultTest_Init "0xFFFFFF00" 300 "0x80000000"] by simp
qed

text \<open>An unarmed filter in the lower half of the tick leaves the bench build the behaviour of the product.\<close>

definition unarmed :: "UdsFaultTest_t \<Rightarrow> u32 \<Rightarrow> bool" where
  "unarmed f now \<longleftrightarrow> \<not> time_before now (ft_suppress_until_ms f) \<and> \<not> ft_dtc_active f \<and> \<not> ft_nrc_active f"

lemma unarmed_filter_transparent:
  assumes "unarmed f now"
    and "\<And>request rx. IsotpRx_Read (m_isotp_rx m) (Some APP_ISOTP_RX_BUFFER_SIZE) = (ISOTP_OK, request, rx) \<Longrightarrow> \<not> fault_control request"
  shows "serve_bench_request now (m, f) = (serve_request now m, f)"
proof -
  obtain r request rx where r: "IsotpRx_Read (m_isotp_rx m) (Some APP_ISOTP_RX_BUFFER_SIZE) = (r, request, rx)"
    by (cases "IsotpRx_Read (m_isotp_rx m) (Some APP_ISOTP_RX_BUFFER_SIZE)")
  have "r = ISOTP_OK \<Longrightarrow> UdsFaultTest_Process f request now (unat APP_ISOTP_TX_BUFFER_SIZE) = ((UDS_FAULT_PASS, []), f)"
    using assms r by (simp add: UdsFaultTest_Process_def unarmed_def)
  then show ?thesis
    by (simp add: serve_bench_request_def serve_request_def r Let_def case_prod_beta)
qed

subsection \<open>The reference routine\<close>

record UdsRefRoutineContext_t =
  rr_polls :: u8
  rr_polls_until_complete :: u8
  rr_result :: u8

definition UdsRefRoutine_Init :: "u8 \<Rightarrow> u8 \<Rightarrow> UdsRefRoutineContext_t" where
  "UdsRefRoutine_Init polls_until_complete result =
     \<lparr>rr_polls = 0, rr_polls_until_complete = (if polls_until_complete = 0 then 1 else polls_until_complete),
      rr_result = result\<rparr>"

definition UdsRefRoutine_Handler ::
  "u8 \<Rightarrow> nat \<Rightarrow> UdsRefRoutineContext_t \<Rightarrow> (UdsRoutineStatus_t \<times> u8 list) \<times> UdsRefRoutineContext_t" where
  "UdsRefRoutine_Handler subfunction capacity c =
     (let value = (if 0 < capacity then [rr_result c] else []) in
      if subfunction = UDS_ROUTINE_START then ((UDS_ROUTINE_RUNNING, []), c\<lparr>rr_polls := 0\<rparr>)
      else if subfunction = UDS_ROUTINE_STOP then ((UDS_ROUTINE_IDLE, value), c\<lparr>rr_polls := 0\<rparr>)
      else if subfunction \<noteq> UDS_ROUTINE_REQUEST_RESULTS then ((UDS_ROUTINE_FAILED, []), c)
      else let c1 = (if rr_polls c < rr_polls_until_complete c then c\<lparr>rr_polls := rr_polls c + 1\<rparr> else c)
           in if rr_polls c1 < rr_polls_until_complete c1 then ((UDS_ROUTINE_RUNNING, []), c1)
              else ((UDS_ROUTINE_COMPLETE, value), c1))"

fun ref_polls :: "nat \<Rightarrow> UdsRefRoutineContext_t \<Rightarrow> UdsRefRoutineContext_t" where
  "ref_polls 0 c = c"
| "ref_polls (Suc n) c = snd (UdsRefRoutine_Handler UDS_ROUTINE_REQUEST_RESULTS 1 (ref_polls n c))"

lemma ref_polls_counts:
  "rr_polls c = 0 \<Longrightarrow> ref_polls n c = c\<lparr>rr_polls := of_nat (min n (unat (rr_polls_until_complete c)))\<rparr>"
proof (induction n)
  case (Suc n)
  let ?p = "rr_polls_until_complete c"
  have "unat ?p < 256" using unsigned_less [of ?p] by simp
  then have m: "unat (of_nat (min n (unat ?p)) :: u8) = min n (unat ?p)" by (simp add: unat_of_nat)
  show ?case
  proof (cases "n < unat ?p")
    case True
    then have "(of_nat n :: u8) < ?p" using m by (simp add: word_less_nat_alt min_def)
    with True Suc show ?thesis
      by (simp add: UdsRefRoutine_Handler_def Let_def UDS_ROUTINE_START_def UDS_ROUTINE_STOP_def UDS_ROUTINE_REQUEST_RESULTS_def min_def add.commute)
  next
    case False
    with Suc show ?thesis
      by (simp add: UdsRefRoutine_Handler_def Let_def UDS_ROUTINE_START_def UDS_ROUTINE_STOP_def UDS_ROUTINE_REQUEST_RESULTS_def min_def)
  qed
qed simp

text \<open>Started, the routine reports completion from exactly the poll it was set up with.\<close>

lemma ref_routine_completes:
  assumes "rr_polls_until_complete c = k" and "0 < k"
  shows "fst (UdsRefRoutine_Handler UDS_ROUTINE_REQUEST_RESULTS 1
      (ref_polls n (snd (UdsRefRoutine_Handler UDS_ROUTINE_START 1 c)))) =
    (if unat k \<le> n + 1 then (UDS_ROUTINE_COMPLETE, [rr_result c]) else (UDS_ROUTINE_RUNNING, []))"
proof -
  define c0 where "c0 = snd (UdsRefRoutine_Handler UDS_ROUTINE_START 1 c)"
  have c0: "rr_polls c0 = 0" "rr_polls_until_complete c0 = k" "rr_result c0 = rr_result c"
    using assms(1) by (simp_all add: c0_def UdsRefRoutine_Handler_def Let_def)
  have k: "unat k < 256" using unsigned_less [of k] by simp
  then have "unat (of_nat (min n (unat k)) :: u8) = min n (unat k)" "unat (of_nat (min (Suc n) (unat k)) :: u8) = min (Suc n) (unat k)"
    by (simp_all add: unat_of_nat)
  moreover have "rr_polls (snd (UdsRefRoutine_Handler UDS_ROUTINE_REQUEST_RESULTS 1 (ref_polls n c0))) = of_nat (min (Suc n) (unat k))"
    using ref_polls_counts [OF c0(1), of "Suc n"] c0(2) by simp
  ultimately show ?thesis
    unfolding c0_def [symmetric] using c0 ref_polls_counts [OF c0(1), of n]
    by (auto simp: UdsRefRoutine_Handler_def Let_def UDS_ROUTINE_START_def UDS_ROUTINE_STOP_def UDS_ROUTINE_REQUEST_RESULTS_def
        word_less_nat_alt add.commute split: if_splits)
qed

end
