(* ===== verification/StressApp.thy ===== *)
theory StressApp
  imports BenchApp RxDispatch IsotpKeeps Watchdog
begin

section \<open>The stress master\<close>

text \<open>
  \<open>APP_RunStressMaster\<close> of \<open>main.c\<close>: requests at a fixed rate, each followed by a wait for the answer,
  with background frames, received frames and the watchdogs served in both waiting loops.  The cycle
  counter and the tick are hardware that runs by itself: to read one is to ask the environment, which
  answers with the reading and may have let the receive interrupt work on the driver meanwhile.  The
  environment's own state is \<open>'w\<close>.
\<close>

record 'w stress_env =
  env_cycles :: "CanDriver_t \<times> 'w \<Rightarrow> u32 \<times> CanDriver_t \<times> 'w"
  env_tick :: "CanDriver_t \<times> 'w \<Rightarrow> u32 \<times> CanDriver_t \<times> 'w"

record 'w stress_rest =
  sr_stats :: StressMasterStats_t
  sr_response_seen :: bool
  sr_next_background :: u32
  sr_sequence :: u32
  sr_last_service_ms :: u32
  sr_watchdog :: watchdog
  sr_world :: 'w

type_synonym 'w stress_app = "CanDriver_t \<times> 'w stress_rest"

text \<open>The macros of the build, with the periods already in cycles.\<close>

record stress_config =
  cfg_request_id :: u32
  cfg_response_id :: u32
  cfg_requests :: u32
  cfg_request_period :: u32
  cfg_response_timeout :: u32
  cfg_background_period :: u32

definition APP_StressCycles :: "'w stress_env \<Rightarrow> 'w stress_app \<Rightarrow> u32 \<times> 'w stress_app" where
  "APP_StressCycles env s =
     (case env_cycles env (fst s, sr_world (snd s)) of (n, d, w) \<Rightarrow> (n, d, (snd s)\<lparr>sr_world := w\<rparr>))"

definition stress_tick :: "'w stress_env \<Rightarrow> 'w stress_app \<Rightarrow> u32 \<times> 'w stress_app" where
  "stress_tick env s =
     (case env_tick env (fst s, sr_world (snd s)) of (n, d, w) \<Rightarrow> (n, d, (snd s)\<lparr>sr_world := w\<rparr>))"

text \<open>The receive callback of this build.\<close>

definition stress_on_rx :: "stress_config \<Rightarrow> 'w stress_rest rx_callback" where
  "stress_on_rx cfg i data len s =
     (let r = snd s in
      if sr_response_seen r then s
      else case StressMaster_AcceptResponse (sr_stats r) i data (ucast len) (cfg_response_id cfg) of
        (ok, st) \<Rightarrow> (fst s, r\<lparr>sr_stats := st, sr_response_seen := ok\<rparr>))"

definition stress_background :: "stress_config \<Rightarrow> u32 \<Rightarrow> 'w stress_app \<Rightarrow> 'w stress_app" where
  "stress_background cfg now s =
     (case APP_StressServiceBackground (cfg_background_period cfg) now
             (fst s, sr_next_background (snd s), sr_sequence (snd s), sr_stats (snd s)) of
        (d, n, q, st) \<Rightarrow> (d, (snd s)\<lparr>sr_next_background := n, sr_sequence := q, sr_stats := st\<rparr>))"

definition APP_StressServiceWatchdog :: "'w stress_env \<Rightarrow> 'w stress_app \<Rightarrow> 'w stress_app" where
  "APP_StressServiceWatchdog env s =
     (case stress_tick env s of (now, d, r) \<Rightarrow>
      if 10 \<le> now - sr_last_service_ms r
      then (d, r\<lparr>sr_last_service_ms := now, sr_watchdog := Watchdog_WwdgService now (Watchdog_Kick (sr_watchdog r))\<rparr>)
      else (d, r))"

text \<open>The body of both waiting loops.\<close>

definition stress_service :: "'w stress_env \<Rightarrow> stress_config \<Rightarrow> 'w stress_app \<Rightarrow> 'w stress_app option" where
  "stress_service env cfg s =
     (let (now, s1) = APP_StressCycles env s in
      case CanDriver_ProcessRx (\<lambda>_. stress_on_rx cfg) (stress_background cfg now s1) of
        None \<Rightarrow> None
      | Some s2 \<Rightarrow> Some (APP_StressServiceWatchdog env s2))"

partial_function (option) wait_until_due ::
  "'w stress_env \<Rightarrow> stress_config \<Rightarrow> u32 \<Rightarrow> 'w stress_app \<Rightarrow> 'w stress_app option" where
  "wait_until_due env cfg due s =
     (let (c, s1) = APP_StressCycles env s in
      if before c due then
        (case stress_service env cfg s1 of None \<Rightarrow> None | Some s2 \<Rightarrow> wait_until_due env cfg due s2)
      else Some s1)"

partial_function (option) wait_for_response ::
  "'w stress_env \<Rightarrow> stress_config \<Rightarrow> u32 \<Rightarrow> 'w stress_app \<Rightarrow> 'w stress_app option" where
  "wait_for_response env cfg deadline s =
     (if sr_response_seen (snd s) then Some s
      else let (c, s1) = APP_StressCycles env s in
      if before c deadline then
        (case stress_service env cfg s1 of None \<Rightarrow> None | Some s2 \<Rightarrow> wait_for_response env cfg deadline s2)
      else Some s1)"

definition set_stats :: "StressMasterStats_t \<Rightarrow> 'w stress_app \<Rightarrow> 'w stress_app" where
  "set_stats st s = (fst s, (snd s)\<lparr>sr_stats := st\<rparr>)"

text \<open>The request that opens a round and the books that close it.\<close>

definition stress_request :: "'w stress_env \<Rightarrow> stress_config \<Rightarrow> 'w stress_app \<Rightarrow> u32 \<times> 'w stress_app" where
  "stress_request env cfg s =
     (let (started, s1) = APP_StressCycles env (fst s, (snd s)\<lparr>sr_response_seen := False\<rparr>);
          s2 = set_stats (StressMaster_RecordRequest (sr_stats (snd s1))) s1
      in (started, snd (CanDriver_SendStd (fst s2) (cfg_request_id cfg) (Some StressMaster_BuildRequest) 8), snd s2))"

definition stress_close :: "'w stress_env \<Rightarrow> u32 \<Rightarrow> 'w stress_app \<Rightarrow> 'w stress_app" where
  "stress_close env started s =
     (if sr_response_seen (snd s) then
        let (c, s1) = APP_StressCycles env s
        in set_stats (StressMaster_RecordLatency (sr_stats (snd s1)) (c - started)) s1
      else set_stats (StressMaster_RecordTimeout (sr_stats (snd s))) s)"

definition stress_round ::
  "'w stress_env \<Rightarrow> stress_config \<Rightarrow> u32 \<Rightarrow> 'w stress_app \<Rightarrow> (u32 \<times> 'w stress_app) option" where
  "stress_round env cfg request_due s =
     (case wait_until_due env cfg request_due s of None \<Rightarrow> None | Some s1 \<Rightarrow>
      let (started, s2) = stress_request env cfg s1; next_due = request_due + cfg_request_period cfg in
      case wait_for_response env cfg (started + cfg_response_timeout cfg) s2 of None \<Rightarrow> None | Some s3 \<Rightarrow>
      let (c, s4) = APP_StressCycles env (stress_close env started s3) in
      if before c next_due then Some (next_due, s4) else Some (APP_StressCycles env s4))"

partial_function (option) stress_rounds ::
  "'w stress_env \<Rightarrow> stress_config \<Rightarrow> u32 \<Rightarrow> 'w stress_app \<Rightarrow> 'w stress_app option" where
  "stress_rounds env cfg request_due s =
     (if sm_requests_sent (sr_stats (snd s)) < sm_requests_target (sr_stats (snd s)) then
        (case stress_round env cfg request_due s of None \<Rightarrow> None
         | Some (due, s1) \<Rightarrow> stress_rounds env cfg due s1)
      else Some s)"

text \<open>Up to the loop that serves the node after the test, which never ends.  The counter has been reset.\<close>

definition APP_RunStressMaster :: "'w stress_env \<Rightarrow> stress_config \<Rightarrow> 'w stress_app \<Rightarrow> 'w stress_app option" where
  "APP_RunStressMaster env cfg s =
     (let (now, s1) = APP_StressCycles env (set_stats (StressMaster_Init (cfg_requests cfg)) s);
          s2 = (fst s1, (snd s1)\<lparr>sr_next_background := now, sr_sequence := 0\<rparr>)
      in case stress_rounds env cfg now s2 of None \<Rightarrow> None
         | Some s3 \<Rightarrow> let (c, s4) = APP_StressCycles env s3
                      in Some (set_stats (StressMaster_Finish ((sr_stats (snd s4))\<lparr>sm_runtime_cycles := c - now\<rparr>)) s4))"

subsection \<open>The waiting loops end\<close>

text \<open>The driver is one the loops can serve; \<open>served\<close> is what the callback may do to the books between
  two points of a round.\<close>

definition ready :: "'w stress_app \<Rightarrow> bool" where
  "ready s \<longleftrightarrow> driver_slots (fst s) \<and> drv_rx_callback (fst s) \<noteq> None"

definition served :: "'w stress_rest \<Rightarrow> 'w stress_rest \<Rightarrow> bool" where
  "served r r' \<longleftrightarrow> sm_requests_sent (sr_stats r') = sm_requests_sent (sr_stats r) \<and>
     sm_requests_target (sr_stats r') = sm_requests_target (sr_stats r) \<and> sm_timeouts (sr_stats r') = sm_timeouts (sr_stats r) \<and>
     (sr_response_seen r' = sr_response_seen r \<and> sm_responses_ok (sr_stats r') = sm_responses_ok (sr_stats r) \<or>
      \<not> sr_response_seen r \<and> sr_response_seen r' \<and> sm_responses_ok (sr_stats r') = sm_responses_ok (sr_stats r) + 1)"

lemma served_refl [simp]: "served r r"
  by (simp add: served_def)

lemma served_trans: "served a b \<Longrightarrow> served b c \<Longrightarrow> served a c"
  by (auto simp: served_def)

lemma served_world [simp]: "served r (r'\<lparr>sr_world := w\<rparr>) \<longleftrightarrow> served r r'"
  by (simp add: served_def)

lemma view_ready: "driver_view d = driver_view d' \<Longrightarrow> ready (d, r) \<longleftrightarrow> ready (d', r')"
  by (auto simp: ready_def driver_view_def)

text \<open>The books between two rounds, and while a round is open: every request has been answered or has timed
  out, and no round accepts more than one answer.\<close>

abbreviation requests :: "'w stress_rest \<Rightarrow> u32" where "requests r \<equiv> sm_requests_sent (sr_stats r)"
abbreviation answers :: "'w stress_rest \<Rightarrow> u32" where "answers r \<equiv> sm_responses_ok (sr_stats r)"
abbreviation timeouts :: "'w stress_rest \<Rightarrow> u32" where "timeouts r \<equiv> sm_timeouts (sr_stats r)"
abbreviation target :: "'w stress_rest \<Rightarrow> u32" where "target r \<equiv> sm_requests_target (sr_stats r)"

definition tallied :: "'w stress_rest \<Rightarrow> bool" where
  "tallied r \<longleftrightarrow> unat (requests r) \<le> unat (answers r) + unat (timeouts r) \<and> unat (timeouts r) \<le> unat (requests r) \<and>
     unat (answers r) + of_bool (\<not> sr_response_seen r) \<le> unat (requests r) + 1"

definition opened :: "'w stress_rest \<Rightarrow> bool" where
  "opened r \<longleftrightarrow> unat (requests r) \<le> unat (answers r) + unat (timeouts r) + of_bool (\<not> sr_response_seen r) \<and>
     unat (timeouts r) + 1 \<le> unat (requests r) \<and> unat (answers r) + of_bool (\<not> sr_response_seen r) \<le> unat (requests r) + 1"

lemma served_tallied: "served r r' \<Longrightarrow> tallied r \<Longrightarrow> unat (requests r) < 2 ^ 31 \<Longrightarrow> tallied r'"
  by (auto simp: served_def tallied_def unat_word_ariths)

lemma served_opened: "served r r' \<Longrightarrow> opened r \<Longrightarrow> unat (requests r) < 2 ^ 31 + 1 \<Longrightarrow> opened r'"
  by (auto simp: served_def opened_def unat_word_ariths)

interpretation stress_rx: rx_client "stress_on_rx cfg"
    "\<lambda>s. drv_rx_callback (fst s) \<noteq> None \<and> served r (snd s) \<and> sr_world (snd s) = sr_world r" for cfg r
proof unfold_locales
  fix s :: "'a stress_app" and data :: "u8 list" and i n
  assume s: "drv_rx_callback (fst s) \<noteq> None \<and> served r (snd s) \<and> sr_world (snd s) = sr_world r"
  have "fst (stress_on_rx cfg i data n s) = fst s" "served (snd s) (snd (stress_on_rx cfg i data n s))"
    "sr_world (snd (stress_on_rx cfg i data n s)) = sr_world (snd s)"
    by (simp_all add: stress_on_rx_def Let_def StressMaster_AcceptResponse_def served_def)
  with s show "drv_rx_callback (fst (stress_on_rx cfg i data n s)) \<noteq> None \<and>
      served r (snd (stress_on_rx cfg i data n s)) \<and> sr_world (snd (stress_on_rx cfg i data n s)) = sr_world r"
    "drv_priority_rx_queue (fst (stress_on_rx cfg i data n s)) = drv_priority_rx_queue (fst s) \<and>
      drv_rx_queue (fst (stress_on_rx cfg i data n s)) = drv_rx_queue (fst s)"
    using served_trans by fastforce+
qed simp_all

lemma background_books:
  "APP_StressServiceBackground period now (d, n, q, st) = (d', n', q', st') \<Longrightarrow>
    driver_view d' = driver_view d \<and> sm_requests_sent st' = sm_requests_sent st \<and> sm_requests_target st' = sm_requests_target st \<and>
    sm_timeouts st' = sm_timeouts st \<and> sm_responses_ok st' = sm_responses_ok st"
  by (cases "before now n"; cases "period \<le> now - n")
    (auto simp: APP_StressServiceBackground_def stress_skip_def Let_def case_prod_beta)

lemma background_keeps:
  "driver_view (fst (stress_background cfg now s)) = driver_view (fst s)"
  "served (snd s) (snd (stress_background cfg now s))" "sr_world (snd (stress_background cfg now s)) = sr_world (snd s)"
proof -
  obtain d' n' q' st' where b: "APP_StressServiceBackground (cfg_background_period cfg) now
      (fst s, sr_next_background (snd s), sr_sequence (snd s), sr_stats (snd s)) = (d', n', q', st')"
    by (metis prod_cases4)
  show "driver_view (fst (stress_background cfg now s)) = driver_view (fst s)"
    "served (snd s) (snd (stress_background cfg now s))" "sr_world (snd (stress_background cfg now s)) = sr_world (snd s)"
    using background_books [OF b] by (simp_all add: stress_background_def b served_def)
qed

subsection \<open>The clock\<close>

text \<open>What the environment promises: a reading is the time modulo 2^32, time passes between two readings of
  the counter, not more than 2^28 cycles at a read, and the interrupts leave the driver's queues sound.\<close>

locale stress_clock =
  fixes env :: "'w stress_env" and time :: "'w \<Rightarrow> nat"
  assumes cycles_read: "env_cycles env (d, w) = (n, d', w') \<Longrightarrow> n = of_nat (time w') \<and> time w < time w' \<and> time w' \<le> time w + 2 ^ 28"
    and cycles_driver: "env_cycles env (d, w) = (n, d', w') \<Longrightarrow> driver_slots d \<Longrightarrow>
      driver_slots d' \<and> drv_rx_callback d' = drv_rx_callback d"
    and tick_read: "env_tick env (d, w) = (n, d', w') \<Longrightarrow> time w \<le> time w' \<and> time w' \<le> time w + 2 ^ 28"
    and tick_driver: "env_tick env (d, w) = (n, d', w') \<Longrightarrow> driver_slots d \<Longrightarrow>
      driver_slots d' \<and> drv_rx_callback d' = drv_rx_callback d"
begin

abbreviation moment :: "'w stress_app \<Rightarrow> nat" where "moment s \<equiv> time (sr_world (snd s))"

lemma read_cycles:
  assumes "APP_StressCycles env s = (c, s')" and "ready s"
  shows "ready s'" "c = of_nat (moment s')" "moment s < moment s'" "moment s' \<le> moment s + 2 ^ 28" "\<exists>w. snd s' = (snd s)\<lparr>sr_world := w\<rparr>"
  using assms cycles_read cycles_driver by (auto simp: APP_StressCycles_def ready_def split: prod.splits)

lemma watchdog_service:
  assumes "ready s"
  shows "ready (APP_StressServiceWatchdog env s)" "served (snd s) (snd (APP_StressServiceWatchdog env s))"
    "moment s \<le> moment (APP_StressServiceWatchdog env s)" "moment (APP_StressServiceWatchdog env s) \<le> moment s + 2 ^ 28"
  using assms tick_read tick_driver
  by (auto simp: APP_StressServiceWatchdog_def stress_tick_def ready_def served_def split: prod.splits)

lemma service_returns:
  assumes "ready s"
  shows "\<exists>s'. stress_service env cfg s = Some s' \<and> ready s' \<and> served (snd s) (snd s') \<and> moment s < moment s' \<and> moment s' \<le> moment s + 2 ^ 29"
proof -
  obtain c s1 where r: "APP_StressCycles env s = (c, s1)" by (rule prod.exhaust)
  note r1 = read_cycles [OF r assms]
  define s2 where "s2 = stress_background cfg c s1"
  have s2: "ready s2" "served (snd s1) (snd s2)" "sr_world (snd s2) = sr_world (snd s1)"
    using r1(1) background_keeps [where cfg = cfg and now = c and s = s1] view_ready [of "fst s2" "fst s1" "snd s2" "snd s1"] by (simp_all add: s2_def)
  obtain s3 where s3: "CanDriver_ProcessRx (\<lambda>_. stress_on_rx cfg) s2 = Some s3" "drv_rx_callback (fst s3) \<noteq> None"
      "served (snd s2) (snd s3)" "sr_world (snd s3) = sr_world (snd s2)" "driver_slots (fst s3)"
    using stress_rx.process_returns [where s = s2 and r = "snd s2" and cfg = cfg and cbs = "\<lambda>_. stress_on_rx cfg"] s2(1) by (auto simp: ready_def)
  then have "ready s3" by (simp add: ready_def)
  note w = watchdog_service [OF this]
  have "served (snd s) (snd s1)" using r1(5) by auto
  with s2(2) s3(3) w(2) have "served (snd s) (snd (APP_StressServiceWatchdog env s3))" by (blast intro: served_trans)
  moreover have "stress_service env cfg s = Some (APP_StressServiceWatchdog env s3)"
    using s3(1) by (simp add: stress_service_def r s2_def)
  ultimately show ?thesis using w r1(3,4) s2(3) s3(4) by simp
qed

lemma not_overdue: "T \<le> t \<Longrightarrow> t < T + 2 ^ 31 \<Longrightarrow> \<not> before (of_nat t) (of_nat T)"
  using sint_diff [of t T] by (simp add: before_def)

text \<open>A pass through a waiting loop comes nearer to its time \<open>T\<close> or ends it.\<close>

lemma waiting_pass:
  assumes "ready s" and "moment s < T + 2 ^ 30" and "APP_StressCycles env s = (c, s1)" and "before c (of_nat T)"
  shows "\<exists>s2. stress_service env cfg s1 = Some s2 \<and> ready s2 \<and> served (snd s) (snd s2) \<and>
    moment s2 < T + 2 ^ 30 \<and> T - moment s2 < T - moment s"
proof -
  note r = read_cycles [OF assms(3,1)]
  have "moment s1 < T + 2 ^ 31" using assms(2) r(4) by simp
  then have ahead: "moment s1 < T" using assms(4) not_overdue [of T "moment s1"] r(2) not_le by blast
  have "served (snd s) (snd s1)" using r(5) by auto
  moreover obtain s2 where "stress_service env cfg s1 = Some s2" "ready s2" "served (snd s1) (snd s2)"
      "moment s1 < moment s2" "moment s2 \<le> moment s1 + 2 ^ 29"
    using service_returns [OF r(1)] by blast
  ultimately show ?thesis using ahead r(3) by (auto intro: served_trans)
qed

text \<open>A wait for the time \<open>T\<close> ends, whether \<open>T\<close> lies ahead or has been missed by less than 2^30 cycles.\<close>

lemma wait_returns:
  "ready s \<Longrightarrow> moment s < T + 2 ^ 30 \<Longrightarrow>
    \<exists>s'. wait_until_due env cfg (of_nat T) s = Some s' \<and> ready s' \<and> served (snd s) (snd s')"
proof (induction "T - moment s" arbitrary: s rule: less_induct)
  case less
  obtain c s1 where r: "APP_StressCycles env s = (c, s1)" by (rule prod.exhaust)
  show ?case
  proof (cases "before c (of_nat T)")
    case True
    from waiting_pass [OF less.prems r this] obtain s2 where s2: "stress_service env cfg s1 = Some s2" "ready s2"
        "served (snd s) (snd s2)" "moment s2 < T + 2 ^ 30" "T - moment s2 < T - moment s" by blast
    from less.hyps [OF s2(5,2,4)] s2(1) True r served_trans [OF s2(3)] show ?thesis
      by (subst wait_until_due.simps) auto
  next
    case False
    with read_cycles [OF r less.prems(1)] r show ?thesis by (subst wait_until_due.simps) auto
  qed
qed

lemma response_wait_returns:
  "ready s \<Longrightarrow> moment s < T + 2 ^ 30 \<Longrightarrow>
    \<exists>s'. wait_for_response env cfg (of_nat T) s = Some s' \<and> ready s' \<and> served (snd s) (snd s')"
proof (induction "T - moment s" arbitrary: s rule: less_induct)
  case less
  obtain c s1 where r: "APP_StressCycles env s = (c, s1)" by (rule prod.exhaust)
  consider "sr_response_seen (snd s)" | "\<not> sr_response_seen (snd s)" "before c (of_nat T)"
    | "\<not> sr_response_seen (snd s)" "\<not> before c (of_nat T)" by blast
  then show ?case
  proof cases
    case 1
    with less.prems(1) show ?thesis by (subst wait_for_response.simps) auto
  next
    case 2
    from waiting_pass [OF less.prems r 2(2)] obtain s2 where s2: "stress_service env cfg s1 = Some s2" "ready s2"
        "served (snd s) (snd s2)" "moment s2 < T + 2 ^ 30" "T - moment s2 < T - moment s" by blast
    from less.hyps [OF s2(5,2,4)] s2(1) 2 r served_trans [OF s2(3)] show ?thesis
      by (subst wait_for_response.simps) auto
  next
    case 3
    with read_cycles [OF r less.prems(1)] r show ?thesis by (subst wait_for_response.simps) auto
  qed
qed

lemma any_due: "\<exists>T. (due :: u32) = of_nat T \<and> moment s < T + 2 ^ 30"
  by (rule exI [of _ "moment s + unat (due - of_nat (moment s))"]) simp

subsection \<open>The books of the rounds\<close>

lemma request_opens:
  assumes "ready s" and "stress_request env cfg s = (started, s')" and "tallied (snd s)" and "unat (requests (snd s)) < 2 ^ 31"
  shows "ready s'" "opened (snd s')" "requests (snd s') = requests (snd s) + 1" "target (snd s') = target (snd s)"
proof -
  obtain c s1 where r: "APP_StressCycles env (fst s, (snd s)\<lparr>sr_response_seen := False\<rparr>) = (c, s1)" by (rule prod.exhaust)
  have "ready (fst s, (snd s)\<lparr>sr_response_seen := False\<rparr>)" using assms(1) by (simp add: ready_def)
  note r1 = read_cycles [OF r this]
  then obtain w where w: "snd s1 = (snd s)\<lparr>sr_response_seen := False, sr_world := w\<rparr>" by auto
  have s': "s' = (snd (CanDriver_SendStd (fst s1) (cfg_request_id cfg) (Some StressMaster_BuildRequest) 8),
      (snd s1)\<lparr>sr_stats := StressMaster_RecordRequest (sr_stats (snd s1))\<rparr>)"
    using assms(2) by (simp add: stress_request_def r set_stats_def)
  show "ready s'" using r1(1) view_ready [of "fst s'" "fst s1" "snd s'" "snd s1"] s' by simp
  show "opened (snd s')" using assms(3,4)
    by (simp add: s' w opened_def tallied_def StressMaster_RecordRequest_def unat_word_ariths)
  show "requests (snd s') = requests (snd s) + 1" "target (snd s') = target (snd s)"
    by (simp_all add: s' w StressMaster_RecordRequest_def)
qed

lemma close_settles:
  assumes "ready s" and "opened (snd s)" and "unat (requests (snd s)) < 2 ^ 31 + 1"
  shows "ready (stress_close env started s)" "tallied (snd (stress_close env started s))"
    "requests (snd (stress_close env started s)) = requests (snd s)" "target (snd (stress_close env started s)) = target (snd s)"
proof -
  obtain c s1 where r: "APP_StressCycles env s = (c, s1)" by (rule prod.exhaust)
  note r1 = read_cycles [OF r assms(1)]
  then obtain w where w: "snd s1 = (snd s)\<lparr>sr_world := w\<rparr>" by auto
  show "ready (stress_close env started s)" "tallied (snd (stress_close env started s))"
    "requests (snd (stress_close env started s)) = requests (snd s)" "target (snd (stress_close env started s)) = target (snd s)"
    using assms r1(1)
    by (auto simp: stress_close_def r w set_stats_def ready_def opened_def tallied_def StressMaster_RecordLatency_def
        StressMaster_RecordTimeout_def unat_word_ariths)
qed

lemma round_returns:
  assumes "ready s" and "tallied (snd s)" and "unat (requests (snd s)) < 2 ^ 31"
  shows "\<exists>due s'. stress_round env cfg request_due s = Some (due, s') \<and> ready s' \<and> tallied (snd s') \<and>
    requests (snd s') = requests (snd s) + 1 \<and> target (snd s') = target (snd s)"
proof -
  obtain s1 where s1: "wait_until_due env cfg request_due s = Some s1" "ready s1" "served (snd s) (snd s1)"
    using wait_returns [OF assms(1)] any_due [of request_due s] by blast
  have b1: "tallied (snd s1)" "requests (snd s1) = requests (snd s)" "target (snd s1) = target (snd s)"
    using served_tallied [OF s1(3) assms(2,3)] s1(3) by (simp_all add: served_def)
  obtain started s2 where s2: "stress_request env cfg s1 = (started, s2)" by (rule prod.exhaust)
  have "unat (requests (snd s1)) < 2 ^ 31" using b1(2) assms(3) by simp
  note q = request_opens [OF s1(2) s2 b1(1) this]
  have opened2: "opened (snd s2)" "unat (requests (snd s2)) < 2 ^ 31 + 1" "requests (snd s2) = requests (snd s) + 1"
      "target (snd s2) = target (snd s)"
    using q(2-4) assms(3) b1 by (simp_all add: unat_word_ariths)
  obtain T where T: "started + cfg_response_timeout cfg = of_nat T" "moment s2 < T + 2 ^ 30" using any_due by blast
  obtain s3 where s3: "wait_for_response env cfg (started + cfg_response_timeout cfg) s2 = Some s3" "ready s3" "served (snd s2) (snd s3)"
    using response_wait_returns [OF q(1) T(2), of cfg] unfolding T(1) [symmetric] by blast
  have "opened (snd s3)" "unat (requests (snd s3)) < 2 ^ 31 + 1" "requests (snd s3) = requests (snd s2)" "target (snd s3) = target (snd s2)"
    using served_opened [OF s3(3) opened2(1,2)] opened2(2) s3(3) by (simp_all add: served_def)
  note close = close_settles [OF s3(2) this(1,2), of started, unfolded this(3,4) opened2(3,4)]
  obtain c s4 where s4: "APP_StressCycles env (stress_close env started s3) = (c, s4)" by (rule prod.exhaust)
  obtain c' s5 where s5: "APP_StressCycles env s4 = (c', s5)" by (rule prod.exhaust)
  note r4 = read_cycles [OF s4 close(1)]
  note r5 = read_cycles [OF s5 r4(1)]
  have "stress_round env cfg request_due s =
      (if before c (request_due + cfg_request_period cfg) then Some (request_due + cfg_request_period cfg, s4) else Some (c', s5))"
    by (simp add: stress_round_def s1(1) s2 s3(1) s4 s5 Let_def)
  moreover have "tallied (snd s4) \<and> requests (snd s4) = requests (snd s) + 1 \<and> target (snd s4) = target (snd s)"
    "tallied (snd s5) \<and> requests (snd s5) = requests (snd s) + 1 \<and> target (snd s5) = target (snd s)"
    using close r4(5) r5(5) by (auto simp: tallied_def)
  ultimately show ?thesis using r4(1) r5(1) by (cases "before c (request_due + cfg_request_period cfg)") simp_all
qed

lemma rounds_return:
  "ready s \<Longrightarrow> tallied (snd s) \<Longrightarrow> unat (requests (snd s)) \<le> unat (target (snd s)) \<Longrightarrow> unat (target (snd s)) < 2 ^ 31 \<Longrightarrow>
    \<exists>s'. stress_rounds env cfg request_due s = Some s' \<and> ready s' \<and> tallied (snd s') \<and>
      requests (snd s') = target (snd s) \<and> target (snd s') = target (snd s)"
proof (induction "unat (target (snd s)) - unat (requests (snd s))" arbitrary: s request_due rule: less_induct)
  case less
  show ?case
  proof (cases "requests (snd s) < target (snd s)")
    case False
    with less.prems show ?thesis
      by (subst stress_rounds.simps) (auto simp: word_less_nat_alt word_unat_eq_iff)
  next
    case True
    then have lt: "unat (requests (snd s)) < unat (target (snd s))" by (simp add: word_less_nat_alt)
    then obtain due s1 where s1: "stress_round env cfg request_due s = Some (due, s1)" "ready s1" "tallied (snd s1)"
        "requests (snd s1) = requests (snd s) + 1" "target (snd s1) = target (snd s)"
      using round_returns [OF less.prems(1,2)] less.prems(4) by fastforce
    have n: "unat (requests (snd s1)) = unat (requests (snd s)) + 1" using s1(4) lt less.prems(4) by (simp add: unat_word_ariths)
    have "\<exists>s'. stress_rounds env cfg due s1 = Some s' \<and> ready s' \<and> tallied (snd s') \<and>
        requests (snd s') = target (snd s1) \<and> target (snd s') = target (snd s1)"
      using n lt s1(5) less.prems(4) by (intro less.hyps s1(2,3)) simp_all
    with s1 True show ?thesis by (subst stress_rounds.simps) simp
  qed
qed

lemma run_returns:
  assumes "ready s" and "unat (cfg_requests cfg) < 2 ^ 31"
  shows "\<exists>s'. APP_RunStressMaster env cfg s = Some s' \<and> tallied (snd s') \<and> requests (snd s') = cfg_requests cfg \<and>
    sm_state (sr_stats (snd s')) = STRESS_MASTER_DONE"
proof -
  let ?s = "set_stats (StressMaster_Init (cfg_requests cfg)) s"
  obtain now s1 where s1: "APP_StressCycles env ?s = (now, s1)" by (rule prod.exhaust)
  have "ready ?s" using assms(1) by (simp add: ready_def set_stats_def)
  note r1 = read_cycles [OF s1 this]
  define s2 where "s2 = (fst s1, (snd s1)\<lparr>sr_next_background := now, sr_sequence := 0\<rparr>)"
  have s2: "ready s2" "tallied (snd s2)" "requests (snd s2) = 0" "target (snd s2) = cfg_requests cfg"
    using r1(1,5) by (auto simp: s2_def ready_def tallied_def set_stats_def StressMaster_Init_def)
  obtain s3 where s3: "stress_rounds env cfg now s2 = Some s3" "ready s3" "tallied (snd s3)" "requests (snd s3) = cfg_requests cfg"
    using rounds_return [OF s2(1,2), where cfg = cfg and request_due = now] s2(3,4) assms(2) by auto
  obtain c s4 where s4: "APP_StressCycles env s3 = (c, s4)" by (rule prod.exhaust)
  note r4 = read_cycles [OF s4 s3(2)]
  have "APP_RunStressMaster env cfg s =
      Some (set_stats (StressMaster_Finish ((sr_stats (snd s4))\<lparr>sm_runtime_cycles := c - now\<rparr>)) s4)"
    by (simp add: APP_RunStressMaster_def s1 s2_def [symmetric] s3(1) s4 Let_def)
  with s3(3,4) r4(5) show ?thesis by (auto simp: set_stats_def StressMaster_Finish_def tallied_def)
qed

end

subsection \<open>A node's clock\<close>

text \<open>The counter runs at the core's clock, some cycles at every reading as \<open>pace\<close> says, and the tick is one
  in 168000 of them; before each reading the bus does to the controller what it likes and the receive
  interrupt has run.\<close>

definition node_env :: "(nat \<Rightarrow> nat) \<Rightarrow> (nat \<Rightarrow> can_hw \<Rightarrow> can_hw) \<Rightarrow> nat stress_env" where
  "node_env pace bus =
     \<lparr>env_cycles = (\<lambda>(d, t). let t' = t + 1 + pace t mod 2 ^ 20 in
        (of_nat t', CanDriver_RxIrqHandler (d\<lparr>drv_handle := map_option (bus t) (drv_handle d)\<rparr>), t')),
      env_tick = (\<lambda>(d, t). (of_nat (t div 168000), d, t))\<rparr>"

lemma irq_callback: "drv_rx_callback (CanDriver_RxIrqHandler d) = drv_rx_callback d"
  by (auto simp: CanDriver_RxIrqHandler_def Let_def case_prod_beta split: option.splits)

interpretation node_clock: stress_clock "node_env pace bus" "\<lambda>t. t" for pace bus
proof unfold_locales
  fix d :: CanDriver_t and w n :: nat and c d' w'
  show "env_cycles (node_env pace bus) (d, w) = (c, d', w') \<Longrightarrow> c = of_nat w' \<and> w < w' \<and> w' \<le> w + 2 ^ 28"
    "env_tick (node_env pace bus) (d, w) = (c, d', w') \<Longrightarrow> w \<le> w' \<and> w' \<le> w + 2 ^ 28"
    using mod_less_divisor [of "2 ^ 20" "pace w"] by (auto simp: node_env_def Let_def)
  assume "driver_slots d"
  then show "env_cycles (node_env pace bus) (d, w) = (c, d', w') \<Longrightarrow> driver_slots d' \<and> drv_rx_callback d' = drv_rx_callback d"
    "env_tick (node_env pace bus) (d, w) = (c, d', w') \<Longrightarrow> driver_slots d' \<and> drv_rx_callback d' = drv_rx_callback d"
    using irq_slots [of "d\<lparr>drv_handle := map_option (bus w) (drv_handle d)\<rparr>"]
    by (auto simp: node_env_def Let_def irq_callback)
qed

text \<open>C39: The stress test ends with its books in order, whatever the bus does: both waiting loops and the
  loop over the requests return, all requests have been sent, each has been answered or has timed out,
  and at most one answer more than requests has been accepted.  (Answers that come after their request has
  timed out are accepted as well, so answers and timeouts together may be more than the requests.)\<close>

theorem stress_test_completes:
  assumes "driver_slots d" and "drv_rx_callback d \<noteq> None" and "unat (cfg_requests cfg) < 2 ^ 31"
  shows "\<exists>d' r'. APP_RunStressMaster (node_env pace bus) cfg (d, r) = Some (d', r') \<and>
    sm_state (sr_stats r') = STRESS_MASTER_DONE \<and> sm_requests_sent (sr_stats r') = cfg_requests cfg \<and>
    unat (cfg_requests cfg) \<le> unat (sm_responses_ok (sr_stats r')) + unat (sm_timeouts (sr_stats r')) \<and>
    unat (sm_timeouts (sr_stats r')) \<le> unat (cfg_requests cfg) \<and>
    unat (sm_responses_ok (sr_stats r')) \<le> unat (cfg_requests cfg) + 1"
proof -
  have "ready (d, r)" using assms(1,2) by (simp add: ready_def)
  from node_clock.run_returns [OF this assms(3), of pace bus] show ?thesis by (force simp: tallied_def)
qed

theorem stress_test_completes_witness:
  "\<exists>d' r'. APP_RunStressMaster (node_env (\<lambda>t. 40 + t mod 7) (\<lambda>t hw. hw))
      \<lparr>cfg_request_id = 0x7E1, cfg_response_id = 0x7E9, cfg_requests = 1000, cfg_request_period = 3360000,
       cfg_response_timeout = 8400000, cfg_background_period = 38304\<rparr>
      (sample_driver, \<lparr>sr_stats = StressMaster_Init 0, sr_response_seen = False, sr_next_background = 0, sr_sequence = 0,
        sr_last_service_ms = 0, sr_watchdog = powered_on, sr_world = 0\<rparr>) = Some (d', r') \<and>
    sm_requests_sent (sr_stats r') = 1000"
proof -
  have "slots_ok sample_queue" unfolding sample_queue_def by (rule slots_init) simp_all
  then have "driver_slots sample_driver" "drv_rx_callback sample_driver \<noteq> None" by (simp_all add: sample_driver_def)
  from stress_test_completes [OF this, where pace = "\<lambda>t. 40 + t mod 7" and bus = "\<lambda>t hw. hw" and
      cfg = "\<lparr>cfg_request_id = 0x7E1, cfg_response_id = 0x7E9, cfg_requests = 1000, cfg_request_period = 3360000,
        cfg_response_timeout = 8400000, cfg_background_period = 38304\<rparr>"]
  show ?thesis by force
qed

end
