(* ===== verification/CanIrq.thy ===== *)
theory CanIrq
  imports AppSample
begin

section \<open>The CAN interrupt\<close>

text \<open>
  \<open>HAL_CAN_IRQHandler\<close> of \<open>stm32f4xx_hal_can.c\<close>, which the three CAN vectors of
  \<open>Core/Src/stm32f4xx_it.c\<close> enter: the flags of the status registers with their clearing by
  writing one, the error code assembled from them, and the callbacks in the order the handler makes
  them.  The registers that the driver's calls read (interrupt enables, error status, receive FIFOs)
  are those of \<open>can_hw\<close>; \<open>can_flags\<close> holds the flag bits only this handler reads.  A callback
  acts on the driver and the rest \<open>'e\<close> of the application, as a receive callback does.
\<close>

subsection \<open>Registers and codes\<close>

definition HAL_CAN_ERROR_STF :: u32 where "HAL_CAN_ERROR_STF = 0x8"
definition HAL_CAN_ERROR_FOR :: u32 where "HAL_CAN_ERROR_FOR = 0x10"
definition HAL_CAN_ERROR_ACK :: u32 where "HAL_CAN_ERROR_ACK = 0x20"
definition HAL_CAN_ERROR_BR :: u32 where "HAL_CAN_ERROR_BR = 0x40"
definition HAL_CAN_ERROR_BD :: u32 where "HAL_CAN_ERROR_BD = 0x80"
definition HAL_CAN_ERROR_CRC :: u32 where "HAL_CAN_ERROR_CRC = 0x100"
definition HAL_CAN_ERROR_RX_FOV0 :: u32 where "HAL_CAN_ERROR_RX_FOV0 = 0x200"
definition HAL_CAN_ERROR_RX_FOV1 :: u32 where "HAL_CAN_ERROR_RX_FOV1 = 0x400"
definition HAL_CAN_ERROR_TX_ALST0 :: u32 where "HAL_CAN_ERROR_TX_ALST0 = 0x800"
definition HAL_CAN_ERROR_TX_TERR0 :: u32 where "HAL_CAN_ERROR_TX_TERR0 = 0x1000"
definition HAL_CAN_ERROR_TX_ALST1 :: u32 where "HAL_CAN_ERROR_TX_ALST1 = 0x2000"
definition HAL_CAN_ERROR_TX_TERR1 :: u32 where "HAL_CAN_ERROR_TX_TERR1 = 0x4000"
definition HAL_CAN_ERROR_TX_ALST2 :: u32 where "HAL_CAN_ERROR_TX_ALST2 = 0x8000"
definition HAL_CAN_ERROR_TX_TERR2 :: u32 where "HAL_CAN_ERROR_TX_TERR2 = 0x10000"

definition CAN_IT_TX_MAILBOX_EMPTY :: u32 where "CAN_IT_TX_MAILBOX_EMPTY = 0x1"
definition CAN_IT_RX_FIFO0_FULL :: u32 where "CAN_IT_RX_FIFO0_FULL = 0x4"
definition CAN_IT_RX_FIFO0_OVERRUN :: u32 where "CAN_IT_RX_FIFO0_OVERRUN = 0x8"
definition CAN_IT_RX_FIFO1_FULL :: u32 where "CAN_IT_RX_FIFO1_FULL = 0x20"
definition CAN_IT_RX_FIFO1_OVERRUN :: u32 where "CAN_IT_RX_FIFO1_OVERRUN = 0x40"
definition CAN_IT_WAKEUP :: u32 where "CAN_IT_WAKEUP = 0x10000"
definition CAN_IT_SLEEP_ACK :: u32 where "CAN_IT_SLEEP_ACK = 0x20000"

definition CAN_MSR_ERRI :: u32 where "CAN_MSR_ERRI = 0x4"
definition CAN_MSR_WKUI :: u32 where "CAN_MSR_WKUI = 0x8"
definition CAN_MSR_SLAKI :: u32 where "CAN_MSR_SLAKI = 0x10"
definition CAN_RFR_FULL :: u32 where "CAN_RFR_FULL = 0x8"
definition CAN_RFR_FOVR :: u32 where "CAN_RFR_FOVR = 0x10"
definition CAN_ESR_EWGF :: u32 where "CAN_ESR_EWGF = 0x1"
definition CAN_ESR_EPVF :: u32 where "CAN_ESR_EPVF = 0x2"
definition CAN_ESR_BOFF :: u32 where "CAN_ESR_BOFF = 0x4"
definition CAN_ESR_LEC :: u32 where "CAN_ESR_LEC = 0x70"

record can_flags =
  fl_msr :: u32
  fl_tsr :: u32
  fl_rf0r :: u32
  fl_rf1r :: u32

datatype can_callback =
    TxMailboxComplete nat | TxMailboxAbort nat
  | RxFifoFull rx_fifo | RxFifoMsgPending rx_fifo
  | SleepCallback | WakeUpFromRxMsg | ErrorCallback

type_synonym 'e irq_callback = "can_callback \<Rightarrow> CanDriver_t \<times> 'e \<Rightarrow> CanDriver_t \<times> 'e"
type_synonym 'e irq_state = "u32 \<times> can_flags \<times> CanDriver_t \<times> 'e"

subsection \<open>The handler, source by source\<close>

text \<open>The bits of mailbox \<open>k\<close> in \<open>TSR\<close> start at \<open>8 * k\<close>: \<open>RQCP\<close>, \<open>TXOK\<close>, \<open>ALST\<close>, \<open>TERR\<close>;
  writing \<open>RQCP\<close> clears the four.  \<open>tsr\<close> is the value read on entry.\<close>

definition tsr_flag :: "u32 \<Rightarrow> nat \<Rightarrow> nat \<Rightarrow> bool" where
  "tsr_flag tsr k i \<longleftrightarrow> tsr AND push_bit (8 * k + i) 1 \<noteq> 0"

definition tx_error_codes :: "(u32 \<times> u32) list" where
  "tx_error_codes =
     [(HAL_CAN_ERROR_TX_ALST0, HAL_CAN_ERROR_TX_TERR0), (HAL_CAN_ERROR_TX_ALST1, HAL_CAN_ERROR_TX_TERR1),
      (HAL_CAN_ERROR_TX_ALST2, HAL_CAN_ERROR_TX_TERR2)]"

definition irq_mailbox :: "'e irq_callback \<Rightarrow> u32 \<Rightarrow> nat \<Rightarrow> 'e irq_state \<Rightarrow> 'e irq_state" where
  "irq_mailbox cb tsr k st =
     (case st of (err, fl, s) \<Rightarrow>
      if tsr_flag tsr k 0 then
        let fl1 = fl\<lparr>fl_tsr := fl_tsr fl AND NOT (push_bit (8 * k) 0xF)\<rparr> in
        if tsr_flag tsr k 1 then (err, fl1, cb (TxMailboxComplete k) s)
        else if tsr_flag tsr k 2 then (err OR fst (tx_error_codes ! k), fl1, s)
        else if tsr_flag tsr k 3 then (err OR snd (tx_error_codes ! k), fl1, s)
        else (err, fl1, cb (TxMailboxAbort k) s)
      else st)"

definition irq_transmit :: "'e irq_callback \<Rightarrow> u32 \<Rightarrow> u32 \<Rightarrow> 'e irq_state \<Rightarrow> 'e irq_state" where
  "irq_transmit cb ier tsr st =
     (if ier AND CAN_IT_TX_MAILBOX_EMPTY \<noteq> 0
      then irq_mailbox cb tsr 2 (irq_mailbox cb tsr 1 (irq_mailbox cb tsr 0 st)) else st)"

text \<open>Overrun, full and message pending of one FIFO.  The last condition reads the fill level again,
  after the callbacks made so far.\<close>

definition irq_overrun :: "u32 \<Rightarrow> can_flags \<Rightarrow> rx_fifo \<Rightarrow> 'e irq_state \<Rightarrow> 'e irq_state" where
  "irq_overrun ier fl0 f st =
     (case st of (err, fl, s) \<Rightarrow>
      case f of
        CAN_RX_FIFO0 \<Rightarrow>
          if ier AND CAN_IT_RX_FIFO0_OVERRUN \<noteq> 0 \<and> fl_rf0r fl0 AND CAN_RFR_FOVR \<noteq> 0
          then (err OR HAL_CAN_ERROR_RX_FOV0, fl\<lparr>fl_rf0r := fl_rf0r fl AND NOT CAN_RFR_FOVR\<rparr>, s) else st
      | CAN_RX_FIFO1 \<Rightarrow>
          if ier AND CAN_IT_RX_FIFO1_OVERRUN \<noteq> 0 \<and> fl_rf1r fl0 AND CAN_RFR_FOVR \<noteq> 0
          then (err OR HAL_CAN_ERROR_RX_FOV1, fl\<lparr>fl_rf1r := fl_rf1r fl AND NOT CAN_RFR_FOVR\<rparr>, s) else st)"

definition irq_full :: "'e irq_callback \<Rightarrow> u32 \<Rightarrow> can_flags \<Rightarrow> rx_fifo \<Rightarrow> 'e irq_state \<Rightarrow> 'e irq_state" where
  "irq_full cb ier fl0 f st =
     (case st of (err, fl, s) \<Rightarrow>
      case f of
        CAN_RX_FIFO0 \<Rightarrow>
          if ier AND CAN_IT_RX_FIFO0_FULL \<noteq> 0 \<and> fl_rf0r fl0 AND CAN_RFR_FULL \<noteq> 0
          then (err, fl\<lparr>fl_rf0r := fl_rf0r fl AND NOT CAN_RFR_FULL\<rparr>, cb (RxFifoFull f) s) else st
      | CAN_RX_FIFO1 \<Rightarrow>
          if ier AND CAN_IT_RX_FIFO1_FULL \<noteq> 0 \<and> fl_rf1r fl0 AND CAN_RFR_FULL \<noteq> 0
          then (err, fl\<lparr>fl_rf1r := fl_rf1r fl AND NOT CAN_RFR_FULL\<rparr>, cb (RxFifoFull f) s) else st)"

definition fifo_pending :: "rx_fifo \<Rightarrow> CanDriver_t \<Rightarrow> bool" where
  "fifo_pending f d = (case drv_handle d of None \<Rightarrow> False | Some hw \<Rightarrow> fifo_of f hw \<noteq> [])"

definition irq_pending :: "'e irq_callback \<Rightarrow> u32 \<Rightarrow> rx_fifo \<Rightarrow> 'e irq_state \<Rightarrow> 'e irq_state" where
  "irq_pending cb ier f st =
     (case st of (err, fl, s) \<Rightarrow>
      if ier AND (case f of CAN_RX_FIFO0 \<Rightarrow> CAN_IT_RX_FIFO0_MSG_PENDING
                  | CAN_RX_FIFO1 \<Rightarrow> CAN_IT_RX_FIFO1_MSG_PENDING) \<noteq> 0 \<and> fifo_pending f (fst s)
      then (err, fl, cb (RxFifoMsgPending f) s) else st)"

definition irq_receive :: "'e irq_callback \<Rightarrow> u32 \<Rightarrow> can_flags \<Rightarrow> rx_fifo \<Rightarrow> 'e irq_state \<Rightarrow> 'e irq_state" where
  "irq_receive cb ier fl0 f st = irq_pending cb ier f (irq_full cb ier fl0 f (irq_overrun ier fl0 f st))"

definition irq_sleep :: "'e irq_callback \<Rightarrow> u32 \<Rightarrow> u32 \<Rightarrow> 'e irq_state \<Rightarrow> 'e irq_state" where
  "irq_sleep cb ier msr st =
     (case st of (err, fl, s) \<Rightarrow>
      if ier AND CAN_IT_SLEEP_ACK \<noteq> 0 \<and> msr AND CAN_MSR_SLAKI \<noteq> 0
      then (err, fl\<lparr>fl_msr := fl_msr fl AND NOT CAN_MSR_SLAKI\<rparr>, cb SleepCallback s) else st)"

definition irq_wakeup :: "'e irq_callback \<Rightarrow> u32 \<Rightarrow> u32 \<Rightarrow> 'e irq_state \<Rightarrow> 'e irq_state" where
  "irq_wakeup cb ier msr st =
     (case st of (err, fl, s) \<Rightarrow>
      if ier AND CAN_IT_WAKEUP \<noteq> 0 \<and> msr AND CAN_MSR_WKUI \<noteq> 0
      then (err, fl\<lparr>fl_msr := fl_msr fl AND NOT CAN_MSR_WKUI\<rparr>, cb WakeUpFromRxMsg s) else st)"

text \<open>The switch over the last error code, and the status flags.\<close>

definition last_error_code :: "u32 \<Rightarrow> u32" where
  "last_error_code esr =
     (let lec = esr AND CAN_ESR_LEC in
      if lec = 0x10 then HAL_CAN_ERROR_STF
      else if lec = 0x20 then HAL_CAN_ERROR_FOR
      else if lec = 0x30 then HAL_CAN_ERROR_ACK
      else if lec = 0x40 then HAL_CAN_ERROR_BR
      else if lec = 0x50 then HAL_CAN_ERROR_BD
      else if lec = 0x60 then HAL_CAN_ERROR_CRC
      else 0)"

definition error_flags :: "u32 \<Rightarrow> u32 \<Rightarrow> u32" where
  "error_flags ier esr =
     (if ier AND CAN_IT_ERROR_WARNING \<noteq> 0 \<and> esr AND CAN_ESR_EWGF \<noteq> 0 then HAL_CAN_ERROR_EWG else 0) OR
     (if ier AND CAN_IT_ERROR_PASSIVE \<noteq> 0 \<and> esr AND CAN_ESR_EPVF \<noteq> 0 then HAL_CAN_ERROR_EPV else 0) OR
     (if ier AND CAN_IT_BUSOFF \<noteq> 0 \<and> esr AND CAN_ESR_BOFF \<noteq> 0 then HAL_CAN_ERROR_BOF else 0)"

definition update_hw :: "(can_hw \<Rightarrow> can_hw) \<Rightarrow> CanDriver_t \<times> 'e \<Rightarrow> CanDriver_t \<times> 'e" where
  "update_hw g s = ((fst s)\<lparr>drv_handle := map_option g (drv_handle (fst s))\<rparr>, snd s)"

definition irq_error :: "u32 \<Rightarrow> u32 \<Rightarrow> u32 \<Rightarrow> 'e irq_state \<Rightarrow> 'e irq_state" where
  "irq_error ier msr esr st =
     (case st of (err, fl, s) \<Rightarrow>
      if ier AND CAN_IT_ERROR \<noteq> 0 then
        let (err1, s1) =
          (if msr AND CAN_MSR_ERRI \<noteq> 0 then
             if ier AND CAN_IT_LAST_ERROR_CODE \<noteq> 0 \<and> esr AND CAN_ESR_LEC \<noteq> 0
             then (err OR error_flags ier esr OR last_error_code esr,
                   update_hw (\<lambda>hw. hw\<lparr>hw_esr := hw_esr hw AND NOT CAN_ESR_LEC\<rparr>) s)
             else (err OR error_flags ier esr, s)
           else (err, s))
        in (err1, fl\<lparr>fl_msr := fl_msr fl AND NOT CAN_MSR_ERRI\<rparr>, s1)
      else st)"

definition irq_report :: "'e irq_callback \<Rightarrow> 'e irq_state \<Rightarrow> can_flags \<times> CanDriver_t \<times> 'e" where
  "irq_report cb st =
     (case st of (err, fl, s) \<Rightarrow>
      if err \<noteq> HAL_CAN_ERROR_NONE
      then (fl, cb ErrorCallback (update_hw (\<lambda>hw. hw\<lparr>hcan_error_code := hcan_error_code hw OR err\<rparr>) s))
      else (fl, s))"

text \<open>The registers are read once, on entry.  The handle is that of the driver, which is set before
  the interrupts are enabled.\<close>

definition HAL_CAN_IRQHandler ::
  "'e irq_callback \<Rightarrow> can_flags \<times> CanDriver_t \<times> 'e \<Rightarrow> can_flags \<times> CanDriver_t \<times> 'e" where
  "HAL_CAN_IRQHandler cb p =
     (case p of (fl, s) \<Rightarrow>
      case drv_handle (fst s) of None \<Rightarrow> p | Some hw \<Rightarrow>
      let ier = hw_ier hw; esr = hw_esr hw;
          st = irq_transmit cb ier (fl_tsr fl) (HAL_CAN_ERROR_NONE, fl, s);
          st1 = irq_receive cb ier fl CAN_RX_FIFO1 (irq_receive cb ier fl CAN_RX_FIFO0 st);
          st2 = irq_wakeup cb ier (fl_msr fl) (irq_sleep cb ier (fl_msr fl) st1)
      in irq_report cb (irq_error ier (fl_msr fl) esr st2))"

subsection \<open>In the application\<close>

text \<open>\<open>main.c\<close> defines the two receive callbacks and the error callback; the others keep the weak
  definitions of the HAL, which do nothing.\<close>

definition app_irq_callbacks :: "app_main irq_callback" where
  "app_irq_callbacks c s =
     (let m = set_can (fst s) (snd s);
          m1 = (case c of RxFifoMsgPending f \<Rightarrow> HAL_CAN_RxFifoMsgPendingCallback m
                | ErrorCallback \<Rightarrow> HAL_CAN_ErrorCallback m
                | _ \<Rightarrow> m)
      in (m_can m1, m1))"

definition CAN1_IRQHandler :: "can_flags \<times> app_main \<Rightarrow> can_flags \<times> app_main" where
  "CAN1_IRQHandler p =
     (let (fl, d, m) = HAL_CAN_IRQHandler app_irq_callbacks (fst p, m_can (snd p), snd p)
      in (fl, set_can d m))"

subsection \<open>The handler only takes steps the application allows\<close>

text \<open>A driver and the rest of the node that together are a reachable state.\<close>

definition irq_fine :: "board \<Rightarrow> CanDriver_t \<times> app_main \<Rightarrow> bool" where
  "irq_fine bd s \<longleftrightarrow> app_reachable bd (set_can (fst s) (snd s)) \<and> \<not> m_reset (snd s)"

lemma callback_fine: "irq_fine bd s \<Longrightarrow> irq_fine bd (app_irq_callbacks c s)"
proof -
  assume s: "irq_fine bd s"
  let ?m = "set_can (fst s) (snd s)"
  have m: "app_reachable bd ?m" "\<not> m_reset ?m" using s by (simp_all add: irq_fine_def)
  have reset: "m_reset (HAL_CAN_RxFifoMsgPendingCallback n) = m_reset n" for n
    by (simp add: HAL_CAN_RxFifoMsgPendingCallback_def)
  show ?thesis
    using m reach_other [OF m(1) step_rx_irq [OF m(2)]] reach_other [OF m(1) step_error_irq [OF m(2)]] s
    by (cases c) (simp_all add: app_irq_callbacks_def irq_fine_def reset Let_def)
qed

lemma update_fine: "irq_fine bd s \<Longrightarrow> irq_fine bd (update_hw g s)"
proof (cases "drv_handle (fst s)")
  case None
  then have "update_hw g s = s" by (cases s; cases "fst s") (simp add: update_hw_def)
  then show "irq_fine bd s \<Longrightarrow> ?thesis" by simp
next
  case (Some hw)
  assume s: "irq_fine bd s"
  let ?m = "set_can (fst s) (snd s)"
  have m: "app_reachable bd ?m" "\<not> m_reset ?m" using s by (simp_all add: irq_fine_def)
  show ?thesis
    using reach_other [OF m(1) step_bus [OF m(2), of bd "g hw"]] s Some by (simp add: update_hw_def irq_fine_def)
qed

lemmas irq_stage_defs = irq_mailbox_def irq_transmit_def irq_overrun_def irq_full_def irq_pending_def
  irq_receive_def irq_sleep_def irq_wakeup_def

lemma mailbox_fine:
  "irq_fine bd (snd (snd st)) \<Longrightarrow> irq_fine bd (snd (snd (irq_mailbox app_irq_callbacks tsr k st)))"
  by (cases st) (simp add: irq_mailbox_def callback_fine Let_def)

lemma transmit_fine:
  "irq_fine bd (snd (snd st)) \<Longrightarrow> irq_fine bd (snd (snd (irq_transmit app_irq_callbacks ier tsr st)))"
  by (simp add: irq_transmit_def mailbox_fine)

lemma overrun_fine: "snd (snd (irq_overrun ier fl f st)) = snd (snd st)"
  by (simp add: irq_overrun_def split: prod.splits rx_fifo.splits)

lemma full_fine:
  "irq_fine bd (snd (snd st)) \<Longrightarrow> irq_fine bd (snd (snd (irq_full app_irq_callbacks ier fl f st)))"
  by (cases st; cases f) (simp_all add: irq_full_def callback_fine)

lemma receive_fine:
  assumes "irq_fine bd (snd (snd st))"
  shows "irq_fine bd (snd (snd (irq_receive app_irq_callbacks ier fl f st)))"
proof -
  have "irq_fine bd (snd (snd (irq_pending app_irq_callbacks ier f st')))" if "irq_fine bd (snd (snd st'))" for st'
    using that by (auto simp: irq_pending_def callback_fine split: prod.splits)
  then show ?thesis unfolding irq_receive_def using assms by (simp add: full_fine overrun_fine)
qed

lemma sleep_fine:
  "irq_fine bd (snd (snd st)) \<Longrightarrow> irq_fine bd (snd (snd (irq_sleep app_irq_callbacks ier msr st)))"
  "irq_fine bd (snd (snd st)) \<Longrightarrow> irq_fine bd (snd (snd (irq_wakeup app_irq_callbacks ier msr st)))"
  by (cases st; simp add: irq_sleep_def irq_wakeup_def callback_fine)+

lemma error_fine:
  "irq_fine bd (snd (snd st)) \<Longrightarrow> irq_fine bd (snd (snd (irq_error ier msr esr st)))"
  by (cases st) (simp add: irq_error_def update_fine Let_def)

lemma report_fine:
  "irq_fine bd (snd (snd st)) \<Longrightarrow> irq_fine bd (snd (irq_report app_irq_callbacks st))"
  by (cases st) (simp add: irq_report_def callback_fine update_fine)

lemma handler_fine:
  "irq_fine bd (snd p) \<Longrightarrow> irq_fine bd (snd (HAL_CAN_IRQHandler app_irq_callbacks p))"
  unfolding HAL_CAN_IRQHandler_def
  by (cases p; cases "drv_handle (fst (snd p))")
    (simp_all add: Let_def report_fine error_fine sleep_fine receive_fine transmit_fine)

theorem irq_reaches:
  assumes "app_reachable bd m" and "\<not> m_reset m" and "CAN1_IRQHandler (fl, m) = (fl', m')"
  shows "app_reachable bd m' \<and> \<not> m_reset m'"
proof -
  have "irq_fine bd (m_can m, m)" using assms(1,2) by (simp add: irq_fine_def)
  then have "irq_fine bd (snd (HAL_CAN_IRQHandler app_irq_callbacks (fl, m_can m, m)))"
    by (intro handler_fine) simp
  then show ?thesis
    using assms(3) by (auto simp: CAN1_IRQHandler_def irq_fine_def Let_def split: prod.splits)
qed

subsection \<open>With the interrupts the driver enables\<close>

text \<open>\<open>CanDriver_Start\<close> enables message pending and the error interrupts only, so that the transmit,
  overrun, full, sleep and wake-up branches never act.\<close>

lemmas irq_word_defs = CAN_IT_TX_MAILBOX_EMPTY_def CAN_IT_RX_FIFO0_OVERRUN_def CAN_IT_RX_FIFO1_OVERRUN_def
  CAN_IT_RX_FIFO0_FULL_def CAN_IT_RX_FIFO1_FULL_def CAN_IT_SLEEP_ACK_def CAN_IT_WAKEUP_def
  CAN_IT_RX_FIFO0_MSG_PENDING_def CAN_IT_RX_FIFO1_MSG_PENDING_def CAN_IT_ERROR_def CAN_IT_ERROR_WARNING_def
  CAN_IT_ERROR_PASSIVE_def CAN_IT_BUSOFF_def CAN_IT_LAST_ERROR_CODE_def

lemma disabled_stages:
  "irq_transmit cb 0x8F12 tsr st = st"
  "irq_sleep cb 0x8F12 msr st = st"
  "irq_wakeup cb 0x8F12 msr st = st"
  "irq_receive cb 0x8F12 fl f st = irq_pending cb 0x8F12 f st"
  by (cases st; cases f;
      simp add: irq_transmit_def irq_sleep_def irq_wakeup_def irq_receive_def irq_full_def irq_overrun_def irq_word_defs)+

text \<open>The receive callback leaves alone what the error part of the handler goes on to use.\<close>

definition error_view :: "app_main \<Rightarrow> (u32 \<times> u32) option \<times> CanHealth_t option \<times> CanDriverErrorLog_t" where
  "error_view m =
     (map_option (\<lambda>hw. (hw_esr hw, hcan_error_code hw)) (drv_handle (m_can m)), m_health m, m_can_error_log m)"

lemma rx_irq_view: "error_view (HAL_CAN_RxFifoMsgPendingCallback m) = error_view m"
proof (cases "drv_handle (m_can m)")
  case None
  then show ?thesis
    by (simp add: error_view_def HAL_CAN_RxFifoMsgPendingCallback_def CanDriver_RxIrqHandler_def)
next
  case (Some hw)
  have log: "m_can_error_log (set_can d m) = m_can_error_log m" for d by (simp add: set_can_def set_port_def)
  show ?thesis
  proof (cases "hal_ready hw")
    case True
    then show ?thesis
      using Some log by (simp add: error_view_def HAL_CAN_RxFifoMsgPendingCallback_def CanDriver_RxIrqHandler_def
          irq_drain Let_def)
  next
    case False
    then have "rx_irq_drain f hw q = (True, hw, q)" for f q
      by (subst rx_irq_drain.simps) (simp add: HAL_CAN_GetRxFifoFillLevel_def)
    then show ?thesis
      using Some log by (simp add: error_view_def HAL_CAN_RxFifoMsgPendingCallback_def CanDriver_RxIrqHandler_def
          Let_def)
  qed
qed

lemma pending_view:
  assumes "irq_pending app_irq_callbacks ier f (err, fl, m_can m, m) = st"
  shows "\<exists>m'. st = (err, fl, m_can m', m') \<and> error_view m' = error_view m"
proof -
  let ?m = "HAL_CAN_RxFifoMsgPendingCallback m"
  have "st = (err, fl, m_can m, m) \<or> st = (err, fl, m_can ?m, ?m)"
    using assms by (auto simp: irq_pending_def app_irq_callbacks_def Let_def split: if_splits)
  then show ?thesis using rx_irq_view by blast
qed

subsection \<open>What an error interrupt does to the health object\<close>

text \<open>The kind of error a last error code stands for.\<close>

definition lec_kind :: "u32 \<Rightarrow> CanHealthErrorKind_t option" where
  "lec_kind esr =
     [None, Some CAN_HEALTH_ERROR_STUFF, Some CAN_HEALTH_ERROR_FORM, Some CAN_HEALTH_ERROR_ACK,
      Some CAN_HEALTH_ERROR_BIT, Some CAN_HEALTH_ERROR_BIT, Some CAN_HEALTH_ERROR_CRC, None]
     ! unat (drop_bit 4 (esr AND CAN_ESR_LEC))"

definition reported_error :: "u32 \<Rightarrow> u32" where
  "reported_error esr = error_flags 0x8F12 esr OR last_error_code esr"

lemma lec_values:
  fixes w :: u32
  shows "w AND 0x70 \<in> {0, 0x10, 0x20, 0x30, 0x40, 0x50, 0x60, 0x70}"
proof -
  let ?x = "take_bit 3 (drop_bit 4 w)"
  have field: "(0x70 :: u32) = push_bit 4 (Bit_Operations.mask 3)" by (simp add: mask_numeral)
  have "w AND 0x70 = push_bit 4 ?x"
    unfolding field by (rule bit_word_eqI) (auto simp: bit_simps)
  moreover have "unat ?x < 8"
    using take_bit_nat_less_exp [of 3 "unat (drop_bit 4 w)"] by (simp add: unsigned_take_bit_eq)
  then have "unat ?x \<in> {0, 1, 2, 3, 4, 5, 6, 7}" by auto
  then have "word_of_nat (unat ?x) \<in> (word_of_nat ` {0, 1, 2, 3, 4, 5, 6, 7} :: u32 set)" by blast
  then have "?x \<in> {0, 1, 2, 3, 4, 5, 6, 7}" by simp
  ultimately show ?thesis by auto
qed

lemma error_code_bits:
  "error_flags 0x8F12 esr =
     (if esr AND 1 \<noteq> 0 then 1 else 0) OR (if esr AND 2 \<noteq> 0 then 2 else 0) OR (if esr AND 4 \<noteq> 0 then 4 else 0)"
  by (simp add: error_flags_def irq_word_defs CAN_ESR_EWGF_def CAN_ESR_EPVF_def CAN_ESR_BOFF_def
      HAL_CAN_ERROR_EWG_def HAL_CAN_ERROR_EPV_def HAL_CAN_ERROR_BOF_def)

lemmas lec_code_defs = last_error_code_def lec_kind_def CAN_ESR_LEC_def HAL_CAN_ERROR_STF_def HAL_CAN_ERROR_FOR_def
  HAL_CAN_ERROR_ACK_def HAL_CAN_ERROR_BR_def HAL_CAN_ERROR_BD_def HAL_CAN_ERROR_CRC_def

text \<open>The reported code joins the status flags with the code of the last error.\<close>

lemma last_code_kind:
  "(last_error_code esr, lec_kind esr) \<in>
    {(0, None), (0x8, Some CAN_HEALTH_ERROR_STUFF), (0x10, Some CAN_HEALTH_ERROR_FORM),
     (0x20, Some CAN_HEALTH_ERROR_ACK), (0x40, Some CAN_HEALTH_ERROR_BIT),
     (0x80, Some CAN_HEALTH_ERROR_BIT), (0x100, Some CAN_HEALTH_ERROR_CRC)}"
  using lec_values [of esr] by (elim insertE emptyE) (simp_all add: lec_code_defs)

lemma status_flags: "esr AND 4 = 0 \<Longrightarrow> error_flags 0x8F12 esr \<in> {0, 1, 2, 3}"
  by (simp add: error_code_bits)

lemma last_code_small: "last_error_code esr AND 4 = 0"
  by (simp add: lec_code_defs Let_def)

lemma reported_bus_off: "reported_error esr AND HAL_CAN_ERROR_BOF \<noteq> 0 \<longleftrightarrow> esr AND 4 \<noteq> 0"
  by (simp add: reported_error_def HAL_CAN_ERROR_BOF_def bit.conj_disj_distrib2 last_code_small error_code_bits)

lemma reported_kind:
  assumes "esr AND 4 = 0"
  shows "reported_error esr AND NOT (HAL_CAN_ERROR_EWG OR HAL_CAN_ERROR_EPV) = 0 \<longleftrightarrow> lec_kind esr = None"
    and "lec_kind esr = Some k \<Longrightarrow> CanHealth_KindFromErrorFlags (reported_error esr) = k"
proof -
  note p = last_code_kind [of esr] and f = status_flags [OF assms]
  note flag = CAN_HEALTH_ERROR_FLAG_STUFF_def CAN_HEALTH_ERROR_FLAG_FORM_def CAN_HEALTH_ERROR_FLAG_ACK_def
    CAN_HEALTH_ERROR_FLAG_BIT_RECESSIVE_def CAN_HEALTH_ERROR_FLAG_BIT_DOMINANT_def CAN_HEALTH_ERROR_FLAG_CRC_def
  show "reported_error esr AND NOT (HAL_CAN_ERROR_EWG OR HAL_CAN_ERROR_EPV) = 0 \<longleftrightarrow> lec_kind esr = None"
    using f p by (elim insertE emptyE) (simp_all add: reported_error_def HAL_CAN_ERROR_EWG_def HAL_CAN_ERROR_EPV_def)
  show "lec_kind esr = Some k \<Longrightarrow> CanHealth_KindFromErrorFlags (reported_error esr) = k"
    using f p by (elim insertE emptyE) (simp_all add: reported_error_def CanHealth_KindFromErrorFlags_def flag)
qed

lemma reported_nothing:
  "reported_error esr = 0 \<Longrightarrow> lec_kind esr = None \<and> esr AND 4 = 0"
  using reported_bus_off [of esr] reported_kind(1) [of esr] by auto

lemma error_code_kept: "esr AND CAN_ESR_LEC = 0 \<Longrightarrow> error_flags 0x8F12 esr = reported_error esr"
  by (simp add: reported_error_def last_error_code_def)

text \<open>The error callback on a node whose handle has a code, and the whole handler.\<close>

lemma error_callback:
  assumes "drv_handle (m_can m) = Some hw" and "m_health m = Some h" and "hcan_error_code hw \<noteq> 0"
  shows "drv_handle (m_can (HAL_CAN_ErrorCallback m)) = Some (hw\<lparr>hcan_error_code := 0\<rparr>)"
    and "m_health (HAL_CAN_ErrorCallback m) =
      Some (classify_error h (hcan_error_code hw) (esr_tec (hw_esr hw), esr_rec (hw_esr hw), esr_boff (hw_esr hw)))"
    and "m_can_error_log (HAL_CAN_ErrorCallback m) =
      fst (CanDriver_LogErrorIsr (m_can_error_log m) (hcan_error_code hw) (hw_esr hw) (port_clock (m_port m)))"
  using assms
  by (simp_all add: HAL_CAN_ErrorCallback_def CanDriver_OnErrorIsr_def CanDriver_GetErrorCounters_def
      HAL_CAN_ERROR_NONE_def Let_def case_prod_beta set_clock_def set_can_def set_port_def)

lemma classified:
  "esr AND 4 \<noteq> 0 \<Longrightarrow> code AND HAL_CAN_ERROR_BOF \<noteq> 0 \<Longrightarrow>
    h_state (classify_error h code (t, r, b)) = CAN_HEALTH_STATE_BUS_OFF \<and>
    h_error_counts (classify_error h code (t, r, b)) = h_error_counts h"
  by (simp add: classify_error_def bus_off_entered)

lemma classified_kind:
  assumes "esr AND 4 = 0"
  shows "h_error_counts (classify_error h (reported_error esr) (t, r, False)) =
    (case lec_kind esr of None \<Rightarrow> h_error_counts h
     | Some k \<Rightarrow> (h_error_counts h)[kind_index k := h_error_counts h ! kind_index k + 1])"
proof -
  have bof: "reported_error esr AND HAL_CAN_ERROR_BOF = 0" using reported_bus_off [of esr] assms by simp
  have rec: "h_error_counts (CanHealth_RecordError g k b) =
      (h_error_counts g)[kind_index k := h_error_counts g ! kind_index k + 1]" for g k b
    by (simp add: CanHealth_RecordError_def CanHealth_UpdateErrorState_def CanHealth_EnterBusOff_def Let_def)
  show ?thesis
    using reported_kind [OF assms] bof
    by (cases "lec_kind esr") (simp_all add: classify_error_def counters_synced rec Let_def)
qed

lemma handler_enabled:
  assumes "drv_handle (m_can m) = Some hw" and "hw_ier hw = 0x8F12"
  shows "\<exists>n. error_view n = error_view m \<and>
    CAN1_IRQHandler (fl, m) =
      (let (fl', d, m') = irq_report app_irq_callbacks (irq_error 0x8F12 (fl_msr fl) (hw_esr hw) (0, fl, m_can n, n))
       in (fl', set_can d m'))"
proof -
  obtain n1 where n1: "irq_pending app_irq_callbacks 0x8F12 CAN_RX_FIFO0 (0, fl, m_can m, m) = (0, fl, m_can n1, n1)"
      "error_view n1 = error_view m"
    using pending_view by blast
  obtain n2 where n2: "irq_pending app_irq_callbacks 0x8F12 CAN_RX_FIFO1 (0, fl, m_can n1, n1) = (0, fl, m_can n2, n2)"
      "error_view n2 = error_view n1"
    using pending_view by blast
  have "CAN1_IRQHandler (fl, m) =
      (let (fl', d, m') = irq_report app_irq_callbacks (irq_error 0x8F12 (fl_msr fl) (hw_esr hw) (0, fl, m_can n2, n2))
       in (fl', set_can d m'))"
    using assms by (simp add: CAN1_IRQHandler_def HAL_CAN_IRQHandler_def HAL_CAN_ERROR_NONE_def disabled_stages n1(1) n2(1)
        Let_def)
  with n1(2) n2(2) show ?thesis by metis
qed

lemma error_part:
  assumes "drv_handle d = Some hw" and "hw_esr hw = esr" and "msr AND CAN_MSR_ERRI \<noteq> 0"
  shows "irq_error 0x8F12 msr esr (0, fl, d, n) =
    (reported_error esr, fl\<lparr>fl_msr := fl_msr fl AND NOT CAN_MSR_ERRI\<rparr>,
     d\<lparr>drv_handle := Some (hw\<lparr>hw_esr := esr AND NOT CAN_ESR_LEC\<rparr>)\<rparr>, n)"
proof (cases "esr AND CAN_ESR_LEC = 0")
  case True
  have "esr = (esr AND NOT CAN_ESR_LEC) OR (esr AND CAN_ESR_LEC)"
    by (rule bit_word_eqI) (auto simp: bit_simps)
  then have "esr AND NOT CAN_ESR_LEC = esr" using True by simp
  then have "d\<lparr>drv_handle := Some (hw\<lparr>hw_esr := esr AND NOT CAN_ESR_LEC\<rparr>)\<rparr> = d"
    using assms(1,2) by (cases d; cases hw) simp
  then show ?thesis
    using True assms error_code_kept [OF True] by (simp add: irq_error_def irq_word_defs)
next
  case False
  then show ?thesis
    using assms by (simp add: irq_error_def irq_word_defs reported_error_def update_hw_def)
qed

lemma esr_kept:
  "esr_tec (esr AND NOT CAN_ESR_LEC) = esr_tec esr" "esr_rec (esr AND NOT CAN_ESR_LEC) = esr_rec esr"
  "esr_boff (esr AND NOT CAN_ESR_LEC) = esr_boff esr" "esr_boff esr \<longleftrightarrow> esr AND 4 \<noteq> 0"
  by (simp_all add: esr_tec_def esr_rec_def esr_boff_def CAN_ESR_LEC_def and.assoc)

lemma logged:
  assumes "unat (log_next_index lg) < length (log_entries lg)"
  shows "log_recorded (fst (CanDriver_LogErrorIsr lg code esr clk)) = log_recorded lg + 1"
    and "log_esr (log_entries (fst (CanDriver_LogErrorIsr lg code esr clk)) ! unat (log_next_index lg)) = esr"
    and "log_error_code (log_entries (fst (CanDriver_LogErrorIsr lg code esr clk)) ! unat (log_next_index lg)) = code"
  using assms by (simp_all add: CanDriver_LogErrorIsr_def Let_def case_prod_beta)

lemma error_log_set_can: "m_can_error_log (set_can d m) = m_can_error_log m"
  by (simp add: set_can_def set_port_def)

subsection \<open>Claims\<close>

text \<open>C24: A protocol error that the CAN controller reports reaches the health object.  On any reachable
  node with the interrupts of \<open>CanDriver_Start\<close> and no error code left over, the handler with \<open>ERRI\<close> set
  clears \<open>ERRI\<close> and the last error code and leaves a reachable node whose code is consumed: with
  the Bus-Off flag the node is in Bus-Off and no error is counted; otherwise the counter of
  exactly the kind the last error code names goes up by one, none when there is no last error code.
  The error is logged with its HAL code; the logged status register has lost its last
  error code, which the handler clears before it calls back.\<close>

theorem hardware_error_is_counted:
  assumes "app_reachable bd m" and "\<not> m_reset m" and "drv_handle (m_can m) = Some hw" and "m_health m = Some h"
    and "hw_ier hw = 0x8F12" and "hcan_error_code hw = 0" and "fl_msr fl AND CAN_MSR_ERRI \<noteq> 0"
    and "CAN1_IRQHandler (fl, m) = (fl', m')"
  shows "app_reachable bd m' \<and> fl_msr fl' = fl_msr fl AND NOT CAN_MSR_ERRI \<and>
    (\<exists>hw' h'. drv_handle (m_can m') = Some hw' \<and> m_health m' = Some h' \<and>
      hcan_error_code hw' = 0 \<and> hw_esr hw' = hw_esr hw AND NOT CAN_ESR_LEC \<and>
      (if esr_boff (hw_esr hw)
       then h_state h' = CAN_HEALTH_STATE_BUS_OFF \<and> h_error_counts h' = h_error_counts h
       else h_error_counts h' =
         (case lec_kind (hw_esr hw) of None \<Rightarrow> h_error_counts h
          | Some k \<Rightarrow> (h_error_counts h)[kind_index k := h_error_counts h ! kind_index k + 1]))) \<and>
    (let lg = m_can_error_log m; lg' = m_can_error_log m'; code = reported_error (hw_esr hw)
     in if code = 0 then lg' = lg
        else log_recorded lg' = log_recorded lg + 1 \<and>
          log_error_code (log_entries lg' ! unat (log_next_index lg)) = code \<and>
          log_esr (log_entries lg' ! unat (log_next_index lg)) = hw_esr hw AND NOT CAN_ESR_LEC)"
proof -
  let ?esr = "hw_esr hw" and ?code = "reported_error (hw_esr hw)"
  obtain n where n: "error_view n = error_view m"
    "CAN1_IRQHandler (fl, m) =
      (let (fl', d, m') = irq_report app_irq_callbacks (irq_error 0x8F12 (fl_msr fl) ?esr (0, fl, m_can n, n))
       in (fl', set_can d m'))"
    using handler_enabled [OF assms(3,5)] by blast
  obtain hn where hn: "drv_handle (m_can n) = Some hn" "hw_esr hn = ?esr" "hcan_error_code hn = 0"
      "m_health n = Some h" "m_can_error_log n = m_can_error_log m"
    using n(1) assms(3,4,6) by (auto simp: error_view_def)
  let ?hn = "hn\<lparr>hw_esr := ?esr AND NOT CAN_ESR_LEC\<rparr>"
  let ?d = "(m_can n)\<lparr>drv_handle := Some ?hn\<rparr>"
  note part = error_part [OF hn(1,2) assms(7), of fl n]
  have lg: "unat (log_next_index (m_can_error_log m)) < length (log_entries (m_can_error_log m))"
    using reachable_ok [OF assms(1)] by (auto simp: app_ok_def app_core_def logs_ok_def word_less_nat_alt)
  have reach: "app_reachable bd m'" using irq_reaches [OF assms(1,2,8)] by simp
  have msr: "fl' = fl\<lparr>fl_msr := fl_msr fl AND NOT CAN_MSR_ERRI\<rparr>"
    using assms(8) n(2) part by (auto simp: irq_report_def Let_def split: if_splits prod.splits)
  show ?thesis
  proof (cases "?code = 0")
    case True
    then have "m' = set_can ?d n"
      using assms(8) n(2) part by (simp add: irq_report_def HAL_CAN_ERROR_NONE_def)
    then show ?thesis
      using reach msr True hn reported_nothing [OF True] esr_kept(4) [of ?esr] by (simp add: error_log_set_can)
  next
    case False
    let ?n = "set_can (?d\<lparr>drv_handle := Some (?hn\<lparr>hcan_error_code := ?code\<rparr>)\<rparr>) n"
    have m': "m' = HAL_CAN_ErrorCallback ?n"
      using assms(8) n(2) part False hn(3)
      by (simp add: irq_report_def HAL_CAN_ERROR_NONE_def update_hw_def app_irq_callbacks_def Let_def)
    have h: "drv_handle (m_can ?n) = Some (?hn\<lparr>hcan_error_code := ?code\<rparr>)" "m_health ?n = Some h"
      "hcan_error_code (?hn\<lparr>hcan_error_code := ?code\<rparr>) \<noteq> 0"
      using hn False by simp_all
    note cb = error_callback [OF h]
    have fin: "if esr_boff ?esr then h_state h' = CAN_HEALTH_STATE_BUS_OFF \<and> h_error_counts h' = h_error_counts h
      else h_error_counts h' = (case lec_kind ?esr of None \<Rightarrow> h_error_counts h
          | Some k \<Rightarrow> (h_error_counts h)[kind_index k := h_error_counts h ! kind_index k + 1])"
      if "h' = classify_error h ?code (esr_tec ?esr, esr_rec ?esr, esr_boff ?esr)" for h'
      using that classified [of ?esr ?code] classified_kind [of ?esr] reported_bus_off [of ?esr] esr_kept(4) [of ?esr]
      by auto
    show ?thesis
      using reach msr False cb m' fin logged [OF lg] hn(5) by (simp add: error_log_set_can esr_kept(1-3) Let_def)
  qed
qed

text \<open>A missing acknowledgement on the sample node.\<close>

definition unacked_node :: app_main where
  "unacked_node = set_can ((m_can sample_node)\<lparr>drv_handle :=
     Some (sample_hw\<lparr>hw_ier := 0x8F12, hw_esr := 0x30, hcan_error_code := 0\<rparr>)\<rparr>) sample_node"

lemma unacked_reachable: "app_reachable board_f103 unacked_node \<and> \<not> m_reset unacked_node \<and> m_health unacked_node \<noteq> None"
proof -
  have s: "app_reachable board_f103 sample_node" "\<not> m_reset sample_node" using sample_node_reachable by simp_all
  have "app_reachable board_f103 unacked_node"
    unfolding unacked_node_def by (rule reach_other [OF s(1) step_bus [OF s(2)]])
  with reachable_ok [OF this] s(2) show ?thesis
    by (auto simp: unacked_node_def app_ok_def app_core_def node_core_def)
qed

theorem hardware_error_is_counted_witness:
  "\<exists>fl' m' h h'. CAN1_IRQHandler (\<lparr>fl_msr = 4, fl_tsr = 0, fl_rf0r = 0, fl_rf1r = 0\<rparr>, unacked_node) = (fl', m') \<and>
     m_health unacked_node = Some h \<and> m_health m' = Some h' \<and>
     h_error_counts h' = (h_error_counts h)[2 := h_error_counts h ! 2 + 1]"
proof -
  let ?fl = "\<lparr>fl_msr = 4, fl_tsr = 0, fl_rf0r = 0, fl_rf1r = 0\<rparr>"
  obtain fl' m' where irq: "CAN1_IRQHandler (?fl, unacked_node) = (fl', m')" by (rule prod.exhaust)
  obtain h where h: "m_health unacked_node = Some h" using unacked_reachable by blast
  have hw: "drv_handle (m_can unacked_node) = Some (sample_hw\<lparr>hw_ier := 0x8F12, hw_esr := 0x30, hcan_error_code := 0\<rparr>)"
    by (simp add: unacked_node_def)
  have lec: "lec_kind 0x30 = Some CAN_HEALTH_ERROR_ACK" "\<not> esr_boff 0x30"
    by (simp_all add: lec_kind_def CAN_ESR_LEC_def esr_boff_def)
  have "\<exists>h'. m_health m' = Some h' \<and> h_error_counts h' = (h_error_counts h)[2 := h_error_counts h ! 2 + 1]"
    using hardware_error_is_counted [OF _ _ hw h _ _ _ irq, of board_f103] unacked_reachable
    by (simp add: lec CAN_MSR_ERRI_def) blast
  with irq h show ?thesis by blast
qed

end
