(* ===== verification/IsotpBlock.thy ===== *)
theory IsotpBlock
  imports IsotpTransfer
begin

section \<open>A transfer that fills its last block\<close>

text \<open>
  The sender of \<open>isotp.c\<close> against a peer that grants blocks of \<open>B\<close> consecutive frames and, as the
  protocol asks, sends a clear-to-send only while frames of the payload are missing.  \<open>block_run\<close>
  are the schedules of such a transfer; the lemmas follow the position of the sender in its block.
\<close>

subsection \<open>The peer\<close>

definition is_cts :: "frame \<Rightarrow> bool" where
  "is_cts fr \<longleftrightarrow> drop_bit 4 (fr ! 0) = ISOTP_PCI_FC \<and> fr ! 0 AND 0x0F = ISOTP_FC_CTS"

text \<open>Polls and passing time at any moment; the clear-to-send number \<open>f\<close> when the first frame and \<open>f\<close>
  whole blocks are on the bus (after \<open>base\<close>) and frames are missing; any other frame at any
  moment.  A payload of more than seven bytes has \<open>length p div 7\<close> consecutive frames.\<close>

inductive block_run ::
  "('c \<Rightarrow> (u32 \<times> frame) list) \<Rightarrow> (u32 \<times> frame) list \<Rightarrow> u8 \<Rightarrow> u8 list \<Rightarrow> 'c IsotpTx_t \<times> 'c \<Rightarrow> nat \<Rightarrow> 'c IsotpTx_t \<times> 'c \<Rightarrow> bool"
  for sent base B p s0 where
  block_start: "block_run sent base B p s0 0 s0"
| block_poll: "block_run sent base B p s0 f (tx, c) \<Longrightarrow> IsotpTx_Poll tx c = (r, tx', c') \<Longrightarrow>
    block_run sent base B p s0 f (tx', c')"
| block_elapse: "block_run sent base B p s0 f (tx, c) \<Longrightarrow> sent c' = sent c \<Longrightarrow>
    block_run sent base B p s0 f (tx, c')"
| block_cts: "block_run sent base B p s0 f (tx, c) \<Longrightarrow> sent c = base @ on_bus tx p (1 + f * unat B) \<Longrightarrow>
    f * unat B < length p div 7 \<Longrightarrow> is_cts fr \<Longrightarrow> fr ! 1 = B \<Longrightarrow>
    IsotpTx_OnFrame tx (Some fr) c = (r, tx', c') \<Longrightarrow> block_run sent base B p s0 (Suc f) (tx', c')"
| block_frame: "block_run sent base B p s0 f (tx, c) \<Longrightarrow> \<not> is_cts fr \<Longrightarrow>
    IsotpTx_OnFrame tx (Some fr) c = (r, tx', c') \<Longrightarrow> block_run sent base B p s0 f (tx', c')"

lemma block_reach: "block_run sent base B p s0 f s \<Longrightarrow> tx_reach sent s0 s"
proof (induction rule: block_run.induct)
  case block_start
  show ?case by (rule reach_start)
next
  case (block_poll f tx c r tx' c')
  then show ?case by (blast intro: reach_step tx_step.Poll)
next
  case (block_elapse f tx c c')
  then show ?case by (blast intro: reach_step tx_step.Elapse)
next
  case (block_cts f tx c fr r tx' c')
  then show ?case by (blast intro: reach_step tx_step.Receive)
next
  case (block_frame f tx c fr r tx' c')
  then show ?case by (blast intro: reach_step tx_step.Receive)
qed

subsection \<open>The position in the block\<close>

text \<open>Consecutive frames built so far.\<close>

abbreviation built :: "'c IsotpTx_t \<Rightarrow> nat" where
  "built tx \<equiv> unat (tx_offset tx) div 7"

definition in_block :: "u8 \<Rightarrow> nat \<Rightarrow> nat \<Rightarrow> 'c IsotpTx_t \<Rightarrow> bool" where
  "in_block B N f tx \<longleftrightarrow>
     (if f = 0 then tx_waiting_fc tx \<and> built tx = 0 \<and> tx_sent_in_block tx = 0
      else tx_block_size tx = B \<and> built tx = (f - 1) * unat B + unat (tx_sent_in_block tx) \<and>
        unat (tx_sent_in_block tx) \<le> unat B \<and> (tx_waiting_fc tx \<longrightarrow> unat (tx_sent_in_block tx) = unat B) \<and>
        (f - 1) * unat B < N)"

lemma in_block_cong:
  "tx_waiting_fc tx' = tx_waiting_fc tx \<Longrightarrow> tx_offset tx' = tx_offset tx \<Longrightarrow>
    tx_sent_in_block tx' = tx_sent_in_block tx \<Longrightarrow> tx_block_size tx' = tx_block_size tx \<Longrightarrow>
    in_block B N f tx' = in_block B N f tx"
  by (simp add: in_block_def)

lemma progress_built:
  assumes "tx_progress k p tx" and "7 < length p"
  shows "k = 1 + built tx \<and> built tx \<le> length p div 7"
proof -
  have k: "0 < k" "unat (tx_offset tx) = min (6 + 7 * (k - 1)) (length p)" "k \<le> 1 + length p div 7"
    using assms length_segment_long [OF assms(2), of "tx_padding tx"] by (auto simp: tx_progress_def)
  show ?thesis
  proof (cases "k \<le> length p div 7")
    case True
    then have "6 + 7 * (k - 1) \<le> length p" using k(1) by linarith
    then have "unat (tx_offset tx) = 6 + 7 * (k - 1)" using k(2) by simp
    then have "built tx = k - 1" by simp
    with k(1) True show ?thesis by simp
  next
    case False
    then have "k = 1 + length p div 7" using k(3) by simp
    moreover from this have "length p \<le> 6 + 7 * (k - 1)" by simp
    ultimately show ?thesis using k(2) by simp
  qed
qed

text \<open>A full last block and a finished payload go together when the blocks divide the frames.\<close>

lemma block_not_done:
  assumes "in_block B N f tx" and "f \<noteq> 0" and "built tx = N" and "unat B dvd N" and "0 < B"
  shows "unat (tx_sent_in_block tx) = unat B"
proof -
  let ?s = "unat (tx_sent_in_block tx)"
  have b: "N = (f - 1) * unat B + ?s" "?s \<le> unat B" "(f - 1) * unat B < N"
    using assms(1-3) by (simp_all add: in_block_def)
  then have "unat B dvd ?s" using assms(4) by (metis dvd_add_times_triv_left_iff add.commute mult.commute)
  moreover have "0 < ?s" using b by simp
  ultimately show ?thesis using b(2) by (simp add: dvd_imp_le le_antisym)
qed

lemma block_full_iff:
  "in_block B N f tx \<Longrightarrow> f \<noteq> 0 \<Longrightarrow> 0 < B \<Longrightarrow> tx_block_full tx \<longleftrightarrow> unat (tx_sent_in_block tx) = unat B"
  by (auto simp: in_block_def tx_block_full_def word_le_nat_alt)

subsection \<open>The operations\<close>

lemma service_view:
  "isotp_tx_service_enqueue tx now c = (r, tx', c') \<Longrightarrow>
    tx_waiting_fc tx' = tx_waiting_fc tx \<and> tx_offset tx' = tx_offset tx \<and> tx_length tx' = tx_length tx \<and>
    tx_sent_in_block tx' = tx_sent_in_block tx \<and> tx_block_size tx' = tx_block_size tx \<and> tx_n_as_ms tx' = tx_n_as_ms tx"
  by (auto simp: isotp_tx_service_enqueue_def isotp_note_frame_sent_def split: prod.splits if_splits)

lemma schedule_view:
  "isotp_tx_schedule_frame tx fr c = (ok, tx', c') \<Longrightarrow>
    tx_waiting_fc tx' = tx_waiting_fc tx \<and> tx_offset tx' = tx_offset tx \<and>
    tx_sent_in_block tx' = tx_sent_in_block tx \<and> tx_block_size tx' = tx_block_size tx"
  by (auto simp: isotp_tx_schedule_frame_def dest: service_view split: prod.splits if_splits)

lemma send_cf_view:
  assumes "isotp_send_cf tx now c = (ok, tx', c')"
  shows "tx_waiting_fc tx' = tx_waiting_fc tx \<and> tx_block_size tx' = tx_block_size tx \<and>
    tx_sent_in_block tx' = tx_sent_in_block tx + 1 \<and>
    tx_offset tx' = tx_offset tx + (if tx_length tx - tx_offset tx < 7 then tx_length tx - tx_offset tx else 7)"
  using assms by (auto simp: isotp_send_cf_def ISOTP_CF_PAYLOAD_MAX_def Let_def dest!: schedule_view)

lemma cf_built:
  assumes "tx_progress k p tx" and "7 < length p" and "tx_static p tx" and "tx_offset tx < tx_length tx"
    and "isotp_send_cf tx now c = (ok, tx', c')"
  shows "built tx' = Suc (built tx)"
proof -
  have len: "unat (tx_length tx) = length p" "length p \<le> 0xFFF" using assms(3) by (simp_all add: tx_static_def)
  have o: "unat (tx_offset tx) < length p" using assms(4) len by (simp add: word_less_nat_alt)
  note more = tx_progress_more [OF assms(1) o]
  let ?rem = "tx_length tx - tx_offset tx"
  have rem: "unat ?rem = length p - unat (tx_offset tx)"
    using assms(4) len by (simp add: unat_sub order_less_imp_le)
  have c: "unat (if ?rem < 7 then ?rem else 7) = min 7 (length p - unat (tx_offset tx))"
    using rem by (auto simp: word_less_nat_alt)
  have "unat (tx_offset tx') = min (unat (tx_offset tx) + 7) (length p)"
    using send_cf_view [OF assms(5)] c o len by (simp add: unat_word_ariths)
  with more show ?thesis by (auto simp: min_def)
qed

context calm_channel
begin

lemma idle_block:
  assumes run: "tx_running base p tx c" and "\<not> tx_waiting_enqueue tx" and "tx_ongoing tx" and "2 \<le> tx_n_as_ms tx"
    and blk: "in_block B (length p div 7) f tx" and "0 < B" and "unat B dvd length p div 7" and "7 < length p"
    and eq: "tx_poll_idle tx now c = (r, tx', c')"
  shows "(tx_ongoing tx' \<longrightarrow> in_block B (length p div 7) f tx') \<and> (\<not> tx_ongoing tx' \<longrightarrow> r = ISOTP_ERR_TIMEOUT)"
proof -
  obtain k where k: "tx_progress k p tx" "tx_static p tx" "tx_channel tx = ch" using run by (auto simp: tx_running_def)
  note b = progress_built [OF k(1) assms(8)]
  consider "tx_waiting_fc tx" | "f \<noteq> 0" "\<not> tx_waiting_fc tx" using blk by (auto simp: in_block_def split: if_splits)
  then show ?thesis
  proof cases
    case 1
    with eq assms(3) blk show ?thesis by (auto simp: tx_poll_idle_def split: if_splits)
  next
    case 2
    note full = block_full_iff [OF blk 2(1) assms(6)]
    show ?thesis
    proof (cases "tx_block_full tx")
      case True
      with eq 2 blk full assms(3) show ?thesis by (auto simp: tx_poll_idle_def in_block_def)
    next
      case nf: False
      have "built tx \<noteq> length p div 7"
        using block_not_done [OF blk 2(1) _ assms(7,6)] nf full by blast
      then have "\<not> length p \<le> unat (tx_offset tx)"
        using b div_le_mono [of "length p" "unat (tx_offset tx)" 7] by linarith
      then have more: "tx_offset tx < tx_length tx"
        using k(2) by (simp add: tx_static_def word_less_nat_alt)
      then have nle: "\<not> tx_length tx \<le> tx_offset tx" by simp
      show ?thesis
      proof (cases "tx_has_sent_cf tx \<and> 0 < tx_stmin_ms tx \<and> now - tx_last_cf_ms tx < ucast (tx_stmin_ms tx)")
        case True
        with eq 2 nf nle assms(3) blk show ?thesis by (simp add: tx_poll_idle_def)
      next
        case False
        obtain ok tx1 c1 where cf: "isotp_send_cf tx now c = (ok, tx1, c1)" by (metis prod_cases3)
        note v = send_cf_view [OF cf] and n = cf_built [OF k(1) assms(8) k(2) more cf]
        have ok: ok using send_cf_running [OF run assms(2) more cf] by blast
        have on: "tx_ongoing tx1 = tx_ongoing tx"
          using cf schedule_calm [of "tx\<lparr>tx_offset := a, tx_sn := b, tx_sent_in_block := d,
              tx_has_sent_cf := True, tx_last_cf_ms := now\<rparr>" for a b d] k(3) assms(4)
          by (fastforce simp: isotp_send_cf_def Let_def)
        have "r = ISOTP_OK" "tx' = tx1" using eq 2 nf nle False cf ok by (auto simp: tx_poll_idle_def)
        moreover have "unat (tx_sent_in_block tx) < unat B"
          using blk 2 nf full by (auto simp: in_block_def)
        then have "unat (tx_sent_in_block tx + 1) = Suc (unat (tx_sent_in_block tx))"
          using unat_u8_le [of B] by (simp add: unat_word_ariths)
        ultimately show ?thesis
          using blk 2 v n on assms(3) \<open>unat (tx_sent_in_block tx) < unat B\<close> by (simp add: in_block_def)
      qed
    qed
  qed
qed

lemma poll_block:
  assumes run: "tx_running base p tx c" and on: "tx_ongoing tx" and "2 \<le> tx_n_as_ms tx"
    and blk: "in_block B (length p div 7) f tx" and "0 < B" and "unat B dvd length p div 7" and "7 < length p"
    and eq: "IsotpTx_Poll tx c = (r, tx', c')"
  shows "(tx_ongoing tx' \<longrightarrow> in_block B (length p div 7) f tx') \<and> (\<not> tx_ongoing tx' \<longrightarrow> r = ISOTP_ERR_TIMEOUT)"
proof -
  have chn: "tx_channel tx = ch" using run by (simp add: tx_running_def)
  obtain now c1 where t: "isotp_tick ch c = (now, c1)" by fastforce
  obtain rs tx1 c2 where serv: "isotp_tx_service_enqueue tx now c1 = (rs, tx1, c2)" by (metis prod_cases3)
  have run1: "tx_running base p tx c1" using running_quiet [OF run] tick_quiet [OF t] by blast
  note s = service_running [OF run1 serv] and v = service_view [OF serv]
  have blk1: "in_block B (length p div 7) f tx1" using blk v in_block_cong [of tx1 tx] by simp
  show ?thesis
  proof (cases "rs = ISOTP_OK \<and> \<not> tx_waiting_enqueue tx1")
    case False
    with s eq on t serv chn blk1 show ?thesis by (auto simp: IsotpTx_Poll_def split: if_splits)
  next
    case ok: True
    with s on have run2: "tx_running base p tx1 c2" and on1: "tx_ongoing tx1" by auto
    then have chn1: "tx_channel tx1 = ch" by (simp add: tx_running_def)
    obtain pb c3 where pend: "channel_pending ch c2 = (pb, c3)" by fastforce
    have run4: "tx_running base p (tx1\<lparr>tx_frame_pending := False\<rparr>) c3"
      using running_quiet [OF run2] pending_quiet [OF pend] by (simp add: running_update)
    have blk4: "in_block B (length p div 7) f (tx1\<lparr>tx_frame_pending := False\<rparr>)"
      using blk1 in_block_cong [of "tx1\<lparr>tx_frame_pending := False\<rparr>" tx1] by simp
    have nas: "2 \<le> tx_n_as_ms tx1" using v assms(3) by simp
    consider "tx_frame_pending tx1" pb | "tx_frame_pending tx1" "\<not> pb" | "\<not> tx_frame_pending tx1" by blast
    then show ?thesis
    proof cases
      case 1
      with ok eq on t serv chn chn1 pend blk1 on1 show ?thesis
        by (auto simp: IsotpTx_Poll_def isotp_tx_pending_def split: if_splits)
    next
      case 2
      with ok eq on t serv chn chn1 pend
      have "tx_poll_idle (tx1\<lparr>tx_frame_pending := False\<rparr>) now c3 = (r, tx', c')"
        by (simp add: IsotpTx_Poll_def isotp_tx_pending_def)
      from idle_block [OF run4 _ _ _ blk4 assms(5-7) this] ok on1 nas show ?thesis by simp
    next
      case 3
      with ok eq on t serv chn have "tx_poll_idle tx1 now c2 = (r, tx', c')" by (simp add: IsotpTx_Poll_def)
      from idle_block [OF run2 _ on1 nas blk1 assms(5-7) this] ok show ?thesis by simp
    qed
  qed
qed

text \<open>How many frames are on the bus.\<close>

lemma wire_count:
  assumes "tx_running base p tx c" and "7 < length p" and "sent c = base @ on_bus tx p n" and "n \<le> 1 + length p div 7"
  shows "n = (if tx_waiting_enqueue tx then built tx else 1 + built tx)"
proof -
  obtain k where k: "tx_progress k p tx" "sent c = base @ on_bus tx p (if tx_waiting_enqueue tx then k - 1 else k)"
    using assms(1) by (auto simp: tx_running_def split: if_splits)
  have len: "length (on_bus tx p m) = min m (1 + length p div 7)" for m
    using length_segment_long [OF assms(2)] by (simp add: on_bus_def min.commute)
  have "length (on_bus tx p n) = length (on_bus tx p (if tx_waiting_enqueue tx then k - 1 else k))"
    using k(2) assms(3) by (metis same_append_eq)
  with progress_built [OF k(1) assms(2)] assms(4) show ?thesis unfolding len by (auto simp: min_def split: if_splits)
qed

lemma cts_block:
  assumes run: "tx_running base p tx c" and "tx_ongoing tx" and blk: "in_block B (length p div 7) f tx" and "0 < B"
    and "7 < length p" and "sent c = base @ on_bus tx p (1 + f * unat B)" and "f * unat B < length p div 7"
    and "is_cts fr" and "fr ! 1 = B" and "IsotpTx_OnFrame tx (Some fr) c = (r, tx', c')" and "tx_ongoing tx'"
  shows "in_block B (length p div 7) (Suc f) tx'"
proof -
  have n: "1 + f * unat B = (if tx_waiting_enqueue tx then built tx else 1 + built tx)"
    using wire_count [OF run assms(5,6)] assms(7) by simp
  have at: "built tx = f * unat B" "tx_waiting_fc tx \<or> tx_block_full tx"
  proof -
    show "built tx = f * unat B"
    proof (cases f)
      case 0
      with n blk show ?thesis by (auto simp: in_block_def split: if_splits)
    next
      case (Suc g)
      with n blk show ?thesis by (auto simp: in_block_def split: if_splits)
    qed
    show "tx_waiting_fc tx \<or> tx_block_full tx"
    proof (cases f)
      case 0
      with blk show ?thesis by (simp add: in_block_def)
    next
      case (Suc g)
      with blk \<open>built tx = f * unat B\<close> have "unat (tx_sent_in_block tx) = unat B" by (simp add: in_block_def)
      with block_full_iff [OF blk _ assms(4)] Suc show ?thesis by simp
    qed
  qed
  have "tx_offset tx' = tx_offset tx \<and> tx_sent_in_block tx' = 0 \<and> tx_block_size tx' = B \<and> \<not> tx_waiting_fc tx'"
    using assms(2,8,9,10) at(2) by (auto simp: IsotpTx_OnFrame_def is_cts_def isotp_consts Let_def split: prod.splits)
  with at(1) assms(7) show ?thesis by (simp add: in_block_def)
qed

lemma frame_block:
  assumes "in_block B N f tx" and "\<not> is_cts fr" and "IsotpTx_OnFrame tx (Some fr) c = (r, tx', c')"
  shows "in_block B N f tx'"
proof -
  have "tx_offset tx' = tx_offset tx \<and> tx_sent_in_block tx' = tx_sent_in_block tx \<and>
      tx_block_size tx' = tx_block_size tx \<and> tx_waiting_fc tx' = tx_waiting_fc tx"
    using assms(2,3) by (auto simp: IsotpTx_OnFrame_def is_cts_def Let_def split: prod.splits if_splits)
  with in_block_cong [of tx' tx] assms(1) show ?thesis by simp
qed

lemma run_block:
  assumes "block_run sent base B p (tx1, c1) f s" and "tx_safe base p tx1 c1" and "2 \<le> tx_n_as_ms tx1"
    and "tx_ongoing tx1 \<longrightarrow> in_block B (length p div 7) 0 tx1" and "0 < B" and "unat B dvd length p div 7" and "7 < length p"
  shows "tx_ongoing (fst s) \<longrightarrow> in_block B (length p div 7) f (fst s)"
  using assms(1)
proof (induction rule: block_run.induct)
  case block_start
  show ?case using assms(4) by simp
next
  case (block_poll f tx c r tx' c')
  note reach = block_reach [OF block_poll.hyps(1)]
  show ?case
  proof (cases "tx_ongoing tx")
    case True
    then have "tx_running base p tx c" "2 \<le> tx_n_as_ms tx"
      using reach_safe [OF reach assms(2)] reach_n_as [OF reach] assms(3) by (simp_all add: tx_safe_def)
    from poll_block [OF this(1) True this(2) _ assms(5-7) block_poll.hyps(2)] block_poll.IH True show ?thesis by simp
  next
    case False
    with block_poll.hyps(2) show ?thesis by (simp add: IsotpTx_Poll_def)
  qed
next
  case (block_elapse f tx c c')
  then show ?case by simp
next
  case (block_cts f tx c fr r tx' c')
  note reach = block_reach [OF block_cts.hyps(1)]
  show ?case
  proof (cases "tx_ongoing tx")
    case True
    then have "tx_running base p tx c" using reach_safe [OF reach assms(2)] by (simp add: tx_safe_def)
    from cts_block [OF this True _ assms(5,7) block_cts.hyps(2-6)] block_cts.IH True show ?thesis by simp
  next
    case False
    with block_cts.hyps(6) show ?thesis by (simp add: IsotpTx_OnFrame_def)
  qed
next
  case (block_frame f tx c fr r tx' c')
  show ?case
  proof (cases "tx_ongoing tx")
    case True
    with frame_block [OF _ block_frame.hyps(2,3)] block_frame.IH show ?thesis by simp
  next
    case False
    with block_frame.hyps(3) show ?thesis by (simp add: IsotpTx_OnFrame_def)
  qed
qed

text \<open>The poll once everything is on the bus.\<close>

lemma poll_all_sent:
  assumes run: "tx_running base p tx c" and on: "tx_ongoing tx" and blk: "in_block B (length p div 7) f tx"
    and "0 < B" and "unat B dvd length p div 7" and "7 < length p"
    and "sent c = base @ on_bus tx p (1 + length p div 7)" and "\<not> tx_frame_pending tx" and "isotp_tick ch c = (now, c1)"
  shows "IsotpTx_Poll tx c =
    (if \<not> tx_waiting_fc tx then
       (ISOTP_OK, tx\<lparr>tx_waiting_fc := True, tx_waiting_after_block := True,
                      tx_deadline_ms := now + ucast (tx_n_cr_ms tx)\<rparr>, c1)
     else if tick_reached now (tx_deadline_ms tx) then (ISOTP_ERR_TIMEOUT, tx\<lparr>tx_ongoing := False\<rparr>, c1)
     else (ISOTP_OK, tx, c1))"
proof -
  have chn: "tx_channel tx = ch" using run by (simp add: tx_running_def)
  obtain k where k: "tx_progress k p tx" using run by (auto simp: tx_running_def)
  have b: "\<not> tx_waiting_enqueue tx" "built tx = length p div 7"
    using wire_count [OF run assms(6,7)] progress_built [OF k assms(6)] by (auto split: if_splits)
  have "0 < length p div 7" using assms(6) by (simp add: div_greater_zero_iff)
  then have f: "f \<noteq> 0" using blk b(2) by (metis in_block_def less_irrefl)
  have "tx_block_full tx"
    using block_full_iff [OF blk f assms(4)] block_not_done [OF blk f b(2) assms(5,4)] by simp
  with b(1) on chn assms(8,9) show ?thesis
    by (simp add: IsotpTx_Poll_def isotp_tx_service_enqueue_def tx_poll_idle_def)
qed

end

lemma start_in_block:
  assumes "IsotpTx_Start tx (Some p) len c = (ISOTP_OK, tx', c')" and "unat len = length p" and "7 < length p"
  shows "in_block B N 0 tx'"
proof -
  have big: "\<not> len \<le> ISOTP_MAX_SINGLE_FRAME" "\<not> len < ISOTP_FF_PAYLOAD_MAX"
    using assms(2,3) by (simp_all add: isotp_consts word_le_nat_alt word_less_nat_alt)
  then show ?thesis
    using assms(1) by (auto simp: IsotpTx_Start_def isotp_send_ff_def tx_begin_def in_block_def Let_def isotp_consts
        dest!: schedule_view split: if_splits prod.splits)
qed

subsection \<open>The claim\<close>

text \<open>C31: A transfer whose consecutive frames exactly fill the peer's last block never reports
  success.  For every payload of more than seven bytes whose number of consecutive frames is a
  multiple of the block size, and every schedule of polls, time and frames in which the peer asks
  for a block only while frames are missing, the only result with which a poll ends the transfer
  is \<open>ISOTP_ERR_TIMEOUT\<close>.  In particular once the whole segmentation is on the bus (and has left the
  mailbox) the sender waits N_Cr for a flow control frame nobody owes it, and then times out.\<close>

theorem full_last_block_times_out:
  assumes "tx_channel tx = app_channel" and "unat len = length p" and "2 \<le> tx_n_as_ms tx"
    and "IsotpTx_Start tx (Some p) len c = (ISOTP_OK, tx1, c1)"
    and "7 < length p" and "0 < B" and "unat B dvd length p div 7"
    and "block_run on_wire (on_wire c) B p (tx1, c1) f (tx2, c2)" and "tx_ongoing tx2"
    and "IsotpTx_Poll tx2 c2 = (r, tx3, c3)"
  shows "(\<not> tx_ongoing tx3 \<longrightarrow> r = ISOTP_ERR_TIMEOUT) \<and>
    (on_wire c2 = on_wire c @ map (Pair (tx_txid tx)) (segment (tx_padding tx) p) \<and> \<not> tx_frame_pending tx2 \<longrightarrow>
      (let now = fst (isotp_tick app_channel c2)
       in if \<not> tx_waiting_fc tx2 then
            r = ISOTP_OK \<and> tx3 = tx2\<lparr>tx_waiting_fc := True, tx_waiting_after_block := True,
                                      tx_deadline_ms := now + ucast (tx_n_cr_ms tx2)\<rparr>
          else if tick_reached now (tx_deadline_ms tx2) then r = ISOTP_ERR_TIMEOUT \<and> \<not> tx_ongoing tx3
          else r = ISOTP_OK \<and> tx3 = tx2))"
proof -
  note st = app_port.start_safe [OF assms(1,2,4)]
  have start: "app_port.tx_safe (on_wire c) p tx1 c1" "2 \<le> tx_n_as_ms tx1"
    "tx_ongoing tx1 \<longrightarrow> in_block B (length p div 7) 0 tx1"
    using st start_n_as [OF assms(4)] assms(3) start_in_block [OF assms(4,2,5)] by simp_all
  note reach = block_reach [OF assms(8)]
  have run: "app_port.tx_running (on_wire c) p tx2 c2" "2 \<le> tx_n_as_ms tx2" "tx_txid tx2 = tx_txid tx"
    "tx_padding tx2 = tx_padding tx"
    using app_port.reach_safe [OF reach start(1)] app_port.reach_n_as [OF reach] start(2) assms(9) st
    by (simp_all add: app_port.tx_safe_def)
  have blk: "in_block B (length p div 7) f tx2"
    using app_port.run_block [OF assms(8) start assms(6,7,5)] assms(9) by simp
  obtain now c2' where t: "isotp_tick app_channel c2 = (now, c2')" by fastforce
  have whole: "map (Pair (tx_txid tx)) (segment (tx_padding tx) p) = on_bus tx2 p (1 + length p div 7)"
    using run(3,4) length_segment_long [OF assms(5), of "tx_padding tx"] by (simp add: on_bus_def)
  show ?thesis
    using app_port.poll_block [OF run(1) assms(9) run(2) blk assms(6,7,5,10)]
      app_port.poll_all_sent [OF run(1) assms(9) blk assms(6,7,5) _ _ t] assms(10) t
    unfolding whole by (auto simp: Let_def split: if_splits)
qed

text \<open>62 bytes are eight consecutive frames; the peer's block size is 8, its default.\<close>

definition full_payload :: "u8 list" where
  "full_payload = map of_nat [0..<62]"

definition full_start :: "tx_action list" where "full_start = [ActPoll, ActDrain 1, ActPoll]"

definition cts8 :: frame where "cts8 = [0x30, 8, 0, 0xCC, 0xCC, 0xCC, 0xCC, 0xCC]"

definition full_rest :: "tx_action list" where
  "full_rest = concat (replicate 9 [ActPoll, ActDrain 1]) @ [ActPoll, ActDrain 1000]"

fun own_action :: "tx_action \<Rightarrow> bool" where
  "own_action (ActFrame fr) = False"
| "own_action _ = True"

lemma block_acts:
  "block_run on_wire base B p s0 f s \<Longrightarrow> list_all own_action as \<Longrightarrow> block_run on_wire base B p s0 f (fold tx_act as s)"
proof (induction as arbitrary: s)
  case (Cons a as)
  obtain tx c where s: "s = (tx, c)" by fastforce
  have "block_run on_wire base B p s0 f (tx_act a s)"
  proof (cases a)
    case ActPoll
    obtain r tx' c' where "IsotpTx_Poll tx c = (r, tx', c')" by (rule prod_cases3)
    with ActPoll s Cons.prems(1) show ?thesis by (auto intro: block_poll)
  next
    case (ActFrame fr)
    with Cons.prems(2) show ?thesis by simp
  next
    case (ActDrain n)
    with s Cons.prems(1) show ?thesis by (auto intro: block_elapse simp: drain_wire)
  qed
  with Cons show ?case by simp
qed simp

definition full_granted :: "app_port IsotpTx_t \<times> app_port" where
  "full_granted = tx_act (ActFrame cts8) (fold tx_act full_start (sample_start full_payload))"

definition full_sent :: "app_port IsotpTx_t \<times> app_port" where
  "full_sent = fold tx_act full_rest full_granted"

lemma full_run:
  "fst (IsotpTx_Start sample_tx (Some full_payload) 62 sample_port) = ISOTP_OK"
  "(case fold tx_act full_start (sample_start full_payload) of (t, c) \<Rightarrow> on_wire c = on_wire sample_port @ on_bus t full_payload 1)"
  "tx_ongoing (fst full_sent) \<and>
   (case full_sent of (t, c) \<Rightarrow> \<not> tx_ongoing (fst (snd (IsotpTx_Poll t c))) \<and>
      on_wire c = map (Pair 0x7E8) (segment 0xCC full_payload))"
  by code_simp+

theorem full_last_block_times_out_witness:
  "on_wire (snd full_sent) = map (Pair 0x7E8) (segment 0xCC full_payload) \<and>
   fst (IsotpTx_Poll (fst full_sent) (snd full_sent)) = ISOTP_ERR_TIMEOUT"
proof -
  have len: "length full_payload = 62" by (simp add: full_payload_def)
  have start: "IsotpTx_Start sample_tx (Some full_payload) 62 sample_port =
      (ISOTP_OK, fst (sample_start full_payload), snd (sample_start full_payload))"
    using full_run(1) len by (simp add: sample_start_def prod_eq_iff)
  let ?s0 = "(fst (sample_start full_payload), snd (sample_start full_payload))"
  obtain t c where s: "fold tx_act full_start (sample_start full_payload) = (t, c)" by fastforce
  have "block_run on_wire (on_wire sample_port) 8 full_payload ?s0 0 (fold tx_act full_start (sample_start full_payload))"
    by (rule block_acts) (simp_all add: block_start full_start_def)
  then have before: "block_run on_wire (on_wire sample_port) 8 full_payload ?s0 0 (t, c)" using s by simp
  obtain r t' c' where f: "IsotpTx_OnFrame t (Some cts8) c = (r, t', c')" by (rule prod_cases3)
  have "block_run on_wire (on_wire sample_port) 8 full_payload ?s0 (Suc 0) (t', c')"
    by (rule block_cts [OF before _ _ _ _ f]) (use full_run(2) s len in \<open>simp_all add: is_cts_def cts8_def isotp_consts\<close>)
  then have "block_run on_wire (on_wire sample_port) 8 full_payload ?s0 (Suc 0) full_granted"
    using s f by (simp add: full_granted_def)
  from block_acts [OF this, of full_rest]
  have run: "block_run on_wire (on_wire sample_port) 8 full_payload ?s0 (Suc 0) (fst full_sent, snd full_sent)"
    by (simp add: full_sent_def full_rest_def eval_nat_numeral)
  obtain r tx3 c3 where p: "IsotpTx_Poll (fst full_sent) (snd full_sent) = (r, tx3, c3)" by (rule prod_cases3)
  have "tx_ongoing (fst full_sent)" "\<not> tx_ongoing tx3"
    "on_wire (snd full_sent) = map (Pair 0x7E8) (segment 0xCC full_payload)"
    using full_run(3) p by (simp_all add: case_prod_unfold)
  with full_last_block_times_out [OF sample_tx_fields(1) _ sample_tx_fields(2) start _ _ _ run _ p] p len
  show ?thesis by simp
qed

end
