(* ===== verification/AppBusOff.thy ===== *)
theory AppBusOff
  imports AppRecovery
begin

section \<open>A bus that stays broken\<close>

text \<open>
  The recovery service among everything else the node does: no other service, interrupt or change of the
  bus disturbs its bookkeeping in Bus-Off, so that a bus that stays broken leads to the reset within a
  bounded time however often the loop calls the service.
\<close>

subsection \<open>What the other steps leave alone\<close>

definition in_bus_off :: "app_main \<Rightarrow> bool" where
  "in_bus_off m \<longleftrightarrow> CanHealth_GetState (m_health m) = CAN_HEALTH_STATE_BUS_OFF"

definition undisturbed :: "app_main \<Rightarrow> app_main \<Rightarrow> bool" where
  "undisturbed m m' \<longleftrightarrow> m_recovery m' = m_recovery m \<and> m_reset m' = m_reset m \<and>
     (\<forall>h. m_health m = Some h \<longrightarrow> h_state h = CAN_HEALTH_STATE_BUS_OFF \<longrightarrow>
        (\<exists>h'. m_health m' = Some h' \<and> h_state h' = CAN_HEALTH_STATE_BUS_OFF \<and>
          h_consecutive_recovery_failures h' = h_consecutive_recovery_failures h))"

lemma undisturbed_same [intro]:
  "m_recovery m' = m_recovery m \<Longrightarrow> m_reset m' = m_reset m \<Longrightarrow> m_health m' = m_health m \<Longrightarrow> undisturbed m m'"
  by (simp add: undisturbed_def)

lemma undisturbed_trans: "undisturbed a b \<Longrightarrow> undisturbed b c \<Longrightarrow> undisturbed a c"
  by (fastforce simp: undisturbed_def)

lemma undisturbed_refl [simp]: "undisturbed m m"
  by auto

lemma view_undisturbed:
  "m_recovery m' = m_recovery m \<Longrightarrow> m_reset m' = m_reset m \<Longrightarrow> driver_view (m_can m') = driver_view (m_can m) \<Longrightarrow>
    undisturbed m m'"
  by (auto simp: driver_view_def)

text \<open>Every event of the policy but a recovery keeps Bus-Off and the number of failures.\<close>

lemma quiet_undisturbed:
  assumes "quiet_event e" and "h_state h = CAN_HEALTH_STATE_BUS_OFF"
  shows "h_state (health_step e h) = CAN_HEALTH_STATE_BUS_OFF \<and>
    h_consecutive_recovery_failures (health_step e h) = h_consecutive_recovery_failures h"
  using quiet_keeps [OF assms(1)] bus_off_step [OF assms(2), of e] assms(1) by (cases e) simp_all

lemma classify_undisturbed:
  assumes "h_state h = CAN_HEALTH_STATE_BUS_OFF"
  shows "h_state (classify_error h code counters) = CAN_HEALTH_STATE_BUS_OFF \<and>
    h_consecutive_recovery_failures (classify_error h code counters) = h_consecutive_recovery_failures h"
proof -
  note sync = quiet_undisturbed [of "Sync t r b" for t r b, simplified]
    and off = quiet_undisturbed [of BusOff, simplified] and error = quiet_undisturbed [of "Error k tx" for k tx, simplified]
  show ?thesis
    using sync off error assms by (cases counters) (simp add: classify_error_def Let_def)
qed

lemma error_irq_undisturbed:
  assumes "app_ok bd m"
  shows "undisturbed m (HAL_CAN_ErrorCallback m)"
proof -
  obtain h hw where h: "m_health m = Some h" "drv_handle (m_can m) = Some hw"
    using assms by (auto simp: app_ok_def app_core_def node_core_def)
  obtain d lg k where irq: "CanDriver_OnErrorIsr (m_can m) (m_can_error_log m) (port_clock (m_port m)) = (d, lg, k)"
    by (metis prod_cases3)
  have "m_can (HAL_CAN_ErrorCallback m) = d"
    using irq by (simp add: HAL_CAN_ErrorCallback_def set_clock_def set_can_def set_port_def)
  moreover have "drv_health d = Some h \<or>
      drv_health d = Some (classify_error h (hcan_error_code hw) (esr_tec (hw_esr hw), esr_rec (hw_esr hw), esr_boff (hw_esr hw)))"
    using irq h by (auto simp: CanDriver_OnErrorIsr_def CanDriver_GetErrorCounters_def Let_def split: prod.splits if_splits)
  ultimately show ?thesis using h(1) classify_undisturbed by (auto simp: undisturbed_def)
qed

lemma summary_undisturbed: "undisturbed m (APP_UpdateHealthSummary m)"
proof (cases "m_health m")
  case (Some h)
  note sync = quiet_undisturbed [of "Sync t r b" for t r b, simplified]
  show ?thesis
    using Some sync
    by (auto simp: undisturbed_def APP_UpdateHealthSummary_def set_health_def set_can_def set_port_def Let_def
        split: option.split)
qed (simp add: APP_UpdateHealthSummary_def)

text \<open>The transport service.\<close>

lemma poll_undisturbed:
  assumes "app_ok bd m"
  shows "undisturbed m (poll_endpoints m)"
proof -
  have ch: "tx_channel (m_isotp_tx m) = app_channel" "rx_channel (m_isotp_rx m) = app_channel"
    using assms by (simp_all add: app_ok_def app_core_def endpoints_ok_def)
  obtain r tx p where 1: "IsotpTx_Poll (m_isotp_tx m) (m_port m) = (r, tx, p)" by (metis prod_cases3)
  obtain r2 rx p2 where 2: "IsotpRx_Poll (m_isotp_rx m) p = (r2, rx, p2)" by (metis prod_cases3)
  have "driver_view (port_can p2) = driver_view (m_can m)"
    using app_view.tx_poll_keeps [OF refl ch(1), where c = "m_port m"] app_view.rx_poll_keeps [OF refl ch(2), where c = p] 1 2 by simp
  with 1 2 show ?thesis
    by (intro view_undisturbed) (simp_all add: poll_endpoints_def set_port_def)
qed

lemma start_undisturbed:
  assumes "app_ok bd m"
  shows "undisturbed m (start_response n m)"
proof -
  have ch: "tx_channel (m_isotp_tx m) = app_channel"
    using assms by (simp add: app_ok_def app_core_def endpoints_ok_def)
  let ?d = "take (unat n) (m_isotp_tx_buffer m)"
  obtain r tx p where 1: "IsotpTx_Start (m_isotp_tx m) (Some ?d) n (m_port m) = (r, tx, p)" by (metis prod_cases3)
  have "driver_view (port_can p) = driver_view (m_can m)"
    using app_view.start_keeps [OF refl ch, where c = "m_port m" and p = "Some ?d" and len = n] 1 by simp
  with 1 show ?thesis
    by (intro view_undisturbed) (simp_all add: start_response_def set_port_def Let_def)
qed

lemma put_undisturbed:
  "w_port (ecu_app (snd ecu)) = m_port m \<Longrightarrow> undisturbed m (put_response bs ecu m)"
  by (auto simp: put_response_def)

lemma answer_undisturbed:
  assumes "app_ok bd m" and "\<not> m_isotp_serving m" and "uds_ok (bd_flash_size bd) ecu"
    and "w_port (ecu_app (snd ecu)) = m_port m" and "length bs \<le> unat APP_ISOTP_TX_BUFFER_SIZE"
  shows "undisturbed m (if go then start_response n (put_response bs ecu m) else put_response bs ecu m)"
  using start_undisturbed [OF put_response_ok [OF assms]] put_undisturbed [OF assms(4)]
  by (cases go) (auto intro: undisturbed_trans)

lemma request_undisturbed:
  assumes "app_ok bd m"
  shows "undisturbed m (serve_request now m)"
proof (cases "IsotpRx_MessageReady (Some (m_isotp_rx m)) \<and> \<not> m_isotp_serving m")
  case False
  show ?thesis unfolding serve_request_def if_not_P [OF False] by simp
next
  case True
  obtain r req rx where rd: "IsotpRx_Read (m_isotp_rx m) (Some APP_ISOTP_RX_BUFFER_SIZE) = (r, req, rx)" by (metis prod_cases3)
  let ?m1 = "m\<lparr>m_isotp_rx := rx\<rparr>"
  have "rx_ok (m_isotp_rx m)" using assms by (simp add: app_ok_def app_core_def endpoints_ok_def)
  note place = rx_read_place [OF rd this]
  have m1: "app_ok bd ?m1"
    using rx_place_core [of bd "m_can m" m rx] place assms by (simp add: app_ok_def)
  obtain res bs ecu where p: "UdsEcu_Process (m_uds ?m1) now (Some req) (of_nat (length req)) (Some APP_ISOTP_TX_BUFFER_SIZE) = ((res, bs), ecu)"
    by (metis prod.collapse)
  have ok: "uds_ok (bd_flash_size bd) (m_uds ?m1)" using m1 by (simp add: app_ok_def app_core_def)
  note ecu = uds_process_ok [OF p ok]
  have "length bs \<le> unat APP_ISOTP_TX_BUFFER_SIZE"
    using reply_fits [OF ecu.process_reply [OF p [unfolded UdsEcu_Process_def]]] by simp
  have "undisturbed m ?m1" by auto
  moreover have "undisturbed ?m1 (if go then start_response n (put_response bs ecu ?m1) else put_response bs ecu ?m1)" for go n
    by (rule answer_undisturbed [OF m1 _ conjunct1 [OF ecu] _ \<open>length bs \<le> _\<close>]) (use ecu True in simp_all)
  ultimately have ans: "undisturbed m (if go then start_response n (put_response bs ecu ?m1) else put_response bs ecu ?m1)"
    for go n by (rule undisturbed_trans)
  show ?thesis
    using True rd p ans [of True] ans [of False] \<open>undisturbed m ?m1\<close> by (simp add: serve_request_def Let_def)
qed

lemma pending_undisturbed:
  assumes "app_ok bd m"
  shows "undisturbed m (serve_pending m)"
proof (cases "m_isotp_serving m")
  case False
  obtain res bs ecu where p: "UdsEcu_PollPending (m_uds m) (Some APP_ISOTP_TX_BUFFER_SIZE) = ((res, bs), ecu)"
    by (metis prod.collapse)
  have ok: "uds_ok (bd_flash_size bd) (m_uds m)" using assms by (simp add: app_ok_def app_core_def)
  note ecu = uds_poll_ok [OF p ok]
  have "length bs \<le> unat APP_ISOTP_TX_BUFFER_SIZE"
    using ecu.poll_reply [OF p [unfolded UdsEcu_PollPending_def]] by (auto dest: reply_fits)
  from answer_undisturbed [OF assms False conjunct1 [OF ecu] _ this] ecu False p show ?thesis
    by (simp add: serve_pending_def Let_def)
qed (simp add: serve_pending_def)

lemma isotp_undisturbed:
  assumes "app_ok bd m"
  shows "undisturbed m (APP_ServiceIsotp now m)"
proof -
  let ?m = "serve_pending (serve_request now (poll_endpoints m))"
  have 1: "app_ok bd (poll_endpoints m)" by (rule poll_endpoints_ok [OF assms])
  have 2: "app_ok bd (serve_request now (poll_endpoints m))" by (rule serve_request_ok [OF 1])
  have "undisturbed m ?m"
    using poll_undisturbed [OF assms] request_undisturbed [OF 1, of now] pending_undisturbed [OF 2] undisturbed_trans by blast
  moreover have "undisturbed ?m (?m\<lparr>m_isotp_serving := False\<rparr>)" by auto
  ultimately show ?thesis by (auto simp: APP_ServiceIsotp_def Let_def intro: undisturbed_trans)
qed

text \<open>The receive loop.\<close>

lemma callback_recovery: "m_recovery (APP_OnCanRx bd i data n m) = m_recovery m"
  by (simp add: APP_OnCanRx_def route_frame_def set_port_def Let_def case_prod_beta)

interpretation rx_calm: rx_client "app_callbacks bd k"
  "\<lambda>s. core_ok bd (set_can (fst s) (snd s)) \<and> undisturbed m (set_can (fst s) (snd s))" for bd k m
proof unfold_locales
  fix s :: "CanDriver_t \<times> app_main" and data :: "u8 list" and i n
  let ?m = "set_can (fst s) (snd s)"
  assume s: "core_ok bd ?m \<and> undisturbed m ?m" "length data = 8"
  note r = rx_callback_core [OF conjunct1 [OF s(1)] s(2), of i n]
  have "undisturbed ?m (APP_OnCanRx bd i data n ?m)"
    using r by (intro view_undisturbed) (simp_all add: callback_recovery rx_callback_reset)
  with s(1) have "undisturbed m (APP_OnCanRx bd i data n ?m)" by (auto intro: undisturbed_trans)
  then show "core_ok bd (set_can (fst (app_callbacks bd k i data n s)) (snd (app_callbacks bd k i data n s))) \<and>
      undisturbed m (set_can (fst (app_callbacks bd k i data n s)) (snd (app_callbacks bd k i data n s)))"
    using r by (simp add: app_callbacks_def Let_def)
  show "drv_priority_rx_queue (fst (app_callbacks bd k i data n s)) = drv_priority_rx_queue (fst s) \<and>
      drv_rx_queue (fst (app_callbacks bd k i data n s)) = drv_rx_queue (fst s)"
    using r by (simp add: app_callbacks_def driver_view_def Let_def)
next
  fix d e q1
  assume "core_ok bd (set_can (fst (d, e)) (snd (d, e))) \<and> undisturbed m (set_can (fst (d, e)) (snd (d, e)))"
  then have d: "app_core bd d e" "undisturbed m (set_can d e)" by (simp_all add: set_can_def set_port_def)
  have "app_core bd (d\<lparr>drv_priority_rx_queue := q1\<rparr>) e" "app_core bd (d\<lparr>drv_rx_queue := q1\<rparr>) e"
    by (rule core_cong [OF d(1)], simp_all)+
  then show "core_ok bd (set_can (fst (d\<lparr>drv_priority_rx_queue := q1\<rparr>, e)) (snd (d\<lparr>drv_priority_rx_queue := q1\<rparr>, e))) \<and>
      undisturbed m (set_can (fst (d\<lparr>drv_priority_rx_queue := q1\<rparr>, e)) (snd (d\<lparr>drv_priority_rx_queue := q1\<rparr>, e)))"
    "core_ok bd (set_can (fst (d\<lparr>drv_rx_queue := q1\<rparr>, e)) (snd (d\<lparr>drv_rx_queue := q1\<rparr>, e))) \<and>
      undisturbed m (set_can (fst (d\<lparr>drv_rx_queue := q1\<rparr>, e)) (snd (d\<lparr>drv_rx_queue := q1\<rparr>, e)))"
    using d(2) by (simp_all add: set_can_def set_port_def undisturbed_def)
qed

lemma rx_undisturbed:
  assumes "app_ok bd m" and "CanDriver_ProcessRx (app_callbacks bd) (m_can m, m) = Some (d, m')"
  shows "undisturbed m (set_can d m')"
proof -
  have "app_callbacks bd k = app_callbacks bd 0" for k by (simp add: app_callbacks_def fun_eq_iff)
  moreover have "driver_slots (fst (m_can m, m))" "drv_rx_callback (fst (m_can m, m)) \<noteq> None"
    "core_ok bd (set_can (fst (m_can m, m)) (snd (m_can m, m))) \<and> undisturbed m (set_can (fst (m_can m, m)) (snd (m_can m, m)))"
    using assms(1) by (simp_all add: app_ok_def app_core_def node_core_def)
  ultimately obtain s' where "CanDriver_ProcessRx (app_callbacks bd) (m_can m, m) = Some s'"
    "undisturbed m (set_can (fst s') (snd s'))"
    using rx_calm.process_returns by blast
  with assms(2) show ?thesis by simp
qed

lemma other_step_undisturbed:
  assumes "other_step bd m m'" and "app_ok bd m"
  shows "undisturbed m m'"
  using assms(1)
proof cases
  case (step_uds now)
  then show ?thesis by (auto simp: UdsEcu_Tick_def)
next
  case (step_cyclic now)
  have "driver_view (m_can (service_cyclic now m)) = driver_view (m_can m)" "m_recovery (service_cyclic now m) = m_recovery m"
    by (simp_all add: service_cyclic_def APP_CAN_Send_def can_send_def set_can_def set_port_def Let_def case_prod_beta)
  then show ?thesis using step_cyclic by (intro view_undisturbed) simp_all
next
  case step_rx_irq
  have "drv_health (CanDriver_RxIrqHandler d) = drv_health d" for d
    by (simp add: CanDriver_RxIrqHandler_def Let_def case_prod_beta split: option.split)
  then show ?thesis using step_rx_irq by (auto simp: HAL_CAN_RxFifoMsgPendingCallback_def)
next
  case (step_counter w)
  then show ?thesis by (auto simp: set_watchdog_def)
next
  case (step_watchdogs now)
  then show ?thesis by (auto simp: service_watchdogs_def set_watchdog_def)
next
  case (step_clock k)
  then show ?thesis by (auto simp: set_clock_def set_port_def)
qed (use assms(2) in \<open>auto simp: isotp_undisturbed summary_undisturbed error_irq_undisturbed rx_undisturbed\<close>)

subsection \<open>A bus that stays broken\<close>

text \<open>The bus is broken as far as the node can see: whenever the call of the service at tick \<open>now\<close> judges an
  attempt, it finds the Bus-Off flag of the controller set.\<close>

definition still_broken :: "u32 \<Rightarrow> app_main \<Rightarrow> bool" where
  "still_broken now m \<longleftrightarrow>
     (rv_attempt_pending (m_recovery m) \<and> APP_CAN_RECOVERY_SETTLE_MS \<le> now - rv_attempt_started_tick (m_recovery m) \<longrightarrow>
      (case drv_handle (m_can m) of None \<Rightarrow> False | Some hw \<Rightarrow> esr_boff (hw_esr hw)))"

text \<open>The loop from the tick \<open>now\<close> on: calls of the recovery service at most \<open>G\<close> milliseconds apart, with every
  other step of the node, the interrupts and the bus between them.  The second number is the time that has
  passed, the last tick the one of the latest call; a node that has reset only lets time pass.\<close>

inductive broken_loop :: "board \<Rightarrow> nat \<Rightarrow> u32 \<Rightarrow> app_main \<Rightarrow> nat \<Rightarrow> u32 \<Rightarrow> app_main \<Rightarrow> bool"
  for bd G now0 m0 where
  loop_begins: "broken_loop bd G now0 m0 0 now0 m0"
| loop_other: "broken_loop bd G now0 m0 t now m \<Longrightarrow> other_step bd m m' \<Longrightarrow> broken_loop bd G now0 m0 t now m'"
| loop_health: "broken_loop bd G now0 m0 t now m \<Longrightarrow> \<not> m_reset m \<Longrightarrow> unat g \<le> G \<Longrightarrow> still_broken (now + g) m \<Longrightarrow>
    broken_loop bd G now0 m0 (t + unat g) (now + g) (APP_ServiceCanHealth (now + g) m)"
| loop_over: "broken_loop bd G now0 m0 t now m \<Longrightarrow> m_reset m \<Longrightarrow> broken_loop bd G now0 m0 (t + unat g) (now + g) m"

text \<open>How long the reset can still take: the wait for the next attempt, which a tick that wraps around can
  prolong once, then a settling time and a wait for each failure that is missing.\<close>

definition wait_left :: "nat \<Rightarrow> nat \<Rightarrow> nat" where
  "wait_left G x = (if x < 1000 then 1000 - x + G else if x + G < 2 ^ 32 then G else 1000 + 2 * G)"

definition rounds_left :: "nat \<Rightarrow> nat \<Rightarrow> nat" where
  "rounds_left G f = (3 - f) * (1500 + G) + (2 - f) * G"

definition time_left :: "nat \<Rightarrow> u32 \<Rightarrow> app_main \<Rightarrow> nat" where
  "time_left G now m =
     (let rv = m_recovery m; f = unat (consecutive_failures m)
      in if rv_attempt_pending rv then 1500 - unat (now - rv_attempt_started_tick rv) + G + (2 - f) * (1500 + 2 * G)
         else wait_left G (unat (now - rv_last_recovery_tick rv)) + rounds_left G f)"

definition on_course :: "u32 \<Rightarrow> app_main \<Rightarrow> bool" where
  "on_course now m \<longleftrightarrow> in_bus_off m \<and>
     (rv_attempt_pending (m_recovery m) \<longrightarrow> rv_last_recovery_tick (m_recovery m) = rv_attempt_started_tick (m_recovery m) \<and>
        unat (now - rv_attempt_started_tick (m_recovery m)) < 1500)"

lemma later: "unat (now + g - t) = (if unat (now - t) + unat g < 2 ^ 32 then unat (now - t) + unat g
    else unat (now - t) + unat g - 2 ^ 32)" for now g t :: u32
proof -
  have eq: "now + g - t = (now - t) + g" by simp
  have bound: "unat (now - t) < 2 ^ 32" "unat g < 2 ^ 32" using unsigned_less [of "now - t"] unsigned_less [of g] by simp_all
  have "unat (now + g - t) = (unat (now - t) + unat g) mod 2 ^ 32" unfolding eq by (simp only: unat_word_ariths) simp
  then show ?thesis using bound by (simp add: mod_if [of "unat (now - t) + unat g"] del: power_numeral)
qed

lemma wait_early:
  fixes now g t :: u32
  assumes "unat g \<le> G" and "unat (now + g - t) < 1000" and "G \<le> 2 ^ 30"
  shows "wait_left G (unat (now + g - t)) + unat g \<le> wait_left G (unat (now - t))"
  using assms later [of now g t] by (auto simp: wait_left_def split: if_splits)

lemma wait_reaches: "g \<le> G \<Longrightarrow> g \<le> wait_left G x"
  by (simp add: wait_left_def; arith)

lemma rounds_step:
  assumes "f < 2"
  shows "rounds_left G (f + 1) + 1500 + 2 * G = rounds_left G f"
proof -
  have "f = 0 \<or> f = 1" using assms by linarith
  then show ?thesis by (elim disjE) (simp_all add: rounds_left_def)
qed

lemma bus_off_health:
  assumes "app_ok bd m" and "\<not> m_reset m" and "in_bus_off m"
  obtains h where "m_health m = Some h" "h_state h = CAN_HEALTH_STATE_BUS_OFF" "unat (h_consecutive_recovery_failures h) < 3"
    "consecutive_failures m = h_consecutive_recovery_failures h"
  using assms by (auto simp: in_bus_off_def CanHealth_GetState_def app_ok_def app_core_def node_core_def health_fine_def
      consecutive_failures_def word_less_nat_alt)

lemma judging_progress:
  assumes "app_ok bd m" and "\<not> m_reset m" and "on_course now m" and "unat g \<le> G" and "G \<le> 2 ^ 30"
    and "rv_attempt_pending (m_recovery m)" and "1500 \<le> unat (now + g - rv_attempt_started_tick (m_recovery m))"
    and "still_broken (now + g) m"
  shows "m_reset (judge_attempt m) \<or>
    on_course (now + g) (judge_attempt m) \<and> time_left G (now + g) (judge_attempt m) + unat g \<le> time_left G now m"
proof -
  let ?rv = "m_recovery m" and ?m = "judge_attempt m"
  obtain h where h: "m_health m = Some h" "h_state h = CAN_HEALTH_STATE_BUS_OFF" "unat (h_consecutive_recovery_failures h) < 3"
    "consecutive_failures m = h_consecutive_recovery_failures h"
    using bus_off_health [OF assms(1,2)] assms(3) by (auto simp: on_course_def)
  obtain hw where hw: "drv_handle (m_can m) = Some hw" "esr_boff (hw_esr hw)"
    using assms(6,7,8) by (auto simp: still_broken_def APP_CAN_RECOVERY_SETTLE_MS_def word_le_nat_alt split: option.splits)
  let ?c = "h_consecutive_recovery_failures h"
  obtain h' where j: "m_health ?m = Some h'" "\<not> rv_attempt_pending (m_recovery ?m)"
    "rv_last_recovery_tick (m_recovery ?m) = rv_last_recovery_tick ?rv" "h_state h' = CAN_HEALTH_STATE_BUS_OFF"
    "h_consecutive_recovery_failures h' = ?c + 1" "m_reset ?m \<longleftrightarrow> ?c + 1 = 3"
    using judged [OF assms(1,2,6) hw(1) h(1)] hw(2) by auto
  have c: "unat (?c + 1) = unat ?c + 1" using h(3) by (intro unat_inc8) simp
  have y: "rv_last_recovery_tick ?rv = rv_attempt_started_tick ?rv" "unat (now - rv_attempt_started_tick ?rv) < 1500"
    using assms(3,6) by (simp_all add: on_course_def)
  have x: "unat (now + g - rv_attempt_started_tick ?rv) = unat (now - rv_attempt_started_tick ?rv) + unat g"
    using later [of now g "rv_attempt_started_tick ?rv"] y(2) assms(4,5) by simp
  show ?thesis
  proof (cases "?c + 1 = 3")
    case False
    then have "unat ?c \<noteq> 2" using c by (auto simp: word_unat_eq_iff)
    then have two: "unat ?c < 2" using h(3) by simp
    have "time_left G (now + g) ?m = G + rounds_left G (unat ?c + 1)"
      using j c x y assms(4,5,7) by (simp add: time_left_def wait_left_def consecutive_failures_def Let_def)
    moreover have "time_left G now m = 1500 - unat (now - rv_attempt_started_tick ?rv) + G + (2 - unat ?c) * (1500 + 2 * G)"
      using assms(6) h(4) by (simp add: time_left_def Let_def)
    moreover have "G + rounds_left G (unat ?c + 1) = (2 - unat ?c) * (1500 + 2 * G)"
    proof -
      have "unat ?c = 0 \<or> unat ?c = 1" using two by linarith
      then show ?thesis by (elim disjE) (simp_all add: rounds_left_def)
    qed
    moreover have "on_course (now + g) ?m"
      using j(1,2,4) by (simp add: on_course_def in_bus_off_def CanHealth_GetState_def)
    ultimately have "time_left G (now + g) ?m + unat g \<le> time_left G now m" "on_course (now + g) ?m"
      using assms(4) y(2) by linarith+
    then show ?thesis by simp
  qed (use j in simp)
qed

lemma starting_progress:
  assumes "app_ok bd m" and "\<not> m_reset m" and "on_course now m" and "unat g \<le> G" and "G \<le> 2 ^ 30"
    and "\<not> rv_attempt_pending (m_recovery m)"
  defines "m' \<equiv> start_attempt (now + g) m"
  shows "m_reset m' \<or> on_course (now + g) m' \<and> time_left G (now + g) m' + unat g \<le> time_left G now m"
proof -
  let ?rv = "m_recovery m"
  obtain h where h: "m_health m = Some h" "h_state h = CAN_HEALTH_STATE_BUS_OFF" "unat (h_consecutive_recovery_failures h) < 3"
    "consecutive_failures m = h_consecutive_recovery_failures h"
    using bus_off_health [OF assms(1,2)] assms(3) by (auto simp: on_course_def)
  let ?c = "h_consecutive_recovery_failures h"
  obtain h' where s: "m_health m' = Some h'" "h_state h' = CAN_HEALTH_STATE_BUS_OFF"
    "rv_last_recovery_tick (m_recovery m') = now + g"
    "if rv_attempt_pending (m_recovery m')
     then rv_attempt_started_tick (m_recovery m') = now + g \<and> h' = h \<and> \<not> m_reset m'
     else h_consecutive_recovery_failures h' = ?c + 1 \<and> (m_reset m' \<longleftrightarrow> h_consecutive_recovery_failures h' = 3)"
    using started [OF assms(1,2,6) h(1,2), of "now + g"] unfolding m'_def by blast
  have c: "unat (?c + 1) = unat ?c + 1" using h(3) by (intro unat_inc8) simp
  have before: "time_left G now m = wait_left G (unat (now - rv_last_recovery_tick ?rv)) + rounds_left G (unat ?c)"
    using assms(6) h(4) by (simp add: time_left_def Let_def)
  have wait: "unat g \<le> wait_left G (unat (now - rv_last_recovery_tick ?rv))" by (rule wait_reaches [OF assms(4)])
  have course: "on_course (now + g) m'"
    using s by (auto simp: on_course_def in_bus_off_def CanHealth_GetState_def split: if_splits)
  show ?thesis
  proof (cases "rv_attempt_pending (m_recovery m')")
    case True
    then have "time_left G (now + g) m' = 1500 + G + (2 - unat ?c) * (1500 + 2 * G)"
      using s by (simp add: time_left_def consecutive_failures_def Let_def)
    moreover have "1500 + G + (2 - unat ?c) * (1500 + 2 * G) = rounds_left G (unat ?c)"
    proof -
      have "unat ?c = 0 \<or> unat ?c = 1 \<or> unat ?c = 2" using h(3) by linarith
      then show ?thesis by (elim disjE) (simp_all add: rounds_left_def)
    qed
    ultimately show ?thesis using course before wait by simp
  next
    case False
    show ?thesis
    proof (cases "?c + 1 = 3")
      case False
      then have "unat ?c \<noteq> 2" using c by (auto simp: word_unat_eq_iff)
      then have two: "unat ?c < 2" using h(3) by simp
      have "time_left G (now + g) m' = 1000 + G + rounds_left G (unat ?c + 1)"
        using s c \<open>\<not> rv_attempt_pending (m_recovery m')\<close>
        by (simp add: time_left_def wait_left_def consecutive_failures_def Let_def)
      then show ?thesis using course before wait rounds_step [OF two, of G] by simp
    qed (use s \<open>\<not> rv_attempt_pending (m_recovery m')\<close> in simp)
  qed
qed

lemma health_progress:
  assumes "app_ok bd m" and "\<not> m_reset m" and "on_course now m" and "unat g \<le> G" and "G \<le> 2 ^ 30"
    and "still_broken (now + g) m"
  defines "m' \<equiv> APP_ServiceCanHealth (now + g) m"
  shows "m_reset m' \<or> on_course (now + g) m' \<and> time_left G (now + g) m' + unat g \<le> time_left G now m"
proof -
  let ?rv = "m_recovery m"
  have off: "CanHealth_GetState (m_health m) = CAN_HEALTH_STATE_BUS_OFF" using assms(3) by (simp add: on_course_def in_bus_off_def)
  show ?thesis
  proof (cases "rv_attempt_pending ?rv")
    case True
    have y: "unat (now - rv_attempt_started_tick ?rv) < 1500" using assms(3) True by (simp add: on_course_def)
    then have x: "unat (now + g - rv_attempt_started_tick ?rv) = unat (now - rv_attempt_started_tick ?rv) + unat g"
      using later [of now g "rv_attempt_started_tick ?rv"] assms(4,5) by simp
    show ?thesis
    proof (cases "unat (now + g - rv_attempt_started_tick ?rv) < 1500")
      case early: True
      then have "m' = m"
        using True by (simp add: m'_def APP_ServiceCanHealth_def APP_CAN_RECOVERY_SETTLE_MS_def word_less_nat_alt)
      moreover have "on_course (now + g) m" using assms(3) True early by (simp add: on_course_def)
      ultimately show ?thesis using True x early by (simp add: time_left_def Let_def)
    next
      case False
      then have "m' = judge_attempt m"
        using True by (simp add: m'_def APP_ServiceCanHealth_def APP_CAN_RECOVERY_SETTLE_MS_def word_less_nat_alt)
      then show ?thesis using judging_progress [OF assms(1-5) True _ assms(6)] False by simp
    qed
  next
    case False
    show ?thesis
    proof (cases "unat (now + g - rv_last_recovery_tick ?rv) < 1000")
      case True
      then have "m' = m"
        using False off by (simp add: m'_def APP_ServiceCanHealth_def APP_CAN_RECOVERY_PERIOD_MS_def word_less_nat_alt)
      moreover have "on_course (now + g) m" using assms(3) False by (simp add: on_course_def)
      ultimately show ?thesis using False wait_early [OF assms(4) True assms(5)] by (simp add: time_left_def Let_def)
    next
      case late: False
      then have "m' = start_attempt (now + g) m"
        using False off by (simp add: m'_def APP_ServiceCanHealth_def APP_CAN_RECOVERY_PERIOD_MS_def word_less_nat_alt)
      then show ?thesis using starting_progress [OF assms(1-5) False] by simp
    qed
  qed
qed

lemma undisturbed_course:
  assumes "undisturbed m m'" and "on_course now m" and "app_ok bd m"
  shows "on_course now m' \<and> time_left G now m' = time_left G now m"
proof -
  obtain h where "m_health m = Some h" using assms(3) by (auto simp: app_ok_def app_core_def node_core_def)
  with assms(1,2) show ?thesis
    by (auto simp: undisturbed_def on_course_def in_bus_off_def CanHealth_GetState_def time_left_def consecutive_failures_def)
qed

lemma broken_loop_progress:
  assumes "broken_loop bd G now0 m0 t now m" and "app_ok bd m0" and "on_course now0 m0" and "G \<le> 2 ^ 30"
  shows "app_ok bd m \<and> (m_reset m \<or> on_course now m \<and> t + time_left G now m \<le> time_left G now0 m0)"
  using assms(1)
proof induction
  case loop_begins
  then show ?case using assms(2,3) by simp
next
  case (loop_other t now m m')
  then have nr: "\<not> m_reset m" by (auto elim: other_stepE)
  show ?case
    using undisturbed_course [OF other_step_undisturbed [OF loop_other(2)]] other_step_ok [OF loop_other(2)] loop_other nr by fastforce
next
  case (loop_health t now m g)
  then have ok: "app_ok bd m" and run: "on_course now m" "t + time_left G now m \<le> time_left G now0 m0" by simp_all
  have "app_ok bd (APP_ServiceCanHealth (now + g) m)" by (rule service_health_ok [OF ok loop_health(2)])
  with health_progress [OF ok loop_health(2) run(1) loop_health(3) assms(4) loop_health(4)] run(2) show ?case by auto
qed simp

text \<open>The iterations of \<open>main\<close> are such a run: an iteration reads the tick, runs every service and so adds
  one call of the recovery service, \<open>m5\<close> being the state this call finds.\<close>

lemma iteration_in_loop:
  assumes "broken_loop bd G now0 m0 t now m" and "app_reachable bd m" and "\<not> m_reset m" and "main_loop bd m = Some m'"
    and "fst (get_tick m) = now + g" and "unat g \<le> G"
  shows "\<exists>m5. broken_loop bd G now0 m0 t now m5 \<and>
    (still_broken (now + g) m5 \<longrightarrow> broken_loop bd G now0 m0 (t + unat g) (now + g) m')"
proof -
  have "snd (get_tick m) = set_clock (snd (HAL_GetTick (port_clock (m_port m)))) m"
    by (simp add: get_tick_def case_prod_beta)
  then obtain k where k: "snd (get_tick m) = set_clock k m" by blast
  let ?m = "set_clock k m"
  have m: "app_reachable bd ?m" "\<not> m_reset ?m" "broken_loop bd G now0 m0 t now ?m"
    using reach_other [OF assms(2) step_clock [OF assms(3)]] loop_other [OF assms(1) step_clock [OF assms(3)]] assms(3) by simp_all
  have tick: "get_tick m = (now + g, ?m)" using assms(5) k by (metis prod.collapse)
  then obtain d m1 where rx: "CanDriver_ProcessRx (app_callbacks bd) (m_can ?m, ?m) = Some (d, m1)"
    using assms(4) by (auto simp: main_loop_def split: option.splits)
  let ?m2 = "set_can d m1"
  let ?m3 = "?m2\<lparr>m_uds := UdsEcu_Tick (m_uds ?m2) (now + g)\<rparr>"
  let ?m4 = "APP_ServiceIsotp (now + g) ?m3" let ?m5 = "service_cyclic (now + g) ?m4"
  have nr: "\<not> m_reset ?m2" using process_rx_step [OF rx reachable_ok [OF m(1)]] m(2) by simp
  have "broken_loop bd G now0 m0 t now ?m2" by (rule loop_other [OF m(3) step_rx [OF m(2) rx]])
  from loop_other [OF this step_uds [OF nr]] have "broken_loop bd G now0 m0 t now ?m3" .
  from loop_other [OF this step_isotp] nr have "broken_loop bd G now0 m0 t now ?m4" by simp
  from loop_other [OF this step_cyclic] nr have m5: "broken_loop bd G now0 m0 t now ?m5" by simp
  let ?m6 = "APP_ServiceCanHealth (now + g) ?m5"
  have m': "m' = (if m_reset ?m6 then ?m6 else service_watchdogs (now + g) (APP_UpdateHealthSummary ?m6))"
    using assms(4) tick rx by (simp add: main_loop_def Let_def)
  have "broken_loop bd G now0 m0 (t + unat g) (now + g) m'" if "still_broken (now + g) ?m5"
  proof -
    have m6: "broken_loop bd G now0 m0 (t + unat g) (now + g) ?m6" using loop_health [OF m5 _ assms(6) that] nr by simp
    show ?thesis
    proof (cases "m_reset ?m6")
      case False
      from loop_other [OF m6 step_summary [OF False]] have m7: "broken_loop bd G now0 m0 (t + unat g) (now + g) (APP_UpdateHealthSummary ?m6)" .
      have "\<not> m_reset (APP_UpdateHealthSummary ?m6)" using False by simp
      from loop_other [OF m7 step_watchdogs [OF this]] False m' show ?thesis by simp
    qed (use m6 m' in simp)
  qed
  with m5 show ?thesis by blast
qed

subsection \<open>Claim\<close>

lemma time_left_bound: "time_left G now m \<le> 5500 + 7 * G"
proof -
  have "wait_left G x \<le> 1000 + 2 * G" for x by (simp add: wait_left_def; arith)
  moreover have "rounds_left G f \<le> 4500 + 5 * G" for f
    by (cases f rule: nat.exhaust; cases "f - 1"; cases "f - 2") (simp_all add: rounds_left_def)
  ultimately have "wait_left G x + rounds_left G f \<le> 5500 + 7 * G" for x f
    using add_mono [of "wait_left G x" "1000 + 2 * G" "rounds_left G f" "4500 + 5 * G"] by simp
  moreover have "(2 - f) * (1500 + 2 * G) \<le> 3000 + 4 * G" for f
    using mult_le_mono1 [of "2 - f" 2 "1500 + 2 * G"] by simp
  then have "1500 - y + G + (2 - f) * (1500 + 2 * G) \<le> 5500 + 7 * G" for y f
    using add_mono [of "1500 - y + G" "1500 + G" "(2 - f) * (1500 + 2 * G)" "3000 + 4 * G"] by simp
  ultimately show ?thesis by (simp only: time_left_def Let_def split: if_split) blast
qed

text \<open>Six hundred iterations of the sample node, ten milliseconds apart.\<close>

lemma broken_hw_off: "esr_boff (hw_esr broken_hw)"
  by (simp add: broken_hw_def sample_hw_def esr_boff_def)

lemma over_stays: "broken_loop bd G now0 m0 t now m \<Longrightarrow> m_reset m \<Longrightarrow> broken_loop bd G now0 m0 (t + 10 * n) (now + of_nat (10 * n)) m"
proof (induction n)
  case (Suc n)
  have ten: "unat (10 :: u32) = 10" by simp
  from loop_over [OF Suc.IH [OF Suc.prems] Suc.prems(2), of 10, unfolded ten] show ?case by (simp add: algebra_simps)
qed simp

lemma iterations_in_loop:
  "broken_loop bd 10 now0 m0 t now m \<Longrightarrow> \<exists>now'. broken_loop bd 10 now0 m0 (t + 10 * n) now' (broken_iterations n now m)"
proof (induction n arbitrary: t now m)
  case (Suc n)
  show ?case
  proof (cases "m_reset m")
    case False
    let ?m = "set_can ((m_can m)\<lparr>drv_handle := Some broken_hw\<rparr>) m" and ?m' = "broken_iteration (now + 10) m"
    have 1: "broken_loop bd 10 now0 m0 t now ?m" by (rule loop_other [OF Suc.prems step_bus [OF False]])
    have "still_broken (now + 10) ?m" using broken_hw_off by (simp add: still_broken_def)
    from loop_health [OF 1 _ _ this] False have 2: "broken_loop bd 10 now0 m0 (t + 10) (now + 10) (APP_ServiceCanHealth (now + 10) ?m)"
      by simp
    then have "broken_loop bd 10 now0 m0 (t + 10) (now + 10) ?m'"
      using loop_other [OF 2 step_summary] by (simp add: broken_iteration_def Let_def)
    from Suc.IH [OF this] False show ?thesis by (simp add: algebra_simps)
  next
    case True
    with over_stays [OF Suc.prems True, of "Suc n"] show ?thesis by auto
  qed
qed auto

text \<open>C8: A bus that stays broken leads to the reset in bounded time: from any reachable Bus-Off state with
  no attempt under way, let the loop call the recovery service any number of times with at most \<open>G\<close>
  milliseconds between two calls, with any services, interrupts, bus events and ticks in between, and let
  the Bus-Off flag be set whenever an attempt is judged.  Once more than 5500 + 7\<open>G\<close> milliseconds have
  passed, the node has reset itself, whether the recoveries start or fail at once and wherever the tick
  wraps around: a call that comes early restarts no waiting time.  Iterations of \<open>main_loop\<close> are such
  runs (\<open>iteration_in_loop\<close>).\<close>

theorem broken_bus_resets_node:
  assumes "app_reachable bd m" and "in_bus_off m" and "\<not> rv_attempt_pending (m_recovery m)" and "G \<le> 2 ^ 30"
    and "broken_loop bd G now m t now' m'" and "5500 + 7 * G < t"
  shows "m_reset m'"
proof -
  have "on_course now m" using assms(2,3) by (simp add: on_course_def)
  from broken_loop_progress [OF assms(5) reachable_ok [OF assms(1)] this assms(4)] time_left_bound [of G now m] assms(6)
  show ?thesis by auto
qed

theorem broken_bus_resets_node_witness: "m_reset dead_node"
proof -
  obtain h where h: "m_health off_node = Some h" "h_state h = CAN_HEALTH_STATE_BUS_OFF"
    and off: "app_reachable board_f103 off_node" "\<not> rv_attempt_pending (m_recovery off_node)"
    using off_node_off by blast
  have bus: "in_bus_off off_node" using h by (simp add: in_bus_off_def CanHealth_GetState_def)
  obtain now' where "broken_loop board_f103 10 (rv_last_recovery_tick (m_recovery off_node)) off_node (0 + 10 * 600) now' dead_node"
    unfolding dead_node_def using iterations_in_loop [OF loop_begins] by blast
  from broken_bus_resets_node [OF off(1) bus off(2) _ this] show ?thesis by simp
qed

end
